(* ===== verification/Prelude.thy ===== *)
theory Prelude
  imports
    Main
    "HOL-Library.Word"
    "HOL-Library.Char_ord"
    "HOL-Library.List_Lexorder"
    "HOL-Library.Product_Lexorder"
    "HOL-Library.Option_ord"
begin

text \<open>
  Shared ground of the development: the parts of the Rust language and of its standard
  library that the modelled code uses, and the generic lemmas about them.

  \<^item> \<open>outcome\<close>: the result of a Rust call, which returns a value (\<open>Ok\<close>), returns an
    error (\<open>Err\<close>) or unwinds with a panic (\<open>Panic\<close>).
  \<^item> \<open>ordering\<close> and the locale \<open>ord_laws\<close>: \<open>std::cmp::Ordering\<close> and the contract of
    \<open>std::cmp::Ord\<close>.
  \<^item> \<open>u32\<close> values are 32-bit words; \<open>str\<close> values are their UTF-8 bytes, one \<open>char\<close> each.
  \<^item> string splitting, decimal printing and parsing of \<open>u32\<close>.
  \<^item> \<open>BTreeMap\<close> and \<open>BTreeSet\<close> as the sorted list of their entries.
\<close>

named_theorems rust_simps \<open>unfolding rules of the modelled standard library\<close>
named_theorems ord_intros \<open>lawfulness of the modelled \<open>Ord\<close> implementations\<close>

section \<open>Results of Rust calls\<close>

datatype ('e, 'a) outcome = Panic | Err 'e | Ok 'a

text \<open>The \<open>?\<close> operator: the first error (or panic) ends the caller.\<close>

fun and_then :: "('e, 'a) outcome \<Rightarrow> ('a \<Rightarrow> ('e, 'b) outcome) \<Rightarrow> ('e, 'b) outcome" where
  "and_then Panic f = Panic"
| "and_then (Err e) f = Err e"
| "and_then (Ok x) f = f x"

fun map_err :: "('e \<Rightarrow> 'f) \<Rightarrow> ('e, 'a) outcome \<Rightarrow> ('f, 'a) outcome" where
  "map_err f Panic = Panic"
| "map_err f (Err e) = Err (f e)"
| "map_err f (Ok x) = Ok x"

fun is_ok_result :: "('e, 'a) outcome \<Rightarrow> bool" where
  "is_ok_result (Ok _) = True"
| "is_ok_result _ = False"

lemma and_then_Ok_iff [simp]:
  "and_then r f = Ok y \<longleftrightarrow> (\<exists>x. r = Ok x \<and> f x = Ok y)"
  by (cases r) auto

lemma and_then_Panic_iff [simp]:
  "and_then r f = Panic \<longleftrightarrow> r = Panic \<or> (\<exists>x. r = Ok x \<and> f x = Panic)"
  by (cases r) auto

lemma map_err_Ok_iff [simp]: "map_err f r = Ok y \<longleftrightarrow> r = Ok y"
  by (cases r) auto

lemma map_err_Panic_iff [simp]: "map_err f r = Panic \<longleftrightarrow> r = Panic"
  by (cases r) auto

lemma is_ok_result_iff: "is_ok_result r \<longleftrightarrow> (\<exists>x. r = Ok x)"
  by (cases r) auto

section \<open>Orderings\<close>

datatype ordering = Less | Equal | Greater

fun flip_ordering :: "ordering \<Rightarrow> ordering" where
  "flip_ordering Less = Greater"
| "flip_ordering Equal = Equal"
| "flip_ordering Greater = Less"

definition cmp_of :: "'a::linorder \<Rightarrow> 'a \<Rightarrow> ordering" where
  "cmp_of x y = (if x < y then Less else if x = y then Equal else Greater)"

lemma flip_flip [simp]: "flip_ordering (flip_ordering r) = r"
  by (cases r) auto

lemma flip_eq_iff [simp]:
  "flip_ordering r = Equal \<longleftrightarrow> r = Equal"
  "flip_ordering r = Less \<longleftrightarrow> r = Greater"
  "flip_ordering r = Greater \<longleftrightarrow> r = Less"
  by (cases r; simp)+

lemma cmp_of_iff [simp]:
  "cmp_of x y = Less \<longleftrightarrow> x < y"
  "cmp_of x y = Equal \<longleftrightarrow> x = y"
  "cmp_of x y = Greater \<longleftrightarrow> y < x"
  by (auto simp: cmp_of_def)

lemma cmp_of_simps [simp]:
  "cmp_of x x = Equal"
  "x < y \<Longrightarrow> cmp_of x y = Less"
  "y < x \<Longrightarrow> cmp_of x y = Greater"
  by simp_all

text \<open>
  The contract of \<open>Ord\<close>: \<open>cmp\<close> is total, its two directions agree and it is transitive. The
  values that compare \<open>Equal\<close> need not be identical.
\<close>

locale ord_laws =
  fixes cmp :: "'a \<Rightarrow> 'a \<Rightarrow> ordering"
  assumes cmp_refl: "cmp x x = Equal"
    and cmp_flip: "cmp y x = flip_ordering (cmp x y)"
    and cmp_le_trans: "cmp x y \<noteq> Greater \<Longrightarrow> cmp y z \<noteq> Greater \<Longrightarrow> cmp x z \<noteq> Greater"
begin

lemma cmp_Greater_iff: "cmp x y = Greater \<longleftrightarrow> cmp y x = Less"
  by (metis cmp_flip flip_eq_iff(2))

lemma cmp_Equal_sym: "cmp x y = Equal \<longleftrightarrow> cmp y x = Equal"
  using cmp_flip [of x y] by simp

lemma cmp_lt_le_trans: "cmp x y = Less \<Longrightarrow> cmp y z \<noteq> Greater \<Longrightarrow> cmp x z = Less"
  by (metis cmp_Greater_iff cmp_le_trans ordering.distinct(3) ordering.exhaust cmp_Equal_sym ordering.distinct(1,5))

lemma cmp_le_lt_trans: "cmp x y \<noteq> Greater \<Longrightarrow> cmp y z = Less \<Longrightarrow> cmp x z = Less"
  by (metis cmp_Greater_iff cmp_le_trans ordering.distinct(3) ordering.exhaust cmp_Equal_sym ordering.distinct(1,5))

lemma cmp_lt_trans: "cmp x y = Less \<Longrightarrow> cmp y z = Less \<Longrightarrow> cmp x z = Less"
  using cmp_lt_le_trans [of x y z] by simp

lemma cmp_Equal_trans: "cmp x y = Equal \<Longrightarrow> cmp y z = Equal \<Longrightarrow> cmp x z = Equal"
  by (metis cmp_Greater_iff cmp_le_trans cmp_Equal_sym ordering.distinct(5) ordering.exhaust)

lemma cmp_Equal_left: "cmp x y = Equal \<Longrightarrow> cmp x z = cmp y z"
  by (metis cmp_Equal_sym cmp_Equal_trans cmp_Greater_iff cmp_le_lt_trans cmp_lt_le_trans
      ordering.distinct(5) ordering.exhaust)

lemma cmp_Equal_right: "cmp x y = Equal \<Longrightarrow> cmp z x = cmp z y"
  by (metis cmp_Equal_left cmp_flip)

lemma cmp_total: "cmp x y \<noteq> Greater \<or> cmp y x \<noteq> Greater"
  using cmp_Greater_iff [of x y] by (cases "cmp x y") auto

end

lemma cmp_of_Cons:
  "cmp_of (x # xs) (y # ys) = (case cmp_of x y of Equal \<Rightarrow> cmp_of xs ys | r \<Rightarrow> r)"
  by (auto simp: cmp_of_def)

lemma cmp_of_pair:
  "cmp_of (a, b) (c, d) = (case cmp_of a c of Equal \<Rightarrow> cmp_of b d | r \<Rightarrow> r)"
  by (auto simp: cmp_of_def)

lemma cmp_of_Nil [simp]:
  "cmp_of [] (ys :: 'a::linorder list) = (if ys = [] then Equal else Less)"
  "cmp_of (xs :: 'a::linorder list) [] = (if xs = [] then Equal else Greater)"
  by (cases ys; cases xs; simp add: cmp_of_def)+

lemma ord_laws_key [ord_intros]: "ord_laws (\<lambda>x y. cmp_of (k x) (k y))"
proof
  fix x y z
  show "cmp_of (k x) (k x) = Equal" by simp
  show "cmp_of (k y) (k x) = flip_ordering (cmp_of (k x) (k y))"
    by (auto simp: cmp_of_def)
  show "cmp_of (k x) (k y) \<noteq> Greater \<Longrightarrow> cmp_of (k y) (k z) \<noteq> Greater
    \<Longrightarrow> cmp_of (k x) (k z) \<noteq> Greater"
    by (auto simp: not_less)
qed

text \<open>
  \<open>Ord::max\<close> and \<open>Ord::min\<close>: on \<open>Equal\<close> the first keeps its second argument and the other its
  first one. \<open>Iterator::max\<close> and \<open>Iterator::min\<close> fold them over the items.
\<close>

definition cmp_max :: "('a \<Rightarrow> 'a \<Rightarrow> ordering) \<Rightarrow> 'a \<Rightarrow> 'a \<Rightarrow> 'a" where
  "cmp_max cmp x y = (if cmp x y = Greater then x else y)"

definition cmp_min :: "('a \<Rightarrow> 'a \<Rightarrow> ordering) \<Rightarrow> 'a \<Rightarrow> 'a \<Rightarrow> 'a" where
  "cmp_min cmp x y = (if cmp x y = Greater then y else x)"

fun iter_max :: "('a \<Rightarrow> 'a \<Rightarrow> ordering) \<Rightarrow> 'a list \<Rightarrow> 'a option" where
  "iter_max cmp [] = None"
| "iter_max cmp (x # xs) = Some (foldl (cmp_max cmp) x xs)"

fun iter_min :: "('a \<Rightarrow> 'a \<Rightarrow> ordering) \<Rightarrow> 'a list \<Rightarrow> 'a option" where
  "iter_min cmp [] = None"
| "iter_min cmp (x # xs) = Some (foldl (cmp_min cmp) x xs)"

context ord_laws
begin

lemma foldl_max_ge:
  "cmp y (foldl (cmp_max cmp) y xs) \<noteq> Greater \<and>
   (\<forall>x \<in> set xs. cmp x (foldl (cmp_max cmp) y xs) \<noteq> Greater) \<and>
   foldl (cmp_max cmp) y xs \<in> insert y (set xs)"
proof (induction xs arbitrary: y)
  case Nil
  show ?case by (simp add: cmp_refl)
next
  case (Cons a xs)
  let ?m = "cmp_max cmp y a"
  have up: "cmp y ?m \<noteq> Greater" "cmp a ?m \<noteq> Greater"
    using cmp_total [of y a] by (auto simp: cmp_max_def cmp_refl)
  have "?m \<in> {y, a}" by (simp add: cmp_max_def)
  with Cons.IH [of ?m] show ?case
    using cmp_le_trans [OF up(1)] cmp_le_trans [OF up(2)] by auto
qed

lemma foldl_min_le:
  "cmp (foldl (cmp_min cmp) y xs) y \<noteq> Greater \<and>
   (\<forall>x \<in> set xs. cmp (foldl (cmp_min cmp) y xs) x \<noteq> Greater) \<and>
   foldl (cmp_min cmp) y xs \<in> insert y (set xs)"
proof (induction xs arbitrary: y)
  case Nil
  show ?case by (simp add: cmp_refl)
next
  case (Cons a xs)
  let ?m = "cmp_min cmp y a"
  have low: "cmp ?m y \<noteq> Greater" "cmp ?m a \<noteq> Greater"
    using cmp_total [of y a] by (auto simp: cmp_min_def cmp_refl)
  have "?m \<in> {y, a}" by (simp add: cmp_min_def)
  with Cons.IH [of ?m] show ?case
    using cmp_le_trans [OF _ low(1)] cmp_le_trans [OF _ low(2)] by auto
qed

lemma iter_max_Some:
  assumes "iter_max cmp xs = Some m"
  shows "m \<in> set xs \<and> (\<forall>x \<in> set xs. cmp x m \<noteq> Greater)"
  using assms foldl_max_ge by (cases xs) auto

lemma iter_min_Some:
  assumes "iter_min cmp xs = Some m"
  shows "m \<in> set xs \<and> (\<forall>x \<in> set xs. cmp m x \<noteq> Greater)"
  using assms foldl_min_le by (cases xs) auto

end

lemma iter_max_None [simp]: "iter_max cmp xs = None \<longleftrightarrow> xs = []"
  by (cases xs) auto

lemma iter_min_None [simp]: "iter_min cmp xs = None \<longleftrightarrow> xs = []"
  by (cases xs) auto

section \<open>Machine integers and their decimal text\<close>

type_synonym u32 = "32 word"
type_synonym str = string

abbreviation U32_MAX :: u32 where
  "U32_MAX \<equiv> 4294967295"

definition digit_char :: "nat \<Rightarrow> char" where
  "digit_char d = char_of (48 + d)"

definition char_digit :: "char \<Rightarrow> int option" where
  "char_digit c = (let n = (of_char c :: int) in if 48 \<le> n \<and> n \<le> 57 then Some (n - 48) else None)"

fun show_nat :: "nat \<Rightarrow> str" where
  "show_nat n = (if n < 10 then [digit_char n] else show_nat (n div 10) @ [digit_char (n mod 10)])"

declare show_nat.simps [simp del]

text \<open>\<open>to_string\<close> of a \<open>u32\<close>.\<close>

definition show_u32 :: "u32 \<Rightarrow> str" where
  "show_u32 x = show_nat (unat x)"

definition show_u64 :: "64 word \<Rightarrow> str" where
  "show_u64 x = show_nat (unat x)"

text \<open>
  \<open>str::parse\<close> for an unsigned integer below a limit: an optional plus sign, then at least one digit; the
  accumulator is checked after each \<open>checked_mul\<close> and \<open>checked_add\<close>. A minus sign is an invalid
  digit.
\<close>

fun parse_digits :: "int \<Rightarrow> int \<Rightarrow> str \<Rightarrow> int option" where
  "parse_digits lim acc [] = Some acc"
| "parse_digits lim acc (c # cs) =
     (case char_digit c of
        None \<Rightarrow> None
      | Some d \<Rightarrow>
          if acc * 10 + d < lim then parse_digits lim (acc * 10 + d) cs else None)"

definition parse_uint :: "int \<Rightarrow> str \<Rightarrow> int option" where
  "parse_uint lim s =
     (let ds = (case s of c # cs \<Rightarrow> if c = CHR ''+'' then cs else s | [] \<Rightarrow> []) in
      if ds = [] then None else parse_digits lim 0 ds)"

definition parse_u32 :: "str \<Rightarrow> u32 option" where
  "parse_u32 s = map_option of_int (parse_uint (2 ^ 32) s)"

definition parse_u64 :: "str \<Rightarrow> 64 word option" where
  "parse_u64 s = map_option of_int (parse_uint (2 ^ 64) s)"

lemma char_digit_digit_char [simp]:
  assumes "d < 10"
  shows "char_digit (digit_char d) = Some (int d)"
proof -
  have "list_all (\<lambda>d. char_digit (digit_char d) = Some (int d)) [0..<10]" by code_simp
  then show ?thesis using assms by (simp add: list_all_iff)
qed

lemma digit_char_cases:
  assumes "d < 10"
  shows "digit_char d \<in> set ''0123456789''"
proof -
  have "list_all (\<lambda>d. digit_char d \<in> set ''0123456789'') [0..<10]" by code_simp
  then show ?thesis using assms by (simp add: list_all_iff)
qed

lemma set_show_nat: "set (show_nat n) \<subseteq> set ''0123456789''"
proof (induction n rule: show_nat.induct)
  case (1 n)
  then show ?case
    using digit_char_cases [of n] digit_char_cases [of "n mod 10"]
    by (subst show_nat.simps) auto
qed

lemma show_nat_not_Nil [simp]: "show_nat n \<noteq> []"
  by (subst show_nat.simps) simp

lemma parse_digits_append:
  "parse_digits lim a (xs @ ys) =
     (case parse_digits lim a xs of None \<Rightarrow> None | Some b \<Rightarrow> parse_digits lim b ys)"
  by (induction lim a xs rule: parse_digits.induct) (auto split: option.splits)

lemma parse_digits_show_nat: "int n < lim \<Longrightarrow> parse_digits lim 0 (show_nat n) = Some (int n)"
proof (induction n rule: show_nat.induct)
  case (1 n)
  show ?case
  proof (cases "n < 10")
    case True
    then show ?thesis using "1.prems" by (subst show_nat.simps) simp
  next
    case False
    have split: "int (n div 10) * 10 + int (n mod 10) = int n" by presburger
    then have "parse_digits lim 0 (show_nat (n div 10)) = Some (int (n div 10))"
      using False "1.prems" by (intro "1.IH") simp_all
    with split show ?thesis using False "1.prems"
      by (subst show_nat.simps) (simp add: parse_digits_append)
  qed
qed

lemma parse_uint_show_nat:
  assumes "int n < lim"
  shows "parse_uint lim (show_nat n) = Some (int n)"
proof -
  have "CHR ''+'' \<notin> set (show_nat n)" using set_show_nat by fastforce
  then have "(case show_nat n of c # cs \<Rightarrow> if c = CHR ''+'' then cs else show_nat n | [] \<Rightarrow> []) = show_nat n"
    by (cases "show_nat n") auto
  then show ?thesis using parse_digits_show_nat [OF assms] by (simp add: parse_uint_def Let_def)
qed

lemma show_u32_not_Nil [simp]: "show_u32 x \<noteq> []"
  by (simp add: show_u32_def)

lemma set_show_u32: "set (show_u32 x) \<subseteq> set ''0123456789''"
  unfolding show_u32_def by (rule set_show_nat)

lemma not_in_show_u32:
  "c \<notin> set ''0123456789'' \<Longrightarrow> c \<notin> set (show_u32 x)"
  using set_show_u32 by blast

lemma unat_below: "int (unat (x :: 'a::len word)) < 2 ^ LENGTH('a)"
  using unsigned_less [of x, where 'a = int] by simp

lemma parse_show_u32 [simp]: "parse_u32 (show_u32 x) = Some x"
  using parse_uint_show_nat [OF unat_below [of x]] by (simp add: parse_u32_def show_u32_def)

lemma parse_show_u64 [simp]: "parse_u64 (show_u64 x) = Some x"
  using parse_uint_show_nat [OF unat_below [of x]] by (simp add: parse_u64_def show_u64_def)

lemma set_show_u64: "set (show_u64 x) \<subseteq> set ''0123456789''"
  unfolding show_u64_def by (rule set_show_nat)

lemma show_u32_inject [simp]: "show_u32 x = show_u32 y \<longleftrightarrow> x = y"
  by (metis option.inject parse_show_u32)

section \<open>Splitting and joining strings\<close>

text \<open>\<open>str::split_once\<close> and \<open>str::split\<close> with a one-byte separator, and \<open>join\<close>.\<close>

fun split_once :: "char \<Rightarrow> str \<Rightarrow> (str \<times> str) option" where
  "split_once sep [] = None"
| "split_once sep (c # cs) =
     (if c = sep then Some ([], cs)
      else map_option (\<lambda>(a, b). (c # a, b)) (split_once sep cs))"

fun split_str :: "char \<Rightarrow> str \<Rightarrow> str list" where
  "split_str sep [] = [[]]"
| "split_str sep (c # cs) =
     (if c = sep then [] # split_str sep cs
      else (case split_str sep cs of [] \<Rightarrow> [[c]] | p # ps \<Rightarrow> (c # p) # ps))"

fun join_str :: "str \<Rightarrow> str list \<Rightarrow> str" where
  "join_str sep [] = []"
| "join_str sep [x] = x"
| "join_str sep (x # y # ys) = x @ sep @ join_str sep (y # ys)"

lemma split_once_None [simp]: "split_once sep s = None \<longleftrightarrow> sep \<notin> set s"
  by (induction s) auto

lemma split_once_absent [simp]: "sep \<notin> set s \<Longrightarrow> split_once sep s = None"
  by simp

lemma split_once_Some_iff:
  "split_once sep s = Some (a, b) \<longleftrightarrow> s = a @ sep # b \<and> sep \<notin> set a"
proof (induction s arbitrary: a)
  case Nil
  then show ?case by simp
next
  case (Cons c s)
  then show ?case by (cases a) auto
qed

lemma split_once_append [simp]:
  "sep \<notin> set a \<Longrightarrow> split_once sep (a @ sep # b) = Some (a, b)"
  by (simp add: split_once_Some_iff)

text \<open>\<open>str::rsplit_once\<close>.\<close>

definition rsplit_once :: "char \<Rightarrow> str \<Rightarrow> (str \<times> str) option" where
  "rsplit_once sep s = map_option (\<lambda>(a, b). (rev b, rev a)) (split_once sep (rev s))"

lemma rsplit_once_append [simp]: "sep \<notin> set b \<Longrightarrow> rsplit_once sep (a @ sep # b) = Some (a, b)"
  by (simp add: rsplit_once_def)

lemma rsplit_once_absent [simp]: "sep \<notin> set s \<Longrightarrow> rsplit_once sep s = None"
  by (simp add: rsplit_once_def)

lemma split_str_not_Nil [simp]: "split_str sep s \<noteq> []"
  by (induction s) (auto split: list.splits)

lemma split_str_no_sep [simp]: "sep \<notin> set s \<Longrightarrow> split_str sep s = [s]"
  by (induction s) auto

lemma split_str_append:
  "sep \<notin> set a \<Longrightarrow> split_str sep (a @ sep # b) = a # split_str sep b"
  by (induction a) auto

lemma split_join_str:
  assumes "ps \<noteq> []" and "\<And>p. p \<in> set ps \<Longrightarrow> sep \<notin> set p"
  shows "split_str sep (join_str [sep] ps) = ps"
  using assms
proof (induction "[sep]" ps rule: join_str.induct)
  case (3 x y ys)
  then show ?case by (simp add: split_str_append)
qed auto

lemma set_join_str: "set (join_str sep ps) \<subseteq> set sep \<union> (\<Union>p \<in> set ps. set p)"
  by (induction sep ps rule: join_str.induct) auto

lemma join_str_eq_Nil: "[] \<notin> set ps \<Longrightarrow> join_str sep ps = [] \<longleftrightarrow> ps = []"
  by (induction sep ps rule: join_str.induct) auto

lemma split_str_pieces: "p \<in> set (split_str sep s) \<Longrightarrow> set p \<subseteq> set s - {sep}"
  by (induction s arbitrary: p) (auto split: list.splits if_splits, fastforce+)

lemma join_split_str [simp]: "join_str [sep] (split_str sep s) = s"
proof (induction s)
  case (Cons c s)
  then show ?case
    by (cases "split_str sep s"; cases "tl (split_str sep s)") auto
qed simp

section \<open>UTF-8 strings\<close>

text \<open>
  A \<open>str\<close> is its UTF-8 bytes. A byte in \<open>0x80..=0xBF\<close> continues a character, every other
  byte starts one; slicing at an offset that is not a character boundary panics.
\<close>

definition is_continuation :: "char \<Rightarrow> bool" where
  "is_continuation c \<longleftrightarrow> (let n = (of_char c :: nat) in 128 \<le> n \<and> n < 192)"

definition is_ascii :: "char \<Rightarrow> bool" where
  "is_ascii c \<longleftrightarrow> (of_char c :: nat) < 128"

function utf8_chars :: "str \<Rightarrow> str list" where
  "utf8_chars [] = []"
| "utf8_chars (b # bs) =
     (b # takeWhile is_continuation bs) # utf8_chars (dropWhile is_continuation bs)"
  by pat_completeness auto
termination
  by (relation "measure length") (auto simp: le_imp_less_Suc length_dropWhile_le)

definition is_char_boundary :: "str \<Rightarrow> nat \<Rightarrow> bool" where
  "is_char_boundary s i \<longleftrightarrow>
     i = 0 \<or> i = length s \<or> (i < length s \<and> \<not> is_continuation (s ! i))"

lemma ascii_not_continuation: "is_ascii c \<Longrightarrow> \<not> is_continuation c"
  by (simp add: is_ascii_def is_continuation_def Let_def)

lemma utf8_chars_ascii: "list_all is_ascii s \<Longrightarrow> utf8_chars s = map (\<lambda>c. [c]) s"
proof (induction s rule: utf8_chars.induct)
  case (2 b bs)
  then have "takeWhile is_continuation bs = []" "dropWhile is_continuation bs = bs"
    by (cases bs; auto simp: ascii_not_continuation)+
  with 2 show ?case by simp
qed simp

section \<open>Ordered maps\<close>

text \<open>
  A \<open>BTreeMap\<close> is the list of its entries in key order (\<open>bt_wf\<close>); \<open>insert\<close> replaces the value
  of a key that is already there.
\<close>

type_synonym ('k, 'v) btree_map = "('k \<times> 'v) list"

definition bt_wf :: "('k::linorder, 'v) btree_map \<Rightarrow> bool" where
  "bt_wf m \<longleftrightarrow> sorted_wrt (<) (map fst m)"

fun bt_insert :: "'k::linorder \<Rightarrow> 'v \<Rightarrow> ('k, 'v) btree_map \<Rightarrow> ('k, 'v) btree_map" where
  "bt_insert k v [] = [(k, v)]"
| "bt_insert k v ((k', v') # m) =
     (if k < k' then (k, v) # (k', v') # m
      else if k = k' then (k', v) # m
      else (k', v') # bt_insert k v m)"

fun bt_remove :: "'k::linorder \<Rightarrow> ('k, 'v) btree_map \<Rightarrow> ('k, 'v) btree_map" where
  "bt_remove k [] = []"
| "bt_remove k ((k', v') # m) = (if k = k' then m else (k', v') # bt_remove k m)"

abbreviation bt_get :: "('k, 'v) btree_map \<Rightarrow> 'k \<Rightarrow> 'v option" where
  "bt_get \<equiv> map_of"

definition bt_contains_key :: "('k, 'v) btree_map \<Rightarrow> 'k \<Rightarrow> bool" where
  "bt_contains_key m k \<longleftrightarrow> k \<in> fst ` set m"

lemma bt_wf_simps [simp]:
  "bt_wf []"
  "bt_wf ((k, v) # m) \<longleftrightarrow> (\<forall>k' \<in> fst ` set m. k < k') \<and> bt_wf m"
  by (auto simp: bt_wf_def)

lemma fst_bt_insert [simp]: "fst ` set (bt_insert k v m) = insert k (fst ` set m)"
  by (induction k v m rule: bt_insert.induct) auto

lemma bt_wf_insert [simp]: "bt_wf m \<Longrightarrow> bt_wf (bt_insert k v m)"
  by (induction k v m rule: bt_insert.induct) (auto simp del: split_paired_All)

lemma bt_get_insert [simp]:
  "bt_wf m \<Longrightarrow> bt_get (bt_insert k v m) = (bt_get m)(k \<mapsto> v)"
proof (induction k v m rule: bt_insert.induct)
  case (2 k v k' v' m)
  then show ?case by (auto simp: fun_eq_iff)
qed auto

lemma bt_insert_append:
  "bt_wf (m @ [(k, v)]) \<Longrightarrow> bt_insert k v m = m @ [(k, v)]"
  by (induction m) (auto simp: bt_wf_def sorted_wrt_append)

lemma bt_wf_distinct: "bt_wf m \<Longrightarrow> distinct (map fst m)"
  unfolding bt_wf_def using strict_sorted_iff by blast

lemma bt_wf_append: "bt_wf (m @ n) \<longleftrightarrow> bt_wf m \<and> bt_wf n \<and> (\<forall>a \<in> fst ` set m. \<forall>b \<in> fst ` set n. a < b)"
  by (auto simp: bt_wf_def sorted_wrt_append)

lemma sorted_bt_wf: "bt_wf m \<Longrightarrow> sorted m"
  by (induction m) (fastforce simp: less_eq_prod_def)+

lemma sort_bt_wf [simp]: "bt_wf m \<Longrightarrow> sort m = m"
  by (simp add: sorted_bt_wf sorted_sort_id)

lemma bt_wf_eqI:
  assumes "bt_wf m" "bt_wf n" "bt_get m = bt_get n"
  shows "m = n"
proof -
  have "set m = set n"
    using assms by (metis bt_wf_distinct map_of_eqI map_of_is_SomeI map_of_SomeD subset_antisym
        subrelI)
  moreover have "inj_on fst (set m \<union> set n)"
    using calculation bt_wf_distinct [OF assms(1)] by (simp add: distinct_map)
  moreover have "sorted (map fst m)" "sorted (map fst n)"
    using assms(1,2) by (simp_all add: bt_wf_def strict_sorted_iff)
  ultimately show ?thesis
    using bt_wf_distinct assms(1,2) by (intro map_sorted_distinct_set_unique [of fst]) auto
qed

section \<open>Ordered sets\<close>

text \<open>A \<open>BTreeSet\<close> of a type whose \<open>Ord\<close> agrees with identity: its elements in order.\<close>

type_synonym 'a btree_set = "'a list"

definition bs_wf :: "'a::linorder btree_set \<Rightarrow> bool" where
  "bs_wf s \<longleftrightarrow> sorted_wrt (<) s"

fun bs_insert :: "'a::linorder \<Rightarrow> 'a btree_set \<Rightarrow> 'a btree_set" where
  "bs_insert x [] = [x]"
| "bs_insert x (y # ys) =
     (if x < y then x # y # ys else if x = y then y # ys else y # bs_insert x ys)"

definition bs_from_list :: "'a::linorder list \<Rightarrow> 'a btree_set" where
  "bs_from_list xs = fold bs_insert xs []"

lemma set_bs_insert [simp]: "set (bs_insert x s) = insert x (set s)"
  by (induction s) auto

lemma bs_wf_insert [simp]: "bs_wf s \<Longrightarrow> bs_wf (bs_insert x s)"
  by (induction s) (auto simp: bs_wf_def)

lemma bs_from_list_facts:
  "bs_wf s \<Longrightarrow> bs_wf (fold bs_insert xs s) \<and> set (fold bs_insert xs s) = set xs \<union> set s"
  by (induction xs arbitrary: s) auto

lemma bs_from_list_simps [simp]: "bs_wf (bs_from_list xs)" "set (bs_from_list xs) = set xs"
  using bs_from_list_facts [of "[]" xs] by (auto simp: bs_from_list_def bs_wf_def)

section \<open>\<open>HashMap\<close>\<close>

text \<open>
  A \<open>HashMap\<close> is the list of its entries in the order of its iterator, which the program cannot
  rely on. Keys occur once.
\<close>

type_synonym ('k, 'v) hash_map = "('k \<times> 'v) list"

definition hm_wf :: "('k, 'v) hash_map \<Rightarrow> bool" where
  "hm_wf m \<longleftrightarrow> distinct (map fst m)"

abbreviation hm_get :: "('k, 'v) hash_map \<Rightarrow> 'k \<Rightarrow> 'v option" where
  "hm_get \<equiv> map_of"

fun hm_insert :: "'k \<Rightarrow> 'v \<Rightarrow> ('k, 'v) hash_map \<Rightarrow> ('k, 'v) hash_map" where
  "hm_insert k v [] = [(k, v)]"
| "hm_insert k v ((k', v') # m) = (if k = k' then (k, v) # m else (k', v') # hm_insert k v m)"

definition hm_remove :: "'k \<Rightarrow> ('k, 'v) hash_map \<Rightarrow> ('k, 'v) hash_map" where
  "hm_remove k m = filter (\<lambda>p. fst p \<noteq> k) m"

lemma hm_get_insert [simp]: "hm_get (hm_insert k v m) = (hm_get m)(k \<mapsto> v)"
  by (induction m) auto

lemma hm_get_remove [simp]: "hm_get (hm_remove k m) = (hm_get m)(k := None)"
  by (induction m) (auto simp: hm_remove_def)

lemma keys_hm_insert [simp]: "fst ` set (hm_insert k v m) = insert k (fst ` set m)"
  by (induction k v m rule: hm_insert.induct) auto

lemma hm_wf_insert [simp]: "hm_wf m \<Longrightarrow> hm_wf (hm_insert k v m)"
  by (induction k v m rule: hm_insert.induct) (auto simp: hm_wf_def)

lemma hm_wf_remove [simp]: "hm_wf m \<Longrightarrow> hm_wf (hm_remove k m)"
  by (simp add: hm_wf_def hm_remove_def distinct_map_filter)

lemma set_hm_insert: "set (hm_insert k v m) \<subseteq> insert (k, v) (set m)"
  by (induction k v m rule: hm_insert.induct) auto

lemma set_hm_remove: "set (hm_remove k m) \<subseteq> set m"
  by (simp add: hm_remove_def)

lemma hm_get_Some: "hm_wf m \<Longrightarrow> hm_get m k = Some v \<longleftrightarrow> (k, v) \<in> set m"
  by (simp add: hm_wf_def)

end
