(* ===== verification/Names.thy ===== *)
theory Names
  imports Prelude
begin

text \<open>
  Package, option, repository and release tag names
  (\<^verbatim>\<open>crates/spk-schema/crates/foundation/src/name/mod.rs\<close>): the validators with the errors
  they report and the panics they can raise, and the namespace operations of option names.
  The lemmas show which names are accepted, that every package name is an option name, that
  the namespace operations keep names valid, and when validation panics.
\<close>

section \<open>Errors and validators\<close>

datatype name_kind = PackageName | OptionName | TagName

text \<open>The payloads of \<open>InvalidNameError\<close>: what its message is formatted from.\<close>

datatype name_error =
    TooShort name_kind str nat
  | TooLong name_kind str nat
  | LeadingHyphen str
  | InvalidCharAt name_kind nat str str str

type_synonym 'a name_result = "(name_error, 'a) outcome"

abbreviation MIN_LEN :: nat where "MIN_LEN \<equiv> 2"
abbreviation MAX_LEN :: nat where "MAX_LEN \<equiv> 64"

definition is_ascii_lowercase :: "char \<Rightarrow> bool" where
  "is_ascii_lowercase c \<longleftrightarrow> CHR ''a'' \<le> c \<and> c \<le> CHR ''z''"

definition is_ascii_uppercase :: "char \<Rightarrow> bool" where
  "is_ascii_uppercase c \<longleftrightarrow> CHR ''A'' \<le> c \<and> c \<le> CHR ''Z''"

definition is_ascii_digit :: "char \<Rightarrow> bool" where
  "is_ascii_digit c \<longleftrightarrow> CHR ''0'' \<le> c \<and> c \<le> CHR ''9''"

definition is_ascii_alphanumeric :: "char \<Rightarrow> bool" where
  "is_ascii_alphanumeric c \<longleftrightarrow>
     is_ascii_lowercase c \<or> is_ascii_uppercase c \<or> is_ascii_digit c"

definition is_valid_pkg_name_char :: "char \<Rightarrow> bool" where
  "is_valid_pkg_name_char c \<longleftrightarrow> is_ascii_lowercase c \<or> is_ascii_digit c \<or> c = CHR ''-''"

definition is_valid_opt_name_char :: "char \<Rightarrow> bool" where
  "is_valid_opt_name_char c \<longleftrightarrow> is_valid_pkg_name_char c \<or> c = CHR ''_''"

text \<open>
  The position of the first character the validator refuses, or -1. The validators accept
  ASCII characters only, so a character of several bytes is refused.
\<close>

fun first_invalid :: "(char \<Rightarrow> bool) \<Rightarrow> int \<Rightarrow> str list \<Rightarrow> int" where
  "first_invalid validator i [] = -1"
| "first_invalid validator i (c # cs) =
     (if (case c of [b] \<Rightarrow> validator b | _ \<Rightarrow> False) then first_invalid validator (i + 1) cs
      else i)"

definition validate_source_str :: "str \<Rightarrow> (char \<Rightarrow> bool) \<Rightarrow> int" where
  "validate_source_str source validator = first_invalid validator 0 (utf8_chars source)"

text \<open>
  The report of an invalid character: the name is sliced around it by byte offsets computed
  from the character index.
\<close>

definition invalid_char_error :: "name_kind \<Rightarrow> str \<Rightarrow> nat \<Rightarrow> 'a name_result" where
  "invalid_char_error kind name index =
     (if is_char_boundary name index \<and> index < length (utf8_chars name)
         \<and> is_char_boundary name (index + 1)
      then Err (InvalidCharAt kind index (take index name) (utf8_chars name ! index)
                  (drop (index + 1) name))
      else Panic)"

definition validate_pkg_name :: "str \<Rightarrow> unit name_result" where
  "validate_pkg_name name =
     (if length name < MIN_LEN then Err (TooShort PackageName name (length name))
      else if MAX_LEN < length name then Err (TooLong PackageName name (length name))
      else if (case name of c # _ \<Rightarrow> c = CHR ''-'' | [] \<Rightarrow> False) then Err (LeadingHyphen name)
      else (let index = validate_source_str name is_valid_pkg_name_char in
            if -1 < index then invalid_char_error PackageName name (nat index) else Ok ()))"

definition validate_opt_base_name :: "str \<Rightarrow> unit name_result" where
  "validate_opt_base_name name =
     (if length name < MIN_LEN then Err (TooShort OptionName name (length name))
      else if MAX_LEN < length name then Err (TooLong OptionName name (length name))
      else (let index = validate_source_str name is_valid_opt_name_char in
            if -1 < index then invalid_char_error OptionName name (nat index) else Ok ()))"

definition validate_opt_name :: "str \<Rightarrow> unit name_result" where
  "validate_opt_name name =
     (case split_once CHR ''.'' name of
        Some (ns, opt) \<Rightarrow> and_then (validate_pkg_name ns) (\<lambda>_. validate_opt_base_name opt)
      | None \<Rightarrow> validate_opt_base_name name)"

definition validate_tag_name :: "str \<Rightarrow> unit name_result" where
  "validate_tag_name name =
     (let index = validate_source_str name is_ascii_alphanumeric in
      if -1 < index then invalid_char_error TagName name (nat index) else Ok ())"

definition validate_repository_name :: "str \<Rightarrow> unit name_result" where
  "validate_repository_name s = validate_pkg_name s"

section \<open>Option names and their namespaces\<close>

definition base_name :: "str \<Rightarrow> str" where
  "base_name self = (case split_once CHR ''.'' self of Some (_, n) \<Rightarrow> n | None \<Rightarrow> self)"

definition namespace :: "str \<Rightarrow> str option" where
  "namespace self = map_option fst (split_once CHR ''.'' self)"

definition with_default_namespace :: "str \<Rightarrow> str \<Rightarrow> str" where
  "with_default_namespace self ns =
     (case namespace self of Some n \<Rightarrow> n | None \<Rightarrow> ns) @ CHR ''.'' # base_name self"

definition with_namespace :: "str \<Rightarrow> str \<Rightarrow> str" where
  "with_namespace self ns = ns @ CHR ''.'' # base_name self"

definition without_namespace :: "str \<Rightarrow> str" where
  "without_namespace self = base_name self"

definition env_name :: "str \<Rightarrow> str" where
  "env_name self = map (\<lambda>c. if c = CHR ''-'' then CHR ''_'' else c) self"

definition is_local :: "str \<Rightarrow> bool" where
  "is_local self \<longleftrightarrow> self = ''local''"

section \<open>Which names are accepted\<close>

lemma valid_char_facts:
  "is_ascii_alphanumeric c \<Longrightarrow> is_ascii c"
  "is_valid_opt_name_char c \<Longrightarrow> is_ascii c"
  "is_valid_pkg_name_char c \<Longrightarrow> is_valid_opt_name_char c"
  "\<not> is_valid_opt_name_char CHR ''.''"
  "\<not> is_ascii_alphanumeric CHR ''.''"
  "\<not> is_ascii_alphanumeric CHR '',''"
  "\<not> is_ascii_alphanumeric CHR ''+''"
  "\<not> is_ascii_alphanumeric CHR ''-''"
  by (auto simp: is_ascii_alphanumeric_def is_valid_opt_name_char_def is_valid_pkg_name_char_def
      is_ascii_lowercase_def is_ascii_uppercase_def is_ascii_digit_def is_ascii_def
      less_eq_char_def)

lemma first_invalid_bounds:
  "0 \<le> i \<Longrightarrow> first_invalid v i cs = -1 \<or> i \<le> first_invalid v i cs \<and> first_invalid v i cs < i + int (length cs)"
proof (induction cs arbitrary: i)
  case (Cons c cs)
  from Cons.IH [of "i + 1"] Cons.prems show ?case by auto
qed simp

lemma first_invalid_none:
  assumes "0 \<le> i"
  shows "first_invalid v i cs = -1 \<longleftrightarrow> (\<forall>c \<in> set cs. case c of [b] \<Rightarrow> v b | _ \<Rightarrow> False)"
  using assms
proof (induction cs arbitrary: i)
  case (Cons c cs)
  then show ?case using Cons.IH [of "i + 1"] by simp
qed simp

lemma utf8_singletons:
  "(\<forall>c \<in> set (utf8_chars s). case c of [b] \<Rightarrow> v b | _ \<Rightarrow> False) \<Longrightarrow> list_all v s"
proof (induction s rule: utf8_chars.induct)
  case (2 b bs)
  then have "takeWhile is_continuation bs = []" "v b" by (auto split: list.splits)
  moreover from this(1) have "dropWhile is_continuation bs = bs"
    by (metis append.left_neutral takeWhile_dropWhile_id)
  ultimately show ?case using 2 by simp
qed simp

lemma validate_source_str_none:
  assumes "\<And>c. v c \<Longrightarrow> is_ascii c"
  shows "\<not> -1 < validate_source_str s v \<longleftrightarrow> list_all v s"
proof -
  have "\<not> -1 < validate_source_str s v \<longleftrightarrow> validate_source_str s v = -1"
    using first_invalid_bounds [of 0 v "utf8_chars s"] by (auto simp: validate_source_str_def)
  also have "\<dots> \<longleftrightarrow> (\<forall>c \<in> set (utf8_chars s). case c of [b] \<Rightarrow> v b | _ \<Rightarrow> False)"
    by (simp add: validate_source_str_def first_invalid_none)
  also have "\<dots> \<longleftrightarrow> list_all v s"
  proof
    assume "list_all v s"
    moreover from this have "list_all is_ascii s"
      using assms by (auto simp: list_all_iff)
    ultimately show "\<forall>c \<in> set (utf8_chars s). case c of [b] \<Rightarrow> v b | _ \<Rightarrow> False"
      by (auto simp: utf8_chars_ascii list_all_iff)
  qed (rule utf8_singletons)
  finally show ?thesis .
qed

lemma invalid_char_error_not_Ok [simp]: "invalid_char_error k s i \<noteq> Ok x"
  by (simp add: invalid_char_error_def)

lemma validate_tag_name_Ok_iff: "validate_tag_name s = Ok u \<longleftrightarrow> list_all is_ascii_alphanumeric s"
  using validate_source_str_none [of is_ascii_alphanumeric s] valid_char_facts(1)
  by (auto simp: validate_tag_name_def Let_def)

lemma validate_opt_base_name_Ok_iff:
  "validate_opt_base_name s = Ok u \<longleftrightarrow>
     MIN_LEN \<le> length s \<and> length s \<le> MAX_LEN \<and> list_all is_valid_opt_name_char s"
  using validate_source_str_none [of is_valid_opt_name_char s] valid_char_facts(2)
  by (auto simp: validate_opt_base_name_def Let_def)

lemma validate_pkg_name_Ok_iff:
  "validate_pkg_name s = Ok u \<longleftrightarrow>
     MIN_LEN \<le> length s \<and> length s \<le> MAX_LEN \<and> list_all is_valid_pkg_name_char s
     \<and> hd s \<noteq> CHR ''-''"
proof -
  have "is_valid_pkg_name_char c \<Longrightarrow> is_ascii c" for c
    using valid_char_facts(2,3) by blast
  from validate_source_str_none [OF this, of is_valid_pkg_name_char s] show ?thesis
    by (cases s) (auto simp: validate_pkg_name_def Let_def Suc_le_eq)
qed

lemma valid_chars_no_dot: "list_all is_valid_opt_name_char s \<Longrightarrow> CHR ''.'' \<notin> set s"
  using valid_char_facts(4) by (auto simp: list_all_iff)

lemma pkg_chars_are_opt_chars:
  "list_all is_valid_pkg_name_char s \<Longrightarrow> list_all is_valid_opt_name_char s"
  using valid_char_facts(3) by (auto simp: list_all_iff)

lemma validate_opt_name_Ok_cases:
  "validate_opt_name s = Ok u \<longleftrightarrow>
     (CHR ''.'' \<notin> set s \<and> validate_opt_base_name s = Ok u) \<or>
     (\<exists>ns opt. s = ns @ CHR ''.'' # opt \<and> validate_pkg_name ns = Ok u
        \<and> validate_opt_base_name opt = Ok u)"
proof (cases "split_once CHR ''.'' s")
  case None
  then show ?thesis by (auto simp: validate_opt_name_def)
next
  case (Some p)
  then obtain ns opt where p: "split_once CHR ''.'' s = Some (ns, opt)" by (cases p) auto
  then have s: "s = ns @ CHR ''.'' # opt" "CHR ''.'' \<notin> set ns"
    by (auto simp: split_once_Some_iff)
  have uniq: "a = ns \<and> b = opt" if "s = a @ CHR ''.'' # b" "validate_pkg_name a = Ok u" for a b
  proof -
    from that have "split_once CHR ''.'' s = Some (a, b)"
      using valid_chars_no_dot [OF pkg_chars_are_opt_chars]
      by (auto simp: validate_pkg_name_Ok_iff split_once_Some_iff)
    with p show ?thesis by simp
  qed
  have "validate_opt_name s = Ok u \<longleftrightarrow> validate_pkg_name ns = Ok u \<and> validate_opt_base_name opt = Ok u"
    using p by (auto simp: validate_opt_name_def)
  moreover have "CHR ''.'' \<in> set s" using s by simp
  ultimately show ?thesis using s(1) uniq by metis
qed

section \<open>When validation panics\<close>

lemma first_invalid_at:
  assumes "0 \<le> k" and "first_invalid v k (utf8_chars s) = k + int i"
  shows "list_all v (take i s) \<and> i < length s
    \<and> utf8_chars s ! i = s ! i # takeWhile is_continuation (drop (i + 1) s)
    \<and> i < length (utf8_chars s)
    \<and> (0 < i \<longrightarrow> \<not> is_continuation (s ! i))
    \<and> (v (s ! i) \<longrightarrow> takeWhile is_continuation (drop (i + 1) s) \<noteq> [])"
  using assms
proof (induction s arbitrary: k i rule: utf8_chars.induct)
  case (2 b bs)
  show ?case
  proof (cases "takeWhile is_continuation bs = [] \<and> v b")
    case True
    then have tw: "takeWhile is_continuation bs = []" and "v b" by auto
    then have dw: "dropWhile is_continuation bs = bs"
      by (metis append.left_neutral takeWhile_dropWhile_id)
    with "2.prems" tw \<open>v b\<close> have eq: "first_invalid v (k + 1) (utf8_chars bs) = k + int i" by simp
    with first_invalid_bounds [of "k + 1" v "utf8_chars bs"] "2.prems"(1)
    obtain j where j: "i = Suc j" by (cases i) auto
    with eq dw "2.prems"(1) have
      "list_all v (take j bs) \<and> j < length bs
        \<and> utf8_chars bs ! j = bs ! j # takeWhile is_continuation (drop (j + 1) bs)
        \<and> j < length (utf8_chars bs) \<and> (0 < j \<longrightarrow> \<not> is_continuation (bs ! j))
        \<and> (v (bs ! j) \<longrightarrow> takeWhile is_continuation (drop (j + 1) bs) \<noteq> [])"
      using "2.IH" [of "k + 1" j] by simp
    moreover have "\<not> is_continuation (bs ! j)" if "j = 0" "0 < length bs"
      using tw that by (cases bs) (auto split: if_splits)
    ultimately show ?thesis using tw dw \<open>v b\<close> j by auto
  next
    case False
    then have "first_invalid v k (utf8_chars (b # bs)) = k"
      by (auto split: list.splits)
    with "2.prems" have "i = 0" by simp
    with False show ?thesis by auto
  qed
qed simp

lemma takeWhile_drop_not_Nil:
  "takeWhile P (drop k s) \<noteq> [] \<Longrightarrow> k < length s \<and> P (s ! k)"
  by (cases "k < length s") (auto simp: Cons_nth_drop_Suc [symmetric] split: if_splits)

lemma invalid_char_panics_iff:
  assumes index: "validate_source_str s v = int i"
  shows "invalid_char_error k s i = (Panic :: 'a name_result) \<longleftrightarrow>
    i + 1 < length s \<and> is_continuation (s ! (i + 1))"
proof -
  have at: "i < length s" "i < length (utf8_chars s)" "0 < i \<longrightarrow> \<not> is_continuation (s ! i)"
    using first_invalid_at [of 0 v s i] index by (auto simp: validate_source_str_def)
  then have "is_char_boundary s i"
    by (auto simp: is_char_boundary_def)
  then show ?thesis
    using at by (auto simp: invalid_char_error_def is_char_boundary_def)
qed

lemma validate_source_str_at:
  assumes "-1 < validate_source_str s v"
  obtains i where "validate_source_str s v = int i" "list_all v (take i s)" "i < length s"
    "v (s ! i) \<longrightarrow> takeWhile is_continuation (drop (i + 1) s) \<noteq> []"
    "0 < i \<longrightarrow> \<not> is_continuation (s ! i)"
proof -
  obtain i where i: "validate_source_str s v = int i"
    using assms zero_le_imp_eq_int [of "validate_source_str s v"] by auto
  with first_invalid_at [of 0 v s i] that show thesis by (auto simp: validate_source_str_def)
qed

section \<open>Properties\<close>

text \<open>
  Every valid package name is a valid option name, the assumption on which the unchecked
  conversion of a \<open>PkgName\<close> into an \<open>OptName\<close> rests.
\<close>

theorem pkg_name_is_opt_name:
  assumes "validate_pkg_name s = Ok ()"
  shows "validate_opt_name s = Ok ()"
proof -
  from assms have "validate_opt_base_name s = Ok ()" "CHR ''.'' \<notin> set s"
    using pkg_chars_are_opt_chars valid_chars_no_dot
    by (auto simp: validate_pkg_name_Ok_iff validate_opt_base_name_Ok_iff)
  then show ?thesis by (simp add: validate_opt_name_def)
qed

theorem pkg_name_is_opt_name_witness:
  "validate_pkg_name ''my-pkg'' = Ok () \<and> validate_opt_name ''my-pkg'' = Ok ()"
proof -
  have "validate_pkg_name ''my-pkg'' = Ok ()" by code_simp
  from this pkg_name_is_opt_name [OF this] show ?thesis ..
qed

text \<open>
  On a valid option name the namespace operations keep names valid and compose: the
  namespace and the base name are valid where the code assumes it without a check, replacing
  the namespace is read back by \<open>namespace\<close> and \<open>base_name\<close>, and \<open>with_default_namespace\<close>
  never changes a name that already has one.
\<close>

theorem opt_name_namespace_ops:
  assumes opt: "validate_opt_name s = Ok ()" and ns: "validate_pkg_name ns = Ok ()"
  shows "validate_opt_name (without_namespace s) = Ok ()
    \<and> namespace (without_namespace s) = None
    \<and> (\<forall>n. namespace s = Some n \<longrightarrow> validate_pkg_name n = Ok ())
    \<and> validate_opt_name (with_namespace s ns) = Ok ()
    \<and> namespace (with_namespace s ns) = Some ns
    \<and> base_name (with_namespace s ns) = base_name s
    \<and> with_default_namespace s ns = (if namespace s = None then with_namespace s ns else s)"
proof -
  have nodot: "CHR ''.'' \<notin> set ns"
    using ns pkg_chars_are_opt_chars valid_chars_no_dot by (auto simp: validate_pkg_name_Ok_iff)
  from opt consider
      (plain) "CHR ''.'' \<notin> set s" "validate_opt_base_name s = Ok ()"
    | (scoped) n b where "s = n @ CHR ''.'' # b" "validate_pkg_name n = Ok ()"
        "validate_opt_base_name b = Ok ()"
    by (auto simp: validate_opt_name_Ok_cases)
  then show ?thesis
  proof cases
    case plain
    with nodot ns show ?thesis
      by (simp add: without_namespace_def base_name_def namespace_def with_namespace_def
          with_default_namespace_def validate_opt_name_def)
  next
    case scoped
    then have "CHR ''.'' \<notin> set n" "CHR ''.'' \<notin> set b"
      using pkg_chars_are_opt_chars valid_chars_no_dot
      by (auto simp: validate_pkg_name_Ok_iff validate_opt_base_name_Ok_iff)
    with scoped nodot ns show ?thesis
      by (simp add: without_namespace_def base_name_def namespace_def with_namespace_def
          with_default_namespace_def validate_opt_name_def)
  qed
qed

theorem opt_name_namespace_ops_witness:
  "with_default_namespace ''python.abi'' ''maya'' = ''python.abi''
    \<and> namespace (with_namespace ''python.abi'' ''maya'') = Some ''maya''"
proof -
  have "validate_opt_name ''python.abi'' = Ok ()" by code_simp
  moreover have "validate_pkg_name ''maya'' = Ok ()" by code_simp
  moreover have "namespace ''python.abi'' = Some ''python''" by code_simp
  ultimately show ?thesis using opt_name_namespace_ops [of "''python.abi''" "''maya''"] by simp
qed

text \<open>
  Validating a package name panics, instead of returning its error, exactly when the
  length is in range, the name does not start with a hyphen and the first refused character
  takes more than one byte: the report slices the name one byte after that character starts.
\<close>

theorem validate_pkg_name_panics_iff:
  "validate_pkg_name s = Panic \<longleftrightarrow>
    MIN_LEN \<le> length s \<and> length s \<le> MAX_LEN \<and> hd s \<noteq> CHR ''-''
    \<and> (\<exists>a b c r. s = a @ b # c # r \<and> list_all is_valid_pkg_name_char a \<and> is_continuation c)"
    (is "?P \<longleftrightarrow> ?len \<and> ?max \<and> ?hyphen \<and> ?ex")
proof -
  let ?v = is_valid_pkg_name_char
  have ascii: "?v c \<Longrightarrow> is_ascii c" for c using valid_char_facts(2,3) by blast
  have index: "-1 < validate_source_str s ?v
      \<and> invalid_char_error PackageName s (nat (validate_source_str s ?v)) = (Panic :: unit name_result)
      \<longleftrightarrow> ?ex" (is "?L \<longleftrightarrow> _")
  proof
    assume L: ?L
    then obtain i where i: "validate_source_str s ?v = int i" "list_all ?v (take i s)"
      by (metis validate_source_str_at)
    with L invalid_char_panics_iff [OF i(1)]
    have "i + 1 < length s" "is_continuation (s ! (i + 1))" by auto
    then have "s = take i s @ s ! i # s ! (i + 1) # drop (i + 2) s"
      by (metis Cons_nth_drop_Suc Suc_eq_plus1 Suc_lessD add_2_eq_Suc' append_take_drop_id)
    with i(2) \<open>is_continuation (s ! (i + 1))\<close> show ?ex by metis
  next
    assume ?ex
    then obtain a b c r where s: "s = a @ b # c # r" "list_all ?v a" "is_continuation c" by blast
    then have "\<not> list_all ?v s" using ascii ascii_not_continuation by (auto simp: list_all_iff)
    with validate_source_str_none [OF ascii] have neg: "-1 < validate_source_str s ?v" by blast
    then obtain i where i: "validate_source_str s ?v = int i" "list_all ?v (take i s)" "i < length s"
        "?v (s ! i) \<longrightarrow> takeWhile is_continuation (drop (i + 1) s) \<noteq> []"
        "0 < i \<longrightarrow> \<not> is_continuation (s ! i)"
      by (metis validate_source_str_at)
    have "\<not> is_continuation (s ! j)" if "j < i" for j
      using that i(2,3) ascii ascii_not_continuation by (auto simp: list_all_length)
    from this [of "length a + 1"] i(5) have "i \<noteq> length a + 1" "\<not> length a + 1 < i"
      using s by (auto simp: nth_append)
    then consider "i = length a" | "i < length a" by linarith
    then have "i + 1 < length s \<and> is_continuation (s ! (i + 1))"
    proof cases
      case 1
      then show ?thesis using s by (simp add: nth_append)
    next
      case 2
      then have "?v (s ! i)" using s by (simp add: list_all_length nth_append)
      with i(4) show ?thesis using takeWhile_drop_not_Nil by blast
    qed
    with invalid_char_panics_iff [OF i(1)] neg i(1) show ?L by simp
  qed
  then show ?thesis
    by (cases s) (auto simp: validate_pkg_name_def Let_def not_less Suc_le_eq)
qed

lemma validate_pkg_name_panics_example:
  "validate_pkg_name (''caf'' @ [CHR 0xC3, CHR 0xA9]) = Panic"
  by code_simp

end
