(* ===== verification/Versions.thy ===== *)
theory Versions
  imports Names
begin

text \<open>
  Package versions (\<^verbatim>\<open>crates/spk-schema/crates/foundation/src/version/mod.rs\<close> and
  \<^verbatim>\<open>parts_iter.rs\<close>): release tag sets, version parts with their epsilon, equality, hashing
  and ordering, the display and storage iterators, printing and parsing.

  A \<open>TagSet\<close> is its \<open>BTreeMap\<close>. Equality and ordering ignore trailing zeros; \<open>version_key\<close> is
  the normal form they compare, and \<open>version_cmp\<close> is shown to be the lexicographic order of
  the keys. The iterators are records with a \<open>next\<close> function; collecting one is shown to pad
  or to normalise the parts.
\<close>

section \<open>Data\<close>

abbreviation VERSION_SEP :: char where "VERSION_SEP \<equiv> CHR ''.''"
abbreviation TAG_SET_SEP :: char where "TAG_SET_SEP \<equiv> CHR '',''"
abbreviation TAG_SEP :: char where "TAG_SEP \<equiv> CHR ''.''"

definition POSITION_LABELS :: "str list" where
  "POSITION_LABELS = [''Major'', ''Minor'', ''Patch'']"

definition SENTINEL_LABEL :: str where
  "SENTINEL_LABEL = ''Tail''"

definition get_version_position_label :: "nat \<Rightarrow> str" where
  "get_version_position_label pos =
     (if length POSITION_LABELS \<le> pos then SENTINEL_LABEL else POSITION_LABELS ! pos)"

type_synonym tag_set = "(str, u32) btree_map"

datatype epsilon = EpsMinus | EpsNone | EpsPlus

text \<open>The derived \<open>Ord\<close> of \<open>Epsilon\<close>: the order of its variants.\<close>

fun epsilon_rank :: "epsilon \<Rightarrow> nat" where
  "epsilon_rank EpsMinus = 0"
| "epsilon_rank EpsNone = 1"
| "epsilon_rank EpsPlus = 2"

instantiation epsilon :: linorder
begin

definition less_eq_epsilon :: "epsilon \<Rightarrow> epsilon \<Rightarrow> bool" where
  "less_eq_epsilon a b \<longleftrightarrow> epsilon_rank a \<le> epsilon_rank b"

definition less_epsilon :: "epsilon \<Rightarrow> epsilon \<Rightarrow> bool" where
  "less_epsilon a b \<longleftrightarrow> epsilon_rank a < epsilon_rank b"

instance
proof
  fix x y :: epsilon
  show "x \<le> y \<Longrightarrow> y \<le> x \<Longrightarrow> x = y"
    by (cases x; cases y) (auto simp: less_eq_epsilon_def)
qed (auto simp: less_eq_epsilon_def less_epsilon_def)

end

record version_parts =
  vp_parts :: "u32 list"
  vp_epsilon :: epsilon

record version =
  v_parts :: version_parts
  v_pre :: tag_set
  v_post :: tag_set

abbreviation parts_of :: "version \<Rightarrow> u32 list" where
  "parts_of v \<equiv> vp_parts (v_parts v)"

abbreviation epsilon_of :: "version \<Rightarrow> epsilon" where
  "epsilon_of v \<equiv> vp_epsilon (v_parts v)"

definition default_version :: version where
  "default_version = \<lparr>v_parts = \<lparr>vp_parts = [], vp_epsilon = EpsNone\<rparr>, v_pre = [], v_post = []\<rparr>"

definition from_parts :: "u32 list \<Rightarrow> version" where
  "from_parts ps = \<lparr>v_parts = \<lparr>vp_parts = ps, vp_epsilon = EpsNone\<rparr>, v_pre = [], v_post = []\<rparr>"

definition from_version_parts :: "version_parts \<Rightarrow> version" where
  "from_version_parts vp = \<lparr>v_parts = vp, v_pre = [], v_post = []\<rparr>"

definition new_version :: "u32 \<Rightarrow> u32 \<Rightarrow> u32 \<Rightarrow> version" where
  "new_version major minor patch = from_parts [major, minor, patch]"

definition part_or_zero :: "u32 list \<Rightarrow> nat \<Rightarrow> u32" where
  "part_or_zero ps i = (if i < length ps then ps ! i else 0)"

definition major :: "version \<Rightarrow> u32" where "major v = part_or_zero (parts_of v) 0"
definition minor :: "version \<Rightarrow> u32" where "minor v = part_or_zero (parts_of v) 1"
definition patch :: "version \<Rightarrow> u32" where "patch v = part_or_zero (parts_of v) 2"

definition minus_epsilon :: "version \<Rightarrow> version" where
  "minus_epsilon v = v\<lparr>v_parts := (v_parts v)\<lparr>vp_epsilon := EpsMinus\<rparr>\<rparr>"

definition plus_epsilon :: "version \<Rightarrow> version" where
  "plus_epsilon v = v\<lparr>v_parts := (v_parts v)\<lparr>vp_epsilon := EpsPlus\<rparr>\<rparr>"

definition is_zero :: "version \<Rightarrow> bool" where
  "is_zero v \<longleftrightarrow>
     (if v_pre v \<noteq> [] \<or> v_post v \<noteq> [] then False
      else \<not> list_ex (\<lambda>x. 0 < x) (parts_of v))"

section \<open>Tag sets\<close>

definition tag_set_single :: "str \<Rightarrow> u32 \<Rightarrow> tag_set" where
  "tag_set_single name num = bt_insert name num []"

definition tag_set_double :: "str \<Rightarrow> u32 \<Rightarrow> str \<Rightarrow> u32 \<Rightarrow> tag_set" where
  "tag_set_double name_1 value_1 name_2 value_2 =
     bt_insert name_2 value_2 (bt_insert name_1 value_1 [])"

fun show_tag :: "str \<times> u32 \<Rightarrow> str" where
  "show_tag (name, num) = name @ TAG_SEP # show_u32 num"

definition show_tag_set :: "tag_set \<Rightarrow> str" where
  "show_tag_set ts = join_str [TAG_SET_SEP] (map show_tag ts)"

fun cmp_entries :: "((str \<times> u32) \<times> (str \<times> u32)) list \<Rightarrow> ordering" where
  "cmp_entries [] = Equal"
| "cmp_entries (((self_name, self_value), (other_name, other_value)) # rest) =
     (case cmp_of self_name other_name of
        Equal \<Rightarrow> (case cmp_of self_value other_value of Equal \<Rightarrow> cmp_entries rest | res \<Rightarrow> res)
      | res \<Rightarrow> res)"

definition tag_set_cmp :: "tag_set \<Rightarrow> tag_set \<Rightarrow> ordering" where
  "tag_set_cmp self other =
     (case cmp_entries (zip (sort self) (sort other)) of
        Equal \<Rightarrow> cmp_of (length self) (length other)
      | res \<Rightarrow> res)"

section \<open>Parsing\<close>

datatype version_error =
    BadTagSegment str
  | DuplicateTag str
  | BadTagName name_error
  | NotAnInteger str nat str

type_synonym 'a version_result = "(version_error, 'a) outcome"

definition break_string :: "str \<Rightarrow> char \<Rightarrow> str \<times> str" where
  "break_string s sep = (case split_once sep s of Some p \<Rightarrow> p | None \<Rightarrow> (s, []))"

fun parse_tags :: "str list \<Rightarrow> tag_set \<Rightarrow> tag_set version_result" where
  "parse_tags [] acc = Ok acc"
| "parse_tags (tag # rest) acc =
     (let (name, num) = break_string tag TAG_SEP in
      if name = [] \<or> num = [] then Err (BadTagSegment tag)
      else if bt_contains_key acc name then Err (DuplicateTag name)
      else and_then (map_err BadTagName (validate_tag_name name)) (\<lambda>_.
        case parse_u32 num of
          Some n \<Rightarrow> parse_tags rest (bt_insert name n acc)
        | None \<Rightarrow> Err (BadTagSegment tag)))"

definition parse_tag_set :: "str \<Rightarrow> tag_set version_result" where
  "parse_tag_set tags = (if tags = [] then Ok [] else parse_tags (split_str TAG_SET_SEP tags) [])"

fun parse_parts :: "str \<Rightarrow> nat \<Rightarrow> str list \<Rightarrow> u32 list version_result" where
  "parse_parts version i [] = Ok []"
| "parse_parts version i (p # ps) =
     (case parse_u32 p of
        Some n \<Rightarrow> and_then (parse_parts version (i + 1) ps) (\<lambda>ns. Ok (n # ns))
      | None \<Rightarrow> Err (NotAnInteger p i version))"

definition parse_version :: "str \<Rightarrow> version version_result" where
  "parse_version version =
     (if version = [] then Ok default_version
      else (let (version, post) = break_string version CHR ''+'';
                (version, pre) = break_string version CHR ''-'' in
            and_then (parse_parts version 0 (split_str VERSION_SEP version)) (\<lambda>parts.
            and_then (parse_tag_set pre) (\<lambda>pre.
            and_then (parse_tag_set post) (\<lambda>post.
              Ok ((from_parts parts)\<lparr>v_pre := pre, v_post := post\<rparr>))))))"

section \<open>Equality, hashing and ordering\<close>

definition rposition :: "('a \<Rightarrow> bool) \<Rightarrow> 'a list \<Rightarrow> nat option" where
  "rposition p xs =
     (case filter (\<lambda>i. p (xs ! i)) [0..<length xs] of [] \<Rightarrow> None | is \<Rightarrow> Some (last is))"

definition strip_trailing_zeros :: "version_parts \<Rightarrow> version_parts" where
  "strip_trailing_zeros self =
     (case rposition (\<lambda>p. p \<noteq> 0) (vp_parts self) of
        Some index_of_last_non_zero \<Rightarrow>
          if index_of_last_non_zero = length (vp_parts self) - 1 then self
          else \<lparr>vp_parts = take (index_of_last_non_zero + 1) (vp_parts self),
                vp_epsilon = vp_epsilon self\<rparr>
      | None \<Rightarrow> \<lparr>vp_parts = [0], vp_epsilon = vp_epsilon self\<rparr>)"

definition version_parts_eq :: "version_parts \<Rightarrow> version_parts \<Rightarrow> bool" where
  "version_parts_eq self other \<longleftrightarrow>
     (if vp_epsilon self \<noteq> vp_epsilon other then False
      else (case (rposition (\<lambda>d. d \<noteq> 0) (vp_parts self), rposition (\<lambda>d. d \<noteq> 0) (vp_parts other)) of
              (Some self_last, Some other_last) \<Rightarrow>
                take (self_last + 1) (vp_parts self) = take (other_last + 1) (vp_parts other)
            | (None, None) \<Rightarrow> True
            | _ \<Rightarrow> False))"

text \<open>What the \<open>Hash\<close> implementation feeds to the hasher: a slice of the parts, if any, and the
  epsilon.\<close>

definition version_parts_hash :: "version_parts \<Rightarrow> u32 list option \<times> epsilon" where
  "version_parts_hash self =
     (map_option (\<lambda>last_nonzero. take (last_nonzero + 1) (vp_parts self))
        (rposition (\<lambda>d. d \<noteq> 0) (vp_parts self)),
      vp_epsilon self)"

definition version_eq :: "version \<Rightarrow> version \<Rightarrow> bool" where
  "version_eq self other \<longleftrightarrow>
     version_parts_eq (v_parts self) (v_parts other)
     \<and> v_pre self = v_pre other \<and> v_post self = v_post other"

definition version_eq_str :: "version \<Rightarrow> str \<Rightarrow> bool version_result" where
  "version_eq_str self other =
     (case parse_version other of Ok v \<Rightarrow> Ok (version_eq self v) | Err _ \<Rightarrow> Ok False | Panic \<Rightarrow> Panic)"

fun cmp_parts :: "u32 list \<Rightarrow> u32 list \<Rightarrow> ordering" where
  "cmp_parts [] other_parts =
     (case iter_max cmp_of other_parts of
        None \<Rightarrow> Equal
      | Some m \<Rightarrow> if m = 0 then Equal else Less)"
| "cmp_parts (self_part # ss) (other_part # os) =
     (case cmp_of self_part other_part of Equal \<Rightarrow> cmp_parts ss os | res \<Rightarrow> res)"
| "cmp_parts (self_part # ss) [] = (if self_part = 0 then cmp_parts ss [] else Greater)"

definition version_cmp :: "version \<Rightarrow> version \<Rightarrow> ordering" where
  "version_cmp self other =
     (case cmp_parts (parts_of self) (parts_of other) of
        Equal \<Rightarrow>
          (case cmp_of (epsilon_of self) (epsilon_of other) of
             Equal \<Rightarrow>
               (case (if v_pre self = [] \<and> v_pre other = [] then Equal
                      else if v_pre self = [] then Greater
                      else if v_pre other = [] then Less
                      else tag_set_cmp (v_pre self) (v_pre other)) of
                  Equal \<Rightarrow> tag_set_cmp (v_post self) (v_post other)
                | cmp \<Rightarrow> cmp)
           | cmp \<Rightarrow> cmp)
      | cmp \<Rightarrow> cmp)"

section \<open>The part iterators and printing\<close>

abbreviation MINIMUM_PARTS_FOR_DISPLAY :: nat where "MINIMUM_PARTS_FOR_DISPLAY \<equiv> 3"
abbreviation MINIMUM_PARTS_FOR_STORAGE :: nat where "MINIMUM_PARTS_FOR_STORAGE \<equiv> 3"

record normalized_parts_iter =
  ni_parts :: "u32 list"
  ni_pos :: nat
  ni_skipped_zeros :: nat
  ni_next_non_zero :: "u32 option"

definition normalized_parts_iter_new :: "u32 list \<Rightarrow> normalized_parts_iter" where
  "normalized_parts_iter_new ps =
     \<lparr>ni_parts = ps, ni_pos = 0, ni_skipped_zeros = 0, ni_next_non_zero = None\<rparr>"

function normalized_loop :: "normalized_parts_iter \<Rightarrow> u32 option \<times> normalized_parts_iter" where
  "normalized_loop self =
     (case ni_next_non_zero self of
        Some non_zero \<Rightarrow>
          if 0 < ni_skipped_zeros self
          then (Some 0, self\<lparr>ni_skipped_zeros := ni_skipped_zeros self - 1\<rparr>)
          else (Some non_zero, self\<lparr>ni_next_non_zero := None\<rparr>)
      | None \<Rightarrow>
          (case ni_parts self of
             [] \<Rightarrow> if ni_pos self - 1 < MINIMUM_PARTS_FOR_STORAGE then (Some 0, self) else (None, self)
           | next # rest \<Rightarrow>
               if next = 0
               then normalized_loop (self\<lparr>ni_parts := rest, ni_skipped_zeros := ni_skipped_zeros self + 1\<rparr>)
               else normalized_loop (self\<lparr>ni_parts := rest, ni_next_non_zero := Some next\<rparr>)))"
  by pat_completeness auto
termination
  by (relation "measure (\<lambda>it. length (ni_parts it))") auto

declare normalized_loop.simps [simp del]

definition normalized_next :: "normalized_parts_iter \<Rightarrow> u32 option \<times> normalized_parts_iter" where
  "normalized_next self = normalized_loop (self\<lparr>ni_pos := ni_pos self + 1\<rparr>)"

record minimum_parts_iter =
  mi_parts :: "u32 list"
  mi_minimum_parts :: nat
  mi_pos :: nat

definition minimum_parts_iter_new :: "u32 list \<Rightarrow> nat \<Rightarrow> minimum_parts_iter" where
  "minimum_parts_iter_new ps n = \<lparr>mi_parts = ps, mi_minimum_parts = n, mi_pos = 0\<rparr>"

definition minimum_next :: "minimum_parts_iter \<Rightarrow> u32 option \<times> minimum_parts_iter" where
  "minimum_next it =
     (let self = it\<lparr>mi_pos := mi_pos it + 1\<rparr> in
      case mi_parts self of
        part # rest \<Rightarrow> (Some part, self\<lparr>mi_parts := rest\<rparr>)
      | [] \<Rightarrow> if mi_pos self - 1 < mi_minimum_parts self then (Some 0, self) else (None, self))"

text \<open>
  Collecting an iterator. Each \<open>next\<close> that yields a part consumes one of what is left of the
  parts, or, past them, one of the positions below the minimum.
\<close>

definition normalized_left :: "normalized_parts_iter \<Rightarrow> nat" where
  "normalized_left it = length (ni_parts it) + ni_skipped_zeros it
     + (if ni_next_non_zero it = None then 0 else 1)"

lemma normalized_loop_left:
  assumes "normalized_loop it = (Some x, it')"
  shows "ni_pos it' = ni_pos it \<and>
    (normalized_left it' < normalized_left it \<or>
     normalized_left it' = normalized_left it \<and> ni_pos it - 1 < MINIMUM_PARTS_FOR_STORAGE)"
  using assms
proof (induction it rule: normalized_loop.induct)
  case (1 it)
  then show ?case
    by (subst (asm) (3) normalized_loop.simps)
      (auto simp: normalized_left_def split: option.splits list.splits if_splits)
qed

function collect_normalized :: "normalized_parts_iter \<Rightarrow> u32 list" where
  "collect_normalized it =
     (case normalized_next it of (Some x, it') \<Rightarrow> x # collect_normalized it' | (None, _) \<Rightarrow> [])"
  by pat_completeness auto
termination
proof (relation "measure (\<lambda>it. normalized_left it + (MINIMUM_PARTS_FOR_STORAGE - ni_pos it))")
  fix it y it' x
  assume eq: "(y, it') = normalized_next it" "y = Some x"
  then have "normalized_loop (it\<lparr>ni_pos := ni_pos it + 1\<rparr>) = (Some x, it')"
    by (simp add: normalized_next_def)
  from normalized_loop_left [OF this]
  show "(it', it) \<in> measure (\<lambda>it. normalized_left it + (MINIMUM_PARTS_FOR_STORAGE - ni_pos it))"
    by (auto simp: normalized_left_def)
qed simp

declare collect_normalized.simps [simp del]

function collect_minimum :: "minimum_parts_iter \<Rightarrow> u32 list" where
  "collect_minimum it =
     (case minimum_next it of (Some x, it') \<Rightarrow> x # collect_minimum it' | (None, _) \<Rightarrow> [])"
  by pat_completeness auto
termination
  by (relation "measure (\<lambda>it. length (mi_parts it) + (mi_minimum_parts it - mi_pos it))")
    (auto simp: minimum_next_def Let_def split: list.splits if_splits)

declare collect_minimum.simps [simp del]

definition iter_for_display :: "version_parts \<Rightarrow> nat \<Rightarrow> u32 list" where
  "iter_for_display self minimum_parts =
     collect_minimum (minimum_parts_iter_new (vp_parts self) minimum_parts)"

definition iter_for_storage :: "version_parts \<Rightarrow> u32 list" where
  "iter_for_storage self = collect_normalized (normalized_parts_iter_new (vp_parts self))"

definition show_parts :: "u32 list \<Rightarrow> str" where
  "show_parts ps = join_str [VERSION_SEP] (map show_u32 ps)"

text \<open>The greek letter of the epsilon suffix is the two bytes \<open>CE B5\<close>.\<close>

definition show_base :: "version \<Rightarrow> u32 list \<Rightarrow> str" where
  "show_base self ps =
     (let s = show_parts ps;
          s = (if s = [] then ''0'' else s) in
      case epsilon_of self of
        EpsNone \<Rightarrow> s
      | EpsPlus \<Rightarrow> s @ [CHR ''+'', CHR 0xCE, CHR 0xB5]
      | EpsMinus \<Rightarrow> s @ [CHR ''-'', CHR 0xCE, CHR 0xB5])"

definition base_normalized :: "version \<Rightarrow> str" where
  "base_normalized self =
     show_base self (iter_for_display (v_parts self) MINIMUM_PARTS_FOR_DISPLAY)"

definition base_verbatim :: "version \<Rightarrow> str" where
  "base_verbatim self = show_base self (parts_of self)"

definition format_tags :: "version \<Rightarrow> str" where
  "format_tags self =
     (if v_pre self \<noteq> [] then CHR ''-'' # show_tag_set (v_pre self) else [])
     @ (if v_post self \<noteq> [] then CHR ''+'' # show_tag_set (v_post self) else [])"

text \<open>\<open>Display\<close> of a version: \<open>show_version\<close> is \<open>{}\<close>, \<open>show_version_alt\<close> is \<open>{:#}\<close>.\<close>

definition show_version :: "version \<Rightarrow> str" where
  "show_version self = base_normalized self @ format_tags self"

definition show_version_alt :: "version \<Rightarrow> str" where
  "show_version_alt self = base_verbatim self @ format_tags self"

definition to_storage_string :: "version \<Rightarrow> str" where
  "to_storage_string self =
     show_parts (iter_for_storage (v_parts self))
     @ (if v_pre self = [] then [] else ''-'') @ show_tag_set (v_pre self)
     @ (if v_post self = [] then [] else ''+'') @ show_tag_set (v_post self)"

definition tag_path :: "version \<Rightarrow> str" where
  "tag_path self =
     show_parts (iter_for_storage (v_parts self))
     @ (if v_pre self = [] then [] else ''-'') @ show_tag_set (v_pre self)
     @ (if v_post self = [] then [] else ''..'') @ show_tag_set (v_post self)"

definition verbatim_tag_path :: "version \<Rightarrow> str" where
  "verbatim_tag_path self =
     show_parts (iter_for_display (v_parts self) 1)
     @ (if v_pre self = [] then [] else ''-'') @ show_tag_set (v_pre self)
     @ (if v_post self = [] then [] else ''..'') @ show_tag_set (v_post self)"

definition metadata_path :: "version \<Rightarrow> str" where
  "metadata_path self = show_version self"

section \<open>Normal form of the parts\<close>

text \<open>The reference definition of "no trailing zeros".\<close>

definition strip_zeros :: "u32 list \<Rightarrow> u32 list" where
  "strip_zeros ps = rev (dropWhile (\<lambda>p. p = 0) (rev ps))"

lemma strip_zeros_simps [simp]:
  "strip_zeros [] = []"
  "strip_zeros (ps @ [p]) = (if p = 0 then strip_zeros ps else ps @ [p])"
  by (simp_all add: strip_zeros_def)

lemma strip_zeros_Cons:
  "strip_zeros (p # ps) = (if p = 0 \<and> strip_zeros ps = [] then [] else p # strip_zeros ps)"
  by (induction ps rule: rev_induct) (auto simp: strip_zeros_def dropWhile_append)

lemma strip_zeros_idem [simp]: "strip_zeros (strip_zeros ps) = strip_zeros ps"
  by (induction ps rule: rev_induct) auto

lemma strip_zeros_eq_Nil: "strip_zeros ps = [] \<longleftrightarrow> (\<forall>p \<in> set ps. p = 0)"
  by (induction ps) (auto simp: strip_zeros_Cons)

lemma strip_zeros_append_zeros [simp]: "strip_zeros (ps @ replicate n 0) = strip_zeros ps"
  by (induction n) (auto simp: replicate_append_same [symmetric] simp flip: append_assoc)

lemma rposition_snoc:
  "rposition p (xs @ [x]) = (if p x then Some (length xs) else rposition p xs)"
proof -
  have "filter (\<lambda>i. p ((xs @ [x]) ! i)) [0..<length xs] = filter (\<lambda>i. p (xs ! i)) [0..<length xs]"
    by (rule filter_cong) (auto simp: nth_append)
  then show ?thesis
    by (cases "filter (\<lambda>i. p (xs ! i)) [0..<length xs]") (auto simp: rposition_def)
qed

lemma rposition_Nil [simp]: "rposition p [] = None"
  by (simp add: rposition_def)

lemma take_strip_zeros [simp]: "take (length (strip_zeros ps)) ps = strip_zeros ps"
  by (induction ps) (auto simp: strip_zeros_Cons)

lemma length_strip_zeros: "length (strip_zeros ps) \<le> length ps"
  by (metis length_take min.cobounded1 take_strip_zeros)

lemma rposition_nonzero:
  "rposition (\<lambda>d. d \<noteq> 0) ps =
     (if strip_zeros ps = [] then None else Some (length (strip_zeros ps) - 1))"
  by (induction ps rule: rev_induct) (auto simp: rposition_snoc)

lemma version_parts_eq_strip:
  "version_parts_eq a b \<longleftrightarrow>
     vp_epsilon a = vp_epsilon b \<and> strip_zeros (vp_parts a) = strip_zeros (vp_parts b)"
  by (auto simp: version_parts_eq_def rposition_nonzero)

lemma strip_trailing_zeros_parts:
  "vp_parts (strip_trailing_zeros vp) =
     (if strip_zeros (vp_parts vp) = [] then [0] else strip_zeros (vp_parts vp))"
proof -
  let ?ps = "vp_parts vp"
  have "strip_zeros ?ps = ?ps"
    if eq: "length (strip_zeros ?ps) - 1 = length ?ps - 1" and ne: "strip_zeros ?ps \<noteq> []"
  proof -
    have "0 < length (strip_zeros ?ps)" using ne by simp
    with eq length_strip_zeros [of ?ps] have "length (strip_zeros ?ps) = length ?ps" by linarith
    with take_strip_zeros [of ?ps] show ?thesis by (metis order_refl take_all)
  qed
  then show ?thesis
    by (auto simp: strip_trailing_zeros_def rposition_nonzero)
qed

lemma version_parts_hash_eq:
  "version_parts_hash vp =
     (if strip_zeros (vp_parts vp) = [] then None else Some (strip_zeros (vp_parts vp)), vp_epsilon vp)"
  by (auto simp: version_parts_hash_def rposition_nonzero)

section \<open>The comparison is the order of the keys\<close>

type_synonym version_key_type =
  "u32 list \<times> epsilon \<times> (bool \<times> tag_set) \<times> tag_set"

definition version_key :: "version \<Rightarrow> version_key_type" where
  "version_key v =
     (strip_zeros (parts_of v), epsilon_of v, (v_pre v = [], sort (v_pre v)), sort (v_post v))"

lemma cmp_entries_lex:
  "(case cmp_entries (zip xs ys) of Equal \<Rightarrow> cmp_of (length xs) (length ys) | r \<Rightarrow> r) = cmp_of xs ys"
proof (induction xs ys rule: list_induct2')
  case (4 x xs y ys)
  have "cmp_of (length (x # xs)) (length (y # ys)) = cmp_of (length xs) (length ys)"
    by (simp add: cmp_of_def)
  with 4 show ?case
    by (cases x; cases y) (simp add: cmp_of_Cons cmp_of_pair split: ordering.splits del: cmp_of_iff)
qed auto

lemma tag_set_cmp_lex: "tag_set_cmp a b = cmp_of (sort a) (sort b)"
  using cmp_entries_lex [of "sort a" "sort b"] 
  by (simp add: tag_set_cmp_def split: ordering.splits)

interpretation u32_ord: ord_laws "cmp_of :: u32 \<Rightarrow> u32 \<Rightarrow> ordering"
  using ord_laws_key [of "\<lambda>x. x"] by simp

lemma iter_max_zeros:
  "(case iter_max cmp_of ps of None \<Rightarrow> True | Some m \<Rightarrow> m = 0) \<longleftrightarrow> strip_zeros ps = []"
proof (cases "iter_max cmp_of ps")
  case (Some m)
  with u32_ord.iter_max_Some [OF Some] show ?thesis
    by (auto simp: strip_zeros_eq_Nil not_less intro: antisym word_coorder.extremum_uniqueI)
qed auto

lemma cmp_parts_Nil: "cmp_parts [] ps = (if strip_zeros ps = [] then Equal else Less)"
  using iter_max_zeros [of ps] by (auto split: option.splits)

lemma cmp_parts_strip: "cmp_parts ps qs = cmp_of (strip_zeros ps) (strip_zeros qs)"
proof (induction ps qs rule: cmp_parts.induct)
  case (1 qs)
  then show ?case by (simp add: cmp_parts_Nil del: cmp_parts.simps)
next
  case (2 p ps q qs)
  have gt: "0 < x" if "x \<noteq> 0" for x :: u32 using that by (simp add: word_neq_0_conv)
  show ?case
  proof (cases "p = q")
    case True
    with 2 show ?thesis by (auto simp: strip_zeros_Cons cmp_of_Cons)
  next
    case False
    then have "cmp_of p q \<noteq> Equal" by simp
    with False gt show ?thesis
      by (cases "cmp_of p q") (auto simp: strip_zeros_Cons cmp_of_Cons)
  qed
next
  case (3 p ps)
  then show ?case by (simp add: strip_zeros_Cons)
qed

lemma version_cmp_key: "version_cmp v w = cmp_of (version_key v) (version_key w)"
proof -
  have "(if v_pre v = [] \<and> v_pre w = [] then Equal else if v_pre v = [] then Greater
         else if v_pre w = [] then Less else tag_set_cmp (v_pre v) (v_pre w))
      = cmp_of (v_pre v = [], sort (v_pre v)) (v_pre w = [], sort (v_pre w))"
    by (auto simp: cmp_of_pair tag_set_cmp_lex cmp_of_def [where 'a = bool])
  then show ?thesis
    by (simp add: version_cmp_def version_key_def cmp_of_pair cmp_parts_strip tag_set_cmp_lex
        split: ordering.splits)
qed

interpretation version_ord: ord_laws version_cmp
  using ord_laws_key [of version_key] by (simp add: version_cmp_key [abs_def])

text \<open>The invariant of a version: its tag sets are ordered maps.\<close>

definition version_wf :: "version \<Rightarrow> bool" where
  "version_wf v \<longleftrightarrow> bt_wf (v_pre v) \<and> bt_wf (v_post v)"

lemma version_eq_key:
  assumes "version_wf v" "version_wf w"
  shows "version_eq v w \<longleftrightarrow> version_key v = version_key w"
  using assms by (auto simp: version_eq_def version_parts_eq_strip version_key_def version_wf_def)

section \<open>What the iterators yield\<close>

definition pad_zeros :: "nat \<Rightarrow> u32 list \<Rightarrow> u32 list" where
  "pad_zeros n ps = ps @ replicate (n - length ps) 0"

lemma collect_minimum_eq:
  "collect_minimum it = mi_parts it @ replicate (mi_minimum_parts it - (mi_pos it + length (mi_parts it))) 0"
proof (induction it rule: collect_minimum.induct)
  case (1 it)
  show ?case
  proof (cases "mi_parts it")
    case Nil
    then show ?thesis
      using 1 by (subst collect_minimum.simps)
        (auto simp: minimum_next_def Let_def replicate_Suc [symmetric] Suc_diff_Suc
          simp del: replicate_Suc)
  next
    case (Cons p ps)
    then show ?thesis
      using 1 by (subst collect_minimum.simps) (auto simp: minimum_next_def Let_def)
  qed
qed

lemma iter_for_display_eq: "iter_for_display vp n = pad_zeros n (vp_parts vp)"
  by (simp add: iter_for_display_def minimum_parts_iter_new_def collect_minimum_eq pad_zeros_def)

text \<open>What a normalising iterator still has to yield, before the padding.\<close>

definition normalized_body :: "normalized_parts_iter \<Rightarrow> u32 list" where
  "normalized_body it = strip_zeros
     (replicate (ni_skipped_zeros it) 0
      @ (case ni_next_non_zero it of Some x \<Rightarrow> [x] | None \<Rightarrow> []) @ ni_parts it)"

lemma strip_zeros_replicate_Nil [simp]: "strip_zeros (replicate n 0) = []"
  by (simp add: strip_zeros_eq_Nil)

lemma strip_zeros_zeros_Cons:
  "x \<noteq> 0 \<Longrightarrow> strip_zeros (replicate n 0 @ x # ps) = replicate n 0 @ x # strip_zeros ps"
  by (induction n) (auto simp: strip_zeros_Cons)

lemma normalized_loop_body:
  assumes "ni_next_non_zero it \<noteq> Some 0"
  shows "case normalized_loop it of
      (Some x, it') \<Rightarrow> ni_next_non_zero it' \<noteq> Some 0 \<and> ni_pos it' = ni_pos it \<and>
        (normalized_body it = x # normalized_body it' \<or>
         normalized_body it = [] \<and> normalized_body it' = [] \<and> x = 0
           \<and> ni_pos it - 1 < MINIMUM_PARTS_FOR_STORAGE)
    | (None, it') \<Rightarrow> normalized_body it = [] \<and> \<not> ni_pos it - 1 < MINIMUM_PARTS_FOR_STORAGE"
  using assms
proof (induction it rule: normalized_loop.induct)
  case (1 it)
  show ?case
  proof (cases "ni_next_non_zero it")
    case (Some x)
    then show ?thesis
      using "1.prems" by (subst normalized_loop.simps)
        (cases "ni_skipped_zeros it"; simp add: normalized_body_def strip_zeros_zeros_Cons strip_zeros_Cons)
  next
    case None
    note nz = this
    show ?thesis
    proof (cases "ni_parts it")
      case Nil
      with nz show ?thesis by (subst normalized_loop.simps) (simp add: normalized_body_def)
    next
      case (Cons p ps)
      let ?next = "if p = 0 then it\<lparr>ni_parts := ps, ni_skipped_zeros := ni_skipped_zeros it + 1\<rparr>
        else it\<lparr>ni_parts := ps, ni_next_non_zero := Some p\<rparr>"
      have "normalized_loop it = normalized_loop ?next"
        using nz Cons by (subst normalized_loop.simps) simp
      moreover have "normalized_body ?next = normalized_body it"
        using nz Cons by (auto simp: normalized_body_def replicate_app_Cons_same)
      moreover have "ni_pos ?next = ni_pos it" "ni_next_non_zero ?next \<noteq> Some 0"
        using nz by auto
      ultimately show ?thesis
        using "1.IH" nz Cons by (cases "p = 0") (auto split: prod.splits option.splits)
    qed
  qed
qed

lemma collect_normalized_eq:
  assumes "ni_next_non_zero it \<noteq> Some 0"
  shows "collect_normalized it = normalized_body it
    @ replicate (MINIMUM_PARTS_FOR_STORAGE - (ni_pos it + length (normalized_body it))) 0"
  using assms
proof (induction it rule: collect_normalized.induct)
  case (1 it)
  let ?it = "it\<lparr>ni_pos := ni_pos it + 1\<rparr>"
  have nz: "ni_next_non_zero ?it \<noteq> Some 0" using "1.prems" by simp
  have body: "normalized_body ?it = normalized_body it" by (simp add: normalized_body_def)
  show ?case
  proof (cases "normalized_loop ?it")
    case (Pair r it')
    then have step: "normalized_next it = (r, it')" by (simp add: normalized_next_def)
    show ?thesis
    proof (cases r)
      case None
      then show ?thesis
        using normalized_loop_body [OF nz] Pair body step
        by (subst collect_normalized.simps) simp
    next
      case (Some x)
      have facts: "ni_next_non_zero it' \<noteq> Some 0" "ni_pos it' = ni_pos it + 1"
        "normalized_body it = x # normalized_body it' \<or> normalized_body it = []
           \<and> normalized_body it' = [] \<and> x = 0 \<and> ni_pos it < MINIMUM_PARTS_FOR_STORAGE"
        using normalized_loop_body [OF nz] Pair body Some by auto
      have "collect_normalized it = x # collect_normalized it'"
        using step Some by (subst collect_normalized.simps) simp
      also have "collect_normalized it' = normalized_body it'
          @ replicate (MINIMUM_PARTS_FOR_STORAGE - (ni_pos it' + length (normalized_body it'))) 0"
        using "1.IH" step Some facts(1) by simp
      finally show ?thesis
        using facts(2,3) by (auto simp: replicate_Suc [symmetric] Suc_diff_Suc simp del: replicate_Suc)
    qed
  qed
qed

lemma iter_for_storage_eq:
  "iter_for_storage vp = pad_zeros MINIMUM_PARTS_FOR_STORAGE (strip_zeros (vp_parts vp))"
  by (simp add: iter_for_storage_def normalized_parts_iter_new_def collect_normalized_eq
      normalized_body_def pad_zeros_def)

lemma strip_pad_zeros [simp]: "strip_zeros (pad_zeros n ps) = strip_zeros ps"
  by (simp add: pad_zeros_def)

lemma pad_zeros_not_Nil [simp]: "pad_zeros 3 ps \<noteq> []" "pad_zeros 1 ps \<noteq> []"
  by (cases ps; simp add: pad_zeros_def)+

section \<open>Parsing what was printed\<close>

text \<open>The tag sets and versions a parser can return.\<close>

definition tag_name_valid :: "str \<Rightarrow> bool" where
  "tag_name_valid name \<longleftrightarrow> name \<noteq> [] \<and> list_all is_ascii_alphanumeric name"

definition tag_set_valid :: "tag_set \<Rightarrow> bool" where
  "tag_set_valid ts \<longleftrightarrow> bt_wf ts \<and> list_all tag_name_valid (map fst ts)"

definition version_valid :: "version \<Rightarrow> bool" where
  "version_valid v \<longleftrightarrow>
     tag_set_valid (v_pre v) \<and> tag_set_valid (v_post v) \<and> epsilon_of v = EpsNone"

lemma version_valid_wf [simp]: "version_valid v \<Longrightarrow> version_wf v"
  by (simp add: version_valid_def version_wf_def tag_set_valid_def)

lemma tag_name_chars:
  assumes "tag_name_valid name"
  shows "CHR ''.'' \<notin> set name" "CHR '','' \<notin> set name" "CHR ''+'' \<notin> set name" "CHR ''-'' \<notin> set name"
  using assms valid_char_facts(5-8) by (auto simp: tag_name_valid_def list_all_iff)

lemma show_u32_chars [simp]:
  "CHR ''.'' \<notin> set (show_u32 x)" "CHR '','' \<notin> set (show_u32 x)"
  "CHR ''+'' \<notin> set (show_u32 x)" "CHR ''-'' \<notin> set (show_u32 x)"
  by (rule not_in_show_u32; simp)+

lemma break_string_simps [simp]:
  "sep \<notin> set a \<Longrightarrow> break_string (a @ sep # b) sep = (a, b)"
  "sep \<notin> set a \<Longrightarrow> break_string a sep = (a, [])"
  by (simp_all add: break_string_def)

lemma parse_tags_show:
  assumes "bt_wf (acc @ ts)" and "list_all tag_name_valid (map fst ts)"
  shows "parse_tags (map show_tag ts) acc = Ok (acc @ ts)"
  using assms
proof (induction ts arbitrary: acc)
  case (Cons t ts)
  obtain name num where t: "t = (name, num)" by (cases t)
  from Cons.prems t have valid: "tag_name_valid name" by simp
  then have ok: "validate_tag_name name = Ok ()" "name \<noteq> []"
    by (auto simp: validate_tag_name_Ok_iff tag_name_valid_def)
  have new: "\<not> bt_contains_key acc name" "bt_wf (acc @ [(name, num)])"
    using Cons.prems(1) t by (auto simp: bt_wf_append bt_contains_key_def)
  have "parse_tags (map show_tag ts) (acc @ [(name, num)]) = Ok (acc @ t # ts)"
    using Cons.IH [of "acc @ [(name, num)]"] Cons.prems t by simp
  then show ?case
    using t ok new tag_name_chars(1) [OF valid] by (simp add: bt_insert_append)
qed simp

lemma show_tag_facts:
  assumes "tag_set_valid ts" "p \<in> set (map show_tag ts)"
  shows "CHR '','' \<notin> set p" "CHR ''+'' \<notin> set p" "CHR ''-'' \<notin> set p" "p \<noteq> []"
  using assms tag_name_chars by (auto simp: tag_set_valid_def list_all_iff)

lemma show_tag_set_chars:
  assumes "tag_set_valid ts"
  shows "CHR ''+'' \<notin> set (show_tag_set ts)" "CHR ''-'' \<notin> set (show_tag_set ts)"
proof -
  have "set (show_tag_set ts) \<subseteq> {CHR '',''} \<union> (\<Union>p \<in> set (map show_tag ts). set p)"
    using set_join_str [of "[TAG_SET_SEP]" "map show_tag ts"] by (simp add: show_tag_set_def)
  moreover have "CHR ''+'' \<notin> (\<Union>p \<in> set (map show_tag ts). set p)"
    "CHR ''-'' \<notin> (\<Union>p \<in> set (map show_tag ts). set p)"
    using show_tag_facts [OF assms] by blast+
  ultimately show "CHR ''+'' \<notin> set (show_tag_set ts)" "CHR ''-'' \<notin> set (show_tag_set ts)"
    by auto
qed

lemma show_tag_set_Nil_iff:
  assumes "tag_set_valid ts"
  shows "show_tag_set ts = [] \<longleftrightarrow> ts = []"
proof -
  have "[] \<notin> set (map show_tag ts)" using show_tag_facts(4) [OF assms] by blast
  from join_str_eq_Nil [OF this, of "[TAG_SET_SEP]"] show ?thesis by (simp add: show_tag_set_def)
qed

lemma parse_show_tag_set:
  assumes "tag_set_valid ts"
  shows "parse_tag_set (show_tag_set ts) = Ok ts"
proof (cases "ts = []")
  case True
  then show ?thesis by (simp add: parse_tag_set_def show_tag_set_def)
next
  case False
  then have "split_str TAG_SET_SEP (show_tag_set ts) = map show_tag ts"
    using show_tag_facts [OF assms] unfolding show_tag_set_def by (intro split_join_str) auto
  moreover have "show_tag_set ts \<noteq> []" using False assms show_tag_set_Nil_iff by blast
  ultimately show ?thesis
    using assms parse_tags_show [of "[]" ts] by (simp add: parse_tag_set_def tag_set_valid_def)
qed

lemma parse_parts_show: "parse_parts v i (map show_u32 ps) = Ok ps"
  by (induction ps arbitrary: i) auto

lemma show_parts_chars: "CHR ''+'' \<notin> set (show_parts ps)" "CHR ''-'' \<notin> set (show_parts ps)"
  using set_join_str [of "[VERSION_SEP]" "map show_u32 ps"] unfolding show_parts_def by auto

lemma show_parts_Nil_iff [simp]: "show_parts ps = [] \<longleftrightarrow> ps = []"
proof -
  have "[] \<notin> set (map show_u32 ps)" by (metis imageE list.set_map show_u32_not_Nil)
  from join_str_eq_Nil [OF this, of "[VERSION_SEP]"] show ?thesis by (simp add: show_parts_def)
qed

lemma split_show_parts: "ps \<noteq> [] \<Longrightarrow> split_str VERSION_SEP (show_parts ps) = map show_u32 ps"
  unfolding show_parts_def by (rule split_join_str) auto

lemma parse_version_shown:
  assumes "ps \<noteq> []" "tag_set_valid pre" "tag_set_valid post"
  shows "parse_version (show_parts ps @ (if pre = [] then [] else CHR ''-'' # show_tag_set pre)
      @ (if post = [] then [] else CHR ''+'' # show_tag_set post))
    = Ok ((from_parts ps)\<lparr>v_pre := pre, v_post := post\<rparr>)"
proof -
  let ?head = "show_parts ps @ (if pre = [] then [] else CHR ''-'' # show_tag_set pre)"
  have plus: "CHR ''+'' \<notin> set ?head"
    using show_parts_chars show_tag_set_chars assms by auto
  have b1: "break_string (?head @ (if post = [] then [] else CHR ''+'' # show_tag_set post)) CHR ''+''
      = (?head, show_tag_set post)"
    using plus by (cases "post = []") (simp_all add: show_tag_set_def del: append_assoc)
  have b2: "break_string ?head CHR ''-'' = (show_parts ps, show_tag_set pre)"
    using show_parts_chars by (cases "pre = []") (simp_all add: show_tag_set_def)
  show ?thesis
    using b1 b2 assms
    by (simp add: parse_version_def parse_parts_show split_show_parts parse_show_tag_set
        from_parts_def)
qed

lemma parse_tags_valid:
  assumes "parse_tags tags acc = Ok ts" "tag_set_valid acc"
  shows "tag_set_valid ts"
  using assms
proof (induction tags acc rule: parse_tags.induct)
  case (2 tag rest acc)
  obtain name num where b: "break_string tag TAG_SEP = (name, num)" by fastforce
  with "2.prems"(1) obtain n where facts: "name \<noteq> []" "validate_tag_name name = Ok ()"
    "parse_tags rest (bt_insert name n acc) = Ok ts" "num \<noteq> []"
    "\<not> bt_contains_key acc name" "parse_u32 num = Some n"
    by (auto split: if_splits option.splits)
  then have "tag_name_valid name" by (simp add: tag_name_valid_def validate_tag_name_Ok_iff)
  then have "tag_set_valid (bt_insert name n acc)"
    using "2.prems"(2) by (auto simp: tag_set_valid_def list_all_iff)
  with "2.IH" b facts show ?case by auto
qed simp

lemma parse_tag_set_valid: "parse_tag_set s = Ok ts \<Longrightarrow> tag_set_valid ts"
  using parse_tags_valid by (auto simp: parse_tag_set_def tag_set_valid_def split: if_splits)

lemma parsed_version_valid: "parse_version s = Ok v \<Longrightarrow> version_valid v"
  using parse_tag_set_valid
  by (auto simp: parse_version_def version_valid_def default_version_def from_parts_def
      tag_set_valid_def Let_def split: if_splits prod.splits)

lemma validate_tag_name_panics:
  assumes "validate_tag_name s = Panic"
  shows "\<exists>c \<in> set s. is_continuation c"
proof -
  let ?v = is_ascii_alphanumeric
  have "-1 < validate_source_str s ?v"
    and panic: "invalid_char_error TagName s (nat (validate_source_str s ?v)) = (Panic :: unit name_result)"
    using assms by (auto simp: validate_tag_name_def Let_def split: if_splits)
  then obtain i where i: "validate_source_str s ?v = int i" by (metis validate_source_str_at)
  with panic invalid_char_panics_iff [OF i] have "i + 1 < length s" "is_continuation (s ! (i + 1))"
    by auto
  then show ?thesis using nth_mem by blast
qed

lemma set_break_string: "set (fst (break_string s c)) \<union> set (snd (break_string s c)) \<subseteq> set s"
  by (auto simp: break_string_def split_once_Some_iff split: option.splits)

lemma parse_tags_panics:
  "parse_tags tags acc = Panic \<Longrightarrow> \<exists>t \<in> set tags. \<exists>c \<in> set t. is_continuation c"
proof (induction tags acc rule: parse_tags.induct)
  case (2 tag rest acc)
  obtain name num where b: "break_string tag TAG_SEP = (name, num)" by fastforce
  have sub: "set name \<subseteq> set tag" using set_break_string [of tag TAG_SEP] b by simp
  from "2.prems" b consider "validate_tag_name name = Panic"
    | n where "name \<noteq> []" "num \<noteq> []" "\<not> bt_contains_key acc name" "validate_tag_name name = Ok ()"
        "parse_u32 num = Some n" "parse_tags rest (bt_insert name n acc) = Panic"
    by (auto split: if_splits option.splits)
  then show ?case
  proof cases
    case 1
    with validate_tag_name_panics sub show ?thesis by fastforce
  next
    case 2
    with "2.IH" b show ?thesis by fastforce
  qed
qed simp

lemma parse_tag_set_panics: "parse_tag_set s = Panic \<Longrightarrow> \<exists>c \<in> set s. is_continuation c"
  using parse_tags_panics [of "split_str TAG_SET_SEP s" "[]"] split_str_pieces [of _ TAG_SET_SEP s]
  by (auto simp: parse_tag_set_def split: if_splits)

section \<open>Tag paths\<close>

text \<open>
  A tag path writes the plus sign of a post release as two dots. What precedes it has no two
  dots in a row and does not end in a dot, so the two parts can be told apart.
\<close>

fun no_double_dot :: "str \<Rightarrow> bool" where
  "no_double_dot [] \<longleftrightarrow> True"
| "no_double_dot [c] \<longleftrightarrow> c \<noteq> CHR ''.''"
| "no_double_dot (c # d # s) \<longleftrightarrow> \<not> (c = CHR ''.'' \<and> d = CHR ''.'') \<and> no_double_dot (d # s)"

lemma no_double_dot_tl: "no_double_dot (c # s) \<Longrightarrow> no_double_dot s"
  by (cases s) auto

lemma no_double_dot_unique:
  assumes "no_double_dot a" "no_double_dot a'" "a @ ''..'' @ b = a' @ ''..'' @ b'"
  shows "a = a' \<and> b = b'"
  using assms
proof (induction a arbitrary: a')
  case Nil
  then show ?case by (cases a' rule: no_double_dot.cases) auto
next
  case (Cons c a)
  then show ?case
  proof (cases a')
    case Nil
    with Cons.prems show ?thesis by (cases "c # a" rule: no_double_dot.cases) auto
  next
    case (Cons c' s)
    with Cons.prems Cons.IH [of s] show ?thesis
      using no_double_dot_tl by fastforce
  qed
qed

lemma no_double_dot_not_in: "\<not> no_double_dot (a @ ''..'' @ b)"
proof (induction a)
  case (Cons c a)
  then show ?case using no_double_dot_tl by fastforce
qed simp

lemma no_double_dot_plain: "CHR ''.'' \<notin> set s \<Longrightarrow> no_double_dot s"
  by (induction s rule: no_double_dot.induct) auto

lemma no_double_dot_append: "no_double_dot a \<Longrightarrow> no_double_dot b \<Longrightarrow> no_double_dot (a @ b)"
proof (induction a rule: no_double_dot.induct)
  case (2 c)
  then show ?case by (cases b) auto
qed auto

lemma no_double_dot_dot:
  assumes "no_double_dot a" "a \<noteq> []" "no_double_dot b" "b \<noteq> []" "hd b \<noteq> CHR ''.''"
  shows "no_double_dot (a @ CHR ''.'' # b)"
  using assms
proof (induction a rule: no_double_dot.induct)
  case (2 c)
  then show ?case by (cases b) auto
qed auto

lemma hd_show_u32 [simp]: "hd (show_u32 x) \<noteq> CHR ''.''"
  using show_u32_chars(1) [of x] by (metis hd_in_set show_u32_not_Nil)

lemma no_double_dot_show_parts:
  "no_double_dot (show_parts ps) \<and> (ps \<noteq> [] \<longrightarrow> hd (show_parts ps) \<noteq> CHR ''.'')"
proof (induction ps rule: induct_list012)
  case (3 p q ps)
  then have "no_double_dot (show_u32 p @ CHR ''.'' # show_parts (q # ps))"
    by (intro no_double_dot_dot) (simp_all add: no_double_dot_plain)
  then show ?case by (simp add: show_parts_def hd_append)
qed (simp_all add: show_parts_def no_double_dot_plain)

lemma no_double_dot_show_tag:
  assumes "tag_name_valid name"
  shows "no_double_dot (show_tag (name, num))"
  using assms tag_name_chars(1) [OF assms]
  by (simp add: tag_name_valid_def no_double_dot_dot no_double_dot_plain)

lemma no_double_dot_show_tag_set:
  assumes "tag_set_valid ts"
  shows "no_double_dot (show_tag_set ts)"
  using assms
proof (induction ts rule: induct_list012)
  case (2 t)
  then show ?case
    using no_double_dot_show_tag by (cases t) (simp add: show_tag_set_def tag_set_valid_def)
next
  case (3 t u ts)
  have tag: "no_double_dot (show_tag t)"
    using "3.prems" no_double_dot_show_tag by (cases t) (simp add: tag_set_valid_def)
  have "no_double_dot (show_tag_set (u # ts))"
    using "3.IH" "3.prems" by (cases t) (simp add: tag_set_valid_def)
  then have "no_double_dot ('','' @ show_tag_set (u # ts))"
    by (intro no_double_dot_append) auto
  from no_double_dot_append [OF tag this] show ?case by (simp add: show_tag_set_def)
qed (simp add: show_tag_set_def)

definition release_head :: "version \<Rightarrow> str" where
  "release_head v = show_parts (iter_for_storage (v_parts v))
     @ (if v_pre v = [] then [] else CHR ''-'' # show_tag_set (v_pre v))"

lemma tag_path_head:
  "tag_path v = release_head v @ (if v_post v = [] then [] else ''..'' @ show_tag_set (v_post v))"
  "to_storage_string v = release_head v @ (if v_post v = [] then [] else CHR ''+'' # show_tag_set (v_post v))"
  by (auto simp: tag_path_def to_storage_string_def release_head_def show_tag_set_def)

lemma no_double_dot_release_head:
  assumes "version_valid v"
  shows "no_double_dot (release_head v)"
proof -
  have "no_double_dot (''-'' @ show_tag_set (v_pre v))"
    using assms no_double_dot_show_tag_set by (intro no_double_dot_append) (auto simp: version_valid_def)
  then show ?thesis
    using no_double_dot_show_parts by (auto simp: release_head_def intro: no_double_dot_append)
qed

lemma parse_to_storage_string:
  assumes "version_valid v"
  shows "parse_version (to_storage_string v) =
    Ok (v\<lparr>v_parts := \<lparr>vp_parts = pad_zeros 3 (strip_zeros (parts_of v)), vp_epsilon = EpsNone\<rparr>\<rparr>)"
proof -
  have "to_storage_string v = show_parts (pad_zeros 3 (strip_zeros (parts_of v)))
      @ (if v_pre v = [] then [] else CHR ''-'' # show_tag_set (v_pre v))
      @ (if v_post v = [] then [] else CHR ''+'' # show_tag_set (v_post v))"
    by (simp add: tag_path_head(2) release_head_def iter_for_storage_eq)
  then show ?thesis
    using parse_version_shown [of "pad_zeros 3 (strip_zeros (parts_of v))" "v_pre v" "v_post v"] assms
    by (simp add: version_valid_def from_parts_def)
qed

lemma to_storage_string_eq_iff:
  assumes "version_valid v" "version_valid w"
  shows "to_storage_string v = to_storage_string w \<longleftrightarrow> version_eq v w"
proof
  assume "to_storage_string v = to_storage_string w"
  then have "v_pre v = v_pre w" "v_post v = v_post w"
    "pad_zeros 3 (strip_zeros (parts_of v)) = pad_zeros 3 (strip_zeros (parts_of w))"
    using parse_to_storage_string [OF assms(1)] parse_to_storage_string [OF assms(2)]
    by (cases v; cases w; simp)+
  moreover from this(3) have "strip_zeros (parts_of v) = strip_zeros (parts_of w)"
    by (metis strip_pad_zeros strip_zeros_idem)
  ultimately show "version_eq v w"
    using assms by (simp add: version_eq_def version_parts_eq_strip version_valid_def)
next
  assume "version_eq v w"
  then show "to_storage_string v = to_storage_string w"
    by (simp add: tag_path_head release_head_def iter_for_storage_eq version_eq_def version_parts_eq_strip)
qed

lemma tag_path_eq_storage:
  assumes "version_valid v" "version_valid w"
  shows "tag_path v = tag_path w \<longleftrightarrow> to_storage_string v = to_storage_string w"
proof -
  note nd = no_double_dot_release_head [OF assms(1)] no_double_dot_release_head [OF assms(2)]
  have neq: "release_head v \<noteq> release_head w @ ''..'' @ b" "release_head w \<noteq> release_head v @ ''..'' @ b"
      "release_head v @ ''..'' @ b \<noteq> release_head w" for b
    using nd no_double_dot_not_in by metis+
  have tags: "tag_set_valid (v_post v)" "tag_set_valid (v_post w)"
    using assms by (simp_all add: version_valid_def)
  have plus: "CHR ''+'' \<notin> set (release_head v)" "CHR ''+'' \<notin> set (release_head w)"
    using assms show_parts_chars show_tag_set_chars by (auto simp: release_head_def version_valid_def)
  have "tag_path v = tag_path w \<longleftrightarrow>
      release_head v = release_head w \<and> show_tag_set (v_post v) = show_tag_set (v_post w)"
    using neq no_double_dot_unique [OF nd, of "show_tag_set (v_post v)" "show_tag_set (v_post w)"]
      show_tag_set_Nil_iff [OF tags(1)] show_tag_set_Nil_iff [OF tags(2)]
    by (auto simp: tag_path_head)
  also have "\<dots> \<longleftrightarrow> to_storage_string v = to_storage_string w"
  proof -
    have "break_string (to_storage_string v) CHR ''+'' = (release_head v, show_tag_set (v_post v))"
      "break_string (to_storage_string w) CHR ''+'' = (release_head w, show_tag_set (v_post w))"
      using plus by (cases "v_post v = []"; cases "v_post w = []"; simp add: tag_path_head show_tag_set_def)+
    moreover have "v_post v = [] \<longleftrightarrow> v_post w = []" if "show_tag_set (v_post v) = show_tag_set (v_post w)"
      using that tags show_tag_set_Nil_iff by metis
    ultimately show ?thesis by (auto simp: tag_path_head)
  qed
  finally show ?thesis .
qed

section \<open>Properties\<close>

text \<open>
  C17: The ordering of versions is a total order that agrees with their equality, and equal
  versions feed the same data to the hasher, as \<open>Ord\<close>, \<open>Eq\<close> and \<open>Hash\<close> require.
\<close>

theorem version_order_total:
  assumes "version_wf u" "version_wf v" "version_wf w"
  shows "version_cmp v u = flip_ordering (version_cmp u v)
    \<and> (version_cmp u v = Equal \<longleftrightarrow> version_eq u v)
    \<and> (version_cmp u v \<noteq> Greater \<and> version_cmp v w \<noteq> Greater \<longrightarrow> version_cmp u w \<noteq> Greater)
    \<and> (version_cmp u v = Less \<and> version_cmp v w \<noteq> Greater \<longrightarrow> version_cmp u w = Less)
    \<and> (version_eq u v \<longrightarrow> version_parts_hash (v_parts u) = version_parts_hash (v_parts v))"
proof (intro conjI impI)
  show "version_cmp v u = flip_ordering (version_cmp u v)" by (rule version_ord.cmp_flip)
  show "version_cmp u v = Equal \<longleftrightarrow> version_eq u v"
    using assms by (simp add: version_eq_key version_cmp_key)
  show "version_cmp u w \<noteq> Greater" if "version_cmp u v \<noteq> Greater \<and> version_cmp v w \<noteq> Greater"
    using that version_ord.cmp_le_trans by blast
  show "version_cmp u w = Less" if "version_cmp u v = Less \<and> version_cmp v w \<noteq> Greater"
    using that version_ord.cmp_lt_le_trans by blast
  show "version_parts_hash (v_parts u) = version_parts_hash (v_parts v)" if "version_eq u v"
    using that by (simp add: version_eq_def version_parts_eq_strip version_parts_hash_eq)
qed

theorem version_order_total_witness:
  "version_cmp (from_parts [1, 2]) (from_parts [1, 2, 0]) = Equal
    \<and> version_eq (from_parts [1, 2]) (from_parts [1, 2, 0])"
proof -
  have wf: "version_wf (from_parts [1, 2])" "version_wf (from_parts [1, 2, 0])" by code_simp+
  have "version_cmp (from_parts [1, 2]) (from_parts [1, 2, 0]) = Equal" by code_simp
  with version_order_total [OF wf wf(1)] show ?thesis by blast
qed

text \<open>
  The comparison loop is the lexicographic order on the normal form of a version: the
  parts without trailing zeros, then the epsilon, then the pre release tags (none is
  greatest), then the post release tags.
\<close>

theorem version_cmp_reference:
  "version_cmp v w = cmp_of
     (strip_zeros (parts_of v), epsilon_of v, (v_pre v = [], sort (v_pre v)), sort (v_post v))
     (strip_zeros (parts_of w), epsilon_of w, (v_pre w = [], sort (v_pre w)), sort (v_post w))"
  by (simp add: version_cmp_key version_key_def)

text \<open>
  C39: The epsilon bounds enclose every release of a base version: with the same parts, the
  version nudged down is below every version that is not nudged, whatever its pre and post
  release tags, and the version nudged up is above it.
\<close>

theorem epsilon_encloses_releases:
  assumes "strip_zeros (parts_of v) = strip_zeros (parts_of w)" "epsilon_of w = EpsNone"
  shows "version_cmp (minus_epsilon v) w = Less \<and> version_cmp w (plus_epsilon v) = Less"
  using assms
  by (simp add: version_cmp_key version_key_def minus_epsilon_def plus_epsilon_def cmp_of_pair
      less_epsilon_def)

theorem epsilon_encloses_releases_witness:
  "version_cmp (minus_epsilon (from_parts [1, 73])) ((from_parts [1, 73, 0])\<lparr>v_pre := [(''pre'', 1)]\<rparr>) = Less
   \<and> version_cmp ((from_parts [1, 73, 0])\<lparr>v_pre := [(''pre'', 1)]\<rparr>) (plus_epsilon (from_parts [1, 73])) = Less"
  by (rule epsilon_encloses_releases) code_simp+

text \<open>
  \<open>strip_trailing_zeros\<close> returns a normal form: it is equal to the version it is given,
  it is a fixed point, it ends in a part that is not zero unless it is the single part 0,
  and two versions have the same normal form exactly when they are equal.
\<close>

theorem strip_trailing_zeros_normal_form:
  "version_parts_eq (strip_trailing_zeros a) a
   \<and> strip_trailing_zeros (strip_trailing_zeros a) = strip_trailing_zeros a
   \<and> vp_parts (strip_trailing_zeros a) \<noteq> []
   \<and> (last (vp_parts (strip_trailing_zeros a)) = 0 \<longleftrightarrow> vp_parts (strip_trailing_zeros a) = [0])
   \<and> (strip_trailing_zeros a = strip_trailing_zeros b \<longleftrightarrow> version_parts_eq a b)"
proof -
  have eps: "vp_epsilon (strip_trailing_zeros x) = vp_epsilon x" for x
    by (auto simp: strip_trailing_zeros_def split: option.splits)
  have parts: "vp_parts (strip_trailing_zeros x) =
      (if strip_zeros (vp_parts x) = [] then [0] else strip_zeros (vp_parts x))" for x
    by (rule strip_trailing_zeros_parts)
  have zero: "strip_zeros [0] = []" by (simp add: strip_zeros_Cons)
  have last: "strip_zeros ps \<noteq> [] \<Longrightarrow> last (strip_zeros ps) \<noteq> 0" for ps
    by (induction ps rule: rev_induct) (auto split: if_splits)
  have eqI: "x = y" if "vp_parts x = vp_parts y" "vp_epsilon x = vp_epsilon y" for x y :: version_parts
    using that by simp
  have strip: "strip_zeros (vp_parts (strip_trailing_zeros x)) = strip_zeros (vp_parts x)" for x
    using zero by (simp add: parts)
  show ?thesis
  proof (intro conjI)
    show "version_parts_eq (strip_trailing_zeros a) a"
      by (simp add: version_parts_eq_strip strip eps)
    show "strip_trailing_zeros (strip_trailing_zeros a) = strip_trailing_zeros a"
      by (rule eqI) (simp_all add: eps strip zero parts [of "strip_trailing_zeros a"] parts [of a])
    show "strip_trailing_zeros a = strip_trailing_zeros b \<longleftrightarrow> version_parts_eq a b"
      unfolding version_parts_eq_strip by (metis eps eqI parts strip)
  qed (use last [of "vp_parts a"] parts [of a] in auto)
qed

text \<open>
  The display iterator yields the parts as written, padded with zeros to the minimum; the
  storage iterator yields the parts without their trailing zeros, padded to three.
\<close>

theorem part_iterators_yield:
  "iter_for_display vp n = vp_parts vp @ replicate (n - length (vp_parts vp)) 0
   \<and> iter_for_storage vp =
       strip_zeros (vp_parts vp) @ replicate (3 - length (strip_zeros (vp_parts vp))) 0"
  by (simp add: iter_for_display_eq iter_for_storage_eq pad_zeros_def)

text \<open>
  C32: Parsing a printed version gives it back: \<open>{:#}\<close> keeps the parts as they were written
  (no parts print as 0), \<open>{}\<close> may add zeros but gives an equal version.
\<close>

theorem version_print_parse:
  assumes "version_valid v"
  shows "parse_version (show_version_alt v) =
      Ok (v\<lparr>v_parts := \<lparr>vp_parts = (if parts_of v = [] then [0] else parts_of v), vp_epsilon = EpsNone\<rparr>\<rparr>)
    \<and> (\<exists>w. parse_version (show_version v) = Ok w \<and> version_eq w v \<and> 3 \<le> length (parts_of w))"
proof
  let ?tags = "(if v_pre v = [] then [] else CHR ''-'' # show_tag_set (v_pre v))
      @ (if v_post v = [] then [] else CHR ''+'' # show_tag_set (v_post v))"
  have tags: "tag_set_valid (v_pre v)" "tag_set_valid (v_post v)" "epsilon_of v = EpsNone"
    using assms by (simp_all add: version_valid_def)
  have parse: "parse_version (show_parts ps @ ?tags) =
      Ok (v\<lparr>v_parts := \<lparr>vp_parts = ps, vp_epsilon = EpsNone\<rparr>\<rparr>)" if "ps \<noteq> []" for ps
    using parse_version_shown [OF that tags(1,2)] by (simp add: from_parts_def)
  have zero: "''0'' = show_parts [0]" by code_simp
  have "show_version_alt v = show_parts (if parts_of v = [] then [0] else parts_of v) @ ?tags"
    using tags(3) zero
    by (simp add: show_version_alt_def base_verbatim_def show_base_def format_tags_def Let_def)
  with parse show "parse_version (show_version_alt v) =
      Ok (v\<lparr>v_parts := \<lparr>vp_parts = (if parts_of v = [] then [0] else parts_of v), vp_epsilon = EpsNone\<rparr>\<rparr>)"
    by simp
  have "show_version v = show_parts (pad_zeros 3 (parts_of v)) @ ?tags"
    using tags(3) by (simp add: show_version_def base_normalized_def show_base_def format_tags_def
        Let_def iter_for_display_eq)
  with parse [of "pad_zeros 3 (parts_of v)"] tags(3)
  show "\<exists>w. parse_version (show_version v) = Ok w \<and> version_eq w v \<and> 3 \<le> length (parts_of w)"
    by (simp add: version_eq_def version_parts_eq_strip pad_zeros_def)
qed

theorem version_print_parse_witness:
  "\<exists>w. parse_version (show_version ((from_parts [1, 2])\<lparr>v_post := [(''r'', 1)]\<rparr>)) = Ok w
     \<and> version_eq w ((from_parts [1, 2])\<lparr>v_post := [(''r'', 1)]\<rparr>)"
proof -
  have "version_valid ((from_parts [1, 2])\<lparr>v_post := [(''r'', 1)]\<rparr>)" by code_simp
  from version_print_parse [OF this] show ?thesis by blast
qed

text \<open>
  A parsed version satisfies the invariant: its tag sets are ordered maps with
  alphanumeric names and it is never nudged by an epsilon.
\<close>

theorem parse_version_valid:
  assumes "parse_version s = Ok v"
  shows "version_valid v"
  using assms by (rule parsed_version_valid)

theorem parse_version_valid_witness:
  "\<exists>v. parse_version ''1.0-beta.2+r.3'' = Ok v \<and> version_valid v"
proof -
  have "parse_version ''1.0-beta.2+r.3'' =
      Ok ((from_parts [1, 0])\<lparr>v_pre := [(''beta'', 2)], v_post := [(''r'', 3)]\<rparr>)" by code_simp
  from this parse_version_valid [OF this] show ?thesis by blast
qed

text \<open>
  Parsing a version can only panic on a string with a non-ASCII character; on every other
  string it returns a version or an error.
\<close>

theorem parse_version_panics_only_non_ascii:
  assumes "parse_version s = Panic"
  shows "\<exists>c \<in> set s. is_continuation c"
proof -
  obtain head post where b1: "break_string s CHR ''+'' = (head, post)" by fastforce
  obtain base pre where b2: "break_string head CHR ''-'' = (base, pre)" by fastforce
  have "parse_parts v i ps \<noteq> Panic" for v i ps
    by (induction ps arbitrary: i) (auto split: option.splits)
  with assms b1 b2 have "parse_tag_set pre = Panic \<or> parse_tag_set post = Panic"
    by (auto simp: parse_version_def Let_def split: if_splits)
  then have "\<exists>c \<in> set pre \<union> set post. is_continuation c"
    using parse_tag_set_panics by blast
  moreover have "set pre \<subseteq> set head" "set head \<subseteq> set s" "set post \<subseteq> set s"
    using set_break_string [of s "CHR ''+''"] set_break_string [of head "CHR ''-''"] b1 b2 by simp_all
  ultimately show ?thesis by blast
qed

theorem parse_version_panics_witness:
  "parse_version (''1.0-'' @ [CHR 0xC3, CHR 0xA9] @ ''.1'') = Panic
   \<and> (\<exists>c \<in> set (''1.0-'' @ [CHR 0xC3, CHR 0xA9] @ ''.1''). is_continuation c)"
proof -
  have "parse_version (''1.0-'' @ [CHR 0xC3, CHR 0xA9] @ ''.1'') = Panic" by code_simp
  from this parse_version_panics_only_non_ascii [OF this] show ?thesis ..
qed

text \<open>
  Two versions are stored under the same spfs tag path exactly when they are equal.
\<close>

theorem tag_path_identifies_version:
  assumes "version_valid v" "version_valid w"
  shows "tag_path v = tag_path w \<longleftrightarrow> version_eq v w"
  using assms by (simp add: tag_path_eq_storage to_storage_string_eq_iff)

theorem tag_path_identifies_version_witness:
  "tag_path (from_parts [1]) = tag_path (from_parts [1, 0, 0, 0])
   \<and> tag_path (from_parts [1]) = ''1.0.0''"
proof -
  have "version_valid (from_parts [1])" "version_valid (from_parts [1, 0, 0, 0])" by code_simp+
  moreover have "version_eq (from_parts [1]) (from_parts [1, 0, 0, 0])" by code_simp
  moreover have "tag_path (from_parts [1]) = ''1.0.0''" by code_simp
  ultimately show ?thesis using tag_path_identifies_version by blast
qed

end
