(* ===== verification/Idents.thy ===== *)
theory Idents
  imports Versions
begin

text \<open>
  Components, builds and the parts of a package identifier: the \<open>Component\<close> enum
  (\<^verbatim>\<open>ident_component/component_spec.rs\<close>), the \<open>Build\<close> enum with embedded sources
  (\<^verbatim>\<open>ident_build/build.rs\<close>, \<^verbatim>\<open>build_id.rs\<close>) and \<open>IdentParts\<close> with its normalised, owned form
  (\<^verbatim>\<open>ident_ops/parsing/ident.rs\<close>), all under \<^verbatim>\<open>crates/spk-schema/crates/foundation/src\<close>.
  The base32 encoder of the \<^verbatim>\<open>data_encoding\<close> crate is a parameter of the operations that use it.
\<close>

section \<open>Components\<close>

datatype component = All | Build | Run | Source | Named str

text \<open>The derived order: the variants as declared, then the name.\<close>

fun component_rank :: "component \<Rightarrow> nat \<times> str" where
  "component_rank All = (0, [])"
| "component_rank Build = (1, [])"
| "component_rank Run = (2, [])"
| "component_rank Source = (3, [])"
| "component_rank (Named n) = (4, n)"

instantiation component :: linorder
begin

definition less_eq_component :: "component \<Rightarrow> component \<Rightarrow> bool" where
  "less_eq_component a b \<longleftrightarrow> component_rank a \<le> component_rank b"

definition less_component :: "component \<Rightarrow> component \<Rightarrow> bool" where
  "less_component a b \<longleftrightarrow> component_rank a < component_rank b"

instance
proof
  fix x y :: component
  show "x \<le> y \<Longrightarrow> y \<le> x \<Longrightarrow> x = y"
    by (cases x; cases y) (auto simp: less_eq_component_def)
qed (auto simp: less_eq_component_def less_component_def)

end

definition component_parse :: "str \<Rightarrow> component name_result" where
  "component_parse source =
     and_then (validate_pkg_name source) (\<lambda>_. Ok
       (if source = ''all'' then All
        else if source = ''run'' then Run
        else if source = ''build'' then Build
        else if source = ''src'' then Source
        else Named source))"

fun component_as_str :: "component \<Rightarrow> str" where
  "component_as_str All = ''all''"
| "component_as_str Run = ''run''"
| "component_as_str Build = ''build''"
| "component_as_str Source = ''src''"
| "component_as_str (Named name) = name"

fun is_named :: "component \<Rightarrow> bool" where
  "is_named (Named _) = True"
| "is_named _ = False"

definition fmt_component_set :: "component btree_set \<Rightarrow> str" where
  "fmt_component_set self =
     (let joined = join_str '','' (map component_as_str self) in
      if length self = 0 then []
      else if length self = 1 then CHR '':'' # joined
      else '':{'' @ joined @ ''}'')"

section \<open>Identifier parts\<close>

record ident_parts =
  ip_repository_name :: "str option"
  ip_pkg_name :: str
  ip_version_str :: "str option"
  ip_build_str :: "str option"

text \<open>A \<open>NormalizedVersionString\<close> is the storage string of a version.\<close>

definition normalized_version_string :: "version \<Rightarrow> str" where
  "normalized_version_string v = to_storage_string v"

record ident_parts_buf =
  ib_repository_name :: "str option"
  ib_pkg_name :: str
  ib_version_str :: "str option"
  ib_build_str :: "str option"

definition ident_parts_to_owned :: "ident_parts \<Rightarrow> ident_parts_buf version_result" where
  "ident_parts_to_owned self =
     and_then (case ip_version_str self of
                 None \<Rightarrow> Ok None
               | Some s \<Rightarrow> and_then (parse_version s) (\<lambda>v. Ok (Some v))) (\<lambda>version.
       Ok \<lparr>ib_repository_name = ip_repository_name self,
           ib_pkg_name = ip_pkg_name self,
           ib_version_str = map_option normalized_version_string version,
           ib_build_str = ip_build_str self\<rparr>)"

section \<open>Builds\<close>

abbreviation BUILD_ID_SIZE :: nat where "BUILD_ID_SIZE \<equiv> 8"

record embedded_source_package =
  esp_ident :: ident_parts_buf
  esp_components :: "component btree_set"
  esp_unparsed :: "str option"

text \<open>Equality of embedded source packages skips the unparsed tag.\<close>

definition embedded_source_package_eq ::
    "embedded_source_package \<Rightarrow> embedded_source_package \<Rightarrow> bool" where
  "embedded_source_package_eq a b \<longleftrightarrow>
     esp_ident a = esp_ident b \<and> esp_components a = esp_components b"

datatype embedded_source = EmbeddedPackage embedded_source_package | EmbeddedUnknown

fun embedded_source_eq :: "embedded_source \<Rightarrow> embedded_source \<Rightarrow> bool" where
  "embedded_source_eq (EmbeddedPackage a) (EmbeddedPackage b) = embedded_source_package_eq a b"
| "embedded_source_eq EmbeddedUnknown EmbeddedUnknown = True"
| "embedded_source_eq _ _ = False"

datatype build = SourceBuild | EmbeddedBuild embedded_source | BuildId str

fun build_eq :: "build \<Rightarrow> build \<Rightarrow> bool" where
  "build_eq SourceBuild SourceBuild = True"
| "build_eq (EmbeddedBuild a) (EmbeddedBuild b) = embedded_source_eq a b"
| "build_eq (BuildId a) (BuildId b) = (a = b)"
| "build_eq _ _ = False"

definition build_id_new_from_bytes :: "(str \<Rightarrow> str) \<Rightarrow> str \<Rightarrow> str" where
  "build_id_new_from_bytes base32_encode bytes =
     (let encoded = base32_encode bytes in
      take BUILD_ID_SIZE (encoded @ replicate BUILD_ID_SIZE CHR ''0''))"

definition build_id_try_from :: "str \<Rightarrow> (unit, str) outcome" where
  "build_id_try_from chars = (if length chars \<noteq> BUILD_ID_SIZE then Err () else Ok chars)"

fun show_embedded_source :: "embedded_source \<Rightarrow> str" where
  "show_embedded_source (EmbeddedPackage package) =
     ''embedded['' @ ib_pkg_name (esp_ident package)
     @ fmt_component_set (esp_components package)
     @ (case ib_version_str (esp_ident package) of Some v \<Rightarrow> CHR ''/'' # v | None \<Rightarrow> [])
     @ (case ib_build_str (esp_ident package) of Some b \<Rightarrow> CHR ''/'' # b | None \<Rightarrow> [])
     @ '']''"
| "show_embedded_source EmbeddedUnknown = ''embedded''"

fun embedded_metadata_path :: "(str \<Rightarrow> str) \<Rightarrow> embedded_source \<Rightarrow> str" where
  "embedded_metadata_path base32_nopad (EmbeddedPackage esp) =
     ''embedded-by-'' @ base32_nopad
       (case esp_unparsed esp of
          Some unparsed \<Rightarrow> ''embedded'' @ unparsed
        | None \<Rightarrow> show_embedded_source (EmbeddedPackage esp))"
| "embedded_metadata_path base32_nopad EmbeddedUnknown = ''embedded''"

definition build_empty :: build where "build_empty = BuildId ''3I42H3S6''"
definition build_null :: build where "build_null = BuildId ''AAAAAAAA''"

definition build_is_null :: "build \<Rightarrow> bool" where
  "build_is_null self \<longleftrightarrow> build_eq self build_null"

fun build_digest :: "build \<Rightarrow> str" where
  "build_digest SourceBuild = ''src''"
| "build_digest (EmbeddedBuild embedded) = show_embedded_source embedded"
| "build_digest (BuildId d) = d"

fun is_buildid :: "build \<Rightarrow> bool" where
  "is_buildid (BuildId _) = True"
| "is_buildid _ = False"

fun is_source :: "build \<Rightarrow> bool" where
  "is_source SourceBuild = True"
| "is_source _ = False"

fun is_embedded :: "build \<Rightarrow> bool" where
  "is_embedded (EmbeddedBuild _) = True"
| "is_embedded _ = False"

fun is_embed_stub :: "build \<Rightarrow> bool" where
  "is_embed_stub (EmbeddedBuild (EmbeddedPackage _)) = True"
| "is_embed_stub _ = False"

fun build_metadata_path :: "(str \<Rightarrow> str) \<Rightarrow> build \<Rightarrow> str" where
  "build_metadata_path base32_nopad SourceBuild = build_digest SourceBuild"
| "build_metadata_path base32_nopad (BuildId d) = build_digest (BuildId d)"
| "build_metadata_path base32_nopad (EmbeddedBuild embedded) =
     embedded_metadata_path base32_nopad embedded"

section \<open>Properties\<close>

text \<open>
  Component names round trip: a parsed component prints the name it was parsed from, and
  printing a component whose custom name is valid and not one of the four reserved ones is
  parsed back to it.
\<close>

theorem component_parse_print:
  "(component_parse s = Ok c \<longrightarrow> component_as_str c = s)
   \<and> ((is_named c \<longrightarrow> validate_pkg_name (component_as_str c) = Ok ()
         \<and> component_as_str c \<notin> {''all'', ''run'', ''build'', ''src''})
       \<longrightarrow> component_parse (component_as_str c) = Ok c)"
proof (intro conjI impI)
  show "component_as_str c = s" if "component_parse s = Ok c"
    using that by (auto simp: component_parse_def split: if_splits)
  have reserved: "validate_pkg_name ''all'' = Ok ()" "validate_pkg_name ''run'' = Ok ()"
    "validate_pkg_name ''build'' = Ok ()" "validate_pkg_name ''src'' = Ok ()"
    by code_simp+
  show "component_parse (component_as_str c) = Ok c"
    if "is_named c \<longrightarrow> validate_pkg_name (component_as_str c) = Ok ()
         \<and> component_as_str c \<notin> {''all'', ''run'', ''build'', ''src''}"
    using that reserved by (cases c) (auto simp: component_parse_def)
qed

theorem component_parse_print_witness:
  "component_as_str (Named ''data'') = ''data'' \<and> component_parse (component_as_str Run) = Ok Run"
proof -
  have "component_parse ''data'' = Ok (Named ''data'')" by code_simp
  with component_parse_print [of "''data''" "Named ''data''"] component_parse_print [of "[]" Run]
  show ?thesis by simp
qed

text \<open>
  The owned form of identifier parts normalises the version: two identifiers whose version
  strings parse get equal version strings exactly when the versions are equal, so the
  derived equality of \<open>IdentPartsBuf\<close> does not depend on how a version was written.
\<close>

theorem ident_parts_normalized:
  assumes "ip_version_str a = Some s" "ip_version_str b = Some t"
    and "parse_version s = Ok v" "parse_version t = Ok w"
  shows "\<exists>a' b'. ident_parts_to_owned a = Ok a' \<and> ident_parts_to_owned b = Ok b'
    \<and> (ib_version_str a' = ib_version_str b' \<longleftrightarrow> version_eq v w)"
proof -
  from assms have "version_valid v" "version_valid w"
    by (blast intro: parsed_version_valid)+
  then show ?thesis
    using assms by (simp add: ident_parts_to_owned_def normalized_version_string_def
        to_storage_string_eq_iff)
qed

theorem ident_parts_normalized_witness:
  "\<exists>a' b'. ident_parts_to_owned \<lparr>ip_repository_name = None, ip_pkg_name = ''maya'',
        ip_version_str = Some ''2019'', ip_build_str = None\<rparr> = Ok a'
    \<and> ident_parts_to_owned \<lparr>ip_repository_name = None, ip_pkg_name = ''maya'',
        ip_version_str = Some ''2019.0'', ip_build_str = None\<rparr> = Ok b'
    \<and> ib_version_str a' = ib_version_str b'"
proof -
  have p: "parse_version ''2019'' = Ok (from_parts [2019])"
    "parse_version ''2019.0'' = Ok (from_parts [2019, 0])"
    "version_eq (from_parts [2019]) (from_parts [2019, 0])"
    by code_simp+
  from ident_parts_normalized [OF _ _ p(1,2),
      of "\<lparr>ip_repository_name = None, ip_pkg_name = ''maya'', ip_version_str = Some ''2019'', ip_build_str = None\<rparr>"
         "\<lparr>ip_repository_name = None, ip_pkg_name = ''maya'', ip_version_str = Some ''2019.0'', ip_build_str = None\<rparr>"]
    p(3)
  show ?thesis by simp
qed

end
