(* ===== verification/Compat.thy ===== *)
theory Compat
  imports Idents
begin

text \<open>
  Compatibility contracts (\<^verbatim>\<open>crates/spk-schema/crates/foundation/src/version/compat/mod.rs\<close> and
  \<^verbatim>\<open>problems.rs\<close>): the compatibility rules and their order, the reasons for incompatibility
  and when two reasons count as the same, and \<open>Compat::check_compat\<close>, which decides whether one
  version can be used in place of another.

  The records of the version ranges that the reasons carry are declared here as well.
\<close>

section \<open>Compatibility rules\<close>

datatype compat_rule = CompatNone | API | Binary

fun compat_rule_as_ref :: "compat_rule \<Rightarrow> str" where
  "compat_rule_as_ref CompatNone = ''x''"
| "compat_rule_as_ref API = ''a''"
| "compat_rule_as_ref Binary = ''b''"

text \<open>The order of the rules is the order of their short names.\<close>

instantiation compat_rule :: linorder
begin

definition less_eq_compat_rule :: "compat_rule \<Rightarrow> compat_rule \<Rightarrow> bool" where
  "less_eq_compat_rule a b \<longleftrightarrow> compat_rule_as_ref a \<le> compat_rule_as_ref b"

definition less_compat_rule :: "compat_rule \<Rightarrow> compat_rule \<Rightarrow> bool" where
  "less_compat_rule a b \<longleftrightarrow> compat_rule_as_ref a < compat_rule_as_ref b"

instance
proof
  fix x y :: compat_rule
  assume "x \<le> y" "y \<le> x"
  then have "compat_rule_as_ref x = compat_rule_as_ref y"
    by (auto simp: less_eq_compat_rule_def)
  then show "x = y" by (cases x; cases y) auto
qed (auto simp: less_eq_compat_rule_def less_compat_rule_def)

end

text \<open>
  \<open>Display\<close>: the short name, or with the alternate flag the long one, which panics on the rule
  that has none. \<open>FromStr\<close> reads the long names.
\<close>

definition show_compat_rule :: "compat_rule \<Rightarrow> str" where
  "show_compat_rule r = compat_rule_as_ref r"

fun show_compat_rule_alt :: "compat_rule \<Rightarrow> (unit, str) outcome" where
  "show_compat_rule_alt CompatNone = Panic"
| "show_compat_rule_alt API = Ok ''API''"
| "show_compat_rule_alt Binary = Ok ''Binary''"

definition compat_rule_from_str :: "str \<Rightarrow> (str, compat_rule) outcome" where
  "compat_rule_from_str s =
     (if s = ''API'' then Ok API else if s = ''Binary'' then Ok Binary else Err s)"

type_synonym compat_rule_set = "compat_rule btree_set"

definition compat_rule_set_single :: "compat_rule \<Rightarrow> compat_rule_set" where
  "compat_rule_set_single first = bs_from_list [first]"

definition compat_rule_set_double :: "compat_rule \<Rightarrow> compat_rule \<Rightarrow> compat_rule_set" where
  "compat_rule_set_double first second = bs_from_list [first, second]"

definition compat_rule_set_triple :: "compat_rule \<Rightarrow> compat_rule \<Rightarrow> compat_rule \<Rightarrow> compat_rule_set" where
  "compat_rule_set_triple first second third = bs_from_list [first, second, third]"

definition show_compat_rule_set :: "compat_rule_set \<Rightarrow> str" where
  "show_compat_rule_set rs = concat (map show_compat_rule rs)"

record compat =
  c_parts :: "compat_rule_set list"
  c_pre :: "compat_rule_set option"
  c_post :: "compat_rule_set option"

definition default_compat :: compat where
  "default_compat =
     \<lparr>c_parts = [compat_rule_set_single CompatNone, compat_rule_set_single API,
                 compat_rule_set_single Binary],
      c_pre = None, c_post = None\<rparr>"

definition compat_double :: "compat_rule_set \<Rightarrow> compat_rule_set \<Rightarrow> compat" where
  "compat_double first second = default_compat\<lparr>c_parts := [first, second]\<rparr>"

definition compat_triple :: "compat_rule_set \<Rightarrow> compat_rule_set \<Rightarrow> compat_rule_set \<Rightarrow> compat" where
  "compat_triple first second third = default_compat\<lparr>c_parts := [first, second, third]\<rparr>"

definition show_compat :: "compat \<Rightarrow> str" where
  "show_compat self =
     join_str [VERSION_SEP] (map show_compat_rule_set (c_parts self))
     @ (case c_pre self of Some pre \<Rightarrow> ''-'' @ show_compat_rule_set pre | None \<Rightarrow> [])
     @ (case c_post self of Some post \<Rightarrow> ''+'' @ show_compat_rule_set post | None \<Rightarrow> [])"

definition compat_is_default :: "compat \<Rightarrow> bool" where
  "compat_is_default self \<longleftrightarrow> self = default_compat"

definition compat_render :: "compat \<Rightarrow> version \<Rightarrow> str" where
  "compat_render self version =
     CHR ''~'' # show_parts (take (length (c_parts self))
       (parts_of version @ replicate (length (c_parts self)) 0))"

section \<open>Reasons for incompatibility\<close>

record wildcard_range =
  wr_specified :: nat
  wr_parts :: "u32 option list"

record equals_version =
  ev_version :: version

record not_equals_version =
  ne_specified :: nat
  ne_base :: version

record double_equals_version =
  dev_version :: version

record double_not_equals_version =
  dne_specified :: nat
  dne_base :: version

datatype compat_not_compatible = NotCompatible | NotRequiredCompatibility compat_rule

datatype compat_not_compatible_span =
    PreOrPostVersion compat str tag_set tag_set
  | VersionPart compat nat str u32 u32
  | VersionPartTooLow compat nat str u32 u32
  | NotSpecified compat_rule

record version_not_compatible_problem =
  vnc_required_compat :: compat_not_compatible
  vnc_base :: version
  vnc_span :: compat_not_compatible_span

datatype version_for_clause = CompatVersion version | GteVersion version | LtVersion version

datatype version_range_problem =
    TooHigh version_for_clause
  | TooLow version_for_clause
  | NotHighEnough str version
  | NotLowEnough str version

datatype version_not_different_problem =
    NotEqual not_equals_version
  | NotPreciselyEqual double_not_equals_version

datatype version_not_equal_problem =
    PartsNotEqual equals_version version
  | PreNotEqual equals_version version
  | PostNotEqual equals_version version
  | PartsNotEqualPrecisely double_equals_version version
  | PreNotEqualPrecisely double_equals_version version
  | PostNotEqualPrecisely double_equals_version version

datatype range_superset_problem =
    ContainProblem nat nat str str
  | StrongerCompatibilityRequirements str str

datatype package_name_problem =
    PkgRequestName str str
  | VersionSelectorName str str

datatype build_id_problem =
    PkgRequestBuild build "build option"
  | VersionSelectorBuild str str

datatype package_repo_problem =
    EmbeddedInPackageFromWrongRepository str
  | FromRecipeFromWrongRepository
  | InternalTest
  | WrongSourceRepository str str
  | RestrictRepo str str str

datatype var_request_problem =
    DifferentNamespace str str
  | DifferentValue str str
  | DifferentVar str str
  | Incomparable

datatype inclusion_policy_problem =
    PrereleasePolicy str str
  | StandardPolicy str str

datatype components_missing_problem =
    ComponentsNotDefined "str btree_set" "str btree_set"
  | ComponentsNotProvided str "str btree_set" "str btree_set"
  | EmbeddedComponentsNotProvided str str "str btree_set" "str btree_set"

datatype incompatible_reason =
    AlreadyEmbeddedPackage str str
  | BuildDeprecated
  | BuildFromSourceDisabled
  | BuildIdMismatch build_id_problem
  | BuildIdNotSuperset build_id_problem
  | BuildOptionMismatch str incompatible_reason
  | BuildOptionsMissing "(str, str) btree_map"
  | ComponentsMissing components_missing_problem
  | ConflictingEmbeddedPackage str
  | ConflictingEmbeddedPackageRequirement str str str incompatible_reason
  | ConflictingRequirement conflicting_requirement_problem
  | EmbeddedIncompatible str incompatible_reason
  | ImpossibleRequest impossible_request_problem
  | InclusionPolicyNotSuperset inclusion_policy_problem
  | InternalError str
  | NoCompatibleBuilds str str
  | OptionNotSatisfied incompatible_reason
  | OptionResolveError
  | PackageNameMismatch package_name_problem
  | PackageNotAnEmbeddedPackage
  | PackageRepoMismatch package_repo_problem
  | PrereleasesNotAllowed
  | RangesDoNotIntersect str str
  | RangeNotSuperset range_superset_problem
  | RecipeDeprecated
  | RequirementsNotSuperset str
  | RestrictReason str incompatible_reason
  | VarOptionIllegalChoice str "str list"
  | VarOptionMismatch var_option_problem
  | VarOptionMissing str
  | VarRequestNotSuperset var_request_problem
  | VarRequirementMismatch str str str str
  | VersionRangeInvalid str str str
  | VersionTooHigh version_range_problem
  | VersionTooLow version_range_problem
  | VersionNotCompatible version_not_compatible_problem
  | VersionNotDifferent version_not_different_problem
  | VersionNotEqual version_not_equal_problem
  | VersionOutOfRange wildcard_range nat str u32 u32
and var_option_problem =
    IncompatibleValue str str
  | IncompatibleBuildOption str str str
  | IncompatibleBuildOptionInvalidVersion str str str
  | IncompatibleBuildOptionWithContext str str str incompatible_reason
  | RequiredButMissing str
and impossible_request_problem =
    CachedImpossible str str
  | RestrictImpossible str str incompatible_reason
and conflicting_requirement_problem =
    ExistingPackage str incompatible_reason
  | PkgRequirement incompatible_reason

datatype compatibility = Compatible | Incompatible incompatible_reason

fun is_ok :: "compatibility \<Rightarrow> bool" where
  "is_ok Compatible = True"
| "is_ok (Incompatible _) = False"

fun is_err :: "compatibility \<Rightarrow> bool" where
  "is_err Compatible = False"
| "is_err (Incompatible _) = True"

definition embedded_conflict :: "str \<Rightarrow> compatibility" where
  "embedded_conflict name = Incompatible (ConflictingEmbeddedPackage name)"

fun unwrap :: "compatibility \<Rightarrow> (unit, unit) outcome" where
  "unwrap Compatible = Ok ()"
| "unwrap (Incompatible _) = Panic"

lemma is_ok_iff [simp]: "is_ok c \<longleftrightarrow> c = Compatible"
  by (cases c) auto

text \<open>
  \<open>is_same_reason_as\<close> for the kinds of reasons it is implemented for; a pair of reasons that no
  arm of the match covers is not the same.
\<close>

fun components_missing_is_same :: "components_missing_problem \<Rightarrow> components_missing_problem \<Rightarrow> bool" where
  "components_missing_is_same (ComponentsNotDefined a _) (ComponentsNotDefined b _) = (a = b)"
| "components_missing_is_same (ComponentsNotProvided a b _) (ComponentsNotProvided c d _) = (a = c \<and> b = d)"
| "components_missing_is_same _ _ = False"

primrec is_same_reason_as :: "incompatible_reason \<Rightarrow> incompatible_reason \<Rightarrow> bool"
  and var_option_is_same :: "var_option_problem \<Rightarrow> var_option_problem \<Rightarrow> bool"
  and conflicting_is_same :: "conflicting_requirement_problem \<Rightarrow> conflicting_requirement_problem \<Rightarrow> bool"
where
  "is_same_reason_as (AlreadyEmbeddedPackage embedded embedded_by) other =
     (case other of AlreadyEmbeddedPackage a b \<Rightarrow> embedded = a \<and> embedded_by = b | _ \<Rightarrow> False)"
| "is_same_reason_as BuildDeprecated other = (case other of BuildDeprecated \<Rightarrow> True | _ \<Rightarrow> False)"
| "is_same_reason_as BuildFromSourceDisabled other =
     (case other of BuildFromSourceDisabled \<Rightarrow> True | _ \<Rightarrow> False)"
| "is_same_reason_as (BuildIdMismatch _) other = (case other of BuildIdMismatch _ \<Rightarrow> True | _ \<Rightarrow> False)"
| "is_same_reason_as (BuildIdNotSuperset _) other =
     (case other of BuildIdNotSuperset _ \<Rightarrow> True | _ \<Rightarrow> False)"
| "is_same_reason_as (BuildOptionMismatch a _) other =
     (case other of BuildOptionMismatch b _ \<Rightarrow> a = b | _ \<Rightarrow> False)"
| "is_same_reason_as (BuildOptionsMissing a) other =
     (case other of BuildOptionsMissing b \<Rightarrow> a = b | _ \<Rightarrow> False)"
| "is_same_reason_as (ComponentsMissing a) other =
     (case other of ComponentsMissing b \<Rightarrow> components_missing_is_same a b | _ \<Rightarrow> False)"
| "is_same_reason_as (ConflictingEmbeddedPackage a) other =
     (case other of ConflictingEmbeddedPackage b \<Rightarrow> a = b | _ \<Rightarrow> False)"
| "is_same_reason_as (ConflictingEmbeddedPackageRequirement a b c d) other =
     (case other of ConflictingEmbeddedPackageRequirement e f g h \<Rightarrow>
        a = e \<and> b = f \<and> c = g \<and> is_same_reason_as d h | _ \<Rightarrow> False)"
| "is_same_reason_as (ConflictingRequirement a) other =
     (case other of ConflictingRequirement b \<Rightarrow> conflicting_is_same a b | _ \<Rightarrow> False)"
| "is_same_reason_as (EmbeddedIncompatible _ _) other = False"
| "is_same_reason_as (ImpossibleRequest _) other = (case other of ImpossibleRequest _ \<Rightarrow> True | _ \<Rightarrow> False)"
| "is_same_reason_as (InclusionPolicyNotSuperset _) other =
     (case other of InclusionPolicyNotSuperset _ \<Rightarrow> True | _ \<Rightarrow> False)"
| "is_same_reason_as (InternalError a) other = (case other of InternalError b \<Rightarrow> a = b | _ \<Rightarrow> False)"
| "is_same_reason_as (NoCompatibleBuilds _ _) other =
     (case other of NoCompatibleBuilds _ _ \<Rightarrow> True | _ \<Rightarrow> False)"
| "is_same_reason_as (OptionNotSatisfied _) other = False"
| "is_same_reason_as OptionResolveError other = (case other of OptionResolveError \<Rightarrow> True | _ \<Rightarrow> False)"
| "is_same_reason_as (PackageNameMismatch _) other =
     (case other of PackageNameMismatch _ \<Rightarrow> True | _ \<Rightarrow> False)"
| "is_same_reason_as PackageNotAnEmbeddedPackage other =
     (case other of PackageNotAnEmbeddedPackage \<Rightarrow> True | _ \<Rightarrow> False)"
| "is_same_reason_as (PackageRepoMismatch _) other =
     (case other of PackageRepoMismatch _ \<Rightarrow> True | _ \<Rightarrow> False)"
| "is_same_reason_as PrereleasesNotAllowed other =
     (case other of PrereleasesNotAllowed \<Rightarrow> True | _ \<Rightarrow> False)"
| "is_same_reason_as (RangesDoNotIntersect _ _) other =
     (case other of RangesDoNotIntersect _ _ \<Rightarrow> True | _ \<Rightarrow> False)"
| "is_same_reason_as (RangeNotSuperset _) other = (case other of RangeNotSuperset _ \<Rightarrow> True | _ \<Rightarrow> False)"
| "is_same_reason_as RecipeDeprecated other = (case other of RecipeDeprecated \<Rightarrow> True | _ \<Rightarrow> False)"
| "is_same_reason_as (RequirementsNotSuperset _) other =
     (case other of RequirementsNotSuperset _ \<Rightarrow> True | _ \<Rightarrow> False)"
| "is_same_reason_as (RestrictReason _ _) other = False"
| "is_same_reason_as (VarOptionIllegalChoice a _) other =
     (case other of VarOptionIllegalChoice b _ \<Rightarrow> a = b | _ \<Rightarrow> False)"
| "is_same_reason_as (VarOptionMismatch a) other =
     (case other of VarOptionMismatch b \<Rightarrow> var_option_is_same a b | _ \<Rightarrow> False)"
| "is_same_reason_as (VarOptionMissing a) other =
     (case other of VarOptionMissing b \<Rightarrow> a = b | _ \<Rightarrow> False)"
| "is_same_reason_as (VarRequestNotSuperset _) other =
     (case other of VarRequestNotSuperset _ \<Rightarrow> True | _ \<Rightarrow> False)"
| "is_same_reason_as (VarRequirementMismatch a _ _ _) other =
     (case other of VarRequirementMismatch b _ _ _ \<Rightarrow> a = b | _ \<Rightarrow> False)"
| "is_same_reason_as (VersionRangeInvalid _ a b) other =
     (case other of VersionRangeInvalid _ c d \<Rightarrow> a = c \<and> b = d | _ \<Rightarrow> False)"
| "is_same_reason_as (VersionTooHigh _) other = (case other of VersionTooHigh _ \<Rightarrow> True | _ \<Rightarrow> False)"
| "is_same_reason_as (VersionTooLow _) other = (case other of VersionTooLow _ \<Rightarrow> True | _ \<Rightarrow> False)"
| "is_same_reason_as (VersionNotCompatible _) other =
     (case other of VersionNotCompatible _ \<Rightarrow> True | _ \<Rightarrow> False)"
| "is_same_reason_as (VersionNotDifferent _) other =
     (case other of VersionNotDifferent _ \<Rightarrow> True | _ \<Rightarrow> False)"
| "is_same_reason_as (VersionNotEqual _) other = (case other of VersionNotEqual _ \<Rightarrow> True | _ \<Rightarrow> False)"
| "is_same_reason_as (VersionOutOfRange _ _ _ _ _) other =
     (case other of VersionOutOfRange _ _ _ _ _ \<Rightarrow> True | _ \<Rightarrow> False)"
| "var_option_is_same (IncompatibleValue _ a) other =
     (case other of IncompatibleValue _ b \<Rightarrow> a = b | _ \<Rightarrow> False)"
| "var_option_is_same (IncompatibleBuildOption a _ _) other =
     (case other of IncompatibleBuildOption b _ _ \<Rightarrow> a = b | _ \<Rightarrow> False)"
| "var_option_is_same (IncompatibleBuildOptionInvalidVersion a _ _) other =
     (case other of IncompatibleBuildOptionInvalidVersion b _ _ \<Rightarrow> a = b | _ \<Rightarrow> False)"
| "var_option_is_same (IncompatibleBuildOptionWithContext a _ _ b) other =
     (case other of IncompatibleBuildOptionWithContext c _ _ d \<Rightarrow> a = c \<and> is_same_reason_as b d
      | _ \<Rightarrow> False)"
| "var_option_is_same (RequiredButMissing _) other = False"
| "conflicting_is_same (ExistingPackage a b) other =
     (case other of ExistingPackage c d \<Rightarrow> a = c \<and> is_same_reason_as b d | _ \<Rightarrow> False)"
| "conflicting_is_same (PkgRequirement a) other =
     (case other of PkgRequirement b \<Rightarrow> is_same_reason_as a b | _ \<Rightarrow> False)"

fun compatibility_is_same :: "compatibility \<Rightarrow> compatibility \<Rightarrow> bool" where
  "compatibility_is_same (Incompatible a) (Incompatible b) = is_same_reason_as a b"
| "compatibility_is_same _ _ = False"

section \<open>Checking compatibility\<close>

definition nth_opt :: "'a list \<Rightarrow> nat \<Rightarrow> 'a option" where
  "nth_opt xs i = (if i < length xs then Some (xs ! i) else None)"

fun check_releases ::
    "compat \<Rightarrow> version \<Rightarrow> compat_rule \<Rightarrow>
     (bool \<times> compat_rule_set option \<times> str \<times> tag_set \<times> tag_set) list \<Rightarrow> compatibility" where
  "check_releases self base required [] = Compatible"
| "check_releases self base required ((matches, optruleset, desc, a, b) # rest) =
     (if matches then check_releases self base required rest
      else (case optruleset of
              Some ruleset \<Rightarrow>
                if CompatNone \<in> set ruleset
                then Incompatible (VersionNotCompatible
                  \<lparr>vnc_required_compat = NotCompatible, vnc_base = base,
                   vnc_span = PreOrPostVersion self desc b a\<rparr>)
                else if required \<notin> set ruleset
                then Incompatible (VersionNotCompatible
                  \<lparr>vnc_required_compat = NotRequiredCompatibility required, vnc_base = base,
                   vnc_span = PreOrPostVersion self desc b a\<rparr>)
                else check_releases self base required rest
            | None \<Rightarrow> check_releases self base required rest))"

definition version_part_problem ::
    "compat_not_compatible \<Rightarrow> version \<Rightarrow> compat_not_compatible_span \<Rightarrow> compatibility" where
  "version_part_problem r base span = Incompatible (VersionNotCompatible
     \<lparr>vnc_required_compat = r, vnc_base = base, vnc_span = span\<rparr>)"

fun check_parts :: "compat \<Rightarrow> version \<Rightarrow> version \<Rightarrow> compat_rule \<Rightarrow> nat \<Rightarrow> compat_rule_set list \<Rightarrow> compatibility" where
  "check_parts self base other required i [] =
     version_part_problem NotCompatible base (NotSpecified required)"
| "check_parts self base other required i (rule # rules) =
     (case nth_opt (parts_of base) i of
        None \<Rightarrow> Compatible
      | Some a \<Rightarrow>
          (case nth_opt (parts_of other) i of
             Some b \<Rightarrow>
               if CompatNone \<in> set rule then
                 (if a \<noteq> b
                  then version_part_problem NotCompatible base
                         (VersionPart self (i + 1) (get_version_position_label i) b a)
                  else check_parts self base other required (i + 1) rules)
               else if required \<notin> set rule then
                 (if a = b then check_parts self base other required (i + 1) rules
                  else version_part_problem NotCompatible base
                         (VersionPart self (i + 1) (get_version_position_label i) b a))
               else if b < a
               then version_part_problem (NotRequiredCompatibility required) base
                      (VersionPartTooLow self (i + 1) (get_version_position_label i) b a)
               else Compatible
           | None \<Rightarrow>
               if CompatNone \<in> set rule then check_parts self base other required (i + 1) rules
               else if required \<notin> set rule then check_parts self base other required (i + 1) rules
               else Compatible))"

definition check_compat :: "compat \<Rightarrow> version \<Rightarrow> version \<Rightarrow> compat_rule \<Rightarrow> compatibility" where
  "check_compat self base other required =
     (if version_parts_eq (v_parts base) (v_parts other) then
        (let pre_matches = (v_pre base = v_pre other);
             post_matches = (v_post base = v_post other) in
         if (pre_matches \<or> c_pre self = None) \<and> (post_matches \<or> c_post self = None)
         then Compatible
         else check_releases self base required
           [(pre_matches, c_pre self, ''pre'', v_pre base, v_pre other),
            (post_matches, c_post self, ''post'', v_post base, v_post other)])
      else check_parts self base other required 0 (c_parts self))"

definition is_api_compatible :: "compat \<Rightarrow> version \<Rightarrow> version \<Rightarrow> compatibility" where
  "is_api_compatible self base other = check_compat self base other API"

definition is_binary_compatible :: "compat \<Rightarrow> version \<Rightarrow> version \<Rightarrow> compatibility" where
  "is_binary_compatible self base other = check_compat self base other Binary"

section \<open>When reasons are the same\<close>

lemma components_missing_is_same_sym:
  "components_missing_is_same a b \<Longrightarrow> components_missing_is_same b a"
  by (cases a; cases b) auto

lemma components_missing_is_same_trans:
  "components_missing_is_same a b \<Longrightarrow> components_missing_is_same b c \<Longrightarrow> components_missing_is_same a c"
  by (cases a; cases b; cases c) auto

lemma is_same_reason_sym_all:
  fixes a :: incompatible_reason and p :: var_option_problem
    and z :: impossible_request_problem and x :: conflicting_requirement_problem
  shows "\<And>b. is_same_reason_as a b \<Longrightarrow> is_same_reason_as b a"
    and "\<And>q. var_option_is_same p q \<Longrightarrow> var_option_is_same q p"
    and "True"
    and "\<And>y. conflicting_is_same x y \<Longrightarrow> conflicting_is_same y x"
  by (induction a and p and z and x)
    (auto simp: components_missing_is_same_sym split: incompatible_reason.splits
      var_option_problem.splits conflicting_requirement_problem.splits)

lemma is_same_reason_trans_all:
  fixes a :: incompatible_reason and p :: var_option_problem
    and z :: impossible_request_problem and x :: conflicting_requirement_problem
  shows "\<And>b c. is_same_reason_as a b \<Longrightarrow> is_same_reason_as b c \<Longrightarrow> is_same_reason_as a c"
    and "\<And>q r. var_option_is_same p q \<Longrightarrow> var_option_is_same q r \<Longrightarrow> var_option_is_same p r"
    and "True"
    and "\<And>y w. conflicting_is_same x y \<Longrightarrow> conflicting_is_same y w \<Longrightarrow> conflicting_is_same x w"
  by (induction a and p and z and x)
    (auto intro: components_missing_is_same_trans split: incompatible_reason.splits
      var_option_problem.splits conflicting_requirement_problem.splits)

section \<open>What \<open>check_compat\<close> decides\<close>

text \<open>
  A rule set allows a required rule when it holds the rule and not the one that forbids any
  change. The parts are decided at the first position where the base version has no part
  left or the rule set allows the required rule; before it the parts must agree.
\<close>

definition allows :: "compat_rule \<Rightarrow> compat_rule_set \<Rightarrow> bool" where
  "allows required rule \<longleftrightarrow> CompatNone \<notin> set rule \<and> required \<in> set rule"

definition decided_at :: "version \<Rightarrow> version \<Rightarrow> compat_rule \<Rightarrow> compat_rule_set list \<Rightarrow> nat \<Rightarrow> nat \<Rightarrow> bool" where
  "decided_at base other required rules i k \<longleftrightarrow>
     (\<forall>j < k. i + j < length (parts_of base) \<and> \<not> allows required (rules ! j)
        \<and> (i + j < length (parts_of other) \<longrightarrow> parts_of base ! (i + j) = parts_of other ! (i + j)))
     \<and> (length (parts_of base) \<le> i + k
        \<or> allows required (rules ! k)
          \<and> (i + k < length (parts_of other) \<longrightarrow> parts_of base ! (i + k) \<le> parts_of other ! (i + k)))"

lemma decided_at_0:
  "decided_at base other required rules i 0 \<longleftrightarrow>
     length (parts_of base) \<le> i
     \<or> allows required (rules ! 0)
       \<and> (i < length (parts_of other) \<longrightarrow> parts_of base ! i \<le> parts_of other ! i)"
  by (simp add: decided_at_def)

lemma decided_at_Suc:
  "decided_at base other required (rule # rules) i (Suc k) \<longleftrightarrow>
     i < length (parts_of base) \<and> \<not> allows required rule
     \<and> (i < length (parts_of other) \<longrightarrow> parts_of base ! i = parts_of other ! i)
     \<and> decided_at base other required rules (Suc i) k"
  by (auto simp: decided_at_def All_less_Suc2)

lemma check_parts_Compatible_iff:
  "check_parts self base other required i rules = Compatible \<longleftrightarrow>
     (\<exists>k < length rules. decided_at base other required rules i k)"
proof (induction rules arbitrary: i)
  case Nil
  then show ?case by (simp add: version_part_problem_def)
next
  case (Cons rule rules)
  have "(\<exists>k < length (rule # rules). decided_at base other required (rule # rules) i k) \<longleftrightarrow>
      decided_at base other required (rule # rules) i 0
      \<or> i < length (parts_of base) \<and> \<not> allows required rule
       \<and> (i < length (parts_of other) \<longrightarrow> parts_of base ! i = parts_of other ! i)
       \<and> (\<exists>k < length rules. decided_at base other required rules (Suc i) k)"
    by (auto simp: Ex_less_Suc2 decided_at_Suc)
  then show ?case
    by (auto simp: Cons.IH decided_at_0 nth_opt_def allows_def version_part_problem_def not_less
       split: option.splits if_splits)
qed

definition release_ok :: "compat_rule_set option \<Rightarrow> tag_set \<Rightarrow> tag_set \<Rightarrow> compat_rule \<Rightarrow> bool" where
  "release_ok rules a b required \<longleftrightarrow>
     a = b \<or> (case rules of None \<Rightarrow> True | Some rs \<Rightarrow> allows required rs)"

lemma check_compat_cases:
  "check_compat self base other required = Compatible \<longleftrightarrow>
     (if version_parts_eq (v_parts base) (v_parts other)
      then release_ok (c_pre self) (v_pre base) (v_pre other) required
         \<and> release_ok (c_post self) (v_post base) (v_post other) required
      else \<exists>k < length (c_parts self). decided_at base other required (c_parts self) 0 k)"
  by (auto simp: check_compat_def Let_def check_parts_Compatible_iff release_ok_def allows_def
      split: option.splits)

section \<open>Properties\<close>

text \<open>
  C25: \<open>check_compat\<close> answers \<open>Compatible\<close> in exactly these cases. If the parts are equal, each of
  the pre and post release tags agrees, or has no rule, or has a rule set that allows the
  required rule. Otherwise some position of the contract decides: the parts before it agree
  and are not allowed to change, and there either the base version has no part or the rule
  set allows the required rule and the part did not decrease.
\<close>

theorem check_compat_iff:
  "check_compat self base other required = Compatible \<longleftrightarrow>
     (if version_parts_eq (v_parts base) (v_parts other)
      then release_ok (c_pre self) (v_pre base) (v_pre other) required
         \<and> release_ok (c_post self) (v_post base) (v_post other) required
      else \<exists>k < length (c_parts self). decided_at base other required (c_parts self) 0 k)"
  by (rule check_compat_cases)

text \<open>
  Under the default contract \<open>x.a.b\<close> a three part version is API compatible with another
  one when the major part agrees and the minor part did not decrease, and binary compatible
  when major and minor parts agree and the patch part did not decrease; so binary
  compatibility implies API compatibility.
\<close>

theorem default_compat_meaning:
  assumes "parts_of base = [a, b, c]" "parts_of other = [a', b', c']"
    and "epsilon_of base = epsilon_of other"
  shows "(is_api_compatible default_compat base other = Compatible \<longleftrightarrow> a = a' \<and> b \<le> b')
    \<and> (is_binary_compatible default_compat base other = Compatible \<longleftrightarrow> a = a' \<and> b = b' \<and> c \<le> c')"
proof (cases "version_parts_eq (v_parts base) (v_parts other)")
  case True
  then have "strip_zeros [a, b, c] = strip_zeros [a', b', c']"
    using assms by (simp add: version_parts_eq_strip)
  then have "a = a' \<and> b = b' \<and> c = c'"
    by (auto simp: strip_zeros_Cons split: if_splits)
  with True show ?thesis
    by (simp add: is_api_compatible_def is_binary_compatible_def check_compat_def default_compat_def Let_def)
next
  case False
  moreover have "\<not> (a = a' \<and> b = b' \<and> c = c')"
    using False assms by (auto simp: version_parts_eq_strip)
  ultimately show ?thesis
    using assms
    by (auto simp: is_api_compatible_def is_binary_compatible_def check_compat_def default_compat_def
        compat_rule_set_single_def bs_from_list_def nth_opt_def version_part_problem_def not_less)
qed

theorem default_compat_meaning_witness:
  "is_api_compatible default_compat (new_version 1 2 3) (new_version 1 4 0) = Compatible
   \<and> is_binary_compatible default_compat (new_version 1 2 3) (new_version 1 4 0) \<noteq> Compatible"
  using default_compat_meaning [of "new_version 1 2 3" 1 2 3 "new_version 1 4 0" 1 4 0]
  by (simp add: new_version_def from_parts_def)

text \<open>
  Being the same reason is symmetric and transitive, and it is not reflexive: a reason
  about an incompatible embedded package, an unsatisfied option or a restriction is never
  the same as itself, because no arm of the match covers it.
\<close>

theorem is_same_reason_partial_equivalence:
  "(is_same_reason_as a b \<longrightarrow> is_same_reason_as b a)
   \<and> (is_same_reason_as a b \<and> is_same_reason_as b c \<longrightarrow> is_same_reason_as a c)
   \<and> \<not> is_same_reason_as (EmbeddedIncompatible pkg a) (EmbeddedIncompatible pkg a)
   \<and> \<not> is_same_reason_as (OptionNotSatisfied a) (OptionNotSatisfied a)
   \<and> \<not> is_same_reason_as (RestrictReason pkg a) (RestrictReason pkg a)"
proof (intro conjI impI)
  show "is_same_reason_as a b \<Longrightarrow> is_same_reason_as b a"
    by (rule is_same_reason_sym_all(1))
  show "is_same_reason_as a b \<and> is_same_reason_as b c \<Longrightarrow> is_same_reason_as a c"
    by (elim conjE) (rule is_same_reason_trans_all(1))
qed simp_all

theorem is_same_reason_partial_equivalence_witness:
  "is_same_reason_as (VarOptionIllegalChoice ''a'' [''b'']) (VarOptionIllegalChoice ''a'' [''c''])
   \<and> is_same_reason_as (VarOptionIllegalChoice ''a'' [''c'']) (VarOptionIllegalChoice ''a'' [''b''])"
proof -
  let ?a = "VarOptionIllegalChoice ''a'' [''b'']" and ?b = "VarOptionIllegalChoice ''a'' [''c'']"
  have ab: "is_same_reason_as ?a ?b" by simp
  have "is_same_reason_as ?a ?b \<longrightarrow> is_same_reason_as ?b ?a"
    using is_same_reason_partial_equivalence [of ?a ?b ?b "[]"] by (rule conjunct1)
  then have "is_same_reason_as ?b ?a" using ab by (rule mp)
  with ab show ?thesis by (rule conjI)
qed

end
