(* ===== verification/Version_Ranges.thy ===== *)
theory Version_Ranges
  imports Compat
begin

text \<open>
  Version ranges (\<^verbatim>\<open>crates/spk-schema/crates/foundation/src/version_range/mod.rs\<close> and
  \<^verbatim>\<open>intersection.rs\<close>): the thirteen kinds of ranges, their bounds, which versions they apply to,
  whether one contains or intersects another, and the rule sets of \<open>VersionFilter\<close> with
  \<open>restrict\<close> and \<open>simplify_rules\<close>.

  The methods of the trait \<open>Ranged\<close> are functions on \<open>version_range\<close>, one equation per
  implementation. \<open>u32\<close> additions wrap, as they do in the release profile. A \<open>BTreeSet\<close> of
  ranges is the list of its elements in the derived order \<open>vr_cmp\<close>, under which two ranges
  can compare equal without being identical. The enumeration of pairs by the itertools crate
  is a parameter of \<open>simplify_rules\<close>.
\<close>

section \<open>Data\<close>

record compat_range =
  cr_base :: version
  cr_required :: "compat_rule option"

record lowest_specified_range =
  ls_specified :: nat
  ls_base :: version

datatype version_range =
    CompatR compat_range
  | DoubleEquals double_equals_version
  | DoubleNotEquals double_not_equals_version
  | Equals equals_version
  | Filter "version_range list"
  | GreaterThan version
  | GreaterThanOrEqualTo version
  | LessThan version
  | LessThanOrEqualTo version
  | LowestSpecified lowest_specified_range
  | NotEquals not_equals_version
  | Semver version
  | Wildcard wildcard_range

record versioned =
  vs_version :: version
  vs_compat :: compat

definition spec_is_api_compatible :: "versioned \<Rightarrow> version \<Rightarrow> compatibility" where
  "spec_is_api_compatible self base = is_api_compatible (vs_compat self) base (vs_version self)"

definition spec_is_binary_compatible :: "versioned \<Rightarrow> version \<Rightarrow> compatibility" where
  "spec_is_binary_compatible self base = is_binary_compatible (vs_compat self) base (vs_version self)"

abbreviation REQUIRED_NUMBER_OF_DIGITS :: nat where "REQUIRED_NUMBER_OF_DIGITS \<equiv> 2"

definition any_version :: wildcard_range where
  "any_version = \<lparr>wr_specified = 1, wr_parts = [None]\<rparr>"

definition wildcard_new_unchecked :: "u32 option list \<Rightarrow> wildcard_range" where
  "wildcard_new_unchecked ps = \<lparr>wr_specified = length ps, wr_parts = ps\<rparr>"

datatype range_error =
    NotNumbersOrStar str
  | NotOneWildcard wildcard_range
  | TooFewDigits version
  | BadVersion version_error
  | BadCompatRule str
  | EmptyFilter
  | SeveralRules
  | NotAVersion version_range

fun parse_wildcard_parts :: "str \<Rightarrow> str list \<Rightarrow> (range_error, u32 option list) outcome" where
  "parse_wildcard_parts minimum [] = Ok []"
| "parse_wildcard_parts minimum (part # rest) =
     (if part = ''*'' then and_then (parse_wildcard_parts minimum rest) (\<lambda>ps. Ok (None # ps))
      else (case parse_u32 part of
              Some num \<Rightarrow> and_then (parse_wildcard_parts minimum rest) (\<lambda>ps. Ok (Some num # ps))
            | None \<Rightarrow> Err (NotNumbersOrStar minimum)))"

definition wildcard_new_version_range :: "str \<Rightarrow> (range_error, version_range) outcome" where
  "wildcard_new_version_range minimum =
     and_then (parse_wildcard_parts minimum (split_str VERSION_SEP minimum)) (\<lambda>ps.
       let wr = \<lparr>wr_specified = length ps, wr_parts = ps\<rparr> in
       if length (filter (\<lambda>p. p = None) ps) \<noteq> 1 then Err (NotOneWildcard wr)
       else Ok (Wildcard wr))"

definition push_zeros :: "u32 list \<Rightarrow> u32 list" where
  "push_zeros ps = ps @ replicate (REQUIRED_NUMBER_OF_DIGITS - length ps) 0"

definition lowest_specified_new :: "version \<Rightarrow> lowest_specified_range" where
  "lowest_specified_new base =
     (let base = base\<lparr>v_parts := (v_parts base)\<lparr>vp_parts := push_zeros (parts_of base)\<rparr>\<rparr> in
      \<lparr>ls_specified = length (parts_of base), ls_base = base\<rparr>)"

definition lowest_specified_try_from :: "version \<Rightarrow> (range_error, lowest_specified_range) outcome" where
  "lowest_specified_try_from base =
     (let specified = length (parts_of base) in
      if specified < REQUIRED_NUMBER_OF_DIGITS then Err (TooFewDigits base)
      else Ok \<lparr>ls_specified = specified, ls_base = base\<rparr>)"

definition not_equals_from :: "version \<Rightarrow> not_equals_version" where
  "not_equals_from base = \<lparr>ne_specified = length (parts_of base), ne_base = base\<rparr>"

definition double_not_equals_from :: "version \<Rightarrow> double_not_equals_version" where
  "double_not_equals_from base = \<lparr>dne_specified = length (parts_of base), dne_base = base\<rparr>"

definition compat_range_new_version_range :: "str \<Rightarrow> (range_error, version_range) outcome" where
  "compat_range_new_version_range text =
     (case rsplit_once CHR '':'' text of
        Some (prefix, version) \<Rightarrow>
          and_then (map_err BadVersion (parse_version version)) (\<lambda>base.
          and_then (map_err BadCompatRule (compat_rule_from_str prefix)) (\<lambda>required.
            Ok (CompatR \<lparr>cr_base = base, cr_required = Some required\<rparr>)))
      | None \<Rightarrow>
          and_then (map_err BadVersion (parse_version text)) (\<lambda>base.
            Ok (CompatR \<lparr>cr_base = base, cr_required = None\<rparr>)))"

text \<open>The constructors that convert their argument to a version, called with a string.\<close>

definition semver_new_version_range :: "str \<Rightarrow> (range_error, version_range) outcome" where
  "semver_new_version_range minimum =
     and_then (map_err BadVersion (parse_version minimum)) (\<lambda>v. Ok (Semver v))"

definition greater_than_new_version_range :: "str \<Rightarrow> (range_error, version_range) outcome" where
  "greater_than_new_version_range boundary =
     and_then (map_err BadVersion (parse_version boundary)) (\<lambda>v. Ok (GreaterThan v))"

definition less_than_new_version_range :: "str \<Rightarrow> (range_error, version_range) outcome" where
  "less_than_new_version_range boundary =
     and_then (map_err BadVersion (parse_version boundary)) (\<lambda>v. Ok (LessThan v))"

definition greater_than_or_equal_to_new_version_range :: "str \<Rightarrow> (range_error, version_range) outcome" where
  "greater_than_or_equal_to_new_version_range boundary =
     and_then (map_err BadVersion (parse_version boundary)) (\<lambda>v. Ok (GreaterThanOrEqualTo v))"

definition less_than_or_equal_to_new_version_range :: "str \<Rightarrow> (range_error, version_range) outcome" where
  "less_than_or_equal_to_new_version_range boundary =
     and_then (map_err BadVersion (parse_version boundary)) (\<lambda>v. Ok (LessThanOrEqualTo v))"

definition equals_version_range :: "version \<Rightarrow> version_range" where
  "equals_version_range version = Equals \<lparr>ev_version = version\<rparr>"

definition double_equals_version_range :: "version \<Rightarrow> version_range" where
  "double_equals_version_range version = DoubleEquals \<lparr>dev_version = version\<rparr>"

section \<open>Printing\<close>

definition show_wildcard :: "wildcard_range \<Rightarrow> str" where
  "show_wildcard self =
     join_str [VERSION_SEP] (map (\<lambda>p. case p of Some p \<Rightarrow> show_u32 p | None \<Rightarrow> ''*'') (wr_parts self))"

definition show_specified :: "nat \<Rightarrow> version \<Rightarrow> str" where
  "show_specified specified base = show_parts (take specified (parts_of base)) @ format_tags base"

text \<open>
  The rule of a compat range prints by its long name. The rule that has none cannot be parsed,
  so it does not occur here.
\<close>

definition show_compat_range :: "compat_range \<Rightarrow> str" where
  "show_compat_range self =
     (case cr_required self of
        Some r \<Rightarrow> (case show_compat_rule_alt r of Ok s \<Rightarrow> s | _ \<Rightarrow> []) @ '':''
      | None \<Rightarrow> [])
     @ show_version (cr_base self)"

fun has_rule :: "version_range \<Rightarrow> bool" where
  "has_rule (Filter rules) = list_ex has_rule rules"
| "has_rule _ = True"

definition filter_is_empty :: "version_range list \<Rightarrow> bool" where
  "filter_is_empty rules \<longleftrightarrow> \<not> list_ex has_rule rules"

definition show_semver :: "version \<Rightarrow> str" where
  "show_semver minimum = ''^'' @ show_version minimum"

definition show_lowest_specified :: "lowest_specified_range \<Rightarrow> str" where
  "show_lowest_specified self = ''~'' @ show_specified (ls_specified self) (ls_base self)"

definition show_greater_than :: "version \<Rightarrow> str" where
  "show_greater_than bound = ''>'' @ show_version bound"

definition show_less_than :: "version \<Rightarrow> str" where
  "show_less_than bound = ''<'' @ show_version bound"

definition show_greater_than_or_equal_to :: "version \<Rightarrow> str" where
  "show_greater_than_or_equal_to bound = ''>='' @ show_version bound"

definition show_less_than_or_equal_to :: "version \<Rightarrow> str" where
  "show_less_than_or_equal_to bound = ''<='' @ show_version bound"

definition show_equals :: "equals_version \<Rightarrow> str" where
  "show_equals self = ''='' @ show_version (ev_version self)"

definition show_not_equals :: "not_equals_version \<Rightarrow> str" where
  "show_not_equals self = ''!='' @ show_specified (ne_specified self) (ne_base self)"

definition show_double_equals :: "double_equals_version \<Rightarrow> str" where
  "show_double_equals self = ''=='' @ show_version (dev_version self)"

definition show_double_not_equals :: "double_not_equals_version \<Rightarrow> str" where
  "show_double_not_equals self = ''!=='' @ show_specified (dne_specified self) (dne_base self)"

fun show_range :: "version_range \<Rightarrow> str" where
  "show_range (CompatR r) = show_compat_range r"
| "show_range (DoubleEquals r) = show_double_equals r"
| "show_range (DoubleNotEquals r) = show_double_not_equals r"
| "show_range (Equals r) = show_equals r"
| "show_range (Filter rules) =
     join_str '','' (sort (map show_range
       (filter has_rule rules)))"
| "show_range (GreaterThan b) = show_greater_than b"
| "show_range (GreaterThanOrEqualTo b) = show_greater_than_or_equal_to b"
| "show_range (LessThan b) = show_less_than b"
| "show_range (LessThanOrEqualTo b) = show_less_than_or_equal_to b"
| "show_range (LowestSpecified r) = show_lowest_specified r"
| "show_range (NotEquals r) = show_not_equals r"
| "show_range (Semver m) = show_semver m"
| "show_range (Wildcard w) = show_wildcard w"

section \<open>Bounds\<close>

abbreviation version_less :: "version \<Rightarrow> version \<Rightarrow> bool" where
  "version_less a b \<equiv> version_cmp a b = Less"

abbreviation version_le :: "version \<Rightarrow> version \<Rightarrow> bool" where
  "version_le a b \<equiv> version_cmp a b \<noteq> Greater"

text \<open>The parts of \<open>SemverRange::less_than\<close>: the first part that is not zero goes up by one
  and ends the bound.\<close>

fun semver_bump :: "u32 list \<Rightarrow> u32 list option" where
  "semver_bump [] = None"
| "semver_bump (p # ps) =
     (if p = 0 then map_option (Cons p) (semver_bump ps) else Some [p + 1])"

definition bump_last :: "u32 list \<Rightarrow> u32 list" where
  "bump_last ps = (if ps = [] then [] else butlast ps @ [last ps + 1])"

definition semver_less_than :: "version \<Rightarrow> version" where
  "semver_less_than minimum =
     (case semver_bump (parts_of minimum) of
        Some ps \<Rightarrow> from_parts ps
      | None \<Rightarrow> from_version_parts ((v_parts minimum)\<lparr>vp_parts := bump_last (parts_of minimum)\<rparr>))"

fun wildcard_ceiling :: "u32 option list \<Rightarrow> u32 list" where
  "wildcard_ceiling [] = []"
| "wildcard_ceiling [None] = []"
| "wildcard_ceiling (None # _ # _) = [0]"
| "wildcard_ceiling (Some x # None # rest) = (x + 1) # wildcard_ceiling (None # rest)"
| "wildcard_ceiling (Some x # rest) = x # wildcard_ceiling rest"

definition wildcard_less_than :: "wildcard_range \<Rightarrow> version option" where
  "wildcard_less_than self =
     (let new_parts = wildcard_ceiling (wr_parts self) in
      if new_parts = [] then None else Some (from_parts new_parts))"

definition wildcard_floor :: "wildcard_range \<Rightarrow> version" where
  "wildcard_floor self = from_parts (map (\<lambda>p. case p of Some p \<Rightarrow> p | None \<Rightarrow> 0) (wr_parts self))"

definition lowest_specified_less_than :: "lowest_specified_range \<Rightarrow> version" where
  "lowest_specified_less_than self =
     minus_epsilon (from_parts (bump_last (take (ls_specified self - 1) (parts_of (ls_base self)))))"

fun filter_map :: "('a \<Rightarrow> 'b option) \<Rightarrow> 'a list \<Rightarrow> 'b list" where
  "filter_map f [] = []"
| "filter_map f (x # xs) = (case f x of None \<Rightarrow> filter_map f xs | Some y \<Rightarrow> y # filter_map f xs)"

lemma filter_map_cong [fundef_cong]:
  "xs = ys \<Longrightarrow> (\<And>x. x \<in> set ys \<Longrightarrow> f x = g x) \<Longrightarrow> filter_map f xs = filter_map g ys"
  by (induction ys arbitrary: xs) (auto split: option.splits)

fun greater_or_equal_to :: "version_range \<Rightarrow> version option" where
  "greater_or_equal_to (CompatR r) = Some (cr_base r)"
| "greater_or_equal_to (DoubleEquals r) = Some (dev_version r)"
| "greater_or_equal_to (DoubleNotEquals r) = Some (plus_epsilon (dne_base r))"
| "greater_or_equal_to (Equals r) = Some (ev_version r)"
| "greater_or_equal_to (Filter rules) = iter_max version_cmp (filter_map greater_or_equal_to rules)"
| "greater_or_equal_to (GreaterThan b) = Some (plus_epsilon b)"
| "greater_or_equal_to (GreaterThanOrEqualTo b) = Some b"
| "greater_or_equal_to (LessThan b) = None"
| "greater_or_equal_to (LessThanOrEqualTo b) = None"
| "greater_or_equal_to (LowestSpecified r) = Some (ls_base r)"
| "greater_or_equal_to (NotEquals r) = Some (plus_epsilon (ne_base r))"
| "greater_or_equal_to (Semver m) = Some m"
| "greater_or_equal_to (Wildcard w) = Some (wildcard_floor w)"

fun less_than_bound :: "version_range \<Rightarrow> version option" where
  "less_than_bound (CompatR r) = None"
| "less_than_bound (DoubleEquals r) = Some (plus_epsilon (dev_version r))"
| "less_than_bound (DoubleNotEquals r) = Some (dne_base r)"
| "less_than_bound (Equals r) = Some (plus_epsilon (ev_version r))"
| "less_than_bound (Filter rules) = iter_min version_cmp (filter_map less_than_bound rules)"
| "less_than_bound (GreaterThan b) = None"
| "less_than_bound (GreaterThanOrEqualTo b) = None"
| "less_than_bound (LessThan b) = Some b"
| "less_than_bound (LessThanOrEqualTo b) = Some (plus_epsilon b)"
| "less_than_bound (LowestSpecified r) = Some (lowest_specified_less_than r)"
| "less_than_bound (NotEquals r) = Some (ne_base r)"
| "less_than_bound (Semver m) = Some (semver_less_than m)"
| "less_than_bound (Wildcard w) = wildcard_less_than w"

fun get_compat_rule :: "version_range \<Rightarrow> compat_rule option" where
  "get_compat_rule (CompatR r) = cr_required r"
| "get_compat_rule _ = None"

section \<open>Which versions a range accepts\<close>

text \<open>
  The loop \<open>for r in rules { let c = f(r); if !c.is_ok() { return c } } Compatible\<close>, which
  the filters use for each of their methods.
\<close>

fun first_incompatible :: "('a \<Rightarrow> compatibility) \<Rightarrow> 'a list \<Rightarrow> compatibility" where
  "first_incompatible f [] = Compatible"
| "first_incompatible f (x # xs) =
     (let compat = f x in if \<not> is_ok compat then compat else first_incompatible f xs)"

lemma first_incompatible_cong [fundef_cong]:
  "xs = ys \<Longrightarrow> (\<And>x. x \<in> set ys \<Longrightarrow> f x = g x) \<Longrightarrow> first_incompatible f xs = first_incompatible g ys"
  by (induction ys arbitrary: xs) (auto simp: Let_def)

lemma first_incompatible_ok [simp]:
  "first_incompatible f xs = Compatible \<longleftrightarrow> (\<forall>x \<in> set xs. f x = Compatible)"
  by (induction xs) (auto simp: Let_def)

text \<open>The default method of the trait, over the two bounds.\<close>

definition within_bounds :: "version option \<Rightarrow> version option \<Rightarrow> version \<Rightarrow> compatibility" where
  "within_bounds lower upper other =
     (case lower of
        Some gt \<Rightarrow>
          if version_less other gt then Incompatible (VersionTooLow (TooLow (GteVersion gt)))
          else (case upper of
                  Some lt \<Rightarrow>
                    if version_le lt other then Incompatible (VersionTooHigh (TooHigh (LtVersion lt)))
                    else Compatible
                | None \<Rightarrow> Compatible)
      | None \<Rightarrow> (case upper of
                  Some lt \<Rightarrow>
                    if version_le lt other then Incompatible (VersionTooHigh (TooHigh (LtVersion lt)))
                    else Compatible
                | None \<Rightarrow> Compatible))"

fun wildcard_check :: "wildcard_range \<Rightarrow> nat \<Rightarrow> (u32 option \<times> u32) list \<Rightarrow> compatibility" where
  "wildcard_check self i [] = Compatible"
| "wildcard_check self i ((a, b) # rest) =
     (case a of
        Some a \<Rightarrow>
          if a \<noteq> b then
            Incompatible (VersionOutOfRange self (i + 1) (get_version_position_label i) b a)
          else wildcard_check self (i + 1) rest
      | None \<Rightarrow> wildcard_check self (i + 1) rest)"

definition equals_is_applicable :: "equals_version \<Rightarrow> version \<Rightarrow> compatibility" where
  "equals_is_applicable self other =
     (if \<not> version_parts_eq (v_parts (ev_version self)) (v_parts other)
      then Incompatible (VersionNotEqual (PartsNotEqual self other))
      else if v_pre (ev_version self) \<noteq> v_pre other
      then Incompatible (VersionNotEqual (PreNotEqual self other))
      else first_incompatible
             (\<lambda>(name, val). case bt_get (v_post other) name of
                Some v \<Rightarrow> if v = val then Compatible
                          else Incompatible (VersionNotEqual (PostNotEqual self other))
              | None \<Rightarrow> Incompatible (VersionNotEqual (PostNotEqual self other)))
             (v_post (ev_version self)))"

text \<open>Whether one of the first \<open>specified\<close> pairs of parts differs.\<close>

definition some_part_differs :: "nat \<Rightarrow> version \<Rightarrow> version \<Rightarrow> bool" where
  "some_part_differs specified version base =
     list_ex (\<lambda>(l, r). l \<noteq> r) (take specified (zip (parts_of version) (parts_of base)))"

definition not_equals_is_applicable :: "not_equals_version \<Rightarrow> version \<Rightarrow> compatibility" where
  "not_equals_is_applicable self version =
     (if some_part_differs (ne_specified self) version (ne_base self) then Compatible
      else if v_post (ne_base self) \<noteq> [] \<and> v_post (ne_base self) \<noteq> v_post version then Compatible
      else Incompatible (VersionNotDifferent (NotEqual self)))"

definition double_equals_is_applicable :: "double_equals_version \<Rightarrow> version \<Rightarrow> compatibility" where
  "double_equals_is_applicable self other =
     (if \<not> version_parts_eq (v_parts (dev_version self)) (v_parts other)
      then Incompatible (VersionNotEqual (PartsNotEqualPrecisely self other))
      else if v_pre (dev_version self) \<noteq> v_pre other
      then Incompatible (VersionNotEqual (PreNotEqualPrecisely self other))
      else if v_post (dev_version self) \<noteq> v_post other
      then Incompatible (VersionNotEqual (PostNotEqualPrecisely self other))
      else Compatible)"

definition double_not_equals_is_applicable ::
  "double_not_equals_version \<Rightarrow> version \<Rightarrow> compatibility" where
  "double_not_equals_is_applicable self version =
     (if some_part_differs (dne_specified self) version (dne_base self) then Compatible
      else if v_post (dne_base self) \<noteq> v_post version then Compatible
      else Incompatible (VersionNotDifferent (NotPreciselyEqual self)))"

definition greater_than_is_applicable :: "version \<Rightarrow> version \<Rightarrow> compatibility" where
  "greater_than_is_applicable bound version =
     (if version_le version bound
      then Incompatible (VersionTooLow (NotHighEnough ''>'' bound)) else Compatible)"

definition less_than_is_applicable :: "version \<Rightarrow> version \<Rightarrow> compatibility" where
  "less_than_is_applicable bound version =
     (if version_le bound version
      then Incompatible (VersionTooHigh (NotLowEnough ''<'' bound)) else Compatible)"

definition greater_than_or_equal_to_is_applicable :: "version \<Rightarrow> version \<Rightarrow> compatibility" where
  "greater_than_or_equal_to_is_applicable bound version =
     (if version_less version bound
      then Incompatible (VersionTooLow (NotHighEnough ''>='' bound)) else Compatible)"

definition less_than_or_equal_to_is_applicable :: "version \<Rightarrow> version \<Rightarrow> compatibility" where
  "less_than_or_equal_to_is_applicable bound version =
     (if version_less bound version
      then Incompatible (VersionTooHigh (NotLowEnough ''<='' bound)) else Compatible)"

definition wildcard_is_applicable :: "wildcard_range \<Rightarrow> version \<Rightarrow> compatibility" where
  "wildcard_is_applicable self version = wildcard_check self 0 (zip (wr_parts self) (parts_of version))"

lemmas bound_is_applicable_defs [simp] =
  greater_than_is_applicable_def less_than_is_applicable_def
  greater_than_or_equal_to_is_applicable_def less_than_or_equal_to_is_applicable_def
  wildcard_is_applicable_def

fun is_applicable :: "version_range \<Rightarrow> version \<Rightarrow> compatibility" where
  "is_applicable (CompatR r) other =
     within_bounds (greater_or_equal_to (CompatR r)) (less_than_bound (CompatR r)) other"
| "is_applicable (DoubleEquals r) other = double_equals_is_applicable r other"
| "is_applicable (DoubleNotEquals r) other = double_not_equals_is_applicable r other"
| "is_applicable (Equals r) other = equals_is_applicable r other"
| "is_applicable (Filter rules) other = first_incompatible (\<lambda>r. is_applicable r other) rules"
| "is_applicable (GreaterThan bound) version = greater_than_is_applicable bound version"
| "is_applicable (GreaterThanOrEqualTo bound) version =
     greater_than_or_equal_to_is_applicable bound version"
| "is_applicable (LessThan bound) version = less_than_is_applicable bound version"
| "is_applicable (LessThanOrEqualTo bound) version =
     less_than_or_equal_to_is_applicable bound version"
| "is_applicable (LowestSpecified r) other =
     within_bounds (greater_or_equal_to (LowestSpecified r)) (less_than_bound (LowestSpecified r)) other"
| "is_applicable (NotEquals r) other = not_equals_is_applicable r other"
| "is_applicable (Semver m) other =
     within_bounds (greater_or_equal_to (Semver m)) (less_than_bound (Semver m)) other"
| "is_applicable (Wildcard w) other = wildcard_is_applicable w other"

definition compat_is_satisfied_by :: "compat_range \<Rightarrow> versioned \<Rightarrow> compat_rule \<Rightarrow> compatibility" where
  "compat_is_satisfied_by self spec required =
     (if version_less (vs_version spec) (cr_base self)
      then Incompatible (VersionTooLow (TooLow (CompatVersion (cr_base self))))
      else (case (case cr_required self of Some r \<Rightarrow> r | None \<Rightarrow> required) of
              CompatNone \<Rightarrow> Compatible
            | API \<Rightarrow> spec_is_api_compatible spec (cr_base self)
            | Binary \<Rightarrow> spec_is_binary_compatible spec (cr_base self)))"

fun is_satisfied_by :: "version_range \<Rightarrow> versioned \<Rightarrow> compat_rule \<Rightarrow> compatibility" where
  "is_satisfied_by (CompatR r) spec required = compat_is_satisfied_by r spec required"
| "is_satisfied_by (Filter rules) spec required =
     first_incompatible (\<lambda>r. is_satisfied_by r spec required) rules"
| "is_satisfied_by self spec required = is_applicable self (vs_version spec)"

section \<open>Acceptance\<close>

lemma within_bounds_accepts:
  "within_bounds lower upper v = Compatible \<longleftrightarrow>
     (\<forall>l. lower = Some l \<longrightarrow> version_le l v) \<and> (\<forall>u. upper = Some u \<longrightarrow> version_less v u)"
  using version_ord.cmp_Greater_iff
  by (auto simp: within_bounds_def split: option.splits)

lemma equals_accepts:
  "equals_is_applicable r v = Compatible \<longleftrightarrow>
     version_parts_eq (v_parts (ev_version r)) (v_parts v) \<and> v_pre (ev_version r) = v_pre v
     \<and> (\<forall>(name, n) \<in> set (v_post (ev_version r)). bt_get (v_post v) name = Some n)"
  by (auto simp: equals_is_applicable_def split: option.splits if_splits)

lemma wildcard_check_accepts:
  "wildcard_check w i ps = Compatible \<longleftrightarrow> list_all (\<lambda>(a, b). a = None \<or> a = Some b) ps"
  by (induction ps arbitrary: i) (auto split: option.splits if_splits)

lemma some_part_differs_iff:
  "some_part_differs n v b \<longleftrightarrow>
     (\<exists>i < min n (min (length (parts_of v)) (length (parts_of b))). parts_of v ! i \<noteq> parts_of b ! i)"
  by (auto simp: some_part_differs_def list_ex_length)

section \<open>The invariant of ranges\<close>

text \<open>
  What the parsers and constructors establish: every version is one a parser returns, and the
  number of specified parts is the number of parts.
\<close>

fun range_wf :: "version_range \<Rightarrow> bool" where
  "range_wf (CompatR r) = version_valid (cr_base r)"
| "range_wf (DoubleEquals r) = version_valid (dev_version r)"
| "range_wf (DoubleNotEquals r) =
     (version_valid (dne_base r) \<and> dne_specified r = length (parts_of (dne_base r)))"
| "range_wf (Equals r) = version_valid (ev_version r)"
| "range_wf (Filter rules) = list_all range_wf rules"
| "range_wf (GreaterThan b) = version_valid b"
| "range_wf (GreaterThanOrEqualTo b) = version_valid b"
| "range_wf (LessThan b) = version_valid b"
| "range_wf (LessThanOrEqualTo b) = version_valid b"
| "range_wf (LowestSpecified r) =
     (version_valid (ls_base r) \<and> ls_specified r = length (parts_of (ls_base r))
      \<and> REQUIRED_NUMBER_OF_DIGITS \<le> ls_specified r)"
| "range_wf (NotEquals r) =
     (version_valid (ne_base r) \<and> ne_specified r = length (parts_of (ne_base r)))"
| "range_wf (Semver m) = version_valid m"
| "range_wf (Wildcard w) =
     (wr_specified w = length (wr_parts w) \<and> length (filter (\<lambda>p. p = None) (wr_parts w)) = 1)"

section \<open>Ceilings\<close>

text \<open>Stripped part lists compare at the first part that differs, where a missing part is 0.\<close>

lemma part_or_zero_Cons [simp]:
  "part_or_zero (p # ps) 0 = p" "part_or_zero (p # ps) (Suc i) = part_or_zero ps i"
  by (simp_all add: part_or_zero_def)

lemma Nil_less_iff: "[] < xs \<longleftrightarrow> xs \<noteq> []" for xs :: "'a::linorder list"
  by (cases xs) auto

lemma strip_zeros_less_Cons:
  "strip_zeros (p # ps) < strip_zeros (q # qs) \<longleftrightarrow> p < q \<or> p = q \<and> strip_zeros ps < strip_zeros qs"
  by (auto simp: strip_zeros_Cons Nil_less_iff word_gt_0)

lemma parts_as_Cons:
  obtains y ys where "strip_zeros ps = strip_zeros (y # ys)"
    "\<And>i. part_or_zero ps i = part_or_zero (y # ys) i"
proof (cases ps)
  case Nil
  have "part_or_zero [] i = part_or_zero [0] i" for i by (cases i) (simp_all add: part_or_zero_def)
  then show ?thesis using that [of 0 "[]"] Nil by (simp add: strip_zeros_Cons)
next
  case (Cons y ys)
  then show ?thesis using that by blast
qed

lemma less_succ_word:
  fixes x y :: u32
  assumes "x \<noteq> U32_MAX"
  shows "y < x + 1 \<longleftrightarrow> y \<le> x"
proof -
  have "1 + x \<noteq> 0"
  proof
    assume "1 + x = 0"
    then have "x = 0 - 1" by (metis add_diff_cancel_left')
    with assms show False by simp
  qed
  then have "unat (1 + x) = Suc (unat x)" by (rule unatSuc)
  then show ?thesis by (simp add: word_less_nat_alt word_le_nat_alt add.commute less_Suc_eq_le)
qed

text \<open>Below the ceiling \<open>prefix.(x+1)\<close> and not below \<open>prefix.x\<close> means to start with \<open>prefix.x\<close>.\<close>

lemma below_ceiling:
  assumes "x \<noteq> U32_MAX" "strip_zeros (pre @ x # rest) \<le> strip_zeros ps"
  shows "strip_zeros ps < strip_zeros (pre @ [x + 1])
    \<longleftrightarrow> (\<forall>i \<le> length pre. part_or_zero ps i = part_or_zero (pre @ x # rest) i)"
  using assms(2)
proof (induction pre arbitrary: ps)
  case Nil
  obtain y ys where ps: "strip_zeros ps = strip_zeros (y # ys)"
    "\<And>i. part_or_zero ps i = part_or_zero (y # ys) i" using parts_as_Cons [of ps] by blast
  from Nil have "x \<le> y"
    using strip_zeros_less_Cons [of y ys x rest] by (auto simp: ps(1) not_less [symmetric])
  then show ?case
    using strip_zeros_less_Cons [of y ys "x + 1" "[]"] less_succ_word [OF assms(1)]
    by (auto simp: ps)
next
  case (Cons p pre)
  obtain y ys where ps: "strip_zeros ps = strip_zeros (y # ys)"
    "\<And>i. part_or_zero ps i = part_or_zero (y # ys) i" using parts_as_Cons [of ps] by blast
  from Cons.prems have low: "p < y \<or> p = y \<and> strip_zeros (pre @ x # rest) \<le> strip_zeros ys"
    using strip_zeros_less_Cons [of y ys p "pre @ x # rest"]
    by (auto simp: ps(1) not_less [symmetric])
  have "strip_zeros ps < strip_zeros ((p # pre) @ [x + 1]) \<longleftrightarrow>
      p = y \<and> strip_zeros ys < strip_zeros (pre @ [x + 1])"
    using low strip_zeros_less_Cons [of y ys p "pre @ [x + 1]"] by (auto simp: ps(1))
  also have "\<dots> \<longleftrightarrow> p = y \<and> (\<forall>i \<le> length pre. part_or_zero ys i = part_or_zero (pre @ x # rest) i)"
    using low Cons.IH [of ys] by auto
  also have "\<dots> \<longleftrightarrow> (\<forall>i \<le> length (p # pre). part_or_zero ps i = part_or_zero ((p # pre) @ x # rest) i)"
    by (auto simp: ps(2) less_Suc_eq_le [symmetric] All_less_Suc2)
  finally show ?case .
qed

lemma less_release_iff:
  assumes "epsilon_of v = EpsNone" "v_pre v = []"
  shows "version_less v (from_parts us) \<longleftrightarrow> strip_zeros (parts_of v) < strip_zeros us"
    "version_le (from_parts us) v \<longleftrightarrow> strip_zeros us \<le> strip_zeros (parts_of v)"
  using assms by (auto simp: version_cmp_key from_parts_def version_key_def not_less)

lemma from_parts_less: "version_less (from_parts ps) (from_parts qs) \<longleftrightarrow> strip_zeros ps < strip_zeros qs"
  using less_release_iff(1) [of "from_parts ps" qs] by (simp add: from_parts_def)

lemma less_minus_epsilon_iff:
  assumes "epsilon_of v = EpsNone"
  shows "version_less v (minus_epsilon (from_parts us)) \<longleftrightarrow> strip_zeros (parts_of v) < strip_zeros us"
  using assms
  by (auto simp: version_cmp_key version_key_def minus_epsilon_def from_parts_def less_epsilon_def
      less_eq_epsilon_def)

lemma version_le_strip:
  "version_le m v \<Longrightarrow> strip_zeros (parts_of m) \<le> strip_zeros (parts_of v)"
  by (auto simp: version_cmp_key version_key_def not_less)

text \<open>The position that a caret range protects: the first part that is not zero, or the last part.\<close>

fun caret_index :: "u32 list \<Rightarrow> nat" where
  "caret_index [] = 0"
| "caret_index [p] = 0"
| "caret_index (p # q # ps) = (if p = 0 then Suc (caret_index (q # ps)) else 0)"

lemma caret_index_less: "ps \<noteq> [] \<Longrightarrow> caret_index ps < length ps"
  by (induction ps rule: caret_index.induct) auto

lemma bump_last_Cons: "bump_last (p # q # ps) = p # bump_last (q # ps)"
  by (simp add: bump_last_def)

lemma semver_ceiling_parts:
  "ps \<noteq> [] \<Longrightarrow>
   (case semver_bump ps of Some us \<Rightarrow> us | None \<Rightarrow> bump_last ps) =
     take (caret_index ps) ps @ [ps ! caret_index ps + 1]"
proof (induction ps rule: caret_index.induct)
  case (2 p)
  then show ?case by (simp add: bump_last_def)
next
  case (3 p q ps)
  then show ?case
    using bump_last_Cons [of p q ps] by (auto simp del: semver_bump.simps(2) simp: semver_bump.simps(2) [of p]
        split: option.splits)
qed simp

lemma semver_less_than_caret:
  assumes "parts_of m \<noteq> []" "epsilon_of m = EpsNone"
  shows "semver_less_than m =
    from_parts (take (caret_index (parts_of m)) (parts_of m) @ [parts_of m ! caret_index (parts_of m) + 1])"
  using semver_ceiling_parts [OF assms(1)] assms(2)
  by (auto simp: semver_less_than_def from_version_parts_def from_parts_def split: option.splits)

lemma lowest_specified_ceiling:
  assumes "range_wf (LowestSpecified r)"
  shows "lowest_specified_less_than r =
    minus_epsilon (from_parts (take (ls_specified r - 2) (parts_of (ls_base r))
      @ [parts_of (ls_base r) ! (ls_specified r - 2) + 1]))"
proof -
  let ?ps = "parts_of (ls_base r)" and ?n = "ls_specified r - 2"
  have n: "ls_specified r - 1 = Suc ?n" "?n < length ?ps" using assms by auto
  then have "take (Suc ?n) ?ps = take ?n ?ps @ [?ps ! ?n]" by (simp add: take_Suc_conv_app_nth)
  then have "bump_last (take (Suc ?n) ?ps) = take ?n ?ps @ [?ps ! ?n + 1]"
    by (simp only: bump_last_def) simp
  then show ?thesis by (simp only: lowest_specified_less_than_def n(1))
qed

lemma ceiling_agrees:
  assumes "k < length ps" "ps ! k \<noteq> U32_MAX" "strip_zeros ps \<le> strip_zeros qs"
  shows "strip_zeros qs < strip_zeros (take k ps @ [ps ! k + 1])
    \<longleftrightarrow> (\<forall>i \<le> k. part_or_zero qs i = part_or_zero ps i)"
  using below_ceiling [of "ps ! k" "take k ps" "drop (Suc k) ps" qs] assms
    id_take_nth_drop [OF assms(1)] by (simp add: min_def)

text \<open>Trailing wildcards.\<close>

definition trailing_wildcard :: "u32 list \<Rightarrow> version_range" where
  "trailing_wildcard ps = Wildcard (wildcard_new_unchecked (map Some ps @ [None]))"

lemma wildcard_ceiling_trailing: "ps \<noteq> [] \<Longrightarrow> wildcard_ceiling (map Some ps @ [None]) = bump_last ps"
proof (induction ps rule: induct_list012)
  case (3 p q ps)
  then show ?case by (simp add: bump_last_Cons)
qed (simp_all add: bump_last_def)

lemma trailing_wildcard_bounds:
  assumes "ps \<noteq> []"
  shows "greater_or_equal_to (trailing_wildcard ps) = Some (from_parts (ps @ [0]))"
    "less_than_bound (trailing_wildcard ps) = Some (from_parts (butlast ps @ [last ps + 1]))"
  using assms wildcard_ceiling_trailing [OF assms]
  by (simp_all add: trailing_wildcard_def wildcard_new_unchecked_def wildcard_floor_def
      wildcard_less_than_def bump_last_def comp_def)

lemma trailing_wildcard_accepts:
  "is_applicable (trailing_wildcard ps) v = Compatible \<longleftrightarrow>
     (\<forall>i < min (length ps) (length (parts_of v)). parts_of v ! i = ps ! i)"
  by (auto simp: trailing_wildcard_def wildcard_new_unchecked_def wildcard_check_accepts list_all_length
      nth_append less_Suc_eq min_def split: if_splits)

lemma strip_zeros_prefix_le: "strip_zeros ps \<le> strip_zeros (ps @ qs)"
proof (induction ps)
  case (Cons p ps)
  then show ?case
    using strip_zeros_less_Cons [of p "ps @ qs" p ps] by (simp add: not_less [symmetric])
qed simp

section \<open>Parsing what was printed\<close>

lemma show_version_valid:
  assumes "version_valid v"
  shows "show_version v = show_parts (pad_zeros 3 (parts_of v))
    @ (if v_pre v = [] then [] else CHR ''-'' # show_tag_set (v_pre v))
    @ (if v_post v = [] then [] else CHR ''+'' # show_tag_set (v_post v))"
  using assms by (simp add: show_version_def base_normalized_def show_base_def format_tags_def
      Let_def iter_for_display_eq version_valid_def)

lemma parse_shown_version:
  assumes "version_valid v"
  shows "parse_version (show_version v) =
    Ok (v\<lparr>v_parts := \<lparr>vp_parts = pad_zeros 3 (parts_of v), vp_epsilon = EpsNone\<rparr>\<rparr>)"
  using assms parse_version_shown [of "pad_zeros 3 (parts_of v)" "v_pre v" "v_post v"]
  by (simp add: show_version_valid version_valid_def from_parts_def)

lemma colon_not_alphanumeric: "\<not> is_ascii_alphanumeric CHR '':''"
  by (simp add: is_ascii_alphanumeric_def is_ascii_lowercase_def is_ascii_uppercase_def
      is_ascii_digit_def less_eq_char_def)

lemma colon_not_shown:
  assumes "version_valid v"
  shows "CHR '':'' \<notin> set (show_version v)"
proof -
  have digits: "CHR '':'' \<notin> set (show_u32 x)" for x by (rule not_in_show_u32) simp
  then have "CHR '':'' \<notin> set (show_parts ps)" for ps
    using set_join_str [of "[VERSION_SEP]" "map show_u32 ps"] unfolding show_parts_def by auto
  moreover have "CHR '':'' \<notin> set (show_tag_set ts)" if "tag_set_valid ts" for ts
  proof -
    have "CHR '':'' \<notin> set p" if "p \<in> set (map show_tag ts)" for p
      using that \<open>tag_set_valid ts\<close> digits colon_not_alphanumeric
      by (force simp: tag_set_valid_def list_all_iff tag_name_valid_def)
    then have "CHR '':'' \<notin> (\<Union>p \<in> set (map show_tag ts). set p)" by blast
    moreover have "set (show_tag_set ts) \<subseteq> {CHR '',''} \<union> (\<Union>p \<in> set (map show_tag ts). set p)"
      using set_join_str [of "[TAG_SET_SEP]" "map show_tag ts"] by (simp add: show_tag_set_def)
    ultimately show ?thesis by auto
  qed
  ultimately show ?thesis
    using assms by (simp add: show_version_valid version_valid_def)
qed

lemma parse_wildcard_parts_show:
  "parse_wildcard_parts minimum
     (map (\<lambda>p. case p of Some p \<Rightarrow> show_u32 p | None \<Rightarrow> ''*'') ps) = Ok ps"
proof (induction ps)
  case (Cons p ps)
  have "show_u32 x \<noteq> ''*''" for x
  proof
    assume "show_u32 x = ''*''"
    with not_in_show_u32 [of "CHR ''*''" x] show False by simp
  qed
  with Cons show ?case by (cases p) simp_all
qed simp

lemma wildcard_print_parse:
  assumes "range_wf (Wildcard w)"
  shows "wildcard_new_version_range (show_wildcard w) = Ok (Wildcard w)"
proof -
  let ?pieces = "map (\<lambda>p. case p of Some p \<Rightarrow> show_u32 p | None \<Rightarrow> ''*'') (wr_parts w)"
  have "split_str VERSION_SEP (join_str [VERSION_SEP] ?pieces) = ?pieces"
    using assms by (intro split_join_str) (auto split: option.splits)
  with assms show ?thesis
    by (simp add: wildcard_new_version_range_def show_wildcard_def parse_wildcard_parts_show Let_def)
qed

section \<open>Properties\<close>

text \<open>
  Caret ranges follow their documented table: \<open>^m\<close> accepts the versions that are not below
  \<open>m\<close> and agree with it up to its left-most part that is not zero (up to its last part when all
  are zero). This is for versions without pre release tags and when the ceiling does not
  wrap around.
\<close>

theorem caret_meaning:
  assumes "parts_of m \<noteq> []" "epsilon_of m = EpsNone"
    and "parts_of m ! caret_index (parts_of m) \<noteq> U32_MAX"
    and "epsilon_of v = EpsNone" "v_pre v = []"
  shows "is_applicable (Semver m) v = Compatible \<longleftrightarrow>
    version_le m v
    \<and> (\<forall>i \<le> caret_index (parts_of m). part_or_zero (parts_of v) i = part_or_zero (parts_of m) i)"
  using version_le_strip [of m v] assms(3)
    ceiling_agrees [OF caret_index_less [OF assms(1)], of "parts_of v"]
  by (auto simp: within_bounds_accepts semver_less_than_caret [OF assms(1,2)]
      less_release_iff [OF assms(4,5)])

theorem caret_meaning_witness:
  "is_applicable (Semver (from_parts [0, 2, 3])) (from_parts [0, 2, 9]) = Compatible \<longleftrightarrow>
    version_le (from_parts [0, 2, 3]) (from_parts [0, 2, 9])
    \<and> (\<forall>i \<le> caret_index (parts_of (from_parts [0, 2, 3])).
          part_or_zero (parts_of (from_parts [0, 2, 9])) i = part_or_zero (parts_of (from_parts [0, 2, 3])) i)"
  by (rule caret_meaning) code_simp+

text \<open>
  Tilde ranges follow their documented table: \<open>~1.2.3\<close> accepts the versions that are not below
  \<open>1.2.3\<close> and agree with it on all parts but the last. Unlike the caret, this also holds for
  versions with pre release tags, which the ceiling excludes.
\<close>

theorem tilde_meaning:
  assumes "range_wf (LowestSpecified r)"
    and "parts_of (ls_base r) ! (ls_specified r - 2) \<noteq> U32_MAX"
    and "epsilon_of v = EpsNone"
  shows "is_applicable (LowestSpecified r) v = Compatible \<longleftrightarrow>
    version_le (ls_base r) v
    \<and> (\<forall>i < ls_specified r - 1. part_or_zero (parts_of v) i = part_or_zero (parts_of (ls_base r)) i)"
proof -
  have n: "ls_specified r - 2 < length (parts_of (ls_base r))" using assms(1) by auto
  have last: "i < ls_specified r - 1 \<longleftrightarrow> i \<le> ls_specified r - 2" for i using assms(1) by auto
  have "is_applicable (LowestSpecified r) v = Compatible \<longleftrightarrow>
      version_le (ls_base r) v \<and> version_less v (lowest_specified_less_than r)"
    by (simp add: within_bounds_accepts)
  also have "\<dots> \<longleftrightarrow> version_le (ls_base r) v
      \<and> (\<forall>i \<le> ls_specified r - 2. part_or_zero (parts_of v) i = part_or_zero (parts_of (ls_base r)) i)"
    unfolding lowest_specified_ceiling [OF assms(1)] less_minus_epsilon_iff [OF assms(3)]
    using version_le_strip [of "ls_base r" v] ceiling_agrees [OF n assms(2), of "parts_of v"] by blast
  finally show ?thesis unfolding last .
qed

theorem tilde_meaning_witness:
  "is_applicable (LowestSpecified (lowest_specified_new (from_parts [1, 2, 3]))) (from_parts [1, 2, 7]) = Compatible \<longleftrightarrow>
    version_le (ls_base (lowest_specified_new (from_parts [1, 2, 3]))) (from_parts [1, 2, 7])
    \<and> (\<forall>i < ls_specified (lowest_specified_new (from_parts [1, 2, 3])) - 1.
          part_or_zero (parts_of (from_parts [1, 2, 7])) i
          = part_or_zero (parts_of (ls_base (lowest_specified_new (from_parts [1, 2, 3])))) i)"
  by (rule tilde_meaning) code_simp+

text \<open>
  A trailing wildcard accepts what its bounds say, as its documented table has it
  (\<open>1.2.* := >=1.2.0, <1.3.0\<close>), for versions without pre release tags that spell out at least
  the parts before the wildcard.
\<close>

theorem trailing_wildcard_meaning:
  assumes "ps \<noteq> []" "last ps \<noteq> U32_MAX" "length ps \<le> length (parts_of v)"
    and "epsilon_of v = EpsNone" "v_pre v = []"
  shows "is_applicable (trailing_wildcard ps) v = Compatible \<longleftrightarrow>
    version_le (from_parts (ps @ [0])) v \<and> version_less v (from_parts (butlast ps @ [last ps + 1]))
    \<and> greater_or_equal_to (trailing_wildcard ps) = Some (from_parts (ps @ [0]))
    \<and> less_than_bound (trailing_wildcard ps) = Some (from_parts (butlast ps @ [last ps + 1]))"
proof -
  have split: "butlast ps @ last ps # [0] = ps @ [0]" using assms(1) by simp
  have last: "i \<le> length (butlast ps) \<longleftrightarrow> i < length ps" for i
    using assms(1) by (cases ps rule: rev_cases) auto
  have agree: "is_applicable (trailing_wildcard ps) v = Compatible \<longleftrightarrow>
      (\<forall>i \<le> length (butlast ps). part_or_zero (parts_of v) i = part_or_zero (ps @ [0]) i)"
    unfolding last using assms(3)
    by (auto simp: trailing_wildcard_accepts part_or_zero_def nth_append min_absorb1)
  have "is_applicable (trailing_wildcard ps) v = Compatible \<Longrightarrow>
      strip_zeros (ps @ [0]) \<le> strip_zeros (parts_of v)"
  proof -
    assume "is_applicable (trailing_wildcard ps) v = Compatible"
    then have "take (length ps) (parts_of v) = ps"
      using assms(3) by (intro nth_equalityI) (auto simp: trailing_wildcard_accepts)
    then show ?thesis
      using strip_zeros_prefix_le [of ps "drop (length ps) (parts_of v)"]
      by (metis append_take_drop_id strip_zeros_append_zeros replicate_0 replicate_Suc)
  qed
  with agree below_ceiling [OF assms(2), of "butlast ps" "[0]" "parts_of v"] show ?thesis
    using trailing_wildcard_bounds [OF assms(1)]
    by (auto simp: less_release_iff [OF assms(4,5)] split)
qed

theorem trailing_wildcard_meaning_witness:
  "is_applicable (trailing_wildcard [1, 2]) (from_parts [1, 2, 5]) = Compatible \<longleftrightarrow>
    version_le (from_parts ([1, 2] @ [0])) (from_parts [1, 2, 5])
    \<and> version_less (from_parts [1, 2, 5]) (from_parts (butlast [1, 2] @ [last [1, 2] + 1]))
    \<and> greater_or_equal_to (trailing_wildcard [1, 2]) = Some (from_parts ([1, 2] @ [0]))
    \<and> less_than_bound (trailing_wildcard [1, 2]) = Some (from_parts (butlast [1, 2] @ [last [1, 2] + 1]))"
  by (rule trailing_wildcard_meaning) code_simp+

text \<open>
  Acceptance by a wildcard depends on how a version is written: the version that stops before
  the last part of the wildcard's prefix is accepted, and the same version with that part
  written out as 0 is not.
\<close>

theorem wildcard_accepts_short_version:
  assumes "x \<noteq> 0"
  shows "version_eq (from_parts qs) (from_parts (qs @ [0]))
    \<and> is_applicable (trailing_wildcard (qs @ [x])) (from_parts qs) = Compatible
    \<and> is_applicable (trailing_wildcard (qs @ [x])) (from_parts (qs @ [0])) \<noteq> Compatible"
  using assms
  by (simp add: trailing_wildcard_accepts version_eq_def version_parts_eq_strip from_parts_def
      nth_append min_def) (auto intro!: exI [of _ "length qs"])

theorem wildcard_accepts_short_version_witness:
  "is_applicable (trailing_wildcard [1, 2]) (from_parts [1]) = Compatible
   \<and> is_applicable (trailing_wildcard [1, 2]) (from_parts [1, 0]) \<noteq> Compatible"
  using wildcard_accepts_short_version [of 2 "[1]"] by simp

text \<open>
  A package that satisfies a range has an applicable version, for every kind of range and
  every required compatibility, so searching only the applicable versions loses nothing.
\<close>

theorem satisfied_is_applicable:
  assumes "is_satisfied_by r spec required = Compatible"
  shows "is_applicable r (vs_version spec) = Compatible"
  using assms
proof (induction r)
  case (CompatR r)
  then show ?case
    using version_ord.cmp_Greater_iff
    by (auto simp: compat_is_satisfied_by_def within_bounds_accepts split: if_splits)
qed auto

theorem satisfied_is_applicable_witness:
  "is_applicable (CompatR \<lparr>cr_base = from_parts [1, 2], cr_required = Some API\<rparr>) (from_parts [1, 3]) = Compatible"
proof -
  have "is_satisfied_by (CompatR \<lparr>cr_base = from_parts [1, 2], cr_required = Some API\<rparr>)
      \<lparr>vs_version = from_parts [1, 3], vs_compat = default_compat\<rparr> Binary = Compatible"
    by code_simp
  from satisfied_is_applicable [OF this] show ?thesis by simp
qed

text \<open>
  Parsing a printed compat range gives back its required compatibility and an equal base
  version, and parsing a printed wildcard range gives it back unchanged.
\<close>

theorem range_print_parse:
  assumes "version_valid (cr_base r)" "cr_required r \<noteq> Some CompatNone" "range_wf (Wildcard w)"
  shows "(\<exists>base. compat_range_new_version_range (show_range (CompatR r)) =
            Ok (CompatR \<lparr>cr_base = base, cr_required = cr_required r\<rparr>)
          \<and> version_eq base (cr_base r))
    \<and> wildcard_new_version_range (show_range (Wildcard w)) = Ok (Wildcard w)"
proof
  let ?base = "(cr_base r)\<lparr>v_parts := \<lparr>vp_parts = pad_zeros 3 (parts_of (cr_base r)), vp_epsilon = EpsNone\<rparr>\<rparr>"
  have "compat_range_new_version_range (show_range (CompatR r)) =
      Ok (CompatR \<lparr>cr_base = ?base, cr_required = cr_required r\<rparr>)"
  proof (cases "cr_required r")
    case None
    then show ?thesis
      using colon_not_shown [OF assms(1)] parse_shown_version [OF assms(1)]
      by (simp add: show_compat_range_def compat_range_new_version_range_def rsplit_once_absent)
  next
    case (Some rule)
    with assms(2) have "rule = API \<or> rule = Binary" by (cases rule) auto
    then show ?thesis
      using Some parse_shown_version [OF assms(1)]
        rsplit_once_append [OF colon_not_shown [OF assms(1)], of "''API''"]
        rsplit_once_append [OF colon_not_shown [OF assms(1)], of "''Binary''"]
      by (auto simp: show_compat_range_def compat_range_new_version_range_def compat_rule_from_str_def)
  qed
  moreover have "version_eq ?base (cr_base r)"
    using assms(1) by (simp add: version_eq_def version_parts_eq_strip version_valid_def)
  ultimately show "\<exists>base. compat_range_new_version_range (show_range (CompatR r)) =
            Ok (CompatR \<lparr>cr_base = base, cr_required = cr_required r\<rparr>)
          \<and> version_eq base (cr_base r)" by blast
  show "wildcard_new_version_range (show_range (Wildcard w)) = Ok (Wildcard w)"
    using wildcard_print_parse [OF assms(3)] by simp
qed

theorem range_print_parse_witness:
  "(\<exists>base. compat_range_new_version_range
        (show_range (CompatR \<lparr>cr_base = from_parts [1, 2], cr_required = Some Binary\<rparr>)) =
            Ok (CompatR \<lparr>cr_base = base, cr_required = Some Binary\<rparr>)
          \<and> version_eq base (from_parts [1, 2]))
    \<and> wildcard_new_version_range (show_range (Wildcard any_version)) = Ok (Wildcard any_version)"
  using range_print_parse [of "\<lparr>cr_base = from_parts [1, 2], cr_required = Some Binary\<rparr>" any_version]
  by (simp add: version_valid_def from_parts_def tag_set_valid_def bt_wf_def any_version_def
      del: show_range.simps)

text \<open>
  The parsers and constructors of ranges establish the invariant of ranges: what they
  return has valid versions, as many specified parts as parts, at least two parts for a tilde
  range and exactly one wildcard for a wildcard range.
\<close>

theorem range_constructors_wf:
  assumes "version_valid v"
  shows "range_wf (LowestSpecified (lowest_specified_new v))
    \<and> range_wf (NotEquals (not_equals_from v)) \<and> range_wf (DoubleNotEquals (double_not_equals_from v))
    \<and> (lowest_specified_try_from v = Ok l \<longrightarrow> range_wf (LowestSpecified l))
    \<and> (wildcard_new_version_range s = Ok w \<longrightarrow> range_wf w)
    \<and> (compat_range_new_version_range s = Ok c \<longrightarrow> range_wf c)
    \<and> (semver_new_version_range s = Ok b \<or> greater_than_new_version_range s = Ok b
         \<or> less_than_new_version_range s = Ok b \<or> greater_than_or_equal_to_new_version_range s = Ok b
         \<or> less_than_or_equal_to_new_version_range s = Ok b \<longrightarrow> range_wf b)"
proof (intro conjI impI)
  show "range_wf (LowestSpecified (lowest_specified_new v))"
    using assms by (auto simp: lowest_specified_new_def push_zeros_def version_valid_def Let_def)
  show "range_wf (NotEquals (not_equals_from v))" "range_wf (DoubleNotEquals (double_not_equals_from v))"
    using assms by (simp_all add: not_equals_from_def double_not_equals_from_def)
  show "range_wf (LowestSpecified l)" if "lowest_specified_try_from v = Ok l"
    using assms that by (auto simp: lowest_specified_try_from_def Let_def split: if_splits)
  show "range_wf w" if "wildcard_new_version_range s = Ok w"
    using that by (auto simp: wildcard_new_version_range_def Let_def split: if_splits)
  show "range_wf c" if "compat_range_new_version_range s = Ok c"
    using that
    by (auto simp: compat_range_new_version_range_def parsed_version_valid split: option.splits)
  show "range_wf b" if "semver_new_version_range s = Ok b \<or> greater_than_new_version_range s = Ok b
      \<or> less_than_new_version_range s = Ok b \<or> greater_than_or_equal_to_new_version_range s = Ok b
      \<or> less_than_or_equal_to_new_version_range s = Ok b"
    using that
    by (auto simp: semver_new_version_range_def greater_than_new_version_range_def
        less_than_new_version_range_def greater_than_or_equal_to_new_version_range_def
        less_than_or_equal_to_new_version_range_def parsed_version_valid)
qed

theorem range_constructors_wf_witness:
  "\<exists>l w c. lowest_specified_try_from (from_parts [1, 2]) = Ok l \<and> range_wf (LowestSpecified l)
     \<and> wildcard_new_version_range ''1.*'' = Ok w \<and> range_wf w
     \<and> compat_range_new_version_range ''API:1.2'' = Ok c \<and> range_wf c"
proof -
  have valid: "version_valid (from_parts [1, 2])" by code_simp
  have "lowest_specified_try_from (from_parts [1, 2]) = Ok \<lparr>ls_specified = 2, ls_base = from_parts [1, 2]\<rparr>"
    "wildcard_new_version_range ''1.*'' = Ok (trailing_wildcard [1])"
    "compat_range_new_version_range ''API:1.2'' = Ok (CompatR \<lparr>cr_base = from_parts [1, 2], cr_required = Some API\<rparr>)"
    by code_simp+
  with range_constructors_wf [OF valid] show ?thesis by blast
qed

end
