(* ===== verification/Range_Order.thy ===== *)
theory Range_Order
  imports Version_Ranges
begin

text \<open>
  The derived order on version ranges and the \<open>BTreeSet\<close> of rules kept in that order
  (\<^verbatim>\<open>version_range/mod.rs\<close>). A \<open>BTreeSet\<close> of ranges is the list of its elements in the order
  \<open>vr_cmp\<close>. The derived equality and the derived order of ranges agree (\<open>version_eq_key\<close> for
  their versions), so both are \<open>vr_cmp _ _ = Equal\<close> here.
\<close>

section \<open>The derived order on ranges\<close>

definition then_cmp :: "ordering \<Rightarrow> ordering \<Rightarrow> ordering" where
  "then_cmp a b = (if a = Equal then b else a)"

fun cmp_option :: "('a \<Rightarrow> 'a \<Rightarrow> ordering) \<Rightarrow> 'a option \<Rightarrow> 'a option \<Rightarrow> ordering" where
  "cmp_option cmp None None = Equal"
| "cmp_option cmp None (Some _) = Less"
| "cmp_option cmp (Some _) None = Greater"
| "cmp_option cmp (Some a) (Some b) = cmp a b"

fun cmp_list :: "('a \<Rightarrow> 'a \<Rightarrow> ordering) \<Rightarrow> 'a list \<Rightarrow> 'a list \<Rightarrow> ordering" where
  "cmp_list cmp [] [] = Equal"
| "cmp_list cmp [] (_ # _) = Less"
| "cmp_list cmp (_ # _) [] = Greater"
| "cmp_list cmp (x # xs) (y # ys) = then_cmp (cmp x y) (cmp_list cmp xs ys)"

lemma cmp_list_cong [fundef_cong]:
  "xs = xs' \<Longrightarrow> ys = ys' \<Longrightarrow> (\<And>x y. x \<in> set xs' \<Longrightarrow> y \<in> set ys' \<Longrightarrow> f x y = g x y) \<Longrightarrow>
   cmp_list f xs ys = cmp_list g xs' ys'"
  by (induction g xs' ys' arbitrary: xs ys rule: cmp_list.induct) auto

fun vr_rank :: "version_range \<Rightarrow> nat" where
  "vr_rank (CompatR _) = 0"
| "vr_rank (DoubleEquals _) = 1"
| "vr_rank (DoubleNotEquals _) = 2"
| "vr_rank (Equals _) = 3"
| "vr_rank (Filter _) = 4"
| "vr_rank (GreaterThan _) = 5"
| "vr_rank (GreaterThanOrEqualTo _) = 6"
| "vr_rank (LessThan _) = 7"
| "vr_rank (LessThanOrEqualTo _) = 8"
| "vr_rank (LowestSpecified _) = 9"
| "vr_rank (NotEquals _) = 10"
| "vr_rank (Semver _) = 11"
| "vr_rank (Wildcard _) = 12"

definition cmp_specified :: "nat \<Rightarrow> version \<Rightarrow> nat \<Rightarrow> version \<Rightarrow> ordering" where
  "cmp_specified n v m w = then_cmp (cmp_of n m) (version_cmp v w)"

fun vr_cmp :: "version_range \<Rightarrow> version_range \<Rightarrow> ordering" where
  "vr_cmp (CompatR a) other =
     (case other of CompatR b \<Rightarrow> then_cmp (version_cmp (cr_base a) (cr_base b))
                              (cmp_option cmp_of (cr_required a) (cr_required b))
      | _ \<Rightarrow> cmp_of 0 (vr_rank other))"
| "vr_cmp (DoubleEquals a) other =
     (case other of DoubleEquals b \<Rightarrow> version_cmp (dev_version a) (dev_version b)
      | _ \<Rightarrow> cmp_of 1 (vr_rank other))"
| "vr_cmp (DoubleNotEquals a) other =
     (case other of DoubleNotEquals b \<Rightarrow>
        cmp_specified (dne_specified a) (dne_base a) (dne_specified b) (dne_base b)
      | _ \<Rightarrow> cmp_of 2 (vr_rank other))"
| "vr_cmp (Equals a) other =
     (case other of Equals b \<Rightarrow> version_cmp (ev_version a) (ev_version b)
      | _ \<Rightarrow> cmp_of 3 (vr_rank other))"
| "vr_cmp (Filter a) other =
     (case other of Filter b \<Rightarrow> cmp_list vr_cmp a b | _ \<Rightarrow> cmp_of 4 (vr_rank other))"
| "vr_cmp (GreaterThan a) other =
     (case other of GreaterThan b \<Rightarrow> version_cmp a b | _ \<Rightarrow> cmp_of 5 (vr_rank other))"
| "vr_cmp (GreaterThanOrEqualTo a) other =
     (case other of GreaterThanOrEqualTo b \<Rightarrow> version_cmp a b | _ \<Rightarrow> cmp_of 6 (vr_rank other))"
| "vr_cmp (LessThan a) other =
     (case other of LessThan b \<Rightarrow> version_cmp a b | _ \<Rightarrow> cmp_of 7 (vr_rank other))"
| "vr_cmp (LessThanOrEqualTo a) other =
     (case other of LessThanOrEqualTo b \<Rightarrow> version_cmp a b | _ \<Rightarrow> cmp_of 8 (vr_rank other))"
| "vr_cmp (LowestSpecified a) other =
     (case other of LowestSpecified b \<Rightarrow>
        cmp_specified (ls_specified a) (ls_base a) (ls_specified b) (ls_base b)
      | _ \<Rightarrow> cmp_of 9 (vr_rank other))"
| "vr_cmp (NotEquals a) other =
     (case other of NotEquals b \<Rightarrow>
        cmp_specified (ne_specified a) (ne_base a) (ne_specified b) (ne_base b)
      | _ \<Rightarrow> cmp_of 10 (vr_rank other))"
| "vr_cmp (Semver a) other =
     (case other of Semver b \<Rightarrow> version_cmp a b | _ \<Rightarrow> cmp_of 11 (vr_rank other))"
| "vr_cmp (Wildcard a) other =
     (case other of Wildcard b \<Rightarrow>
        then_cmp (cmp_of (wr_specified a) (wr_specified b))
          (cmp_list (cmp_option cmp_of) (wr_parts a) (wr_parts b))
      | _ \<Rightarrow> cmp_of 12 (vr_rank other))"

section \<open>Sets of rules\<close>

text \<open>
  \<open>BTreeSet::insert\<close> keeps the element that is already there; \<open>BTreeSet::from_iter\<close> sorts and
  keeps the last of several equal elements, as a map does with repeated keys.
\<close>

fun rules_insert :: "version_range \<Rightarrow> version_range list \<Rightarrow> version_range list" where
  "rules_insert x [] = [x]"
| "rules_insert x (y # ys) =
     (case vr_cmp x y of Less \<Rightarrow> x # y # ys | Equal \<Rightarrow> y # ys | Greater \<Rightarrow> y # rules_insert x ys)"

fun rules_replace :: "version_range \<Rightarrow> version_range list \<Rightarrow> version_range list" where
  "rules_replace x [] = [x]"
| "rules_replace x (y # ys) =
     (case vr_cmp x y of Less \<Rightarrow> x # y # ys | Equal \<Rightarrow> x # ys | Greater \<Rightarrow> y # rules_replace x ys)"

definition rules_extend :: "version_range list \<Rightarrow> version_range list \<Rightarrow> version_range list" where
  "rules_extend s xs = foldl (\<lambda>s x. rules_insert x s) s xs"

definition rules_collect :: "version_range list \<Rightarrow> version_range list" where
  "rules_collect xs = foldl (\<lambda>s x. rules_replace x s) [] xs"

definition rules_sub :: "version_range list \<Rightarrow> version_range list \<Rightarrow> version_range list" where
  "rules_sub xs s = filter (\<lambda>x. \<not> list_ex (\<lambda>y. vr_cmp x y = Equal) s) xs"

fun rules_of :: "version_range \<Rightarrow> version_range list" where
  "rules_of (Filter rules) = rules"
| "rules_of r = [r]"


section \<open>The derived order is lawful\<close>

lemma then_cmp_of: "then_cmp (cmp_of a b) (cmp_of c d) = cmp_of (a, c) (b, d)"
  by (auto simp: then_cmp_def cmp_of_pair split: ordering.splits)

lemma cmp_option_of: "cmp_option cmp_of a b = cmp_of a (b :: 'a::linorder option)"
  by (cases a; cases b) (auto simp: cmp_of_def)

lemma cmp_list_of: "cmp_list (cmp_option cmp_of) xs ys = cmp_of xs (ys :: 'a::linorder option list)"
  by (induction "cmp_option (cmp_of :: 'a \<Rightarrow> _)" xs ys rule: cmp_list.induct)
    (auto simp: cmp_option_of cmp_of_Cons then_cmp_def split: ordering.splits)

text \<open>The fields of a range in declaration order, after the rank of its constructor. The rules of a
  filter are left out.\<close>

type_synonym leaf_key_type =
  "nat \<times> nat \<times> version_key_type \<times> compat_rule option \<times> u32 option list"

abbreviation no_version :: version_key_type where
  "no_version \<equiv> version_key default_version"

fun leaf_key :: "version_range \<Rightarrow> leaf_key_type" where
  "leaf_key (CompatR r) = (0, 0, version_key (cr_base r), cr_required r, [])"
| "leaf_key (DoubleEquals r) = (1, 0, version_key (dev_version r), None, [])"
| "leaf_key (DoubleNotEquals r) = (2, dne_specified r, version_key (dne_base r), None, [])"
| "leaf_key (Equals r) = (3, 0, version_key (ev_version r), None, [])"
| "leaf_key (Filter _) = (4, 0, no_version, None, [])"
| "leaf_key (GreaterThan b) = (5, 0, version_key b, None, [])"
| "leaf_key (GreaterThanOrEqualTo b) = (6, 0, version_key b, None, [])"
| "leaf_key (LessThan b) = (7, 0, version_key b, None, [])"
| "leaf_key (LessThanOrEqualTo b) = (8, 0, version_key b, None, [])"
| "leaf_key (LowestSpecified r) = (9, ls_specified r, version_key (ls_base r), None, [])"
| "leaf_key (NotEquals r) = (10, ne_specified r, version_key (ne_base r), None, [])"
| "leaf_key (Semver m) = (11, 0, version_key m, None, [])"
| "leaf_key (Wildcard w) = (12, wr_specified w, no_version, None, wr_parts w)"

lemma fst_leaf_key: "fst (leaf_key r) = vr_rank r"
  by (cases r) auto

lemma cmp_of_rank: "vr_rank a \<noteq> vr_rank b \<Longrightarrow> cmp_of (leaf_key a) (leaf_key b) = cmp_of (vr_rank a) (vr_rank b)"
  by (cases "leaf_key a"; cases "leaf_key b")
    (use fst_leaf_key [of a] fst_leaf_key [of b] in \<open>auto simp: cmp_of_pair cmp_of_def\<close>)

lemma vr_cmp_rank: "vr_rank a \<noteq> vr_rank b \<Longrightarrow> vr_cmp a b = cmp_of (vr_rank a) (vr_rank b)"
  by (cases a) (auto split: version_range.split)

lemma vr_cmp_rank_le: "vr_cmp a b \<noteq> Greater \<Longrightarrow> vr_rank a \<le> vr_rank b"
  using vr_cmp_rank [of a b] by (cases "vr_rank a = vr_rank b") (simp_all del: vr_cmp.simps)

lemma cmp_of_pair_same [simp]: "cmp_of (a, b) (a, c) = cmp_of b c"
  by (simp add: cmp_of_pair)

lemma cmp_of_pair_last [simp]: "cmp_of (a, c) (b, c) = cmp_of a b"
  by (simp add: cmp_of_pair split: ordering.splits)

lemma cmp_of_triple [simp]:
  "cmp_of (a, b, c) (a', b', c) = cmp_of (a, b) (a', b')"
  "cmp_of (a, c, b) (a', c, b') = cmp_of (a, b) (a', b')"
  by (simp_all add: cmp_of_pair split: ordering.split)

lemma vr_cmp_leaf:
  assumes "\<not> (\<exists>x. a = Filter x) \<or> \<not> (\<exists>x. b = Filter x)"
  shows "vr_cmp a b = cmp_of (leaf_key a) (leaf_key b)"
proof (cases "vr_rank a = vr_rank b")
  case False
  then show ?thesis by (simp add: vr_cmp_rank cmp_of_rank)
next
  case True
  with assms show ?thesis
    by (cases a; cases b)
      (simp_all add: version_cmp_key cmp_specified_def cmp_option_of cmp_list_of then_cmp_of)
qed

lemma cmp_list_refl: "(\<And>x. x \<in> set xs \<Longrightarrow> cmp x x = Equal) \<Longrightarrow> cmp_list cmp xs xs = Equal"
  by (induction xs) (auto simp: then_cmp_def)

lemma cmp_list_flip:
  "(\<And>x y. x \<in> set xs \<Longrightarrow> cmp y x = flip_ordering (cmp x y)) \<Longrightarrow>
   cmp_list cmp ys xs = flip_ordering (cmp_list cmp xs ys)"
  by (induction cmp xs ys rule: cmp_list.induct) (auto simp: then_cmp_def)

lemma vr_cmp_refl: "vr_cmp a a = Equal"
proof (induction a)
  case (Filter rules)
  then show ?case by (auto intro: cmp_list_refl)
qed (simp_all add: version_cmp_key cmp_specified_def cmp_option_of cmp_list_of then_cmp_def)

lemma vr_cmp_flip: "vr_cmp b a = flip_ordering (vr_cmp a b)"
proof (induction a arbitrary: b)
  case (Filter rules)
  show ?case
  proof (cases "\<exists>other. b = Filter other")
    case True
    then show ?thesis using cmp_list_flip [of rules vr_cmp] Filter by auto
  next
    case False
    then show ?thesis
      by (auto simp: vr_cmp_leaf cmp_of_def simp del: vr_cmp.simps leaf_key.simps)
  qed
qed (auto simp: vr_cmp_leaf cmp_of_def simp del: vr_cmp.simps leaf_key.simps)

text \<open>Transitivity in the two forms that lexicographic comparison needs of its elements.\<close>

definition cmp_trans_at :: "('a \<Rightarrow> 'a \<Rightarrow> ordering) \<Rightarrow> 'a \<Rightarrow> bool" where
  "cmp_trans_at cmp x \<longleftrightarrow> (\<forall>y z.
     (cmp x y \<noteq> Greater \<and> cmp y z \<noteq> Greater \<longrightarrow>
        cmp x z \<noteq> Greater \<and> (cmp x z = Equal \<longrightarrow> cmp x y = Equal \<and> cmp y z = Equal)))"

lemma cmp_list_trans:
  assumes "\<And>x. x \<in> set xs \<Longrightarrow> cmp_trans_at cmp x"
  shows "cmp_trans_at (cmp_list cmp) xs"
  using assms
proof (induction xs)
  case Nil
  have "cmp_list cmp [] ys = (if ys = [] then Equal else Less)" for ys by (cases ys) auto
  moreover have "cmp_list cmp ys [] = (if ys = [] then Equal else Greater)" for ys by (cases ys) auto
  ultimately show ?case by (auto simp: cmp_trans_at_def split: if_splits)
next
  case (Cons x xs)
  then have elem: "cmp_trans_at cmp x" and tail: "cmp_trans_at (cmp_list cmp) xs" by auto
  show ?case
    unfolding cmp_trans_at_def
  proof (intro allI impI)
    fix ys zs
    assume le: "cmp_list cmp (x # xs) ys \<noteq> Greater \<and> cmp_list cmp ys zs \<noteq> Greater"
    then obtain y ys' where ys: "ys = y # ys'" by (cases ys) auto
    with le obtain z zs' where zs: "zs = z # zs'" by (cases zs) auto
    have "cmp x y \<noteq> Greater" "cmp y z \<noteq> Greater"
      using le by (auto simp: ys zs then_cmp_def split: if_splits)
    then have xz: "cmp x z \<noteq> Greater" "cmp x z = Equal \<longrightarrow> cmp x y = Equal \<and> cmp y z = Equal"
      using elem unfolding cmp_trans_at_def by blast+
    show "cmp_list cmp (x # xs) zs \<noteq> Greater \<and>
        (cmp_list cmp (x # xs) zs = Equal \<longrightarrow>
           cmp_list cmp (x # xs) ys = Equal \<and> cmp_list cmp ys zs = Equal)"
    proof (cases "cmp x z = Equal")
      case True
      then have "cmp_list cmp xs ys' \<noteq> Greater \<and> cmp_list cmp ys' zs' \<noteq> Greater"
        using le xz by (simp add: ys zs then_cmp_def)
      then have "cmp_list cmp xs zs' \<noteq> Greater \<and>
          (cmp_list cmp xs zs' = Equal \<longrightarrow> cmp_list cmp xs ys' = Equal \<and> cmp_list cmp ys' zs' = Equal)"
        using tail unfolding cmp_trans_at_def by blast
      then show ?thesis using True xz(2) by (simp add: ys zs then_cmp_def)
    next
      case False
      with xz(1) show ?thesis by (simp add: zs then_cmp_def)
    qed
  qed
qed

lemma vr_cmp_trans_leaf:
  assumes "\<not> (\<exists>x. a = Filter x)"
  shows "cmp_trans_at vr_cmp a"
proof -
  have keyed: "vr_cmp a y = cmp_of (leaf_key a) (leaf_key y)" for y
    using assms by (intro vr_cmp_leaf) simp
  have rank: "vr_rank a \<noteq> 4" using assms by (cases a) auto
  show ?thesis
    unfolding cmp_trans_at_def
  proof (intro allI impI)
    fix y z
    assume le: "vr_cmp a y \<noteq> Greater \<and> vr_cmp y z \<noteq> Greater"
    show "vr_cmp a z \<noteq> Greater \<and> (vr_cmp a z = Equal \<longrightarrow> vr_cmp a y = Equal \<and> vr_cmp y z = Equal)"
    proof (cases "vr_rank y = 4 \<and> vr_rank z = 4")
      case True
      with rank vr_cmp_rank [of a y] vr_cmp_rank [of a z] le show ?thesis
        by (auto simp del: vr_cmp.simps)
    next
      case False
      then have "vr_cmp y z = cmp_of (leaf_key y) (leaf_key z)" by (intro vr_cmp_leaf) auto
      with le show ?thesis by (auto simp: keyed not_less simp del: vr_cmp.simps leaf_key.simps)
    qed
  qed
qed

lemma vr_cmp_trans: "cmp_trans_at vr_cmp a"
proof (induction a)
  case (Filter rules)
  have lists: "cmp_trans_at (cmp_list vr_cmp) rules" using Filter by (rule cmp_list_trans)
  show ?case
    unfolding cmp_trans_at_def
  proof (intro allI impI)
    fix y z
    assume le: "vr_cmp (Filter rules) y \<noteq> Greater \<and> vr_cmp y z \<noteq> Greater"
    show "vr_cmp (Filter rules) z \<noteq> Greater \<and>
        (vr_cmp (Filter rules) z = Equal \<longrightarrow>
           vr_cmp (Filter rules) y = Equal \<and> vr_cmp y z = Equal)"
    proof (cases "vr_rank y = 4 \<and> vr_rank z = 4")
      case True
      then obtain ys zs where "y = Filter ys" "z = Filter zs" by (cases y; cases z) auto
      then show ?thesis using lists le unfolding cmp_trans_at_def by simp blast
    next
      case False
      have "vr_rank (Filter rules) \<le> vr_rank y" "vr_rank y \<le> vr_rank z"
        using le vr_cmp_rank_le by blast+
      with False have "vr_rank (Filter rules) < vr_rank z" by auto
      then show ?thesis using vr_cmp_rank [of "Filter rules" z] by simp
    qed
  qed
qed (rule vr_cmp_trans_leaf; simp)+

interpretation vr_ord: ord_laws vr_cmp
proof
  fix x y z
  show "vr_cmp x x = Equal" by (rule vr_cmp_refl)
  show "vr_cmp y x = flip_ordering (vr_cmp x y)" by (rule vr_cmp_flip)
  show "vr_cmp x z \<noteq> Greater" if "vr_cmp x y \<noteq> Greater" "vr_cmp y z \<noteq> Greater"
    using that vr_cmp_trans [of x] by (auto simp: cmp_trans_at_def)
qed

section \<open>Rules that compare equal accept the same versions\<close>

text \<open>Outside this predicate are the caret ranges of a version zero: \<open>^0\<close> and \<open>^0.0\<close> compare
  equal and have different upper bounds.\<close>

fun range_canonical :: "version_range \<Rightarrow> bool" where
  "range_canonical (Filter rules) = list_all range_canonical rules"
| "range_canonical (Semver m) = (range_wf (Semver m) \<and> strip_zeros (parts_of m) \<noteq> [])"
| "range_canonical r = range_wf r"

lemma strip_zeros_same_length:
  "strip_zeros ps = strip_zeros qs \<Longrightarrow> length ps = length qs \<Longrightarrow> ps = qs"
proof (induction ps arbitrary: qs)
  case (Cons p ps)
  then obtain q qs' where "qs = q # qs'" by (cases qs) auto
  with Cons show ?case by (auto simp: strip_zeros_Cons split: if_splits)
qed simp

lemma semver_bump_strip:
  "strip_zeros ps \<noteq> [] \<Longrightarrow> semver_bump (strip_zeros ps) = semver_bump ps"
  by (induction ps) (auto simp: strip_zeros_Cons)

lemma semver_bump_None: "semver_bump ps = None \<longleftrightarrow> strip_zeros ps = []"
  by (induction ps) (auto simp: strip_zeros_Cons)

lemma semver_less_than_key:
  assumes "strip_zeros (parts_of m) = strip_zeros (parts_of n)" "strip_zeros (parts_of m) \<noteq> []"
  shows "semver_less_than m = semver_less_than n"
  using assms semver_bump_strip [of "parts_of m"] semver_bump_strip [of "parts_of n"]
    semver_bump_None [of "parts_of m"]
  by (auto simp: semver_less_than_def split: option.splits)

lemma version_cmp_key_cong:
  "version_key a = version_key b \<Longrightarrow> version_cmp a v = version_cmp b v"
  "version_key a = version_key b \<Longrightarrow> version_cmp v a = version_cmp v b"
  by (simp_all add: version_cmp_key)

lemma valid_key_fields:
  assumes "version_key a = version_key b" "version_valid a" "version_valid b"
  shows "strip_zeros (parts_of a) = strip_zeros (parts_of b)" "v_pre a = v_pre b" "v_post a = v_post b"
    "epsilon_of a = epsilon_of b"
  using assms version_valid_wf [of a] version_valid_wf [of b]
  by (auto simp: version_key_def version_wf_def)

lemma valid_key_same_parts:
  assumes "version_key a = version_key b" "version_valid a" "version_valid b"
    "length (parts_of a) = length (parts_of b)"
  shows "parts_of a = parts_of b"
  using valid_key_fields(1) [OF assms(1-3)] assms(4) by (rule strip_zeros_same_length)

lemma cmp_list_Equal_length: "cmp_list cmp xs ys = Equal \<Longrightarrow> list_all2 (\<lambda>x y. cmp x y = Equal) xs ys"
  by (induction cmp xs ys rule: cmp_list.induct) (auto simp: then_cmp_def split: if_splits)

lemma vr_Equal_leaf:
  "vr_cmp a b = Equal \<Longrightarrow> \<not> (\<exists>x. a = Filter x) \<Longrightarrow> leaf_key a = leaf_key b \<and> vr_rank a = vr_rank b"
  using vr_cmp_leaf [of a b] fst_leaf_key [of a] fst_leaf_key [of b] by auto

lemma vr_Equal_accepts_leaf:
  assumes "vr_cmp a b = Equal" "range_canonical a" "range_canonical b" "\<not> (\<exists>x. a = Filter x)"
  shows "is_applicable a v = Compatible \<longleftrightarrow> is_applicable b v = Compatible"
proof -
  have keys: "leaf_key a = leaf_key b" "vr_rank a = vr_rank b"
    using vr_Equal_leaf assms by blast+
  show ?thesis
  proof (cases a)
    case (CompatR r)
    with keys obtain q where "b = CompatR q" by (cases b) auto
    with keys CompatR version_cmp_key_cong [of "cr_base r" "cr_base q" v] show ?thesis
      by (simp add: within_bounds_def)
  next
    case (DoubleEquals r)
    with keys obtain q where "b = DoubleEquals q" by (cases b) auto
    with keys DoubleEquals assms(2,3) valid_key_fields [of "dev_version r" "dev_version q"] show ?thesis
      by (simp add: double_equals_is_applicable_def version_parts_eq_strip)
  next
    case (DoubleNotEquals r)
    with keys obtain q where "b = DoubleNotEquals q" by (cases b) auto
    with keys DoubleNotEquals assms(2,3) valid_key_fields [of "dne_base r" "dne_base q"]
      valid_key_same_parts [of "dne_base r" "dne_base q"] show ?thesis
      by (simp add: double_not_equals_is_applicable_def some_part_differs_def)
  next
    case (Equals r)
    with keys obtain q where "b = Equals q" by (cases b) auto
    with keys Equals assms(2,3) valid_key_fields [of "ev_version r" "ev_version q"] show ?thesis
      by (simp add: equals_accepts version_parts_eq_strip)
  next
    case (Filter rules)
    with assms(4) show ?thesis by simp
  next
    case (GreaterThan m)
    with keys obtain n where "b = GreaterThan n" by (cases b) auto
    with keys GreaterThan version_cmp_key_cong [of m n v] show ?thesis by simp
  next
    case (GreaterThanOrEqualTo m)
    with keys obtain n where "b = GreaterThanOrEqualTo n" by (cases b) auto
    with keys GreaterThanOrEqualTo version_cmp_key_cong [of m n v] show ?thesis by simp
  next
    case (LessThan m)
    with keys obtain n where "b = LessThan n" by (cases b) auto
    with keys LessThan version_cmp_key_cong [of m n v] show ?thesis by simp
  next
    case (LessThanOrEqualTo m)
    with keys obtain n where "b = LessThanOrEqualTo n" by (cases b) auto
    with keys LessThanOrEqualTo version_cmp_key_cong [of m n v] show ?thesis by simp
  next
    case (LowestSpecified r)
    with keys obtain q where "b = LowestSpecified q" by (cases b) auto
    with keys LowestSpecified assms(2,3) valid_key_same_parts [of "ls_base r" "ls_base q"]
      version_cmp_key_cong [of "ls_base r" "ls_base q" v] show ?thesis
      by (simp add: within_bounds_def lowest_specified_less_than_def)
  next
    case (NotEquals r)
    with keys obtain q where "b = NotEquals q" by (cases b) auto
    with keys NotEquals assms(2,3) valid_key_fields [of "ne_base r" "ne_base q"]
      valid_key_same_parts [of "ne_base r" "ne_base q"] show ?thesis
      by (simp add: not_equals_is_applicable_def some_part_differs_def)
  next
    case (Semver m)
    with keys obtain n where "b = Semver n" by (cases b) auto
    with keys Semver assms(2,3) valid_key_fields(1) [of m n] semver_less_than_key [of m n]
      version_cmp_key_cong [of m n v] show ?thesis
      by (simp add: within_bounds_def)
  next
    case (Wildcard w)
    with keys obtain w' where "b = Wildcard w'" by (cases b) auto
    with keys Wildcard show ?thesis by (simp add: wildcard_check_accepts)
  qed
qed

lemma vr_Equal_accepts:
  "vr_cmp a b = Equal \<Longrightarrow> range_canonical a \<Longrightarrow> range_canonical b \<Longrightarrow>
   is_applicable a v = Compatible \<longleftrightarrow> is_applicable b v = Compatible"
proof (induction a arbitrary: b)
  case (Filter rules)
  then obtain others where b: "b = Filter others" by (cases b) auto
  with Filter.prems have "list_all2 (\<lambda>x y. vr_cmp x y = Equal) rules others"
    using cmp_list_Equal_length [of vr_cmp rules others] by simp
  then have "list_all2 (\<lambda>x y. is_applicable x v = Compatible \<longleftrightarrow> is_applicable y v = Compatible) rules others"
    using Filter.prems b Filter.IH
    by (auto simp: list_all2_conv_all_nth list_all_length)
  then show ?case
    by (auto simp: b list_all2_conv_all_nth all_set_conv_all_nth)
qed (rule vr_Equal_accepts_leaf; simp)+

section \<open>Sets of rules keep what their rules accept\<close>

definition rules_wf :: "version_range list \<Rightarrow> bool" where
  "rules_wf rules \<longleftrightarrow> sorted_wrt (\<lambda>x y. vr_cmp x y = Less) rules"

definition accepts_all :: "version_range list \<Rightarrow> version \<Rightarrow> bool" where
  "accepts_all rules v \<longleftrightarrow> (\<forall>r \<in> set rules. is_applicable r v = Compatible)"

lemma accepts_all_simps [simp]:
  "accepts_all [] v"
  "accepts_all (r # rules) v \<longleftrightarrow> is_applicable r v = Compatible \<and> accepts_all rules v"
  "accepts_all (xs @ ys) v \<longleftrightarrow> accepts_all xs v \<and> accepts_all ys v"
  by (auto simp: accepts_all_def)

lemma filter_accepts: "is_applicable (Filter rules) v = Compatible \<longleftrightarrow> accepts_all rules v"
  by (simp add: accepts_all_def)

lemma rules_of_accepts: "accepts_all (rules_of r) v \<longleftrightarrow> is_applicable r v = Compatible"
  by (cases r) (simp_all add: accepts_all_def)

lemma set_rules_insert:
  "set s \<subseteq> set (rules_insert x s) \<and> set (rules_insert x s) \<subseteq> insert x (set s)"
  by (induction s) (auto split: ordering.splits)

lemma set_rules_replace: "set (rules_replace x s) \<subseteq> insert x (set s) \<and> x \<in> set (rules_replace x s)"
  by (induction s) (auto split: ordering.splits)

lemma rules_wf_insert: "rules_wf s \<Longrightarrow> rules_wf (rules_insert x s)"
proof (induction s)
  case (Cons y ys)
  then have "vr_cmp x y = Greater \<Longrightarrow> \<forall>z \<in> set (rules_insert x ys). vr_cmp y z = Less"
    using set_rules_insert [of ys x] vr_ord.cmp_Greater_iff by (auto simp: rules_wf_def)
  with Cons show ?case
    using vr_ord.cmp_lt_trans by (auto simp: rules_wf_def split: ordering.split)
qed (simp add: rules_wf_def)

lemma rules_wf_replace: "rules_wf s \<Longrightarrow> rules_wf (rules_replace x s)"
proof (induction s)
  case (Cons y ys)
  then have "vr_cmp x y = Greater \<Longrightarrow> \<forall>z \<in> set (rules_replace x ys). vr_cmp y z = Less"
    using set_rules_replace [of x ys] vr_ord.cmp_Greater_iff by (auto simp: rules_wf_def)
  moreover have "vr_cmp x y \<noteq> Greater \<Longrightarrow> \<forall>z \<in> set ys. vr_cmp x z = Less"
    using Cons.prems vr_ord.cmp_le_lt_trans by (auto simp: rules_wf_def)
  ultimately show ?case
    using Cons by (cases "vr_cmp x y") (simp_all add: rules_wf_def)
qed (simp add: rules_wf_def)

lemma accepts_rules_insert:
  assumes "list_all range_canonical (x # s)"
  shows "accepts_all (rules_insert x s) v \<longleftrightarrow> is_applicable x v = Compatible \<and> accepts_all s v"
  using assms
  by (induction s) (auto split: ordering.split simp: vr_Equal_accepts)

lemma accepts_rules_replace:
  assumes "list_all range_canonical (x # s)"
  shows "accepts_all (rules_replace x s) v \<longleftrightarrow> is_applicable x v = Compatible \<and> accepts_all s v"
  using assms
  by (induction s) (auto split: ordering.split simp: vr_Equal_accepts)

lemma canonical_rules_insert:
  "list_all range_canonical (x # s) \<Longrightarrow> list_all range_canonical (rules_insert x s)"
  using set_rules_insert [of s x] by (auto simp: list_all_iff)

lemma canonical_rules_replace:
  "list_all range_canonical (x # s) \<Longrightarrow> list_all range_canonical (rules_replace x s)"
  using set_rules_replace [of x s] by (auto simp: list_all_iff)

lemma rules_extend_facts:
  assumes "rules_wf s"
  shows "rules_wf (rules_extend s xs)"
    and "set s \<subseteq> set (rules_extend s xs)"
    and "set (rules_extend s xs) \<subseteq> set s \<union> set xs"
  using assms
proof (induction xs arbitrary: s)
  case (Cons x xs)
  have step: "rules_extend s (x # xs) = rules_extend (rules_insert x s) xs" for s
    by (simp add: rules_extend_def)
  {
    case 1 then show ?case using Cons.IH(1) by (simp add: step rules_wf_insert)
  next
    case 2 then show ?case
      using Cons.IH(2) [of "rules_insert x s"] set_rules_insert [of s x] by (auto simp: step rules_wf_insert)
  next
    case 3 then show ?case
      using Cons.IH(3) [of "rules_insert x s"] set_rules_insert [of s x] by (auto simp: step rules_wf_insert)
  }
qed (simp_all add: rules_extend_def)

lemma accepts_rules_extend:
  "list_all range_canonical (s @ xs) \<Longrightarrow>
   accepts_all (rules_extend s xs) v \<longleftrightarrow> accepts_all s v \<and> accepts_all xs v"
proof (induction xs arbitrary: s)
  case (Cons x xs)
  have "rules_extend s (x # xs) = rules_extend (rules_insert x s) xs" by (simp add: rules_extend_def)
  with Cons.IH [of "rules_insert x s"] Cons.prems show ?case
    using accepts_rules_insert [of x s v] canonical_rules_insert [of x s] by auto
qed (simp add: rules_extend_def)

lemma rules_collect_fold:
  "list_all range_canonical (s @ xs) \<Longrightarrow>
   accepts_all (foldl (\<lambda>s x. rules_replace x s) s xs) v \<longleftrightarrow> accepts_all s v \<and> accepts_all xs v"
proof (induction xs arbitrary: s)
  case (Cons x xs)
  with Cons.IH [of "rules_replace x s"] show ?case
    using accepts_rules_replace [of x s v] canonical_rules_replace [of x s] by auto
qed simp

lemma accepts_rules_collect:
  "list_all range_canonical xs \<Longrightarrow> accepts_all (rules_collect xs) v \<longleftrightarrow> accepts_all xs v"
  using rules_collect_fold [of "[]" xs v] by (simp add: rules_collect_def)

lemma set_rules_collect_fold:
  "set (foldl (\<lambda>s x. rules_replace x s) s xs) \<subseteq> set s \<union> set xs
   \<and> (rules_wf s \<longrightarrow> rules_wf (foldl (\<lambda>s x. rules_replace x s) s xs))"
proof (induction xs arbitrary: s)
  case (Cons x xs)
  with Cons.IH [of "rules_replace x s"] show ?case
    using set_rules_replace [of x s] by (auto simp: rules_wf_replace)
qed simp

lemma rules_collect_facts: "set (rules_collect xs) \<subseteq> set xs" "rules_wf (rules_collect xs)"
  using set_rules_collect_fold [of "[]" xs] by (simp_all add: rules_collect_def rules_wf_def)

lemma rules_replace_last: "rules_wf (s @ [x]) \<Longrightarrow> rules_replace x s = s @ [x]"
proof (induction s)
  case (Cons y ys)
  then have "vr_cmp x y = Greater"
    using vr_ord.cmp_Greater_iff by (simp add: rules_wf_def)
  with Cons show ?case by (simp add: rules_wf_def)
qed simp

lemma rules_collect_id: "rules_wf xs \<Longrightarrow> rules_collect xs = xs"
proof (induction xs rule: rev_induct)
  case (snoc x xs)
  then have "rules_wf xs" by (simp add: rules_wf_def sorted_wrt_append)
  with snoc show ?case by (simp add: rules_collect_def rules_replace_last)
qed (simp add: rules_collect_def)

section \<open>Properties\<close>

text \<open>
  The derived order on ranges, nested filters included, satisfies the contract of \<open>Ord\<close> that
  \<open>BTreeSet\<close> relies on, and the sets of rules built by collecting or extending are strictly
  sorted by it and hold no rule that was not put in.
\<close>

theorem rule_sets_sorted:
  assumes "rules_wf s"
  shows "vr_cmp a a = Equal \<and> vr_cmp b a = flip_ordering (vr_cmp a b)
    \<and> (vr_cmp a b \<noteq> Greater \<and> vr_cmp b c \<noteq> Greater \<longrightarrow> vr_cmp a c \<noteq> Greater)
    \<and> rules_wf (rules_extend s xs) \<and> set s \<subseteq> set (rules_extend s xs)
    \<and> set (rules_extend s xs) \<subseteq> set s \<union> set xs
    \<and> rules_wf (rules_collect xs) \<and> set (rules_collect xs) \<subseteq> set xs"
  using vr_cmp_refl vr_cmp_flip vr_ord.cmp_le_trans rules_extend_facts [OF assms] rules_collect_facts
  by blast

theorem rule_sets_sorted_witness:
  "rules_wf (rules_extend [LessThan (from_parts [2])] [GreaterThan (from_parts [1])])
   \<and> vr_cmp (GreaterThan (from_parts [1])) (LessThan (from_parts [3])) \<noteq> Greater"
proof -
  have wf: "rules_wf [LessThan (from_parts [2])]" by code_simp
  have le: "vr_cmp (GreaterThan (from_parts [1])) (LessThan (from_parts [2])) \<noteq> Greater
      \<and> vr_cmp (LessThan (from_parts [2])) (LessThan (from_parts [3])) \<noteq> Greater"
    by code_simp
  show ?thesis using rule_sets_sorted [OF wf] le by blast
qed

text \<open>
  Deduplication by the derived order is sound: two ranges that compare equal accept the
  same versions, so it does not matter which of them a set of rules keeps. This needs the
  invariant of ranges and excludes caret ranges of a version zero.
\<close>

theorem equal_rules_accept_same:
  assumes "vr_cmp a b = Equal" "range_canonical a" "range_canonical b"
  shows "is_applicable a v = Compatible \<longleftrightarrow> is_applicable b v = Compatible"
  using assms by (rule vr_Equal_accepts)

theorem equal_rules_accept_same_witness:
  "is_applicable (Filter [GreaterThan (from_parts [1])]) (from_parts [2]) = Compatible \<longleftrightarrow>
   is_applicable (Filter [GreaterThan (from_parts [1, 0])]) (from_parts [2]) = Compatible"
  by (rule equal_rules_accept_same) code_simp+

text \<open>
  Caret ranges of a version zero that differ in their number of parts compare equal, while
  the one with more parts has the lower ceiling, so a set of rules that holds both keeps only
  the one that was put in last.
\<close>

theorem zero_carets_equal_but_different:
  assumes "0 < i" "i < j"
  shows "vr_cmp (Semver (from_parts (replicate i 0))) (Semver (from_parts (replicate j 0))) = Equal
    \<and> version_less (semver_less_than (from_parts (replicate j 0)))
        (semver_less_than (from_parts (replicate i 0)))
    \<and> rules_collect [Semver (from_parts (replicate j 0)), Semver (from_parts (replicate i 0))]
        = [Semver (from_parts (replicate i 0))]"
proof -
  let ?zeros = "\<lambda>n. from_parts (replicate n (0 :: u32))"
  have key: "version_key (?zeros n) = version_key (?zeros 0)" for n
    by (simp add: version_key_def from_parts_def)
  then have equal: "version_cmp (?zeros m) (?zeros n) = Equal" for m n
    by (simp add: version_cmp_key)
  have snoc: "replicate (Suc n) (0 :: u32) = replicate n 0 @ [0]" for n
    by (simp add: replicate_append_same)
  have ceiling: "semver_less_than (?zeros (Suc n)) = from_parts (replicate n 0 @ [1])" for n
    using semver_bump_None [of "replicate (Suc n) 0"]
    by (simp add: semver_less_than_def from_parts_def from_version_parts_def bump_last_def snoc
        del: replicate_Suc)
  have less: "strip_zeros (replicate (Suc k + m) 0 @ [1 :: u32]) < strip_zeros (replicate m 0 @ [1 :: u32])" for k m
    by (induction m) (simp_all add: strip_zeros_Cons strip_zeros_less_Cons)
  obtain m k where ij: "i = Suc m" "j = Suc (Suc k + m)"
    using assms by (metis add.commute add_Suc_right gr0_implies_Suc less_imp_Suc_add)
  have "version_less (semver_less_than (?zeros j)) (semver_less_than (?zeros i))"
    using less [of k m] by (simp only: ij ceiling from_parts_less)
  then show ?thesis using equal by (simp add: rules_collect_def)
qed

theorem zero_carets_witness:
  "vr_cmp (Semver (from_parts (replicate 1 0))) (Semver (from_parts (replicate 2 0))) = Equal
   \<and> version_less (semver_less_than (from_parts (replicate 2 0))) (semver_less_than (from_parts (replicate 1 0)))"
  using zero_carets_equal_but_different [of 1 2] by simp

end
