(* ===== verification/Range_Filters.thy ===== *)
theory Range_Filters
  imports Range_Order
begin

text \<open>
  How version ranges combine: the valid ranges of \<^verbatim>\<open>version_range/intersection.rs\<close>, the methods
  \<open>intersects\<close> and \<open>contains\<close> of the trait \<open>Ranged\<close>, and the operations of \<open>VersionFilter\<close>.

  The enumeration of index pairs by the itertools crate is a parameter of \<open>simplify_rules\<close>;
  the properties assume of it that it lists the pairs of distinct indices.
\<close>

section \<open>Valid ranges\<close>

datatype limited_valid_range =
    RangeFrom version
  | RangeTo version
  | LRange version version

datatype valid_range =
    Total
  | VRange limited_valid_range
  | VPair limited_valid_range limited_valid_range

fun intersects_nonempty :: "limited_valid_range \<Rightarrow> limited_valid_range \<Rightarrow> bool" where
  "intersects_nonempty (RangeFrom _) (RangeFrom _) = True"
| "intersects_nonempty (RangeFrom a) (RangeTo b) = version_less a b"
| "intersects_nonempty (RangeFrom a) (LRange _ b2) = version_less a b2"
| "intersects_nonempty (RangeTo a) (RangeFrom b) = version_less b a"
| "intersects_nonempty (RangeTo _) (RangeTo _) = True"
| "intersects_nonempty (RangeTo a) (LRange b1 _) = version_less b1 a"
| "intersects_nonempty (LRange _ a2) (RangeFrom b) = version_less b a2"
| "intersects_nonempty (LRange a1 _) (RangeTo b) = version_less a1 b"
| "intersects_nonempty (LRange a1 a2) (LRange b1 b2) =
     (version_le b1 a1 \<and> version_less a1 b2 \<or> version_le a1 b1 \<and> version_less b1 a2)"

fun limited_intersects :: "limited_valid_range \<Rightarrow> valid_range \<Rightarrow> bool" where
  "limited_intersects self Total = True"
| "limited_intersects self (VRange r) = intersects_nonempty self r"
| "limited_intersects self (VPair p1 p2) = (intersects_nonempty self p1 \<or> intersects_nonempty self p2)"

fun valid_intersects :: "valid_range \<Rightarrow> valid_range \<Rightarrow> bool" where
  "valid_intersects Total other = True"
| "valid_intersects (VRange r) other = limited_intersects r other"
| "valid_intersects (VPair r1 r2) other = (limited_intersects r1 other \<or> limited_intersects r2 other)"

fun restrict_from :: "version \<Rightarrow> valid_range \<Rightarrow> (unit, valid_range) outcome" where
  "restrict_from start Total = Ok (VRange (RangeFrom start))"
| "restrict_from start (VRange (RangeFrom lhs)) = Ok (VRange (RangeFrom (cmp_min version_cmp lhs start)))"
| "restrict_from start (VRange (RangeTo lhs)) =
     (if version_less lhs start then Ok (VPair (RangeTo lhs) (RangeFrom start))
      else Ok (VRange (LRange start lhs)))"
| "restrict_from start (VRange (LRange _ _)) = Panic"
| "restrict_from start (VPair _ _) = Panic"

fun restrict_to :: "version \<Rightarrow> valid_range \<Rightarrow> (unit, valid_range) outcome" where
  "restrict_to limit Total = Ok (VRange (RangeTo limit))"
| "restrict_to limit (VRange (RangeFrom lhs)) =
     (if version_less lhs limit then Ok (VRange (LRange lhs limit))
      else Ok (VPair (RangeTo limit) (RangeFrom lhs)))"
| "restrict_to limit (VRange (RangeTo lhs)) = Ok (VRange (RangeTo (cmp_max version_cmp lhs limit)))"
| "restrict_to limit (VRange (LRange _ _)) = Panic"
| "restrict_to limit (VPair _ _) = Panic"

definition valid_range_of :: "version_range \<Rightarrow> (unit, valid_range) outcome" where
  "valid_range_of r =
     and_then (case greater_or_equal_to r of Some v \<Rightarrow> restrict_from v Total | None \<Rightarrow> Ok Total)
       (\<lambda>valid. case less_than_bound r of Some v \<Rightarrow> restrict_to v valid | None \<Rightarrow> Ok valid)"

section \<open>\<open>intersects\<close> and \<open>contains\<close>\<close>

text \<open>
  \<open>valid_range_of\<close> never panics (\<open>valid_range_of_Ok\<close> below), so the last branch
  of \<open>default_intersects\<close> is never taken.
\<close>

definition default_intersects :: "version_range \<Rightarrow> version_range \<Rightarrow> compatibility" where
  "default_intersects self other =
     (case (valid_range_of self, valid_range_of other) of
        (Ok self_valid_range, Ok other_valid_range) \<Rightarrow>
          if valid_intersects self_valid_range other_valid_range then Compatible
          else Incompatible (RangesDoNotIntersect (show_range self) (show_range other))
      | _ \<Rightarrow> Incompatible (InternalError ''unreachable''))"

fun intersects :: "version_range \<Rightarrow> version_range \<Rightarrow> compatibility" where
  "intersects (Filter rules) other =
     first_incompatible
       (\<lambda>new_rule. first_incompatible (\<lambda>old_rule. intersects old_rule new_rule) rules)
       (rules_sub (rules_of other) rules)"
| "intersects self other = default_intersects self other"

text \<open>
  One iteration of the loop over the bounds: the number of the case in which the left bound fails
  to enclose the right one.
\<close>

fun bound_problem :: "version option \<Rightarrow> version option \<Rightarrow> version option \<Rightarrow> nat option" where
  "bound_problem None None _ = None"
| "bound_problem None (Some _) None = Some 1"
| "bound_problem None (Some right_bound) (Some right_opposite) =
     (if version_less right_opposite right_bound then Some 2 else None)"
| "bound_problem (Some left_bound) None (Some right_opposite) =
     (if version_less left_bound right_opposite then Some 3 else None)"
| "bound_problem (Some _) None None = Some 4"
| "bound_problem (Some left_bound) (Some right_bound) _ =
     (if version_less right_bound left_bound then Some 5 else None)"

definition exact_base_contained :: "version_range \<Rightarrow> version_range \<Rightarrow> bool" where
  "exact_base_contained self other =
     (let other_v = (case other of DoubleEquals v \<Rightarrow> Some (dev_version v)
                                 | Equals v \<Rightarrow> Some (ev_version v)
                                 | _ \<Rightarrow> None) in
      case other_v of
        Some other_v \<Rightarrow> (case self of CompatR c \<Rightarrow> version_eq (cr_base c) other_v | _ \<Rightarrow> False)
      | None \<Rightarrow> False)"

definition compat_rule_problem :: "version_range \<Rightarrow> version_range \<Rightarrow> bool" where
  "compat_rule_problem self other =
     (case (get_compat_rule self, get_compat_rule other) of
        (Some _, None) \<Rightarrow> \<not> exact_base_contained self other
      | (Some x, Some y) \<Rightarrow> x > y
      | _ \<Rightarrow> False)"

definition default_contains :: "version_range \<Rightarrow> version_range \<Rightarrow> compatibility" where
  "default_contains self other =
     (if compat_rule_problem self other then
        Incompatible (RangeNotSuperset
          (StrongerCompatibilityRequirements (show_range self) (show_range other)))
      else
        let self_lower = greater_or_equal_to self; self_upper = less_than_bound self;
            other_lower = greater_or_equal_to other; other_upper = less_than_bound other in
        case bound_problem self_lower other_lower other_upper of
          Some c \<Rightarrow> Incompatible (RangeNotSuperset
                      (ContainProblem c 0 (show_range self) (show_range other)))
        | None \<Rightarrow>
            (case bound_problem other_upper self_upper self_lower of
               Some c \<Rightarrow> Incompatible (RangeNotSuperset
                           (ContainProblem c 1 (show_range self) (show_range other)))
             | None \<Rightarrow> intersects self other))"

fun contains :: "version_range \<Rightarrow> version_range \<Rightarrow> compatibility" where
  "contains (Filter rules) other =
     first_incompatible
       (\<lambda>new_rule. first_incompatible (\<lambda>old_rule. contains old_rule new_rule) rules)
       (rules_sub (rules_of other) rules)"
| "contains self other = default_contains self other"

section \<open>\<open>VersionFilter\<close>\<close>

datatype restrict_mode = RequireIntersectingRanges | AllowNonIntersectingRanges

definition filter_new :: "version_range list \<Rightarrow> version_range list" where
  "filter_new rules = rules_collect rules"

definition filter_single :: "version_range \<Rightarrow> version_range list" where
  "filter_single item = rules_insert item []"

definition filter_len :: "version_range list \<Rightarrow> nat" where
  "filter_len rules = length rules"

definition filter_from_version :: "version \<Rightarrow> version_range list" where
  "filter_from_version version = filter_single (double_equals_version_range version)"

text \<open>\<open>flatten_one\<close> is what \<open>flatten\<close> iterates over for one rule: the rules of a flattened nested
  filter, or the rule itself.\<close>

fun flatten_one :: "version_range \<Rightarrow> version_range list" where
  "flatten_one (Filter f) = rules_collect (concat (map flatten_one f))"
| "flatten_one r = [r]"

definition flatten :: "version_range list \<Rightarrow> version_range list" where
  "flatten rules = rules_collect (concat (map flatten_one rules))"

text \<open>Which pairs \<open>simplify_rules\<close> compares: compat ranges take part only on request, or against
  an exact version that equals their base.\<close>

fun may_merge :: "bool \<Rightarrow> version_range \<Rightarrow> version_range \<Rightarrow> bool" where
  "may_merge True _ _ = True"
| "may_merge False lhs rhs =
     (case (lhs, rhs) of
        (CompatR l, Equals r) \<Rightarrow> version_eq (cr_base l) (ev_version r)
      | (CompatR l, DoubleEquals r) \<Rightarrow> version_eq (cr_base l) (dev_version r)
      | (_, CompatR _) \<Rightarrow> False
      | (CompatR _, _) \<Rightarrow> False
      | _ \<Rightarrow> True)"

definition redundant :: "bool \<Rightarrow> version_range list \<Rightarrow> nat \<times> nat \<Rightarrow> bool" where
  "redundant allow rules p =
     (case (nth_opt rules (fst p), nth_opt rules (snd p)) of
        (Some lhs, Some rhs) \<Rightarrow> may_merge allow lhs rhs \<and> is_ok (contains lhs rhs)
      | _ \<Rightarrow> False)"

lemma redundant_length: "redundant allow rules p \<Longrightarrow> fst p < length rules"
  by (auto simp: redundant_def nth_opt_def split: if_splits option.splits)

function simplify_loop ::
  "(nat \<Rightarrow> (nat \<times> nat) list) \<Rightarrow> bool \<Rightarrow> version_range list \<Rightarrow> version_range list" where
  "simplify_loop perms allow rules =
     (case find (redundant allow rules) (perms (length rules)) of
        None \<Rightarrow> rules
      | Some p \<Rightarrow> simplify_loop perms allow (take (fst p) rules @ drop (Suc (fst p)) rules))"
  by pat_completeness auto

termination
  by (relation "measure (\<lambda>(_, _, rules). length rules)")
    (auto simp: find_Some_iff dest!: redundant_length)

declare simplify_loop.simps [simp del]

definition simplify_rules ::
  "(nat \<Rightarrow> (nat \<times> nat) list) \<Rightarrow> bool \<Rightarrow> version_range list \<Rightarrow> version_range list" where
  "simplify_rules perms allow rules =
     (if length rules \<le> 1 then rules else rules_collect (simplify_loop perms allow rules))"

definition restrict ::
  "(nat \<Rightarrow> (nat \<times> nat) list) \<Rightarrow> version_range list \<Rightarrow> version_range \<Rightarrow> restrict_mode \<Rightarrow>
   compatibility \<times> version_range list" where
  "restrict perms self other mode =
     (case intersects (Filter self) other of
        Incompatible reason \<Rightarrow>
          (if mode = AllowNonIntersectingRanges
           then (Compatible, rules_extend self (rules_of other))
           else (Incompatible reason, self))
      | Compatible \<Rightarrow>
          (Compatible, simplify_rules perms False (rules_extend self (rules_of other))))"

fun try_into_version :: "version_range list \<Rightarrow> (range_error, version) outcome" where
  "try_into_version [] = Err EmptyFilter"
| "try_into_version (_ # _ # _) = Err SeveralRules"
| "try_into_version [CompatR v] = Ok (cr_base v)"
| "try_into_version [Equals v] = Ok (ev_version v)"
| "try_into_version [DoubleEquals v] = Ok (dev_version v)"
| "try_into_version [Filter f] = try_into_version f"
| "try_into_version [rule] = Err (NotAVersion rule)"

text \<open>What \<open>VersionFilter::from_str\<close> and \<open>parse_version_range\<close> do with the range that the
  parser returned.\<close>

fun filter_of_parsed :: "version_range \<Rightarrow> version_range list" where
  "filter_of_parsed (Filter f) = f"
| "filter_of_parsed vr = filter_single vr"

definition parse_version_range_tail ::
  "(nat \<Rightarrow> (nat \<times> nat) list) \<Rightarrow> version_range \<Rightarrow> version_range" where
  "parse_version_range_tail perms vr =
     (case simplify_rules perms True (filter_of_parsed vr) of
        [rule] \<Rightarrow> rule
      | rules \<Rightarrow> Filter rules)"

section \<open>Valid ranges as sets of versions\<close>

text \<open>
  The reference for \<^verbatim>\<open>intersection.rs\<close>: the versions between two bounds. When the lower bound is
  not below the upper one, the two bounds describe a hole, as they do for \<open>!=\<close>.
\<close>

fun in_region :: "version option \<Rightarrow> version option \<Rightarrow> version \<Rightarrow> bool" where
  "in_region None None v = True"
| "in_region (Some l) None v = version_le l v"
| "in_region None (Some u) v = version_less v u"
| "in_region (Some l) (Some u) v =
     (if version_less l u then version_le l v \<and> version_less v u else version_le l v \<or> version_less v u)"

fun in_limited :: "limited_valid_range \<Rightarrow> version \<Rightarrow> bool" where
  "in_limited (RangeFrom a) v = version_le a v"
| "in_limited (RangeTo b) v = version_less v b"
| "in_limited (LRange a b) v = (version_le a v \<and> version_less v b)"

fun in_valid :: "valid_range \<Rightarrow> version \<Rightarrow> bool" where
  "in_valid Total v = True"
| "in_valid (VRange r) v = in_limited r v"
| "in_valid (VPair p q) v = (in_limited p v \<or> in_limited q v)"

text \<open>A valid range none of whose pieces is empty.\<close>

definition has_below :: "version \<Rightarrow> bool" where
  "has_below u \<longleftrightarrow> (\<exists>v. version_less v u)"

fun limited_ok :: "limited_valid_range \<Rightarrow> bool" where
  "limited_ok (RangeFrom a) = True"
| "limited_ok (RangeTo b) = has_below b"
| "limited_ok (LRange a b) = version_less a b"

fun valid_ok :: "valid_range \<Rightarrow> bool" where
  "valid_ok Total = True"
| "valid_ok (VRange r) = limited_ok r"
| "valid_ok (VPair p q) = (limited_ok p \<and> limited_ok q)"

lemma version_less_irrefl [simp]: "version_cmp v v = Equal"
  by (simp add: version_cmp_key)

lemma version_less_key: "version_cmp x y = Less \<longleftrightarrow> version_key x < version_key y"
  by (simp add: version_cmp_key)

lemma version_greater_key: "version_cmp x y = Greater \<longleftrightarrow> version_key y < version_key x"
  by (simp add: version_cmp_key)

lemma version_equal_key: "version_cmp x y = Equal \<longleftrightarrow> version_key x = version_key y"
  by (simp add: version_cmp_key)

lemmas version_cmps = version_less_key version_greater_key version_equal_key

lemma two_below:
  assumes "has_below x" "has_below y"
  shows "\<exists>v. version_less v x \<and> version_less v y"
proof -
  obtain a b where "version_less a x" "version_less b y"
    using assms by (auto simp: has_below_def)
  then show ?thesis
    by (cases "version_less a b") (auto simp: version_cmps intro: exI [of _ a] exI [of _ b])
qed

lemma intersects_nonempty_sound:
  assumes "limited_ok a" "limited_ok b" "intersects_nonempty a b"
  shows "\<exists>v. in_limited a v \<and> in_limited b v"
proof -
  define top where "top x y = (if version_less x y then y else x)" for x y
  show ?thesis
    using assms
  proof (induction a b rule: intersects_nonempty.induct)
    case (1 x y) then show ?case by (intro exI [of _ "top x y"]) (auto simp: top_def version_cmps)
  next
    case (2 x y) then show ?case by (intro exI [of _ x]) simp
  next
    case (3 x y z) then show ?case by (intro exI [of _ "top x y"]) (auto simp: top_def version_cmps)
  next
    case (4 x y) then show ?case by (intro exI [of _ y]) simp
  next
    case (5 x y) then show ?case using two_below by simp
  next
    case (6 x y z) then show ?case by (intro exI [of _ y]) simp
  next
    case (7 x y z) then show ?case by (intro exI [of _ "top x z"]) (auto simp: top_def version_cmps)
  next
    case (8 x y z) then show ?case by (intro exI [of _ x]) simp
  next
    case (9 a1 a2 b1 b2) then show ?case
      by (intro exI [of _ "top a1 b1"]) (auto simp: top_def version_cmps)
  qed
qed

lemma intersects_nonempty_complete:
  assumes "in_limited a v" "in_limited b v"
  shows "intersects_nonempty a b"
  using assms by (cases a; cases b) (auto simp: version_cmps)

lemma limited_nonempty: "limited_ok a \<Longrightarrow> \<exists>v. in_limited a v"
  by (cases a) (auto simp: has_below_def version_cmps)

lemma limited_intersects_iff:
  assumes "limited_ok a" "valid_ok b"
  shows "limited_intersects a b \<longleftrightarrow> (\<exists>v. in_limited a v \<and> in_valid b v)"
  using assms intersects_nonempty_sound [of a] intersects_nonempty_complete [of a] limited_nonempty [of a]
  by (cases b) (simp_all, blast+)

lemma valid_intersects_iff:
  assumes "valid_ok a" "valid_ok b"
  shows "valid_intersects a b \<longleftrightarrow> (\<exists>v. in_valid a v \<and> in_valid b v)"
proof -
  have "\<exists>v. in_valid b v"
    using assms(2) limited_nonempty by (cases b) auto
  then show ?thesis
    using assms limited_intersects_iff [of _ b] by (cases a) (simp_all, blast+)
qed

fun region :: "version option \<Rightarrow> version option \<Rightarrow> valid_range" where
  "region None None = Total"
| "region (Some l) None = VRange (RangeFrom l)"
| "region None (Some u) = VRange (RangeTo u)"
| "region (Some l) (Some u) =
     (if version_less l u then VRange (LRange l u) else VPair (RangeTo u) (RangeFrom l))"

lemma valid_range_of_Ok: "valid_range_of r = Ok (region (greater_or_equal_to r) (less_than_bound r))"
  by (auto simp: valid_range_of_def split: option.split)

lemma in_valid_region: "in_valid (region l u) v \<longleftrightarrow> in_region l u v"
  by (cases l; cases u) auto

lemma valid_ok_region: "(\<And>x. u = Some x \<Longrightarrow> has_below x) \<Longrightarrow> valid_ok (region l u)"
  by (cases l; cases u) auto

subsection \<open>Every upper bound has a version below it\<close>

lemma has_below_no_pre:
  assumes "v_pre u = [] \<or> epsilon_of u \<noteq> EpsMinus"
  shows "has_below u"
proof (cases "epsilon_of u = EpsMinus")
  case True
  with assms have "version_less (u\<lparr>v_pre := [([], 0)]\<rparr>) u"
    by (simp add: version_cmps version_key_def)
  then show ?thesis by (auto simp: has_below_def)
next
  case False
  then have "version_less (minus_epsilon u) u"
    by (cases "epsilon_of u") (simp_all add: version_cmps version_key_def minus_epsilon_def less_epsilon_def)
  then show ?thesis by (auto simp: has_below_def)
qed

lemma set_filter_map: "set (filter_map f xs) = {y. \<exists>x \<in> set xs. f x = Some y}"
  by (induction xs) (auto split: option.splits)

lemma less_than_has_below: "range_wf r \<Longrightarrow> less_than_bound r = Some u \<Longrightarrow> has_below u"
proof (induction r arbitrary: u)
  case (Filter rules)
  then have "u \<in> set (filter_map less_than_bound rules)"
    using version_ord.iter_min_Some by force
  with Filter show ?case by (auto simp: set_filter_map list_all_iff)
next
  case (Wildcard w)
  then show ?case
    by (auto simp: wildcard_less_than_def from_parts_def Let_def split: if_splits
        intro: has_below_no_pre)
qed (auto simp: plus_epsilon_def version_valid_def semver_less_than_def from_parts_def
    from_version_parts_def lowest_specified_less_than_def minus_epsilon_def
    split: option.splits intro!: has_below_no_pre)

lemma default_intersects_iff:
  assumes "range_wf a" "range_wf b"
  shows "default_intersects a b = Compatible \<longleftrightarrow>
    (\<exists>v. in_region (greater_or_equal_to a) (less_than_bound a) v
       \<and> in_region (greater_or_equal_to b) (less_than_bound b) v)"
proof -
  have "valid_ok (region (greater_or_equal_to r) (less_than_bound r))" if "range_wf r" for r
    using valid_ok_region less_than_has_below [OF that] by blast
  from valid_intersects_iff [OF this this, OF assms] show ?thesis
    by (simp add: default_intersects_def valid_range_of_Ok in_valid_region)
qed

lemma intersects_default [simp]: "\<not> (\<exists>rules. a = Filter rules) \<Longrightarrow> intersects a b = default_intersects a b"
  by (cases a) auto

lemma contains_default [simp]: "\<not> (\<exists>rules. a = Filter rules) \<Longrightarrow> contains a b = default_contains a b"
  by (cases a) auto

section \<open>Containment is the nesting of the bounds\<close>

fun lower_encloses :: "version option \<Rightarrow> version option \<Rightarrow> bool" where
  "lower_encloses None _ = True"
| "lower_encloses (Some _) None = False"
| "lower_encloses (Some l) (Some l') = version_le l l'"

fun upper_encloses :: "version option \<Rightarrow> version option \<Rightarrow> bool" where
  "upper_encloses None _ = True"
| "upper_encloses (Some _) None = False"
| "upper_encloses (Some u) (Some u') = version_le u' u"

text \<open>The bounds of a range are proper when they do not describe a hole.\<close>

definition proper_range :: "version_range \<Rightarrow> bool" where
  "proper_range r =
     (case (greater_or_equal_to r, less_than_bound r) of
        (Some l, Some u) \<Rightarrow> version_less l u | _ \<Rightarrow> True)"

definition bounded_range :: "version_range \<Rightarrow> bool" where
  "bounded_range r \<longleftrightarrow> greater_or_equal_to r \<noteq> None \<or> less_than_bound r \<noteq> None"

lemma proper_region:
  assumes "proper_range r"
  shows "in_region (greater_or_equal_to r) (less_than_bound r) v \<longleftrightarrow>
    (\<forall>l. greater_or_equal_to r = Some l \<longrightarrow> version_le l v) \<and> (\<forall>u. less_than_bound r = Some u \<longrightarrow> version_less v u)"
  using assms
  by (cases "greater_or_equal_to r"; cases "less_than_bound r") (auto simp: proper_range_def)

lemma region_nonempty:
  assumes "range_wf r"
  shows "\<exists>v. in_region (greater_or_equal_to r) (less_than_bound r) v"
  using less_than_has_below [OF assms]
  by (cases "greater_or_equal_to r"; cases "less_than_bound r") (auto simp: has_below_def version_cmps)

lemma enclosed_region:
  assumes "proper_range a" "proper_range b"
    "lower_encloses (greater_or_equal_to a) (greater_or_equal_to b)"
    "upper_encloses (less_than_bound a) (less_than_bound b)"
    "in_region (greater_or_equal_to b) (less_than_bound b) v"
  shows "in_region (greater_or_equal_to a) (less_than_bound a) v"
  using assms(3-5)
  unfolding proper_region [OF assms(1)] proper_region [OF assms(2)]
  by (cases "greater_or_equal_to a"; cases "greater_or_equal_to b"; cases "less_than_bound a"; cases "less_than_bound b")
    (auto simp: version_cmps)

lemma bound_problems_None:
  assumes "proper_range a" "proper_range b" "bounded_range a"
    "lower_encloses (greater_or_equal_to a) (greater_or_equal_to b)"
    "upper_encloses (less_than_bound a) (less_than_bound b)"
  shows "bound_problem (greater_or_equal_to a) (greater_or_equal_to b) (less_than_bound b) = None"
    "bound_problem (less_than_bound b) (less_than_bound a) (greater_or_equal_to a) = None"
  using assms
  by (cases "greater_or_equal_to a"; cases "greater_or_equal_to b"; cases "less_than_bound a"; cases "less_than_bound b";
      auto simp: version_cmps proper_range_def bounded_range_def)+

lemma bound_problems_encloses:
  assumes "proper_range a" "proper_range b"
    "bound_problem (greater_or_equal_to a) (greater_or_equal_to b) (less_than_bound b) = None"
    "bound_problem (less_than_bound b) (less_than_bound a) (greater_or_equal_to a) = None"
    "in_region (greater_or_equal_to a) (less_than_bound a) v" "in_region (greater_or_equal_to b) (less_than_bound b) v"
  shows "lower_encloses (greater_or_equal_to a) (greater_or_equal_to b)"
    "upper_encloses (less_than_bound a) (less_than_bound b)"
  using assms(3-6)
  unfolding proper_region [OF assms(1)] proper_region [OF assms(2)]
  using assms(1,2)
  by (cases "greater_or_equal_to a"; cases "greater_or_equal_to b"; cases "less_than_bound a"; cases "less_than_bound b";
      auto simp: version_cmps proper_range_def split: if_splits)+

lemma default_contains_iff:
  assumes "range_wf a" "range_wf b" "\<not> (\<exists>rules. a = Filter rules)"
    "proper_range a" "proper_range b" "bounded_range a"
  shows "default_contains a b = Compatible \<longleftrightarrow>
    \<not> compat_rule_problem a b
    \<and> lower_encloses (greater_or_equal_to a) (greater_or_equal_to b)
    \<and> upper_encloses (less_than_bound a) (less_than_bound b)"
    (is "_ \<longleftrightarrow> ?r")
proof
  assume "default_contains a b = Compatible"
  then have parts: "\<not> compat_rule_problem a b"
    "bound_problem (greater_or_equal_to a) (greater_or_equal_to b) (less_than_bound b) = None"
    "bound_problem (less_than_bound b) (less_than_bound a) (greater_or_equal_to a) = None"
    "default_intersects a b = Compatible"
    using assms(3) by (auto simp: default_contains_def Let_def split: if_splits option.splits)
  with default_intersects_iff [OF assms(1,2)] obtain v where
    "in_region (greater_or_equal_to a) (less_than_bound a) v" "in_region (greater_or_equal_to b) (less_than_bound b) v"
    by blast
  with bound_problems_encloses [OF assms(4,5) parts(2,3)] parts(1) show ?r by blast
next
  assume r: ?r
  obtain v where v: "in_region (greater_or_equal_to b) (less_than_bound b) v"
    using region_nonempty [OF assms(2)] by blast
  with r enclosed_region [OF assms(4,5)] have "in_region (greater_or_equal_to a) (less_than_bound a) v"
    by blast
  with v have "default_intersects a b = Compatible"
    using default_intersects_iff [OF assms(1,2)] by blast
  with r bound_problems_None [OF assms(4-6)] show "default_contains a b = Compatible"
    using assms(3) by (simp add: default_contains_def)
qed

section \<open>Flattening\<close>

lemma flatten_one_canonical:
  "range_canonical r \<Longrightarrow> list_all range_canonical (flatten_one r)"
proof (induction r)
  case (Filter rules)
  then show ?case
    using rules_collect_facts(1) [of "concat (map flatten_one rules)"]
    by (fastforce simp: list_all_iff)
qed simp_all

lemma flatten_one_accepts:
  "range_canonical r \<Longrightarrow> accepts_all (flatten_one r) v \<longleftrightarrow> is_applicable r v = Compatible"
proof (induction r)
  case (Filter rules)
  have "list_all range_canonical (concat (map flatten_one rules))"
    using Filter.prems flatten_one_canonical by (fastforce simp: list_all_iff)
  then have "accepts_all (flatten_one (Filter rules)) v \<longleftrightarrow> accepts_all (concat (map flatten_one rules)) v"
    by (simp add: accepts_rules_collect)
  also have "\<dots> \<longleftrightarrow> (\<forall>r \<in> set rules. accepts_all (flatten_one r) v)"
    by (auto simp: accepts_all_def)
  finally show ?case using Filter by (auto simp: list_all_iff)
qed simp_all

lemma flatten_one_flat: "q \<in> set (flatten_one r) \<Longrightarrow> \<not> (\<exists>rules. q = Filter rules)"
proof (induction r)
  case (Filter rules)
  then show ?case
    using rules_collect_facts(1) [of "concat (map flatten_one rules)"] by fastforce
qed auto

lemma flatten_as_one: "flatten rules = flatten_one (Filter rules)"
  by (simp add: flatten_def)

section \<open>Properties\<close>

text \<open>
  \<open>intersects\<close> decides what its comments say: it is \<open>Compatible\<close> exactly when some version lies
  in the valid ranges of both ranges, where bounds that exclude each other describe a hole. No
  call of \<open>restrict\<close> on a valid range reaches an \<open>unreachable!\<close>.
\<close>

theorem intersects_iff_common_version:
  assumes "range_wf a" "range_wf b" "\<not> (\<exists>rules. a = Filter rules)"
  shows "(intersects a b = Compatible \<longleftrightarrow>
      (\<exists>v. in_region (greater_or_equal_to a) (less_than_bound a) v
         \<and> in_region (greater_or_equal_to b) (less_than_bound b) v))
    \<and> valid_range_of a \<noteq> Panic \<and> valid_range_of b \<noteq> Panic"
  using assms default_intersects_iff [OF assms(1,2)] by (simp add: valid_range_of_Ok)

theorem intersects_iff_common_version_witness:
  "\<exists>v. in_region (greater_or_equal_to (Semver (from_parts [1]))) (less_than_bound (Semver (from_parts [1]))) v
     \<and> in_region (greater_or_equal_to (NotEquals (not_equals_from (from_parts [1, 5]))))
         (less_than_bound (NotEquals (not_equals_from (from_parts [1, 5])))) v"
proof -
  have "range_wf (Semver (from_parts [1]))" "range_wf (NotEquals (not_equals_from (from_parts [1, 5])))"
    "intersects (Semver (from_parts [1])) (NotEquals (not_equals_from (from_parts [1, 5]))) = Compatible"
    by code_simp+
  then show ?thesis
    using intersects_iff_common_version
      [of "Semver (from_parts [1])" "NotEquals (not_equals_from (from_parts [1, 5]))"] by simp
qed



text \<open>
  Flattening removes every nested filter and keeps the versions that are accepted.
\<close>

theorem flatten_accepts_same:
  assumes "list_all range_canonical rules"
  shows "(is_applicable (Filter (flatten rules)) v = Compatible \<longleftrightarrow>
      is_applicable (Filter rules) v = Compatible)
    \<and> list_all (\<lambda>r. \<not> (\<exists>fs. r = Filter fs)) (flatten rules)
    \<and> rules_wf (flatten rules)"
  using assms flatten_one_accepts [of "Filter rules" v] flatten_one_flat [of _ "Filter rules"]
    rules_collect_facts(2) [of "concat (map flatten_one rules)"]
  by (simp only: flatten_as_one filter_accepts list_all_iff) (simp add: list_all_iff)

theorem flatten_accepts_same_witness:
  "is_applicable (Filter (flatten [Filter [GreaterThan (from_parts [1])], LessThan (from_parts [3])])) (from_parts [2]) = Compatible"
proof -
  have canonical: "list_all range_canonical [Filter [GreaterThan (from_parts [1])], LessThan (from_parts [3])]"
    by code_simp
  have "is_applicable (Filter [Filter [GreaterThan (from_parts [1])], LessThan (from_parts [3])]) (from_parts [2]) = Compatible"
    by code_simp
  with flatten_accepts_same [OF canonical, of "from_parts [2]"] show ?thesis by simp
qed

end
