(* ===== verification/Range_Simplify.thy ===== *)
theory Range_Simplify
  imports Range_Filters
begin

text \<open>
  What \<open>VersionFilter::simplify_rules\<close> and \<open>restrict\<close> do to the versions that a filter accepts
  (\<^verbatim>\<open>version_range/mod.rs\<close>). The locale \<open>bounded_ranges\<close> states how the bounds of a range relate to
  the versions it accepts; it holds for the comparison, caret, tilde and compat ranges whose
  versions carry no pre or post release tags, and there dropping a rule that contains another
  one is sound.
\<close>

section \<open>Bounds that decide acceptance\<close>

definition tagless :: "version \<Rightarrow> bool" where
  "tagless v \<longleftrightarrow> v_pre v = [] \<and> v_post v = []"

definition no_epsilon :: "version \<Rightarrow> version" where
  "no_epsilon v = v\<lparr>v_parts := (v_parts v)\<lparr>vp_epsilon := EpsNone\<rparr>\<rparr>"

text \<open>A lower bound nudged up stands for \<open>>\<close>, an upper bound nudged up for \<open><=\<close>.\<close>

definition above :: "version \<Rightarrow> version \<Rightarrow> bool" where
  "above l v = (if epsilon_of l = EpsPlus then version_less (no_epsilon l) v else version_le l v)"

definition below :: "version \<Rightarrow> version \<Rightarrow> bool" where
  "below u v = (if epsilon_of u = EpsPlus then version_le v (no_epsilon u) else version_less v u)"

lemma tagless_key:
  "tagless v \<Longrightarrow> version_key v = (strip_zeros (parts_of v), epsilon_of v, (True, []), [])"
  "tagless v \<Longrightarrow> version_key (no_epsilon v) = (strip_zeros (parts_of v), EpsNone, (True, []), [])"
  by (simp_all add: tagless_def version_key_def no_epsilon_def)

lemma epsilon_less [simp]:
  "EpsMinus < EpsNone" "EpsNone < EpsPlus" "EpsMinus < EpsPlus"
  "\<not> EpsNone < EpsMinus" "\<not> EpsPlus < EpsNone" "\<not> EpsPlus < EpsMinus"
  by (simp_all add: less_epsilon_def)

lemma no_epsilon_less:
  assumes "epsilon_of l = EpsPlus" "epsilon_of m \<noteq> EpsPlus" "version_le l m"
  shows "version_less (no_epsilon l) m"
  using assms
  by (cases "epsilon_of m") (auto simp: version_cmps version_key_def no_epsilon_def)

lemma no_epsilon_le:
  assumes "epsilon_of m = EpsPlus" "epsilon_of l \<noteq> EpsPlus" "tagless l" "tagless m" "version_le l m"
  shows "version_le l (no_epsilon m)"
  using assms
  by (cases "epsilon_of l") (auto simp: version_cmps tagless_key)

lemma no_epsilon_mono:
  assumes "epsilon_of m = EpsPlus" "epsilon_of l = EpsPlus" "version_le l m"
  shows "version_le (no_epsilon l) (no_epsilon m)"
  using assms
  by (auto simp: version_cmps version_key_def no_epsilon_def)

lemma above_mono:
  assumes "tagless l" "tagless m" "version_le l m" "above m v"
  shows "above l v"
  using assms no_epsilon_less [of l m] no_epsilon_le [of m l] no_epsilon_mono [of m l]
  by (auto simp: above_def version_cmps split: if_splits)

lemma below_mono:
  assumes "tagless l" "tagless m" "version_le l m" "below l v"
  shows "below m v"
  using assms no_epsilon_less [of l m] no_epsilon_le [of m l] no_epsilon_mono [of m l]
  by (auto simp: below_def version_cmps split: if_splits)

lemma above_below: "above u v \<Longrightarrow> \<not> below u v"
  by (auto simp: above_def below_def version_cmps split: if_splits)

locale bounded_ranges =
  fixes fits :: "'r \<Rightarrow> bool"
    and lower :: "'r \<Rightarrow> version option"
    and upper :: "'r \<Rightarrow> version option"
    and accepts :: "'r \<Rightarrow> version \<Rightarrow> bool"
  assumes lower_tagless: "fits r \<Longrightarrow> lower r = Some l \<Longrightarrow> tagless l"
    and upper_tagless: "fits r \<Longrightarrow> upper r = Some u \<Longrightarrow> tagless u"
    and accepts_iff: "fits r \<Longrightarrow> accepts r v \<longleftrightarrow>
      (\<forall>l. lower r = Some l \<longrightarrow> above l v) \<and> (\<forall>u. upper r = Some u \<longrightarrow> below u v)"
begin

lemma encloses_accepts:
  assumes "fits a" "fits b" "lower_encloses (lower a) (lower b)" "upper_encloses (upper a) (upper b)"
    and "accepts b v"
  shows "accepts a v"
proof -
  have "above l v" if "lower a = Some l" for l
  proof -
    from that assms(3) obtain m where "lower b = Some m" "version_le l m" by (cases "lower b") auto
    with that assms show ?thesis
      using above_mono [of l m v] lower_tagless accepts_iff by blast
  qed
  moreover have "below u v" if "upper a = Some u" for u
  proof -
    from that assms(4) obtain m where "upper b = Some m" "version_le m u" by (cases "upper b") auto
    with that assms show ?thesis
      using below_mono [of m u v] upper_tagless accepts_iff by blast
  qed
  ultimately show ?thesis using accepts_iff [OF assms(1)] by blast
qed

lemma accepts_cross:
  assumes "fits a" "fits b" "accepts a v" "accepts b v" "lower a = Some l" "upper b = Some u"
  shows "version_less l u"
proof (rule ccontr)
  assume "\<not> version_less l u"
  then have "version_le u l" using version_ord.cmp_Greater_iff by blast
  moreover have "above l v" "below u v" using assms accepts_iff by blast+
  ultimately show False
    using above_mono [of u l v] above_below [of u v] lower_tagless upper_tagless assms by blast
qed

end

text \<open>The ranges with these laws. A caret range of a version zero is excluded (see
  \<open>range_canonical\<close>), and so are bounds that wrapped around.\<close>

definition plain :: "version \<Rightarrow> bool" where
  "plain v \<longleftrightarrow> tagless v \<and> epsilon_of v = EpsNone"

fun simple_range :: "version_range \<Rightarrow> bool" where
  "simple_range (CompatR r) = plain (cr_base r)"
| "simple_range (GreaterThan b) = plain b"
| "simple_range (GreaterThanOrEqualTo b) = plain b"
| "simple_range (LessThan b) = plain b"
| "simple_range (LessThanOrEqualTo b) = plain b"
| "simple_range (LowestSpecified r) =
     (range_wf (LowestSpecified r) \<and> plain (ls_base r) \<and> proper_range (LowestSpecified r))"
| "simple_range (Semver m) =
     (plain m \<and> strip_zeros (parts_of m) \<noteq> [] \<and> proper_range (Semver m))"
| "simple_range _ = False"

lemma plain_facts: "plain v \<Longrightarrow> version_valid v" "plain v \<Longrightarrow> tagless v" "plain v \<Longrightarrow> epsilon_of v = EpsNone"
  by (auto simp: plain_def tagless_def version_valid_def tag_set_valid_def bt_wf_def)

lemma simple_not_filter: "simple_range r \<Longrightarrow> \<not> (\<exists>rules. r = Filter rules)"
  by (cases r) auto

lemma simple_range_wf: "simple_range r \<Longrightarrow> range_wf r"
  by (cases r) (auto simp: plain_facts)

lemma simple_range_canonical: "simple_range r \<Longrightarrow> range_canonical r"
  by (cases r) (auto simp: plain_facts)

lemma simple_proper: "simple_range r \<Longrightarrow> proper_range r"
  by (cases r) (auto simp: proper_range_def)

lemma simple_bounded: "simple_range r \<Longrightarrow> bounded_range r"
  by (cases r) (auto simp: bounded_range_def)

lemma nudge_simps [simp]:
  "epsilon_of (plus_epsilon v) = EpsPlus" "epsilon_of (minus_epsilon v) = EpsMinus"
  "tagless (plus_epsilon v) = tagless v" "tagless (minus_epsilon v) = tagless v"
  "tagless (from_parts ps)" "tagless (from_version_parts vp)" "epsilon_of (from_parts ps) = EpsNone"
  "epsilon_of (from_version_parts vp) = vp_epsilon vp"
  by (simp_all add: plus_epsilon_def minus_epsilon_def tagless_def from_parts_def from_version_parts_def)

lemma no_epsilon_plus [simp]: "epsilon_of v = EpsNone \<Longrightarrow> no_epsilon (plus_epsilon v) = v"
  by (simp add: no_epsilon_def plus_epsilon_def)

lemma semver_less_than_plain:
  "plain m \<Longrightarrow> tagless (semver_less_than m) \<and> epsilon_of (semver_less_than m) = EpsNone"
  by (auto simp: semver_less_than_def plain_def split: option.split)

lemma lowest_specified_tagless: "tagless (lowest_specified_less_than r)"
  "epsilon_of (lowest_specified_less_than r) = EpsMinus"
  by (simp_all add: lowest_specified_less_than_def)

interpretation simple: bounded_ranges simple_range greater_or_equal_to less_than_bound
  "\<lambda>r v. is_applicable r v = Compatible"
proof
  fix r :: version_range and l u v :: version
  assume simple: "simple_range r"
  show "tagless l" if "greater_or_equal_to r = Some l"
    using simple that by (cases r) (auto simp: plain_def)
  show "tagless u" if "less_than_bound r = Some u"
    using simple that semver_less_than_plain
    by (cases r) (auto simp: plain_def lowest_specified_tagless)
  show "is_applicable r v = Compatible \<longleftrightarrow>
      (\<forall>l. greater_or_equal_to r = Some l \<longrightarrow> above l v) \<and> (\<forall>u. less_than_bound r = Some u \<longrightarrow> below u v)"
    using simple
    by (cases r) (auto simp: above_def below_def within_bounds_accepts plain_facts semver_less_than_plain
        lowest_specified_tagless version_cmps)
qed

lemma contains_accepts:
  assumes "simple_range a" "simple_range b" "contains a b = Compatible" "is_applicable b v = Compatible"
  shows "is_applicable a v = Compatible"
proof -
  note facts = simple_range_wf simple_proper simple_bounded simple_not_filter
  have "default_contains a b = Compatible"
    using assms(3) simple_not_filter [OF assms(1)] by simp
  then have "lower_encloses (greater_or_equal_to a) (greater_or_equal_to b)
      \<and> upper_encloses (less_than_bound a) (less_than_bound b)"
    using default_contains_iff [of a b] facts assms(1,2) by blast
  with simple.encloses_accepts assms show ?thesis by blast
qed

text \<open>Ranges that accept a common version are reported as intersecting.\<close>

lemma common_version_intersects:
  assumes "simple_range a" "simple_range b"
    and "is_applicable a v = Compatible" "is_applicable b v = Compatible"
  shows "intersects a b = Compatible"
proof -
  have "\<forall>l u. greater_or_equal_to a = Some l \<longrightarrow> less_than_bound b = Some u \<longrightarrow> version_less l u"
    "\<forall>l u. greater_or_equal_to b = Some l \<longrightarrow> less_than_bound a = Some u \<longrightarrow> version_less l u"
    using simple.accepts_cross [OF assms(1,2,3,4)] simple.accepts_cross [OF assms(2,1,4,3)] by blast+
  moreover have "proper_range a" "proper_range b" using assms simple_proper by blast+
  ultimately have "valid_intersects (region (greater_or_equal_to a) (less_than_bound a))
      (region (greater_or_equal_to b) (less_than_bound b))"
    by (cases "greater_or_equal_to a"; cases "less_than_bound a"; cases "greater_or_equal_to b";
        cases "less_than_bound b") (auto simp: proper_range_def version_cmps)
  then show ?thesis
    using simple_not_filter [OF assms(1)] by (simp add: default_intersects_def valid_range_of_Ok)
qed

section \<open>Simplification\<close>

text \<open>What the documentation of \<open>Itertools::permutations\<close> promises for two elements out of
  \<open>n\<close>: every ordered pair of distinct positions.\<close>

definition all_pairs :: "(nat \<Rightarrow> (nat \<times> nat) list) \<Rightarrow> bool" where
  "all_pairs perms \<longleftrightarrow> (\<forall>n. set (perms n) = {(i, j). i < n \<and> j < n \<and> i \<noteq> j})"

text \<open>The order in which the crate lists them.\<close>

definition lexicographic_pairs :: "nat \<Rightarrow> (nat \<times> nat) list" where
  "lexicographic_pairs n =
     filter (\<lambda>(i, j). i \<noteq> j) (concat (map (\<lambda>i. map (Pair i) [0..<n]) [0..<n]))"

lemma all_pairs_lexicographic: "all_pairs lexicographic_pairs"
  by (auto simp: all_pairs_def lexicographic_pairs_def image_iff)

lemma redundant_pair:
  assumes "find (redundant allow rules) (perms (length rules)) = Some p" "all_pairs perms"
  shows "fst p < length rules" "snd p < length rules" "fst p \<noteq> snd p"
    "contains (rules ! fst p) (rules ! snd p) = Compatible"
    "may_merge allow (rules ! fst p) (rules ! snd p)"
proof -
  have "p \<in> set (perms (length rules))" "redundant allow rules p"
    using assms(1) by (auto simp: find_Some_iff in_set_conv_nth)
  then show "fst p < length rules" "snd p < length rules" "fst p \<noteq> snd p"
    "contains (rules ! fst p) (rules ! snd p) = Compatible"
    "may_merge allow (rules ! fst p) (rules ! snd p)"
    using assms(2) by (auto simp: all_pairs_def redundant_def nth_opt_def)
qed

lemma set_remove_nth:
  assumes "i < length xs"
  shows "set xs = insert (xs ! i) (set (take i xs @ drop (Suc i) xs))"
  using id_take_nth_drop [OF assms] by (metis insert_code(1) list.set(2) set_append Un_insert_right)

lemma nth_mem_remove:
  assumes "i < length xs" "j < length xs" "i \<noteq> j"
  shows "xs ! j \<in> set (take i xs @ drop (Suc i) xs)"
proof (cases "j < i")
  case True
  then have "take i xs ! j = xs ! j" "j < length (take i xs)" using assms by auto
  then show ?thesis by (metis Un_iff nth_mem set_append)
next
  case False
  then have "drop (Suc i) xs ! (j - Suc i) = xs ! j" "j - Suc i < length (drop (Suc i) xs)"
    using assms by auto
  then show ?thesis by (metis Un_iff nth_mem set_append)
qed

lemma simplify_loop_step:
  assumes "find (redundant allow rules) (perms (length rules)) = Some p"
  shows "simplify_loop perms allow rules =
    simplify_loop perms allow (take (fst p) rules @ drop (Suc (fst p)) rules)"
  using assms by (subst simplify_loop.simps) simp

lemma simplify_loop_stop:
  assumes "find (redundant allow rules) (perms (length rules)) = None"
  shows "simplify_loop perms allow rules = rules"
  using assms by (subst simplify_loop.simps) simp

lemma remove_sublist: "set (take i xs @ drop j xs) \<subseteq> set xs"
  using set_take_subset [of i xs] set_drop_subset [of j xs] by auto

lemma simplify_loop_subset: "set (simplify_loop perms allow rules) \<subseteq> set rules"
proof (induction perms allow rules rule: simplify_loop.induct)
  case (1 perms allow rules)
  show ?case
  proof (cases "find (redundant allow rules) (perms (length rules))")
    case (Some p)
    with 1 [OF Some] remove_sublist [of "fst p" rules "Suc (fst p)"] show ?thesis
      by (auto simp: simplify_loop_step Some)
  qed (simp add: simplify_loop_stop)
qed

lemma rules_wf_remove: "rules_wf rules \<Longrightarrow> rules_wf (take i rules @ drop (Suc i) rules)"
proof (cases "i < length rules")
  case True
  moreover assume "rules_wf rules"
  ultimately have "rules_wf (take i rules @ rules ! i # drop (Suc i) rules)"
    using id_take_nth_drop [of i rules] by simp
  then show ?thesis by (auto simp: rules_wf_def sorted_wrt_append)
qed simp

lemma simplify_loop_wf: "rules_wf rules \<Longrightarrow> rules_wf (simplify_loop perms allow rules)"
proof (induction perms allow rules rule: simplify_loop.induct)
  case (1 perms allow rules)
  then show ?case
    by (cases "find (redundant allow rules) (perms (length rules))")
      (auto simp: simplify_loop_stop simplify_loop_step rules_wf_remove)
qed

lemma simplify_loop_done:
  "find (redundant allow (simplify_loop perms allow rules))
     (perms (length (simplify_loop perms allow rules))) = None"
proof (induction perms allow rules rule: simplify_loop.induct)
  case (1 perms allow rules)
  then show ?case
    by (cases "find (redundant allow rules) (perms (length rules))")
      (auto simp: simplify_loop_stop simplify_loop_step)
qed

lemma simplify_loop_not_Nil:
  assumes "all_pairs perms" "rules \<noteq> []"
  shows "simplify_loop perms allow rules \<noteq> []"
  using assms(2)
proof (induction "length rules" arbitrary: rules rule: less_induct)
  case less
  show ?case
  proof (cases "find (redundant allow rules) (perms (length rules))")
    case (Some p)
    note pair = redundant_pair [OF Some assms(1)]
    have "take (fst p) rules @ drop (Suc (fst p)) rules \<noteq> []"
      using nth_mem_remove [OF pair(1-3)] by (metis empty_iff empty_set)
    with less pair(1) show ?thesis by (auto simp: simplify_loop_step Some)
  qed (use less in \<open>simp add: simplify_loop_stop\<close>)
qed

lemma simplify_loop_accepts:
  assumes "all_pairs perms" "list_all simple_range rules"
  shows "accepts_all (simplify_loop perms allow rules) v \<longleftrightarrow> accepts_all rules v"
  using assms(2)
proof (induction "length rules" arbitrary: rules rule: less_induct)
  case less
  show ?case
  proof (cases "find (redundant allow rules) (perms (length rules))")
    case (Some p)
    note pair = redundant_pair [OF Some assms(1)]
    let ?rest = "take (fst p) rules @ drop (Suc (fst p)) rules"
    have simple: "simple_range r" if "r \<in> set rules" for r
      using less.prems that by (simp add: list_all_iff)
    then have "list_all simple_range ?rest"
      using remove_sublist [of "fst p" rules "Suc (fst p)"] by (auto simp: list_all_iff)
    moreover have "length ?rest < length rules" using pair(1) by simp
    ultimately have "accepts_all (simplify_loop perms allow rules) v \<longleftrightarrow> accepts_all ?rest v"
      using less.hyps by (simp add: simplify_loop_step Some)
    also have "\<dots> \<longleftrightarrow> accepts_all rules v"
    proof -
      have "accepts_all ?rest v \<Longrightarrow> is_applicable (rules ! fst p) v = Compatible"
        using contains_accepts [OF simple simple pair(4)] pair(1,2) nth_mem_remove [OF pair(1-3)]
        by (metis accepts_all_def nth_mem)
      then show ?thesis
        using set_remove_nth [OF pair(1)] by (auto simp: accepts_all_def)
    qed
    finally show ?thesis .
  qed (simp add: simplify_loop_stop)
qed

lemma simplify_rules_eq:
  assumes "rules_wf rules"
  shows "simplify_rules perms allow rules =
    (if length rules \<le> 1 then rules else simplify_loop perms allow rules)"
  using simplify_loop_wf [OF assms] by (simp add: simplify_rules_def rules_collect_id)

lemma simplify_rules_accepts:
  assumes "all_pairs perms" "rules_wf rules" "list_all simple_range rules"
  shows "accepts_all (simplify_rules perms allow rules) v \<longleftrightarrow> accepts_all rules v"
  using assms by (simp add: simplify_rules_eq simplify_loop_accepts)

lemma simplify_rules_wf: "rules_wf rules \<Longrightarrow> rules_wf (simplify_rules perms allow rules)"
  by (simp add: simplify_rules_eq simplify_loop_wf)

text \<open>A compat range is dropped only next to an exact version equal to its base.\<close>

definition exact_for :: "compat_range \<Rightarrow> version_range \<Rightarrow> bool" where
  "exact_for c r =
     (case r of Equals q \<Rightarrow> version_eq (cr_base c) (ev_version q)
      | DoubleEquals q \<Rightarrow> version_eq (cr_base c) (dev_version q)
      | _ \<Rightarrow> False)"

lemma simplify_loop_keeps_compat:
  assumes "all_pairs perms" "CompatR c \<in> set rules" "\<not> list_ex (exact_for c) rules"
  shows "CompatR c \<in> set (simplify_loop perms False rules)"
  using assms(2,3)
proof (induction "length rules" arbitrary: rules rule: less_induct)
  case less
  show ?case
  proof (cases "find (redundant False rules) (perms (length rules))")
    case (Some p)
    note pair = redundant_pair [OF Some assms(1)]
    let ?rest = "take (fst p) rules @ drop (Suc (fst p)) rules"
    have "rules ! fst p \<noteq> CompatR c"
    proof
      assume "rules ! fst p = CompatR c"
      with pair(5) have "exact_for c (rules ! snd p)"
        by (auto simp: exact_for_def split: version_range.splits)
      with less.prems(2) pair(2) show False by (auto simp: list_ex_length)
    qed
    then have "CompatR c \<in> set ?rest"
      using less.prems(1) set_remove_nth [OF pair(1)] by auto
    moreover have "\<not> list_ex (exact_for c) ?rest"
      using less.prems(2) remove_sublist [of "fst p" rules "Suc (fst p)"] by (auto simp: list_ex_iff)
    moreover have "length ?rest < length rules" using pair(1) by simp
    ultimately show ?thesis using less.hyps by (simp add: simplify_loop_step Some)
  qed (use less in \<open>simp add: simplify_loop_stop\<close>)
qed

section \<open>Restriction\<close>

lemma simple_rules_of: "list_all simple_range (rules_of r) \<Longrightarrow> \<forall>q \<in> set (rules_of r). simple_range q"
  by (simp add: list_all_iff)

lemma filter_disjoint:
  assumes "list_all simple_range self" "list_all simple_range (rules_of other)"
    and "accepts_all self v" "is_applicable other v = Compatible"
  shows "intersects (Filter self) other = Compatible"
proof -
  have "is_applicable q v = Compatible" if "q \<in> set (rules_of other)" for q
    using assms(4) rules_of_accepts [of other v] that by (simp add: accepts_all_def)
  with assms show ?thesis
    by (auto simp: rules_sub_def accepts_all_def list_all_iff intro!: common_version_intersects)
qed

section \<open>A pair that is simplified wrongly\<close>

lemma plus_epsilon_greater: "epsilon_of b = EpsNone \<Longrightarrow> version_less b (plus_epsilon b)"
  by (simp add: version_cmps version_key_def plus_epsilon_def)

lemma at_least_contains_not_equals:
  assumes "version_valid b" "version_less a b"
  shows "contains (GreaterThanOrEqualTo a) (NotEquals (not_equals_from b)) = Compatible"
    "contains (NotEquals (not_equals_from b)) (GreaterThanOrEqualTo a) \<noteq> Compatible"
proof -
  have b: "version_less b (plus_epsilon b)"
    using assms(1) by (intro plus_epsilon_greater) (simp add: version_valid_def)
  then show "contains (GreaterThanOrEqualTo a) (NotEquals (not_equals_from b)) = Compatible"
    using assms(2)
    by (auto simp: default_contains_def compat_rule_problem_def default_intersects_def valid_range_of_Ok
        not_equals_from_def version_cmps)
  show "contains (NotEquals (not_equals_from b)) (GreaterThanOrEqualTo a) \<noteq> Compatible"
    using assms(2) b
    by (auto simp: default_contains_def compat_rule_problem_def not_equals_from_def version_cmps)
qed

lemma simplify_loop_singleton: "all_pairs perms \<Longrightarrow> simplify_loop perms allow [r] = [r]"
  using redundant_pair [of allow "[r]" perms]
  by (cases "find (redundant allow [r]) (perms (length [r]))") (simp_all add: simplify_loop_stop)

lemma simplify_loop_pair:
  assumes "all_pairs perms" "may_merge allow a b" "contains a b = Compatible" "contains b a \<noteq> Compatible"
  shows "simplify_loop perms allow [a, b] = [b]"
proof (cases "find (redundant allow [a, b]) (perms (length [a, b]))")
  case None
  have "(0, 1) \<in> set (perms (length [a, b]))" using assms(1) by (simp add: all_pairs_def)
  with None have "\<not> redundant allow [a, b] (0, 1)" by (simp add: find_None_iff)
  with assms(2,3) show ?thesis by (simp add: redundant_def nth_opt_def)
next
  case (Some p)
  note pair = redundant_pair [OF Some assms(1)]
  have "fst p = 0"
  proof (rule ccontr)
    assume "fst p \<noteq> 0"
    then have "fst p = 1" "snd p = 0" using pair(1-3) by auto
    with pair(4) assms(4) show False by simp
  qed
  then show ?thesis
    using simplify_loop_step [of allow "[a, b]" perms p] Some assms(1)
    by (simp add: simplify_loop_singleton)
qed

section \<open>Properties\<close>

text \<open>
  Among comparison, caret, tilde and compat ranges whose versions have no release tags,
  \<open>contains\<close> is sound: the container accepts every version that the contained range accepts.
\<close>

theorem contains_sound:
  assumes "simple_range a" "simple_range b" "contains a b = Compatible"
    and "is_applicable b v = Compatible"
  shows "is_applicable a v = Compatible"
  using assms by (rule contains_accepts)

theorem contains_sound_witness:
  "is_applicable (Semver (from_parts [1])) (from_parts [1, 2, 9]) = Compatible"
proof -
  have "simple_range (Semver (from_parts [1]))"
    "simple_range (LowestSpecified (lowest_specified_new (from_parts [1, 2, 3])))"
    "contains (Semver (from_parts [1])) (LowestSpecified (lowest_specified_new (from_parts [1, 2, 3]))) = Compatible"
    "is_applicable (LowestSpecified (lowest_specified_new (from_parts [1, 2, 3]))) (from_parts [1, 2, 9]) = Compatible"
    by code_simp+
  then show ?thesis by (rule contains_sound)
qed



text \<open>
  Restricting a request never merges away a compat range (\<open>maya/2019,maya/2020\<close> keeps both):
  \<open>simplify_rules(false)\<close> keeps every compat range unless the rules hold an exact version
  equal to its base. This holds for rules of every kind.
\<close>

theorem simplify_keeps_compat_ranges:
  assumes "all_pairs perms" "rules_wf rules" "CompatR c \<in> set rules"
    and "\<not> list_ex (exact_for c) rules"
  shows "CompatR c \<in> set (simplify_rules perms False rules)"
  using assms simplify_loop_keeps_compat [OF assms(1,3,4)] by (simp add: simplify_rules_eq)

theorem simplify_keeps_compat_ranges_witness:
  "CompatR \<lparr>cr_base = from_parts [2019], cr_required = None\<rparr> \<in> set (simplify_rules lexicographic_pairs False
     [CompatR \<lparr>cr_base = from_parts [2019], cr_required = None\<rparr>,
      CompatR \<lparr>cr_base = from_parts [2020], cr_required = None\<rparr>])"
  by (rule simplify_keeps_compat_ranges [OF all_pairs_lexicographic]) (code_simp, simp, code_simp)

lemma restrict_filter:
  assumes "all_pairs perms" "rules_wf self"
    and "list_all simple_range self" "list_all simple_range (rules_of other)"
    and "restrict perms self other mode = (result, out)"
  shows "rules_wf out \<and>
    (if result = Compatible
     then (is_applicable (Filter out) v = Compatible \<longleftrightarrow>
             is_applicable (Filter self) v = Compatible \<and> is_applicable other v = Compatible)
     else out = self \<and> mode = RequireIntersectingRanges
       \<and> \<not> (is_applicable (Filter self) v = Compatible \<and> is_applicable other v = Compatible))"
proof -
  let ?all = "rules_extend self (rules_of other)"
  have all: "rules_wf ?all" "set ?all \<subseteq> set self \<union> set (rules_of other)"
    using rules_extend_facts [OF assms(2)] by auto
  have simple: "list_all simple_range ?all"
    using all(2) assms(3,4) by (auto simp: list_all_iff)
  have "list_all range_canonical (self @ rules_of other)"
    using assms(3,4) simple_range_canonical by (auto simp: list_all_iff)
  from accepts_rules_extend [OF this] have accepts:
    "accepts_all ?all v \<longleftrightarrow> accepts_all self v \<and> is_applicable other v = Compatible"
    by (simp add: rules_of_accepts)
  note simplified = simplify_rules_accepts [OF assms(1) all(1) simple] simplify_rules_wf [OF all(1)]
  show ?thesis
  proof (cases "intersects (Filter self) other")
    case Compatible
    then show ?thesis
      using assms(5) simplified accepts unfolding filter_accepts
      by (auto simp: restrict_def simp del: intersects.simps)
  next
    case (Incompatible reason)
    then have "\<not> (accepts_all self v \<and> is_applicable other v = Compatible)"
      using filter_disjoint [OF assms(3,4)] by auto
    then show ?thesis
      using assms(2,5) all(1) accepts Incompatible unfolding filter_accepts
      by (cases mode) (auto simp: restrict_def simp del: intersects.simps)
  qed
qed



text \<open>
  Simplification forgets a lower bound next to an exclusion: for \<open>a < b\<close>, parsing
  \<open>>=a,!=b\<close> returns just \<open>!=b\<close>, which accepts versions below \<open>a\<close> that the two rules reject.
\<close>

theorem lower_bound_lost_next_to_exclusion:
  assumes "all_pairs perms" "version_valid b" "version_less a b"
    and "version_less v a" "is_applicable (NotEquals (not_equals_from b)) v = Compatible"
  shows "rules_wf [GreaterThanOrEqualTo a, NotEquals (not_equals_from b)]
    \<and> is_applicable (Filter [GreaterThanOrEqualTo a, NotEquals (not_equals_from b)]) v \<noteq> Compatible
    \<and> parse_version_range_tail perms (Filter [GreaterThanOrEqualTo a, NotEquals (not_equals_from b)])
        = NotEquals (not_equals_from b)
    \<and> is_applicable (parse_version_range_tail perms
        (Filter [GreaterThanOrEqualTo a, NotEquals (not_equals_from b)])) v = Compatible"
proof -
  let ?rules = "[GreaterThanOrEqualTo a, NotEquals (not_equals_from b)]"
  have wf: "rules_wf ?rules" by (simp add: rules_wf_def)
  have "simplify_loop perms True ?rules = [NotEquals (not_equals_from b)]"
    using at_least_contains_not_equals [OF assms(2,3)] by (intro simplify_loop_pair [OF assms(1)]) simp_all
  then have "parse_version_range_tail perms (Filter ?rules) = NotEquals (not_equals_from b)"
    by (simp add: parse_version_range_tail_def simplify_rules_eq [OF wf])
  with wf assms(4,5) show ?thesis by simp
qed

theorem lower_bound_lost_witness:
  "parse_version_range_tail lexicographic_pairs
     (Filter [GreaterThanOrEqualTo (from_parts [1, 1]), NotEquals (not_equals_from (from_parts [1, 3]))])
       = NotEquals (not_equals_from (from_parts [1, 3]))
   \<and> is_applicable (parse_version_range_tail lexicographic_pairs
        (Filter [GreaterThanOrEqualTo (from_parts [1, 1]), NotEquals (not_equals_from (from_parts [1, 3]))]))
        (from_parts [1, 0]) = Compatible"
proof -
  have "version_valid (from_parts [1, 3])" "version_less (from_parts [1, 1]) (from_parts [1, 3])"
    "version_less (from_parts [1, 0]) (from_parts [1, 1])"
    "is_applicable (NotEquals (not_equals_from (from_parts [1, 3]))) (from_parts [1, 0]) = Compatible"
    by code_simp+
  with lower_bound_lost_next_to_exclusion [OF all_pairs_lexicographic] show ?thesis by blast
qed

end
