(* ===== verification/Encoding.thy ===== *)
theory Encoding
  imports Prelude
begin

text \<open>
  The binary encoding of spfs (\<^verbatim>\<open>crates/spfs-encoding/src/binary.rs\<close>, and the digest type of
  \<^verbatim>\<open>crates/spfs-proto/src/digest.rs\<close>).

  Bytes are \<open>char\<close>s, so a byte sequence has the same type as a string. A writer is the list of
  bytes that was written; writing to memory does not fail. A reader is the list of the buffers that
  the calls of \<open>fill_buf\<close> return, none of them empty; all that a read leaves behind is the rest of
  them. The functions that read from a plain \<open>Read\<close> see the buffers as one sequence; only
  \<open>read_string\<close> sees where one ends. The digest algorithm (the ring crate's SHA256) and the
  base32 alphabet (the data_encoding crate) are parameters where they are used.
\<close>

type_synonym byte_list = str
type_synonym reader = "byte_list list"
type_synonym u64 = "64 word"
type_synonym u8 = "8 word"

datatype encoding_error =
    FailedRead
  | InvalidStringEncoding
  | StringHasNull
  | InvalidHeader byte_list byte_list
  | InvalidDigestLength nat

type_synonym 'a written = "(encoding_error, 'a) outcome"
type_synonym 'a decoded = "(encoding_error, 'a \<times> reader) outcome"

section \<open>UTF-8\<close>

abbreviation byte_in :: "nat \<Rightarrow> char \<Rightarrow> nat \<Rightarrow> bool" where
  "byte_in lo c hi \<equiv> lo \<le> of_char c \<and> of_char c \<le> hi"

abbreviation trailing :: "char \<Rightarrow> bool" where
  "trailing c \<equiv> byte_in 0x80 c 0xBF"

text \<open>\<open>std::str::from_utf8\<close> accepts the well-formed sequences of the Unicode standard. The first
  argument of \<open>utf8_from\<close> lists the ranges that the bytes still due must lie in.\<close>

definition utf8_lead :: "char \<Rightarrow> (nat \<times> nat) list option" where
  "utf8_lead c =
     (if byte_in 0 c 0x7F then Some []
      else if byte_in 0xC2 c 0xDF then Some [(0x80, 0xBF)]
      else if byte_in 0xE0 c 0xE0 then Some [(0xA0, 0xBF), (0x80, 0xBF)]
      else if byte_in 0xE1 c 0xEC \<or> byte_in 0xEE c 0xEF then Some [(0x80, 0xBF), (0x80, 0xBF)]
      else if byte_in 0xED c 0xED then Some [(0x80, 0x9F), (0x80, 0xBF)]
      else if byte_in 0xF0 c 0xF0 then Some [(0x90, 0xBF), (0x80, 0xBF), (0x80, 0xBF)]
      else if byte_in 0xF1 c 0xF3 then Some [(0x80, 0xBF), (0x80, 0xBF), (0x80, 0xBF)]
      else if byte_in 0xF4 c 0xF4 then Some [(0x80, 0x8F), (0x80, 0xBF), (0x80, 0xBF)]
      else None)"

fun utf8_from :: "(nat \<times> nat) list \<Rightarrow> byte_list \<Rightarrow> bool" where
  "utf8_from due [] = (due = [])"
| "utf8_from [] (c # cs) = (case utf8_lead c of None \<Rightarrow> False | Some due \<Rightarrow> utf8_from due cs)"
| "utf8_from ((lo, hi) # due) (c # cs) = (byte_in lo c hi \<and> utf8_from due cs)"

definition utf8_valid :: "byte_list \<Rightarrow> bool" where
  "utf8_valid s = utf8_from [] s"

section \<open>Readers\<close>

definition reader_wf :: "reader \<Rightarrow> bool" where
  "reader_wf r \<longleftrightarrow> [] \<notin> set r"

text \<open>\<open>BufRead::fill_buf\<close> and \<open>BufRead::consume\<close>: an empty buffer means the end of the input.\<close>

fun fill_buf :: "reader \<Rightarrow> byte_list" where
  "fill_buf [] = []"
| "fill_buf (b # bs) = b"

fun consume :: "nat \<Rightarrow> reader \<Rightarrow> reader" where
  "consume n [] = []"
| "consume n (b # bs) = (if n < length b then drop n b # bs else bs)"

fun skip_bytes :: "nat \<Rightarrow> reader \<Rightarrow> reader" where
  "skip_bytes n [] = []"
| "skip_bytes n (b # bs) = (if n < length b then drop n b # bs else skip_bytes (n - length b) bs)"

definition read_exact :: "nat \<Rightarrow> reader \<Rightarrow> byte_list decoded" where
  "read_exact n r =
     (if n \<le> length (concat r) then Ok (take n (concat r), skip_bytes n r) else Err FailedRead)"

section \<open>Big-endian integers\<close>

fun be_bytes :: "nat \<Rightarrow> int \<Rightarrow> byte_list" where
  "be_bytes 0 x = []"
| "be_bytes (Suc n) x = be_bytes n (x div 256) @ [char_of (x mod 256)]"

definition from_be :: "byte_list \<Rightarrow> int" where
  "from_be bs = foldl (\<lambda>acc b. acc * 256 + of_char b) 0 bs"

definition INT64_SIZE :: nat where "INT64_SIZE = 8"
definition INT8_SIZE :: nat where "INT8_SIZE = 1"

text \<open>An \<open>i64\<close> is the 64-bit word with the same bits, read with \<open>sint\<close>.\<close>

definition write_int :: "u64 \<Rightarrow> byte_list written" where
  "write_int v = Ok (be_bytes INT64_SIZE (uint v))"

definition read_int :: "reader \<Rightarrow> u64 decoded" where
  "read_int r = and_then (read_exact INT64_SIZE r) (\<lambda>(buf, r). Ok (word_of_int (from_be buf), r))"

definition write_uint64 :: "u64 \<Rightarrow> byte_list written" where
  "write_uint64 v = Ok (be_bytes INT64_SIZE (uint v))"

definition read_uint64 :: "reader \<Rightarrow> u64 decoded" where
  "read_uint64 r = and_then (read_exact INT64_SIZE r) (\<lambda>(buf, r). Ok (word_of_int (from_be buf), r))"

definition write_uint8 :: "u8 \<Rightarrow> byte_list written" where
  "write_uint8 v = Ok (be_bytes INT8_SIZE (uint v))"

definition read_uint8 :: "reader \<Rightarrow> u8 decoded" where
  "read_uint8 r = and_then (read_exact INT8_SIZE r) (\<lambda>(buf, r). Ok (word_of_int (from_be buf), r))"

section \<open>Headers, digests and strings\<close>

definition consume_header :: "byte_list \<Rightarrow> reader \<Rightarrow> unit decoded" where
  "consume_header header r =
     and_then (read_exact (length header + 1) r) (\<lambda>(buf, r).
       if take (length header) buf \<noteq> header \<or> last buf \<noteq> CHR ''\<newline>''
       then Err (InvalidHeader header buf) else Ok ((), r))"

definition write_header :: "byte_list \<Rightarrow> byte_list written" where
  "write_header header = Ok (header @ ''\<newline>'')"

definition DIGEST_SIZE :: nat where "DIGEST_SIZE = 32"

text \<open>A digest is a byte sequence of \<open>DIGEST_SIZE\<close> bytes.\<close>

type_synonym digest = byte_list

definition digest_wf :: "digest \<Rightarrow> bool" where
  "digest_wf d \<longleftrightarrow> length d = DIGEST_SIZE"

definition NULL_DIGEST :: digest where
  "NULL_DIGEST = replicate DIGEST_SIZE (CHR 0x00)"

definition EMPTY_DIGEST :: digest where
  "EMPTY_DIGEST = map char_of
    [227, 176, 196, 66, 152, 252, 28, 20, 154, 251, 244, 200, 153, 111, 185, 36, 39, 174, 65, 228,
     100, 155, 147, 76, 164, 149, 153, 27, 120, 82, 184, 85 :: nat]"

definition digest_from_bytes :: "byte_list \<Rightarrow> digest written" where
  "digest_from_bytes digest_bytes =
     (if length digest_bytes = DIGEST_SIZE then Ok digest_bytes
      else Err (InvalidDigestLength (length digest_bytes)))"

definition write_digest :: "digest \<Rightarrow> byte_list written" where
  "write_digest d = Ok d"

definition read_digest :: "reader \<Rightarrow> digest decoded" where
  "read_digest r =
     and_then (read_exact DIGEST_SIZE r) (\<lambda>(buf, r).
       and_then (digest_from_bytes buf) (\<lambda>d. Ok (d, r)))"

definition write_string :: "str \<Rightarrow> byte_list written" where
  "write_string s = (if CHR 0x00 \<in> set s then Err StringHasNull else Ok (s @ [CHR 0x00]))"

text \<open>The position of the first null byte.\<close>

fun null_position :: "byte_list \<Rightarrow> nat option" where
  "null_position [] = None"
| "null_position (c # cs) = (if c = CHR 0x00 then Some 0 else map_option Suc (null_position cs))"

lemma consume_shorter: "fill_buf r \<noteq> [] \<Longrightarrow> length (consume (length (fill_buf r)) r) < length r"
  by (cases r) auto

function read_string_loop :: "str \<Rightarrow> reader \<Rightarrow> str decoded" where
  "read_string_loop acc r =
     (let buf = fill_buf r in
      case null_position buf of
        Some index \<Rightarrow>
          if utf8_valid (take index buf) then Ok (acc @ take index buf, consume (index + 1) r)
          else Err InvalidStringEncoding
      | None \<Rightarrow>
          if buf = [] then Err FailedRead
          else if utf8_valid buf then read_string_loop (acc @ buf) (consume (length buf) r)
          else Err InvalidStringEncoding)"
  by pat_completeness auto

termination
  by (relation "measure (\<lambda>(_, r). length r)") (auto simp: consume_shorter)

declare read_string_loop.simps [simp del]

definition read_string :: "reader \<Rightarrow> str decoded" where
  "read_string r = read_string_loop [] r"

section \<open>Reading back\<close>

lemma concat_skip_bytes [simp]: "concat (skip_bytes n r) = drop n (concat r)"
  by (induction n r rule: skip_bytes.induct) auto

lemma reader_wf_skip [simp]: "reader_wf r \<Longrightarrow> reader_wf (skip_bytes n r)"
  by (induction n r rule: skip_bytes.induct) (auto simp: reader_wf_def)

text \<open>A reader that still has these bytes to give.\<close>

definition reads :: "reader \<Rightarrow> byte_list \<Rightarrow> bool" where
  "reads r bs \<longleftrightarrow> reader_wf r \<and> concat r = bs"

lemma read_exact_append:
  assumes "reads r (bs @ rest)" "length bs = n"
  shows "\<exists>r'. read_exact n r = Ok (bs, r') \<and> reads r' rest"
  using assms by (auto simp: read_exact_def reads_def)

lemma length_be_bytes [simp]: "length (be_bytes n x) = n"
  by (induction n x rule: be_bytes.induct) auto

lemma from_be_snoc [simp]: "from_be (bs @ [b]) = from_be bs * 256 + of_char b"
  by (simp add: from_be_def)

lemma from_be_be_bytes: "0 \<le> x \<Longrightarrow> x < 256 ^ n \<Longrightarrow> from_be (be_bytes n x) = x"
proof (induction n arbitrary: x)
  case 0
  then show ?case by (simp add: from_be_def)
next
  case (Suc n)
  have "256 * (x div 256) + x mod 256 = x" "0 \<le> x mod 256" by simp_all
  then have "x div 256 < 256 ^ n" using Suc.prems(2) by (simp only: power_Suc)
  then have "from_be (be_bytes n (x div 256)) = x div 256"
    using Suc.prems by (intro Suc.IH) simp_all
  moreover have "of_char (char_of (x mod 256)) = x mod 256"
    by (simp add: of_char_of take_bit_eq_mod)
  ultimately show ?case by simp
qed

text \<open>
  The contract of a pair of an encoder and a decoder: what the encoder writes for a valid value,
  the decoder reads back, whatever follows it and however the input is split into buffers.
\<close>

locale codec =
  fixes valid :: "'a \<Rightarrow> bool"
    and enc :: "'a \<Rightarrow> byte_list written"
    and dec :: "reader \<Rightarrow> 'a decoded"
  assumes enc_dec: "valid x \<Longrightarrow>
    \<exists>bs. enc x = Ok bs \<and> (\<forall>r rest. reads r (bs @ rest) \<longrightarrow> (\<exists>r'. dec r = Ok (x, r') \<and> reads r' rest))"
begin

lemma enc_Ok: "valid x \<Longrightarrow> \<exists>bs. enc x = Ok bs"
  using enc_dec by blast

lemma dec_enc:
  assumes "valid x" "enc x = Ok bs" "reads r (bs @ rest)"
  shows "\<exists>r'. dec r = Ok (x, r') \<and> reads r' rest"
  using enc_dec [OF assms(1)] assms(2,3) by auto

text \<open>No encoding is a prefix of another one.\<close>

lemma enc_prefix_free:
  assumes "valid x" "valid y" "enc x = Ok bs" "enc y = Ok cs" "bs @ us = cs @ vs"
  shows "x = y \<and> bs = cs \<and> us = vs"
proof -
  define r where "r = (if bs @ us = [] then [] else [bs @ us])"
  have r: "reads r (bs @ us)" "reads r (cs @ vs)"
    using assms(5) by (auto simp: reads_def reader_wf_def r_def)
  obtain r1 where "dec r = Ok (x, r1)" "reads r1 us"
    using dec_enc [OF assms(1,3) r(1)] by blast
  moreover obtain r2 where "dec r = Ok (y, r2)" "reads r2 vs"
    using dec_enc [OF assms(2,4) r(2)] by blast
  ultimately show ?thesis using assms(3-5) by (auto simp: reads_def)
qed

end

lemma enc_dec_be:
  fixes v :: "'a::len word"
  assumes "2 ^ LENGTH('a) = (256 :: int) ^ n" "reads r (be_bytes n (uint v) @ rest)"
  shows "\<exists>r'. (\<exists>a. read_exact n r = Ok (a, r') \<and> word_of_int (from_be a) = v) \<and> reads r' rest"
proof -
  have "from_be (be_bytes n (uint v)) = uint v"
    using assms(1) uint_lt2p [of v] by (intro from_be_be_bytes) simp_all
  then show ?thesis using read_exact_append [OF assms(2)] by auto
qed

interpretation u64: codec "\<lambda>_. True" write_uint64 read_uint64
  by unfold_locales (auto simp: write_uint64_def read_uint64_def intro!: enc_dec_be, simp add: INT64_SIZE_def)

interpretation i64: codec "\<lambda>_. True" write_int read_int
  by unfold_locales (auto simp: write_int_def read_int_def intro!: enc_dec_be, simp add: INT64_SIZE_def)

interpretation u8: codec "\<lambda>_. True" write_uint8 read_uint8
  by unfold_locales (auto simp: write_uint8_def read_uint8_def intro!: enc_dec_be, simp add: INT8_SIZE_def)

interpretation digests: codec digest_wf write_digest read_digest
proof
  fix d :: digest
  assume wf: "digest_wf d"
  have "\<exists>r'. read_digest r = Ok (d, r') \<and> reads r' rest" if "reads r (d @ rest)" for r rest
    using read_exact_append [OF that, of DIGEST_SIZE] wf
    by (auto simp: read_digest_def digest_from_bytes_def digest_wf_def)
  then show "\<exists>bs. write_digest d = Ok bs \<and>
      (\<forall>r rest. reads r (bs @ rest) \<longrightarrow> (\<exists>r'. read_digest r = Ok (d, r') \<and> reads r' rest))"
    by (simp add: write_digest_def)
qed

subsection \<open>Strings\<close>

lemma null_position_first [simp]:
  "CHR 0x00 \<notin> set a \<Longrightarrow> null_position (a @ CHR 0x00 # b) = Some (length a)"
  by (induction a) auto

lemma null_position_None: "CHR 0x00 \<notin> set a \<Longrightarrow> null_position a = None"
  by (induction a) auto

lemma utf8_from_append:
  "utf8_from due a \<Longrightarrow> utf8_from due (a @ b) = utf8_from [] b"
  by (induction due a rule: utf8_from.induct) (auto split: option.splits)

lemma ascii_utf8: "list_all is_ascii s \<Longrightarrow> utf8_valid s"
  unfolding utf8_valid_def
proof (induction s)
  case (Cons c s)
  then have "utf8_lead c = Some []" by (simp add: utf8_lead_def is_ascii_def)
  with Cons show ?case by simp
qed simp

lemma reads_string_cases:
  assumes "reads r (s @ CHR 0x00 # rest)"
  obtains (more) b bs t where "r = b # bs" "b \<noteq> []" "s = b @ t" "reads bs (t @ CHR 0x00 # rest)"
  | (last) u bs where "r = (s @ CHR 0x00 # u) # bs" "reads (if u = [] then bs else u # bs) rest"
proof (cases r)
  case Nil
  with assms show ?thesis by (simp add: reads_def)
next
  case (Cons b bs)
  with assms have wf: "b \<noteq> []" "reader_wf bs" and eq: "b @ concat bs = s @ CHR 0x00 # rest"
    by (auto simp: reads_def reader_wf_def)
  from eq consider t where "s = b @ t" "t @ CHR 0x00 # rest = concat bs"
    | t where "s @ t = b" "CHR 0x00 # rest = t @ concat bs"
    by (auto simp: append_eq_append_conv2)
  then show ?thesis
  proof cases
    case 1
    then show ?thesis using more Cons wf by (simp add: reads_def)
  next
    case 2
    show ?thesis
    proof (cases t)
      case Nil
      with 2 more [of b bs "[]"] Cons wf show ?thesis by (simp add: reads_def)
    next
      case (Cons c u)
      with 2 last [of u bs] \<open>r = b # bs\<close> wf show ?thesis by (auto simp: reads_def reader_wf_def)
    qed
  qed
qed

lemma read_string_last:
  assumes "CHR 0x00 \<notin> set s" "utf8_valid s"
  shows "read_string_loop acc ((s @ CHR 0x00 # u) # bs) = Ok (acc @ s, if u = [] then bs else u # bs)"
  using assms by (subst read_string_loop.simps) (auto simp: Let_def)

lemma read_string_more:
  assumes "CHR 0x00 \<notin> set b" "b \<noteq> []" "utf8_valid b"
  shows "read_string_loop acc (b # bs) = read_string_loop (acc @ b) bs"
  using assms by (subst read_string_loop.simps) (auto simp: Let_def null_position_None)

lemma read_string_loop_ascii:
  assumes "reads r (s @ CHR 0x00 # rest)" "CHR 0x00 \<notin> set s" "list_all is_ascii s"
  shows "\<exists>r'. read_string_loop acc r = Ok (acc @ s, r') \<and> reads r' rest"
  using assms
proof (induction r arbitrary: s acc)
  case Nil
  then show ?case by (simp add: reads_def)
next
  case (Cons b bs)
  from Cons.prems(1) show ?case
  proof (cases rule: reads_string_cases)
    case (more b' bs' t)
    then have "read_string_loop acc (b # bs) = read_string_loop (acc @ b) bs"
      using Cons.prems by (intro read_string_more) (auto intro: ascii_utf8)
    then show ?thesis using more Cons.IH [of t "acc @ b"] Cons.prems by auto
  next
    case (last u bs')
    then show ?thesis
      using Cons.prems read_string_last [of s acc u bs] ascii_utf8 by auto
  qed
qed

interpretation ascii_string: codec "\<lambda>s. list_all is_ascii s \<and> CHR 0x00 \<notin> set s" write_string read_string
  using read_string_loop_ascii [of _ _ _ "[]"]
  by unfold_locales (auto simp: write_string_def read_string_def)

text \<open>A string of any kind comes back from a reader that has it in one buffer.\<close>

lemma read_string_one_buffer:
  assumes "CHR 0x00 \<notin> set s" "utf8_valid s"
  shows "read_string [s @ CHR 0x00 # rest] = Ok (s, if rest = [] then [] else [rest])"
  using read_string_last [OF assms, of "[]" rest "[]"] by (simp add: read_string_def)

subsection \<open>Slices\<close>

definition text_wf :: "str \<Rightarrow> bool" where
  "text_wf s \<longleftrightarrow> utf8_valid s \<and> CHR 0x00 \<notin> set s"

text \<open>A reader over a byte slice.\<close>

definition slice :: "byte_list \<Rightarrow> reader" where
  "slice bs = (if bs = [] then [] else [bs])"

lemma read_string_slice: "text_wf s \<Longrightarrow> read_string (slice (s @ CHR 0x00 # rest)) = Ok (s, slice rest)"
  by (simp add: slice_def text_wf_def read_string_one_buffer)

lemma read_exact_slice:
  assumes "length bs = n" "0 < n"
  shows "read_exact n (slice (bs @ rest)) = Ok (bs, slice rest)"
  using assms by (auto simp: read_exact_def slice_def)

lemma read_digest_slice: "digest_wf d \<Longrightarrow> read_digest (slice (d @ rest)) = Ok (d, slice rest)"
  using read_exact_slice [of d DIGEST_SIZE rest]
  by (simp add: digest_wf_def read_digest_def digest_from_bytes_def DIGEST_SIZE_def)

lemma read_uint64_slice: "read_uint64 (slice (be_bytes INT64_SIZE (uint v) @ rest)) = Ok (v, slice rest)"
proof -
  have "from_be (be_bytes INT64_SIZE (uint v)) = uint v"
    using uint_lt2p [of v] by (intro from_be_be_bytes) (simp_all add: INT64_SIZE_def)
  then show ?thesis
    using read_exact_slice [of "be_bytes INT64_SIZE (uint v)" INT64_SIZE rest]
    by (simp add: read_uint64_def INT64_SIZE_def)
qed

section \<open>Properties\<close>

text \<open>
  C36: Integers, digests and ASCII strings are read back as they were written, from any splitting
  of the input into buffers, and the reader is left right after them.
\<close>

theorem encoding_round_trips:
  assumes "reads r (bs @ rest)"
  shows "(write_uint64 v = Ok bs \<longrightarrow> (\<exists>r'. read_uint64 r = Ok (v, r') \<and> reads r' rest))
    \<and> (write_int i = Ok bs \<longrightarrow> (\<exists>r'. read_int r = Ok (i, r') \<and> reads r' rest))
    \<and> (write_uint8 b = Ok bs \<longrightarrow> (\<exists>r'. read_uint8 r = Ok (b, r') \<and> reads r' rest))
    \<and> (digest_wf d \<and> write_digest d = Ok bs \<longrightarrow> (\<exists>r'. read_digest r = Ok (d, r') \<and> reads r' rest))
    \<and> (list_all is_ascii s \<and> write_string s = Ok bs \<longrightarrow> (\<exists>r'. read_string r = Ok (s, r') \<and> reads r' rest))"
proof (intro conjI impI)
  show "\<exists>r'. read_uint64 r = Ok (v, r') \<and> reads r' rest" if "write_uint64 v = Ok bs"
    using u64.dec_enc [OF TrueI that assms] .
  show "\<exists>r'. read_int r = Ok (i, r') \<and> reads r' rest" if "write_int i = Ok bs"
    using i64.dec_enc [OF TrueI that assms] .
  show "\<exists>r'. read_uint8 r = Ok (b, r') \<and> reads r' rest" if "write_uint8 b = Ok bs"
    using u8.dec_enc [OF TrueI that assms] .
  show "\<exists>r'. read_digest r = Ok (d, r') \<and> reads r' rest" if "digest_wf d \<and> write_digest d = Ok bs"
    using digests.dec_enc [OF _ _ assms] that by blast
  show "\<exists>r'. read_string r = Ok (s, r') \<and> reads r' rest" if "list_all is_ascii s \<and> write_string s = Ok bs"
    using ascii_string.dec_enc [OF _ _ assms] that by (auto simp: write_string_def split: if_splits)
qed

theorem encoding_round_trips_witness:
  "\<exists>r'. read_string [''ab'', ''c'' @ [CHR 0x00], ''x''] = Ok (''abc'', r') \<and> reads r' ''x''"
proof -
  have "reads [''ab'', ''c'' @ [CHR 0x00], ''x''] ((''abc'' @ [CHR 0x00]) @ ''x'')"
    by (simp add: reads_def reader_wf_def)
  from encoding_round_trips [OF this] show ?thesis
    by (simp add: write_string_def is_ascii_def)
qed

text \<open>
  Reading a string depends on how the input is buffered: a well-formed string is read back
  from one buffer, but is refused as wrongly encoded when a buffer ends inside one of its
  characters.
\<close>

theorem read_string_refuses_split_character:
  assumes "CHR 0x00 \<notin> set (a @ b)" "utf8_valid (a @ b)" "a \<noteq> []" "\<not> utf8_valid a"
  shows "read_string [(a @ b) @ CHR 0x00 # rest] = Ok (a @ b, if rest = [] then [] else [rest])
    \<and> read_string [a, b @ CHR 0x00 # rest] = Err InvalidStringEncoding"
proof
  show "read_string [(a @ b) @ CHR 0x00 # rest] = Ok (a @ b, if rest = [] then [] else [rest])"
    using assms(1,2) by (rule read_string_one_buffer)
  show "read_string [a, b @ CHR 0x00 # rest] = Err InvalidStringEncoding"
    using assms(1,3,4) unfolding read_string_def
    by (subst read_string_loop.simps) (simp add: Let_def null_position_None)
qed

theorem read_string_refuses_split_character_witness:
  "read_string [[CHR 0xC3], [CHR 0xA9, CHR 0x00]] = Err InvalidStringEncoding"
  using read_string_refuses_split_character [of "[CHR 0xC3]" "[CHR 0xA9]" "[]"]
  by (simp add: utf8_valid_def utf8_lead_def)

end
