(* ===== verification/Entries.thy ===== *)
theory Entries
  imports Encoding
begin

text \<open>
  The file trees that spfs tracks (\<^verbatim>\<open>crates/spfs/src/tracking/entry.rs\<close> and \<^verbatim>\<open>manifest.rs\<close>): entries
  with their children, lookup and creation of paths, layering one tree over another, and
  the walker that lists a tree.

  The children of an entry are a \<open>HashMap\<close>. The relative_path crate is a parameter: the
  normalised components of a path string and the joining of a path with a name. A manifest is
  its root entry; the header of its stored form plays no part in these operations. The
  references that \<open>mknod\<close> and its callers return for later mutation are not modelled; the functions
  return the changed tree.
\<close>

section \<open>Entries\<close>

datatype entry_kind = Tree | Blob u64 | Mask

datatype 'u entry =
  Entry (e_kind: entry_kind) (e_object: digest) (e_mode: u32)
    (e_entries: "(str \<times> 'u entry) list") (e_user_data: 'u) (e_legacy_size: u64)

type_synonym 'u entry_map = "(str, 'u entry) hash_map"

definition show_entry_kind :: "entry_kind \<Rightarrow> str" where
  "show_entry_kind k = (case k of Tree \<Rightarrow> ''tree'' | Blob _ \<Rightarrow> ''file'' | Mask \<Rightarrow> ''mask'')"

definition kind_is_tree :: "entry_kind \<Rightarrow> bool" where
  "kind_is_tree k = (case k of Tree \<Rightarrow> True | _ \<Rightarrow> False)"

definition kind_is_blob :: "entry_kind \<Rightarrow> bool" where
  "kind_is_blob k = (case k of Blob _ \<Rightarrow> True | _ \<Rightarrow> False)"

definition kind_is_mask :: "entry_kind \<Rightarrow> bool" where
  "kind_is_mask k = (case k of Mask \<Rightarrow> True | _ \<Rightarrow> False)"

definition entry_kind_cmp :: "entry_kind \<Rightarrow> entry_kind \<Rightarrow> ordering" where
  "entry_kind_cmp self other =
     (case (kind_is_tree self, kind_is_tree other) of
        (True, False) \<Rightarrow> Greater
      | (False, True) \<Rightarrow> Less
      | _ \<Rightarrow> Equal)"

datatype entry_error = InvalidEntryKind str | KindEncoding encoding_error

definition entry_kind_from_str :: "str \<Rightarrow> (entry_error, entry_kind) outcome" where
  "entry_kind_from_str s =
     (if s = ''tree'' then Ok Tree else if s = ''file'' then Ok (Blob 0)
      else if s = ''mask'' then Ok Mask else Err (InvalidEntryKind s))"

definition entry_kind_encode :: "entry_kind \<Rightarrow> (entry_error, byte_list) outcome" where
  "entry_kind_encode k = map_err KindEncoding (write_string (show_entry_kind k))"

definition entry_kind_decode :: "reader \<Rightarrow> (entry_error, entry_kind \<times> reader) outcome" where
  "entry_kind_decode r =
     and_then (map_err KindEncoding (read_string r)) (\<lambda>(s, r).
       and_then (entry_kind_from_str s) (\<lambda>k. Ok (k, r)))"

text \<open>The size of a blob, and the size that goes into the stored form.\<close>

definition entry_size :: "'u entry \<Rightarrow> u64" where
  "entry_size e = (case e_kind e of Blob n \<Rightarrow> n | _ \<Rightarrow> 0)"

definition size_for_legacy_encode :: "'u entry \<Rightarrow> u64" where
  "size_for_legacy_encode e = (case e_kind e of Blob n \<Rightarrow> n | _ \<Rightarrow> e_legacy_size e)"

fun entry_eq :: "'u entry \<Rightarrow> 'v entry \<Rightarrow> bool" where
  "entry_eq (Entry k obj m es ud ls) other =
     (if k \<noteq> e_kind other \<or> m \<noteq> e_mode other
         \<or> entry_size (Entry k obj m es ud ls) \<noteq> entry_size other \<or> obj \<noteq> e_object other then False
      else if length es \<noteq> length (e_entries other) then False
      else list_all (\<lambda>p. case hm_get (e_entries other) (fst p) of
                           None \<Rightarrow> False
                         | Some o' \<Rightarrow> entry_eq (snd p) o') es)"

definition entry_partial_cmp :: "'u entry \<Rightarrow> 'v entry \<Rightarrow> ordering option" where
  "entry_partial_cmp self other =
     (case (e_kind self, e_kind other) of
        (Tree, Tree) \<Rightarrow> None
      | (Tree, _) \<Rightarrow> Some Greater
      | (_, Tree) \<Rightarrow> Some Less
      | _ \<Rightarrow> None)"

definition mask_with_data :: "'u \<Rightarrow> 'u entry" where
  "mask_with_data ud = Entry Mask NULL_DIGEST 0x1FF [] ud 0"

definition empty_symlink_with_data :: "'u \<Rightarrow> 'u entry" where
  "empty_symlink_with_data ud = Entry (Blob 0) EMPTY_DIGEST 0xA1FF [] ud 0"

definition empty_dir_with_open_perms_with_data :: "'u \<Rightarrow> 'u entry" where
  "empty_dir_with_open_perms_with_data ud = Entry Tree NULL_DIGEST 0x41FF [] ud 0"

definition empty_file_with_open_perms_with_data :: "'u \<Rightarrow> 'u entry" where
  "empty_file_with_open_perms_with_data ud = Entry (Blob 0) EMPTY_DIGEST 0x81FF [] ud 0"

fun strip_user_data :: "'u entry \<Rightarrow> unit entry" where
  "strip_user_data (Entry k obj m es ud ls) =
     Entry k obj m (map (\<lambda>p. (fst p, strip_user_data (snd p))) es) () ls"

fun and_user_data :: "'v \<Rightarrow> 'u entry \<Rightarrow> 'v entry" where
  "and_user_data d (Entry k obj m es ud ls) =
     Entry k obj m (map (\<lambda>p. (fst p, and_user_data d (snd p))) es) d ls"

text \<open>The first argument is the default value of the new type of user data.\<close>

fun with_user_data :: "'v \<Rightarrow> 'v \<Rightarrow> 'u entry \<Rightarrow> 'v entry" where
  "with_user_data dflt d (Entry k obj m es ud ls) =
     Entry k obj m (map (\<lambda>p. (fst p, with_user_data dflt dflt (snd p))) es) d ls"

function entry_update :: "'u entry \<Rightarrow> 'u entry \<Rightarrow> 'u entry"
  and update_entries :: "'u entry_map \<Rightarrow> 'u entry_map \<Rightarrow> 'u entry_map" where
  "entry_update (Entry _ _ _ es ud ls) (Entry k obj m es' _ _) =
     (if \<not> kind_is_tree k then Entry k obj m es ud ls
      else Entry k obj m (update_entries es es') ud ls)"
| "update_entries es [] = es"
| "update_entries es ((name, node) # rest) =
     (let es = (if kind_is_mask (e_kind node) then hm_remove name es else es) in
      case hm_get es name of
        Some existing \<Rightarrow> update_entries (hm_insert name (entry_update existing node) es) rest
      | None \<Rightarrow> update_entries (hm_insert name node es) rest)"
  by pat_completeness auto

termination
  by (relation "measure (\<lambda>s. case s of Inl (_, e) \<Rightarrow> size e
      | Inr (_, es) \<Rightarrow> size_list (size_prod (\<lambda>_. 0) size) es)") auto

section \<open>Manifests\<close>

record 'u manifest =
  m_root :: "'u entry"

definition default_manifest :: "'u \<Rightarrow> 'u manifest" where
  "default_manifest dflt = \<lparr>m_root = empty_dir_with_open_perms_with_data dflt\<rparr>"

definition manifest_eq :: "'u manifest \<Rightarrow> 'u manifest \<Rightarrow> bool" where
  "manifest_eq self other = entry_eq (m_root self) (m_root other)"

definition manifest_is_empty :: "'u manifest \<Rightarrow> bool" where
  "manifest_is_empty self = (length (e_entries (m_root self)) = 0)"

fun trim_leading_slash :: "str \<Rightarrow> str" where
  "trim_leading_slash path =
     (case path of
        [] \<Rightarrow> []
      | c # rest \<Rightarrow>
          if c = CHR ''.'' \<and> rest \<noteq> [] \<and> hd rest = CHR ''/'' then trim_leading_slash (tl rest)
          else if c = CHR ''/'' then trim_leading_slash rest
          else path)"

declare trim_leading_slash.simps [simp del]

definition trim_end_slash :: "str \<Rightarrow> str" where
  "trim_end_slash path = rev (dropWhile (\<lambda>c. c = CHR ''/'') (rev path))"

fun get_steps :: "'u entry \<Rightarrow> str list \<Rightarrow> 'u entry option" where
  "get_steps entry [] = Some entry"
| "get_steps entry (step # rest) =
     (if kind_is_tree (e_kind entry)
      then (case hm_get (e_entries entry) step of None \<Rightarrow> None | Some e \<Rightarrow> get_steps e rest)
      else None)"

definition get_path :: "'u manifest \<Rightarrow> str \<Rightarrow> 'u entry option" where
  "get_path self path =
     (let path = trim_end_slash (trim_leading_slash path) in
      if path = [] then Some (m_root self) else get_steps (m_root self) (split_str CHR ''/'' path))"

definition list_dir :: "'u manifest \<Rightarrow> str \<Rightarrow> str list option" where
  "list_dir self path =
     (case get_path self path of
        None \<Rightarrow> None
      | Some entry \<Rightarrow> (case e_kind entry of Tree \<Rightarrow> Some (map fst (e_entries entry)) | _ \<Rightarrow> None))"

definition read_dir :: "'u manifest \<Rightarrow> str \<Rightarrow> (str \<times> 'u entry) list option" where
  "read_dir self path =
     (case get_path self path of
        None \<Rightarrow> None
      | Some entry \<Rightarrow> (case e_kind entry of Tree \<Rightarrow> Some (e_entries entry) | _ \<Rightarrow> None))"

definition list_entries_in_dir :: "'u manifest \<Rightarrow> str \<Rightarrow> 'u entry_map option" where
  "list_entries_in_dir self path =
     (case get_path self path of
        None \<Rightarrow> None
      | Some entry \<Rightarrow> (case e_kind entry of Tree \<Rightarrow> Some (e_entries entry) | _ \<Rightarrow> None))"

definition manifest_update :: "'u manifest \<Rightarrow> 'u manifest \<Rightarrow> 'u manifest" where
  "manifest_update self other = \<lparr>m_root = entry_update (m_root self) (m_root other)\<rparr>"

subsection \<open>Creating entries\<close>

datatype component_of_path = CurDir | ParentDir | Normal str

datatype mk_error = AlreadyExists str | InvalidFilename str | NotADirectory str | NotFound str

type_synonym 'a mk_result = "(mk_error, 'a) outcome"

definition set_child :: "'u entry \<Rightarrow> str \<Rightarrow> 'u entry \<Rightarrow> 'u entry" where
  "set_child e name child =
     Entry (e_kind e) (e_object e) (e_mode e) (hm_insert name child (e_entries e))
       (e_user_data e) (e_legacy_size e)"

fun mknod_last :: "str \<Rightarrow> component_of_path option \<Rightarrow> 'u entry \<Rightarrow> 'u entry \<Rightarrow> 'u entry mk_result" where
  "mknod_last path None new_entry entry = Err (NotFound path)"
| "mknod_last path (Some (Normal step)) new_entry entry = Ok (set_child entry step new_entry)"
| "mknod_last path (Some _) new_entry entry = Err (InvalidFilename path)"

fun mknod_steps ::
  "str \<Rightarrow> component_of_path list \<Rightarrow> component_of_path option \<Rightarrow> 'u entry \<Rightarrow> 'u entry \<Rightarrow> 'u entry mk_result" where
  "mknod_steps path [] final new_entry entry = mknod_last path final new_entry entry"
| "mknod_steps path (Normal step # rest) final new_entry entry =
     (case hm_get (e_entries entry) step of
        None \<Rightarrow> Err (NotFound path)
      | Some e \<Rightarrow>
          if \<not> kind_is_tree (e_kind e) then Err (NotADirectory path)
          else and_then (mknod_steps path rest final new_entry e) (\<lambda>e'. Ok (set_child entry step e')))"
| "mknod_steps path (_ # rest) final new_entry entry = mknod_steps path rest final new_entry entry"

text \<open>\<open>normalized\<close> gives the normalised path as a string and its components.\<close>

definition mknod ::
  "(str \<Rightarrow> str \<times> component_of_path list) \<Rightarrow> 'u manifest \<Rightarrow> str \<Rightarrow> 'u entry \<Rightarrow> 'u manifest mk_result" where
  "mknod normalized self path new_entry =
     (let path = trim_leading_slash path in
      if path = [] then Err (AlreadyExists path)
      else
        let (path, components) = normalized path;
            final = (if components = [] then None else Some (last components)) in
        and_then (mknod_steps path (butlast components) final new_entry (m_root self))
          (\<lambda>root. Ok \<lparr>m_root = root\<rparr>))"

definition mkdir :: "(str \<Rightarrow> str \<times> component_of_path list) \<Rightarrow> 'u \<Rightarrow> 'u manifest \<Rightarrow> str \<Rightarrow> 'u manifest mk_result" where
  "mkdir normalized dflt self path = mknod normalized self path (empty_dir_with_open_perms_with_data dflt)"

definition mkfile :: "(str \<Rightarrow> str \<times> component_of_path list) \<Rightarrow> 'u \<Rightarrow> 'u manifest \<Rightarrow> str \<Rightarrow> 'u manifest mk_result" where
  "mkfile normalized dflt self path = mknod normalized self path (empty_file_with_open_perms_with_data dflt)"

text \<open>A directory that is missing is created empty, and then everything below it is new, so the
  error can only come before anything was created.\<close>

fun mkdirs_steps :: "str \<Rightarrow> 'u \<Rightarrow> component_of_path list \<Rightarrow> 'u entry \<Rightarrow> 'u entry mk_result" where
  "mkdirs_steps path dflt [] entry = Ok entry"
| "mkdirs_steps path dflt (Normal step # rest) entry =
     (let child = (case hm_get (e_entries entry) step of
                     None \<Rightarrow> empty_dir_with_open_perms_with_data dflt
                   | Some e \<Rightarrow> e) in
      if \<not> kind_is_tree (e_kind child) then Err (NotADirectory path)
      else and_then (mkdirs_steps path dflt rest child) (\<lambda>e'. Ok (set_child entry step e')))"
| "mkdirs_steps path dflt (_ # rest) entry = mkdirs_steps path dflt rest entry"

definition mkdirs :: "(str \<Rightarrow> str \<times> component_of_path list) \<Rightarrow> 'u \<Rightarrow> 'u manifest \<Rightarrow> str \<Rightarrow> 'u manifest mk_result" where
  "mkdirs normalized dflt self path =
     (let path = trim_leading_slash path in
      if path = [] then Err (AlreadyExists path)
      else
        let (path, components) = normalized path in
        and_then (mkdirs_steps path dflt components (m_root self)) (\<lambda>root. Ok \<lparr>m_root = root\<rparr>))"

section \<open>Walking\<close>

text \<open>\<open>join\<close> is the joining of a relative path with a name.\<close>

datatype 'u walker =
  Walker (w_prefix: str) (w_children: "(str \<times> 'u entry) list") (w_active: "'u walker option")

definition walker_new :: "'u entry \<Rightarrow> 'u walker" where
  "walker_new root = Walker ''/'' (e_entries root) None"

definition with_prefix :: "'u walker \<Rightarrow> str \<Rightarrow> 'u walker" where
  "with_prefix w prefix = Walker prefix (w_children w) (w_active w)"

definition walker_advance ::
  "(str \<Rightarrow> str \<Rightarrow> str) \<Rightarrow> str \<Rightarrow> (str \<times> 'u entry) list \<Rightarrow> (str \<times> 'u entry) option \<times> 'u walker" where
  "walker_advance join prefix children =
     (case children of
        [] \<Rightarrow> (None, Walker prefix [] None)
      | (name, child) # rest \<Rightarrow>
          (Some (join prefix name, child),
           Walker prefix rest
             (if kind_is_tree (e_kind child)
              then Some (with_prefix (walker_new child) (join prefix name)) else None)))"

fun walker_next :: "(str \<Rightarrow> str \<Rightarrow> str) \<Rightarrow> 'u walker \<Rightarrow> (str \<times> 'u entry) option \<times> 'u walker" where
  "walker_next join (Walker prefix children None) = walker_advance join prefix children"
| "walker_next join (Walker prefix children (Some active_child)) =
     (case walker_next join active_child of
        (Some next, active_child) \<Rightarrow> (Some next, Walker prefix children (Some active_child))
      | (None, _) \<Rightarrow> walker_advance join prefix children)"

definition walk :: "'u manifest \<Rightarrow> 'u walker" where
  "walk self = walker_new (m_root self)"

definition walk_abs :: "'u manifest \<Rightarrow> str \<Rightarrow> 'u walker" where
  "walk_abs self root = with_prefix (walk self) root"

section \<open>Layering\<close>

text \<open>The trees in which keys are unique, and those where only directories have children.\<close>

fun entry_wf :: "'u entry \<Rightarrow> bool" where
  "entry_wf (Entry k obj m es ud ls) \<longleftrightarrow> hm_wf es \<and> list_all (\<lambda>p. entry_wf (snd p)) es"

fun clean :: "'u entry \<Rightarrow> bool" where
  "clean (Entry k obj m es ud ls) \<longleftrightarrow>
     (kind_is_tree k \<or> es = []) \<and> list_all (\<lambda>p. clean (snd p)) es"

text \<open>What a tree is: the metadata at each path.\<close>

type_synonym meta = "entry_kind \<times> digest \<times> u32"
type_synonym file_tree = "str list \<Rightarrow> meta option"

definition meta_of :: "'u entry \<Rightarrow> meta" where
  "meta_of e = (e_kind e, e_object e, e_mode e)"

definition tree_at :: "'u entry \<Rightarrow> file_tree" where
  "tree_at e p = map_option meta_of (get_steps e p)"

text \<open>One tree over another: what the upper one has at a path, else what the lower one has,
  unless something that is not a directory stands above it in the upper one.\<close>

definition blocked :: "file_tree \<Rightarrow> str list \<Rightarrow> bool" where
  "blocked B p \<longleftrightarrow> (\<exists>i<length p. case B (take i p) of Some m \<Rightarrow> \<not> kind_is_tree (fst m) | None \<Rightarrow> False)"

definition overlay :: "file_tree \<Rightarrow> file_tree \<Rightarrow> file_tree" where
  "overlay A B p = (case B p of Some m \<Rightarrow> Some m | None \<Rightarrow> if blocked B p then None else A p)"

lemma kind_simps [simp]:
  "kind_is_tree Tree" "\<not> kind_is_tree (Blob n)" "\<not> kind_is_tree Mask"
  "kind_is_mask Mask" "\<not> kind_is_mask Tree" "\<not> kind_is_mask (Blob n)"
  "kind_is_blob (Blob n)" "\<not> kind_is_blob Tree" "\<not> kind_is_blob Mask"
  by (simp_all add: kind_is_tree_def kind_is_mask_def kind_is_blob_def)

lemma mask_not_tree: "kind_is_mask k \<Longrightarrow> \<not> kind_is_tree k"
  by (cases k) simp_all

lemma entry_update_meta [simp]: "meta_of (entry_update a b) = meta_of b"
  by (cases a; cases b) (simp add: meta_of_def)

lemma entry_update_kind [simp]: "e_kind (entry_update a b) = e_kind b"
  by (cases a; cases b) simp

lemma hm_get_update_entries:
  assumes "hm_wf es'"
  shows "hm_get (update_entries es es') n =
    (case hm_get es' n of
       None \<Rightarrow> hm_get es n
     | Some node \<Rightarrow>
         if kind_is_mask (e_kind node) then Some node
         else (case hm_get es n of None \<Rightarrow> Some node | Some ex \<Rightarrow> Some (entry_update ex node)))"
  using assms
proof (induction es' arbitrary: es n)
  case (Cons p es')
  obtain k node where p: "p = (k, node)" by force
  have k: "hm_get es' k = None" and wf: "hm_wf es'"
    using Cons.prems p by (auto simp: hm_wf_def map_of_eq_None_iff)
  show ?case
    by (cases "hm_get es k") (auto simp: p k Let_def Cons.IH [OF wf] split: option.split)
qed simp

lemma tree_at_Nil [simp]: "tree_at e [] = Some (meta_of e)"
  by (simp add: tree_at_def)

lemma tree_at_Cons:
  "tree_at e (s # rest) =
     (if kind_is_tree (e_kind e)
      then (case hm_get (e_entries e) s of None \<Rightarrow> None | Some c \<Rightarrow> tree_at c rest) else None)"
  by (simp add: tree_at_def split: option.split)

lemma blocked_Nil [simp]: "\<not> blocked B []"
  by (simp add: blocked_def)

lemma blocked_Cons:
  "blocked B (s # rest) \<longleftrightarrow>
     (case B [] of Some m \<Rightarrow> \<not> kind_is_tree (fst m) | None \<Rightarrow> False) \<or> blocked (\<lambda>p. B (s # p)) rest"
  by (simp add: blocked_def Ex_less_Suc2)

lemma update_no_children:
  assumes "hm_wf es'"
  shows "hm_get (update_entries [] es') = hm_get es'"
  by (rule ext) (simp add: hm_get_update_entries [OF assms] split: option.split)

lemma entry_update_tree:
  "kind_is_tree (e_kind b) \<Longrightarrow> e_entries (entry_update a b) = update_entries (e_entries a) (e_entries b)"
  by (cases a; cases b) simp

lemma hm_get_all:
  "list_all (\<lambda>p. P (snd p)) es \<Longrightarrow> hm_get es s = Some c \<Longrightarrow> P c"
  by (auto simp: list_all_iff dest!: map_of_SomeD)

lemma entry_wf_child: "entry_wf e \<Longrightarrow> hm_get (e_entries e) s = Some c \<Longrightarrow> entry_wf c"
  by (cases e) (auto dest: hm_get_all)

lemma clean_child: "clean e \<Longrightarrow> hm_get (e_entries e) s = Some c \<Longrightarrow> clean c \<and> kind_is_tree (e_kind e)"
  by (cases e) (auto dest: hm_get_all)

lemma entry_wf_children: "entry_wf e \<Longrightarrow> hm_wf (e_entries e)"
  by (cases e) simp

lemma overlay_absent:
  assumes "kind_is_tree (e_kind b)" "hm_get (e_entries b) s = None"
  shows "overlay A (tree_at b) (s # rest) = A (s # rest)"
  using assms by (simp add: overlay_def blocked_Cons meta_of_def tree_at_Cons) (simp add: blocked_def)

lemma overlay_present:
  assumes "kind_is_tree (e_kind b)" "hm_get (e_entries b) s = Some node"
  shows "overlay A (tree_at b) (s # rest) = overlay (\<lambda>p. A (s # p)) (tree_at node) rest"
  using assms by (simp add: overlay_def blocked_Cons meta_of_def tree_at_Cons)

lemma overlay_over_nothing: "overlay (\<lambda>p. None) B = B"
  by (rule ext) (simp add: overlay_def split: option.split)

lemma overlay_leaf:
  assumes "\<not> kind_is_tree (e_kind b)"
  shows "overlay A (tree_at b) = tree_at b"
proof
  fix p show "overlay A (tree_at b) p = tree_at b p"
    using assms by (cases p) (simp_all add: overlay_def blocked_Cons meta_of_def tree_at_Cons)
qed

lemma tree_at_update:
  assumes "clean a" "entry_wf b"
  shows "tree_at (entry_update a b) p = overlay (tree_at a) (tree_at b) p"
  using assms
proof (induction p arbitrary: a b)
  case Nil
  show ?case by (simp add: overlay_def)
next
  case (Cons s rest)
  note get = hm_get_update_entries [OF entry_wf_children [OF Cons.prems(2)]]
  have up: "tree_at (entry_update a b) (s # rest) =
      (case hm_get (update_entries (e_entries a) (e_entries b)) s of None \<Rightarrow> None | Some c \<Rightarrow> tree_at c rest)"
    if "kind_is_tree (e_kind b)"
    using that by (simp add: tree_at_Cons entry_update_tree)
  have below: "tree_at a (s # q) = (case hm_get (e_entries a) s of None \<Rightarrow> None | Some c \<Rightarrow> tree_at c q)" for q
    using clean_child [OF Cons.prems(1)] by (auto simp: tree_at_Cons split: option.split)
  consider "\<not> kind_is_tree (e_kind b)" | "kind_is_tree (e_kind b)" "hm_get (e_entries b) s = None"
    | node where "kind_is_tree (e_kind b)" "hm_get (e_entries b) s = Some node"
    by fastforce
  then show ?case
  proof cases
    case 1
    then show ?thesis by (simp add: overlay_leaf tree_at_Cons)
  next
    case 2
    then show ?thesis by (simp add: overlay_absent up get below)
  next
    case (3 node)
    have wf: "entry_wf node" using Cons.prems(2) 3(2) by (rule entry_wf_child)
    show ?thesis
    proof (cases "hm_get (e_entries a) s")
      case None
      with 3 show ?thesis
        by (simp add: overlay_present up get below overlay_over_nothing)
    next
      case (Some ex)
      then have "clean ex" using clean_child [OF Cons.prems(1)] by blast
      with Some 3 show ?thesis
        by (simp add: overlay_present up get below Cons.IH wf overlay_leaf mask_not_tree)
    qed
  qed
qed

text \<open>
  C6: Layering a manifest over another in which only directories have children gives the overlay of
  the two trees: at every path the metadata of the upper manifest where it has the path, else that
  of the lower one unless a file or a mask of the upper one stands above the path.
\<close>

theorem update_refines_overlay:
  assumes "clean (m_root self)" "entry_wf (m_root other)"
  shows "tree_at (m_root (manifest_update self other)) = overlay (tree_at (m_root self)) (tree_at (m_root other))"
  by (rule ext) (simp add: manifest_update_def tree_at_update assms)

definition example_dir :: "(str \<times> unit entry) list \<Rightarrow> unit entry" where
  "example_dir es = Entry Tree NULL_DIGEST 0x41FF es () 0"

theorem update_refines_overlay_witness:
  "tree_at (m_root (manifest_update
       \<lparr>m_root = example_dir [(''a'', example_dir [(''x'', empty_file_with_open_perms_with_data ())])]\<rparr>
       \<lparr>m_root = example_dir [(''a'', mask_with_data ())]\<rparr>)) [''a'', ''x''] = None"
proof -
  have "tree_at (m_root (manifest_update
       \<lparr>m_root = example_dir [(''a'', example_dir [(''x'', empty_file_with_open_perms_with_data ())])]\<rparr>
       \<lparr>m_root = example_dir [(''a'', mask_with_data ())]\<rparr>)) =
     overlay (tree_at (example_dir [(''a'', example_dir [(''x'', empty_file_with_open_perms_with_data ())])]))
       (tree_at (example_dir [(''a'', mask_with_data ())]))"
    using update_refines_overlay
      [of "\<lparr>m_root = example_dir [(''a'', example_dir [(''x'', empty_file_with_open_perms_with_data ())])]\<rparr>"
        "\<lparr>m_root = example_dir [(''a'', mask_with_data ())]\<rparr>"]
    by (simp add: example_dir_def empty_file_with_open_perms_with_data_def mask_with_data_def hm_wf_def)
  then show ?thesis
    by (simp add: overlay_leaf overlay_present tree_at_Cons example_dir_def mask_with_data_def)
qed

text \<open>
  The layering leaves the children of a directory in place when a file of the upper manifest
  replaces it. A third manifest that has a directory there again brings them back: the path holds
  the entry of the first manifest, and the overlay of the three trees has nothing there.
\<close>

theorem update_revives_hidden_children:
  "\<exists>a b c :: unit manifest. list_all (\<lambda>m. clean (m_root m) \<and> entry_wf (m_root m)) [a, b, c]
     \<and> tree_at (m_root (manifest_update (manifest_update a b) c)) [''d'', ''x''] \<noteq> None
     \<and> overlay (overlay (tree_at (m_root a)) (tree_at (m_root b))) (tree_at (m_root c)) [''d'', ''x''] = None"
proof -
  let ?file = "empty_file_with_open_perms_with_data () :: unit entry"
  let ?a = "\<lparr>m_root = example_dir [(''d'', example_dir [(''x'', ?file)])]\<rparr>"
  let ?b = "\<lparr>m_root = example_dir [(''d'', ?file)]\<rparr>"
  let ?c = "\<lparr>m_root = example_dir [(''d'', example_dir [])]\<rparr>"
  have "list_all (\<lambda>m. clean (m_root m) \<and> entry_wf (m_root m)) [?a, ?b, ?c]"
    by (simp add: example_dir_def empty_file_with_open_perms_with_data_def hm_wf_def)
  moreover have "tree_at (m_root (manifest_update (manifest_update ?a ?b) ?c)) [''d'', ''x''] \<noteq> None"
    by (simp add: manifest_update_def example_dir_def empty_file_with_open_perms_with_data_def Let_def tree_at_Cons)
  moreover have "overlay (overlay (tree_at (m_root ?a)) (tree_at (m_root ?b))) (tree_at (m_root ?c)) [''d'', ''x''] = None"
    by (simp add: overlay_def blocked_Cons tree_at_Cons meta_of_def example_dir_def
        empty_file_with_open_perms_with_data_def)
  ultimately show ?thesis by blast
qed

subsection \<open>Equality\<close>

lemma case_option_False_iff: "(case x of None \<Rightarrow> False | Some y \<Rightarrow> P y) \<longleftrightarrow> (\<exists>y. x = Some y \<and> P y)"
  by (cases x) simp_all

lemma entry_eq_iff:
  "entry_eq a b \<longleftrightarrow> meta_of a = meta_of b \<and> length (e_entries a) = length (e_entries b)
     \<and> (\<forall>(n, c) \<in> set (e_entries a). \<exists>c'. hm_get (e_entries b) n = Some c' \<and> entry_eq c c')"
proof (cases a)
  case (Entry k obj m es ud ls)
  show ?thesis
    by (subst Entry, subst entry_eq.simps)
      (auto simp: Entry meta_of_def entry_size_def list_all_iff case_option_False_iff case_prod_beta simp del: entry_eq.simps)
qed

lemma entry_eqD:
  assumes "entry_eq a b"
  shows "meta_of a = meta_of b" "length (e_entries a) = length (e_entries b)"
    and "(n, c) \<in> set (e_entries a) \<Longrightarrow> \<exists>c'. hm_get (e_entries b) n = Some c' \<and> entry_eq c c'"
  using assms by (subst (asm) entry_eq_iff; blast)+

lemma hm_same_keys:
  assumes "hm_wf m" "hm_wf m'" "length m = length m'" "fst ` set m \<subseteq> fst ` set m'"
  shows "fst ` set m = fst ` set m'"
proof (rule card_subset_eq)
  show "card (fst ` set m) = card (fst ` set m')"
    using assms by (metis hm_wf_def distinct_card length_map list.set_map)
qed (use assms in auto)

lemma entry_eq_children:
  assumes "entry_eq a b" "entry_wf a" "entry_wf b"
  shows "rel_option entry_eq (hm_get (e_entries a) n) (hm_get (e_entries b) n)"
proof (cases "hm_get (e_entries a) n")
  case (Some c)
  then have "(n, c) \<in> set (e_entries a)" by (rule map_of_SomeD)
  from entry_eqD(3) [OF assms(1) this] Some show ?thesis by auto
next
  case None
  have "fst ` set (e_entries a) \<subseteq> fst ` set (e_entries b)"
    using entry_eqD(3) [OF assms(1)] by (force dest: map_of_SomeD)
  then have "fst ` set (e_entries a) = fst ` set (e_entries b)"
    using assms by (intro hm_same_keys) (auto simp: entry_eqD(2) entry_wf_children)
  then have "hm_get (e_entries b) n = None" using None by (simp add: map_of_eq_None_iff)
  with None show ?thesis by simp
qed

lemma entry_eq_tree_at:
  assumes "entry_eq a b" "entry_wf a" "entry_wf b"
  shows "tree_at a p = tree_at b p"
  using assms
proof (induction p arbitrary: a b)
  case Nil
  then show ?case by (simp add: entry_eqD(1))
next
  case (Cons s rest)
  have "e_kind a = e_kind b" using entry_eqD(1) [OF Cons.prems(1)] by (simp add: meta_of_def)
  with entry_eq_children [OF Cons.prems, of s] show ?case
    by (auto simp: tree_at_Cons option_rel_Some1 option_rel_Some2 split: option.split
        intro!: Cons.IH intro: entry_wf_child [OF Cons.prems(2)] entry_wf_child [OF Cons.prems(3)])
qed

lemma tree_at_children:
  assumes "clean a" "clean b" "tree_at a = tree_at b"
  shows "rel_option (\<lambda>c c'. tree_at c = tree_at c') (hm_get (e_entries a) n) (hm_get (e_entries b) n)"
proof -
  have k: "e_kind a = e_kind b" using fun_cong [OF assms(3), of "[]"] by (simp add: meta_of_def)
  have "tree_at a (n # q) = tree_at b (n # q)" for q by (simp add: assms(3))
  from this [of "[]"] this show ?thesis
    using k clean_child [OF assms(1), of n] clean_child [OF assms(2), of n]
    by (cases "hm_get (e_entries a) n"; cases "hm_get (e_entries b) n") (simp_all add: tree_at_Cons fun_eq_iff)
qed

lemma rel_option_None_iff: "rel_option R x y \<Longrightarrow> x = None \<longleftrightarrow> y = None"
  by (cases x; cases y) auto

lemma tree_at_entry_eq:
  assumes "tree_at a = tree_at b" "clean a" "clean b" "entry_wf a" "entry_wf b"
  shows "entry_eq a b"
  using assms
proof (induction a arbitrary: b)
  case (Entry k obj m es ud ls)
  let ?a = "Entry k obj m es ud ls"
  note rel = tree_at_children [OF Entry.prems(2,3,1)]
  have "fst ` set es = fst ` set (e_entries b)"
  proof (rule set_eqI)
    fix n show "n \<in> fst ` set es \<longleftrightarrow> n \<in> fst ` set (e_entries b)"
      using rel_option_None_iff [OF rel [of n]] by (simp add: map_of_eq_None_iff)
  qed
  then have len: "length es = length (e_entries b)"
    using Entry.prems(4) entry_wf_children [OF Entry.prems(5)]
    by (metis entry_wf.simps hm_wf_def distinct_card length_map list.set_map)
  have "\<exists>c'. hm_get (e_entries b) n = Some c' \<and> entry_eq c c'" if "(n, c) \<in> set es" for n c
  proof -
    have get: "hm_get es n = Some c" using that Entry.prems(4) by (simp add: hm_get_Some)
    then obtain c' where c': "hm_get (e_entries b) n = Some c'" "tree_at c = tree_at c'"
      using rel [of n] by (auto simp: option_rel_Some1)
    moreover have "entry_eq c c'"
    proof (rule Entry.IH [of "(n, c)" c])
      show "clean c" "entry_wf c"
        using clean_child [OF Entry.prems(2), of n] entry_wf_child [OF Entry.prems(4), of n] get by simp_all
      show "clean c'" "entry_wf c'"
        using clean_child [OF Entry.prems(3)] entry_wf_child [OF Entry.prems(5)] c'(1) by blast+
    qed (use that c' in auto)
    ultimately show ?thesis by blast
  qed
  with len fun_cong [OF Entry.prems(1), of "[]"] show ?case
    by (subst entry_eq_iff) auto
qed

text \<open>
  On trees where only directories have children, two entries are equal in the code's sense
  exactly when they have the same metadata at every path. User data, stored sizes and the order
  of the children do not matter.
\<close>

theorem entry_eq_extensional:
  assumes "clean a" "clean b" "entry_wf a" "entry_wf b"
  shows "entry_eq a b \<longleftrightarrow> tree_at a = tree_at b"
  using entry_eq_tree_at tree_at_entry_eq assms by (metis ext)

theorem entry_eq_extensional_witness:
  "tree_at (example_dir [(''a'', empty_file_with_open_perms_with_data ()), (''b'', example_dir [])]) =
   tree_at (example_dir [(''b'', example_dir []), (''a'', empty_file_with_open_perms_with_data ())])"
proof -
  let ?a = "example_dir [(''a'', empty_file_with_open_perms_with_data ()), (''b'', example_dir [])]"
  let ?b = "example_dir [(''b'', example_dir []), (''a'', empty_file_with_open_perms_with_data ())]"
  have "entry_eq ?a ?b"
    by (subst entry_eq_iff, simp add: example_dir_def empty_file_with_open_perms_with_data_def meta_of_def)
  moreover have "clean ?a" "clean ?b" "entry_wf ?a" "entry_wf ?b"
    by (simp_all add: example_dir_def empty_file_with_open_perms_with_data_def hm_wf_def)
  ultimately show ?thesis using entry_eq_extensional [of ?a ?b] by simp
qed

end
