(* ===== verification/Manifest_Paths.thy ===== *)
theory Manifest_Paths
  imports Entries "HOL-Library.Sublist"
begin

text \<open>
  What the path operations of a manifest do (\<^verbatim>\<open>crates/spfs/src/tracking/manifest.rs\<close>): creating an
  entry or a chain of directories and finding it again, and the walker, which lists every entry below
  the root once its parent has been listed and then stops.
\<close>

section \<open>Paths of plain names\<close>

definition plain_name :: "str \<Rightarrow> bool" where
  "plain_name n \<longleftrightarrow> n \<noteq> [] \<and> CHR ''/'' \<notin> set n \<and> n \<noteq> ''.'' \<and> n \<noteq> ''..''"

abbreviation path_of :: "str list \<Rightarrow> str" where
  "path_of \<equiv> join_str ''/''"

text \<open>What the code relies on of the path normalisation of the relative_path crate: a path of plain names is
  already normal and has these names as components.\<close>

definition normalizes_plain :: "(str \<Rightarrow> str \<times> component_of_path list) \<Rightarrow> bool" where
  "normalizes_plain normalized \<longleftrightarrow>
     (\<forall>ns. ns \<noteq> [] \<longrightarrow> list_all plain_name ns \<longrightarrow> normalized (path_of ns) = (path_of ns, map Normal ns))"

text \<open>The entries a walker yields: its answer to call number \<open>n\<close>, counted from zero.\<close>

definition walk_nth :: "(str \<Rightarrow> str \<Rightarrow> str) \<Rightarrow> nat \<Rightarrow> 'u walker \<Rightarrow> (str \<times> 'u entry) option" where
  "walk_nth join n w = fst (walker_next join (((snd \<circ> walker_next join) ^^ n) w))"

fun count_below :: "'u entry \<Rightarrow> nat" where
  "count_below (Entry k obj m es ud ls) =
     sum_list (map (\<lambda>p. Suc (if kind_is_tree (e_kind (snd p)) then count_below (snd p) else 0)) es)"

fun listing :: "(str \<Rightarrow> str \<Rightarrow> str) \<Rightarrow> str \<Rightarrow> 'u entry \<Rightarrow> (str \<times> 'u entry) list" where
  "listing join pre (Entry k obj m es ud ls) =
     concat (map (\<lambda>p. (join pre (fst p), snd p) #
       (if kind_is_tree (e_kind (snd p)) then listing join (join pre (fst p)) (snd p) else [])) es)"

definition child_listing :: "(str \<Rightarrow> str \<Rightarrow> str) \<Rightarrow> str \<Rightarrow> (str \<times> 'u entry) list \<Rightarrow> (str \<times> 'u entry) list" where
  "child_listing join pre es =
     concat (map (\<lambda>p. (join pre (fst p), snd p) #
       (if kind_is_tree (e_kind (snd p)) then listing join (join pre (fst p)) (snd p) else [])) es)"

fun pending :: "(str \<Rightarrow> str \<Rightarrow> str) \<Rightarrow> 'u walker \<Rightarrow> (str \<times> 'u entry) list" where
  "pending join (Walker pre children None) = child_listing join pre children"
| "pending join (Walker pre children (Some a)) = pending join a @ child_listing join pre children"

section \<open>Creating and finding\<close>

lemma path_of_plain:
  assumes "ns \<noteq> []" "list_all plain_name ns"
  shows "split_str CHR ''/'' (path_of ns) = ns" "path_of ns \<noteq> []"
proof -
  show "split_str CHR ''/'' (path_of ns) = ns"
    using assms by (intro split_join_str) (auto simp: list_all_iff plain_name_def)
  show "path_of ns \<noteq> []"
    using assms by (subst join_str_eq_Nil) (auto simp: list_all_iff plain_name_def)
qed

lemma hd_path_of: "n \<noteq> [] \<Longrightarrow> \<exists>r. path_of (n # ns) = n @ r \<and> (r = [] \<or> hd r = CHR ''/'')"
  by (cases ns) auto

lemma trim_leading_slash_plain:
  assumes "ns \<noteq> []" "list_all plain_name ns"
  shows "trim_leading_slash (path_of ns) = path_of ns"
proof -
  obtain n ns' where ns: "ns = n # ns'" using assms(1) by (cases ns) auto
  have n: "plain_name n" using assms(2) ns by simp
  then obtain c cs where c: "n = c # cs" by (cases n) (auto simp: plain_name_def)
  obtain r where "path_of ns = n @ r" using hd_path_of [of n ns'] n ns by (auto simp: plain_name_def)
  with n c show ?thesis
    by (subst trim_leading_slash.simps) (cases cs; auto simp: plain_name_def)
qed

lemma last_path_of: "list_all plain_name ns \<Longrightarrow> ns \<noteq> [] \<Longrightarrow> last (path_of ns) \<noteq> CHR ''/''"
proof (induction "''/''" ns rule: join_str.induct)
  case (2 x)
  then show ?case using last_in_set [of x] by (auto simp: plain_name_def simp del: last_in_set)
next
  case (3 x y ys)
  then show ?case using path_of_plain(2) [of "y # ys"] by simp
qed simp

lemma trim_end_slash_id: "s \<noteq> [] \<Longrightarrow> last s \<noteq> CHR ''/'' \<Longrightarrow> trim_end_slash s = s"
  by (cases s rule: rev_cases) (auto simp: trim_end_slash_def)

lemma get_path_plain:
  assumes "ns \<noteq> []" "list_all plain_name ns"
  shows "get_path self (path_of ns) = get_steps (m_root self) ns"
  using assms by (simp add: get_path_def trim_leading_slash_plain trim_end_slash_id last_path_of path_of_plain)

lemma mknod_plain:
  assumes "normalizes_plain normalized" "ns \<noteq> []" "list_all plain_name ns"
  shows "mknod normalized self (path_of ns) e =
    and_then (mknod_steps (path_of ns) (map Normal (butlast ns)) (Some (Normal (last ns))) e (m_root self))
      (\<lambda>root. Ok \<lparr>m_root = root\<rparr>)"
  using assms
  by (simp add: mknod_def trim_leading_slash_plain path_of_plain normalizes_plain_def last_map map_butlast)

lemma set_child_simps [simp]:
  "e_kind (set_child e n c) = e_kind e" "meta_of (set_child e n c) = meta_of e"
  "e_entries (set_child e n c) = hm_insert n c (e_entries e)"
  by (simp_all add: set_child_def meta_of_def)

lemma mknod_steps_kind:
  "mknod_steps path (map Normal ds) (Some (Normal n)) new e = Ok e' \<Longrightarrow> e_kind e' = e_kind e"
  by (cases ds) (auto split: option.splits if_splits)

lemma mknod_steps_ok_iff:
  assumes "kind_is_tree (e_kind e)"
  shows "(\<exists>e'. mknod_steps path (map Normal ds) (Some (Normal n)) new e = Ok e') \<longleftrightarrow>
    (\<exists>d. get_steps e ds = Some d \<and> kind_is_tree (e_kind d))"
  using assms
proof (induction ds arbitrary: e)
  case (Cons d ds)
  have "get_steps c ds = Some x \<Longrightarrow> kind_is_tree (e_kind x) \<Longrightarrow> kind_is_tree (e_kind c)" for c x
    by (cases ds) (auto split: if_splits)
  with Cons show ?case by (auto split: option.splits)
qed simp

lemma mknod_steps_get:
  assumes "mknod_steps path (map Normal ds) (Some (Normal n)) new e = Ok e'" "kind_is_tree (e_kind e)"
  shows "get_steps e' (ds @ n # rest) = get_steps new rest"
  using assms
proof (induction ds arbitrary: e e')
  case (Cons d ds)
  then show ?case by (auto split: option.splits if_splits)
qed auto

lemma mknod_steps_get_other:
  assumes "mknod_steps path (map Normal ds) (Some (Normal n)) new e = Ok e'"
    and "\<not> prefix q (ds @ [n])" "\<not> prefix (ds @ [n]) q"
  shows "get_steps e' q = get_steps e q"
  using assms
proof (induction ds arbitrary: e e' q)
  case Nil
  then show ?case by (cases q) auto
next
  case (Cons d ds)
  then obtain s q' where "q = s # q'" by (cases q) auto
  with Cons show ?case by (auto split: option.splits if_splits)
qed

lemma mkdirs_steps_ok:
  assumes "mkdirs_steps path dflt (map Normal ds) e = Ok e'" "kind_is_tree (e_kind e)"
  shows "\<exists>d. get_steps e' ds = Some d \<and> kind_is_tree (e_kind d)"
  using assms
proof (induction ds arbitrary: e e')
  case (Cons d ds)
  have "e_kind e' = e_kind e" if "mkdirs_steps path dflt (map Normal ds) e = Ok e'" for e e' ds
    using that by (cases ds) (auto simp: Let_def split: if_splits)
  with Cons show ?case by (auto simp: Let_def split: if_splits)
qed auto

lemma get_steps_empty_dir:
  "get_steps (empty_dir_with_open_perms_with_data d) q = Some x \<Longrightarrow> kind_is_tree (e_kind x)"
  by (cases q) (auto simp: empty_dir_with_open_perms_with_data_def)

lemma mkdirs_steps_meta: "mkdirs_steps path dflt (map Normal ds) e = Ok e' \<Longrightarrow> meta_of e' = meta_of e"
  by (cases ds) (auto simp: Let_def split: if_splits)

lemma mkdirs_steps_keeps:
  assumes "mkdirs_steps path dflt (map Normal ds) e = Ok e'" "tree_at e q = Some m"
  shows "tree_at e' q = Some m"
  using assms
proof (induction ds arbitrary: e e' q)
  case (Cons d ds)
  show ?case
  proof (cases q)
    case Nil
    then show ?thesis using Cons.prems mkdirs_steps_meta [of path dflt "d # ds"] by simp
  next
    case (Cons s q')
    with Cons.prems Cons.IH [of _ _ q'] show ?thesis
      by (auto simp: Let_def tree_at_Cons split: if_splits option.splits)
  qed
qed simp

lemma mkdirs_steps_fails:
  assumes "mkdirs_steps path dflt (map Normal ds) e = Err err" "kind_is_tree (e_kind e)"
  shows "err = NotADirectory path \<and> (\<exists>i\<le>length ds. \<exists>x. get_steps e (take i ds) = Some x \<and> \<not> kind_is_tree (e_kind x))"
  using assms
proof (induction ds arbitrary: e)
  case (Cons d ds)
  let ?c = "case hm_get (e_entries e) d of None \<Rightarrow> empty_dir_with_open_perms_with_data dflt | Some c \<Rightarrow> c"
  show ?case
  proof (cases "kind_is_tree (e_kind ?c)")
    case True
    with Cons.prems have "mkdirs_steps path dflt (map Normal ds) ?c = Err err"
      by (cases "mkdirs_steps path dflt (map Normal ds) ?c") (simp_all add: Let_def)
    from Cons.IH [OF this True] obtain i x where i: "err = NotADirectory path" "i \<le> length ds"
      "get_steps ?c (take i ds) = Some x" "\<not> kind_is_tree (e_kind x)" by blast
    then have "hm_get (e_entries e) d \<noteq> None"
      using get_steps_empty_dir [of dflt "take i ds" x] by (auto split: option.splits)
    with i Cons.prems(2) show ?thesis
      by (intro conjI exI [of _ "Suc i"] exI [of _ x]) (auto split: option.splits)
  next
    case False
    with Cons.prems show ?thesis
      by (auto simp: Let_def empty_dir_with_open_perms_with_data_def intro!: exI [of _ "Suc 0"] split: option.splits)
  qed
qed simp

lemma mknod_steps_no_panic: "mknod_steps path (map Normal ds) (Some (Normal n)) new e \<noteq> Panic"
  by (induction ds arbitrary: e) (auto split: option.splits)

lemma mkdirs_steps_no_panic: "mkdirs_steps path dflt (map Normal ds) e \<noteq> Panic"
  by (induction ds arbitrary: e) (auto simp: Let_def)

text \<open>
  \<open>mknod\<close> at a path of plain names succeeds exactly when the parent path is a directory.
  Then the new entry is found at the path, and a path that neither leads to it nor
  below it has the entry it had before.
\<close>

theorem mknod_then_get:
  assumes "normalizes_plain normalized" "ns \<noteq> []" "list_all plain_name ns" "kind_is_tree (e_kind (m_root self))"
  shows "case mknod normalized self (path_of ns) new of
      Ok self' \<Rightarrow> get_path self' (path_of ns) = Some new
        \<and> (\<forall>q. prefix q ns \<or> prefix ns q \<or> get_steps (m_root self') q = get_steps (m_root self) q)
    | Err e \<Rightarrow> \<not> (\<exists>d. get_steps (m_root self) (butlast ns) = Some d \<and> kind_is_tree (e_kind d))
    | Panic \<Rightarrow> False"
proof -
  let ?r = "mknod_steps (path_of ns) (map Normal (butlast ns)) (Some (Normal (last ns))) new (m_root self)"
  show ?thesis
  proof (cases ?r)
    case (Ok root)
    then have "get_steps root ns = Some new"
      using mknod_steps_get [OF Ok assms(4), of "[]"] assms(2) by simp
    moreover have "prefix q ns \<or> prefix ns q \<or> get_steps root q = get_steps (m_root self) q" for q
      using mknod_steps_get_other [OF Ok, of q] assms(2) by auto
    ultimately show ?thesis using Ok assms(1-3) by (simp add: mknod_plain get_path_plain)
  next
    case (Err e)
    then show ?thesis
      using mknod_steps_ok_iff [OF assms(4), of "path_of ns" "butlast ns" "last ns" new] assms(1-3)
      by (auto simp: mknod_plain)
  qed (simp add: mknod_steps_no_panic)
qed

definition split_normalized :: "str \<Rightarrow> str \<times> component_of_path list" where
  "split_normalized path = (path, map Normal (split_str CHR ''/'' path))"

lemma split_normalizes_plain: "normalizes_plain split_normalized"
  by (simp add: normalizes_plain_def split_normalized_def path_of_plain)

theorem mknod_then_get_witness:
  "case mknod split_normalized \<lparr>m_root = example_dir [(''a'', example_dir [])]\<rparr> ''a/b'' (mask_with_data ()) of
     Ok self' \<Rightarrow> get_path self' ''a/b'' = Some (mask_with_data ()) | _ \<Rightarrow> False"
proof -
  have "is_ok_result (mknod split_normalized \<lparr>m_root = example_dir [(''a'', example_dir [])]\<rparr> ''a/b'' (mask_with_data ()))"
    by code_simp
  with mknod_then_get [of split_normalized "[''a'', ''b'']" "\<lparr>m_root = example_dir [(''a'', example_dir [])]\<rparr>"
      "mask_with_data ()"]
  show ?thesis
    by (auto simp: split_normalizes_plain plain_name_def example_dir_def is_ok_result_iff)
qed

text \<open>
  \<open>mkdirs\<close> at a path of plain names fails only where something that is not a directory is in
  the way. Otherwise the path is a directory afterwards, and every path that existed has
  the metadata it had.
\<close>

theorem mkdirs_makes_directory:
  assumes "normalizes_plain normalized" "ns \<noteq> []" "list_all plain_name ns" "kind_is_tree (e_kind (m_root self))"
  shows "case mkdirs normalized dflt self (path_of ns) of
      Ok self' \<Rightarrow> (\<exists>d. get_path self' (path_of ns) = Some d \<and> kind_is_tree (e_kind d))
        \<and> (\<forall>q m. tree_at (m_root self) q = Some m \<longrightarrow> tree_at (m_root self') q = Some m)
    | Err e \<Rightarrow> e = NotADirectory (path_of ns)
        \<and> (\<exists>i\<le>length ns. \<exists>x. get_steps (m_root self) (take i ns) = Some x \<and> \<not> kind_is_tree (e_kind x))
    | Panic \<Rightarrow> False"
proof -
  have eq: "mkdirs normalized dflt self (path_of ns) =
      and_then (mkdirs_steps (path_of ns) dflt (map Normal ns) (m_root self)) (\<lambda>root. Ok \<lparr>m_root = root\<rparr>)"
    using assms(1-3) by (simp add: mkdirs_def trim_leading_slash_plain path_of_plain normalizes_plain_def)
  show ?thesis
  proof (cases "mkdirs_steps (path_of ns) dflt (map Normal ns) (m_root self)")
    case (Ok root)
    then show ?thesis
      using mkdirs_steps_ok [OF Ok assms(4)] mkdirs_steps_keeps [OF Ok] assms(2,3)
      by (auto simp: eq get_path_plain)
  next
    case (Err e)
    then show ?thesis using mkdirs_steps_fails [OF Err assms(4)] by (simp add: eq)
  qed (simp add: mkdirs_steps_no_panic)
qed

theorem mkdirs_makes_directory_witness:
  "case mkdirs split_normalized () \<lparr>m_root = example_dir [(''a'', mask_with_data ())]\<rparr> ''a/b'' of
     Err e \<Rightarrow> e = NotADirectory ''a/b'' | _ \<Rightarrow> False"
proof -
  have "\<not> is_ok_result (mkdirs split_normalized () \<lparr>m_root = example_dir [(''a'', mask_with_data ())]\<rparr> ''a/b'')"
    by code_simp
  with mkdirs_makes_directory [of split_normalized "[''a'', ''b'']"
      "\<lparr>m_root = example_dir [(''a'', mask_with_data ())]\<rparr>" "()"]
  show ?thesis
    by (auto simp: split_normalizes_plain plain_name_def example_dir_def split: outcome.splits)
qed

section \<open>Walking\<close>

lemma child_listing_simps [simp]:
  "child_listing join pre [] = []"
  "child_listing join pre ((n, c) # es) = (join pre n, c) #
     (if kind_is_tree (e_kind c) then listing join (join pre n) c else []) @ child_listing join pre es"
  by (simp_all add: child_listing_def)

lemma listing_eq: "listing join pre e = child_listing join pre (e_entries e)"
  by (cases e) (simp add: child_listing_def)

lemma pending_advance:
  "case walker_advance join pre es of
     (None, w) \<Rightarrow> child_listing join pre es = [] \<and> pending join w = []
   | (Some x, w) \<Rightarrow> child_listing join pre es = x # pending join w"
  by (auto simp: walker_advance_def with_prefix_def walker_new_def listing_eq split: list.split)

lemma pending_next:
  "case walker_next join w of
     (None, w') \<Rightarrow> pending join w = [] \<and> pending join w' = []
   | (Some x, w') \<Rightarrow> pending join w = x # pending join w'"
proof (induction join w rule: walker_next.induct)
  case (1 join pre children)
  show ?case using pending_advance [of join pre children] by (simp split: prod.splits option.splits)
next
  case (2 join pre children a)
  then show ?case using pending_advance [of join pre children]
    by (cases "walker_next join a"; cases "fst (walker_next join a)") (auto split: prod.splits option.splits)
qed

lemma pending_after: "pending join (((snd \<circ> walker_next join) ^^ n) w) = drop n (pending join w)"
proof (induction n)
  case (Suc n)
  let ?w = "((snd \<circ> walker_next join) ^^ n) w"
  have "pending join (snd (walker_next join ?w)) = tl (pending join ?w)"
    using pending_next [of join ?w] by (auto split: prod.splits option.splits)
  with Suc show ?case by (simp add: drop_Suc tl_drop del: comp_apply) (simp add: comp_def)
qed simp

lemma walk_nth_pending:
  "walk_nth join n w = (if n < length (pending join w) then Some (pending join w ! n) else None)"
proof (cases "n < length (pending join w)")
  case True
  then show ?thesis
    using pending_next [of join "((snd \<circ> walker_next join) ^^ n) w"]
    by (auto simp: walk_nth_def pending_after simp flip: Cons_nth_drop_Suc split: prod.splits option.splits)
next
  case False
  then show ?thesis
    using pending_next [of join "((snd \<circ> walker_next join) ^^ n) w"]
    by (auto simp: walk_nth_def pending_after split: prod.splits option.splits)
qed

lemma length_listing: "length (listing join pre e) = count_below e"
  by (induction e arbitrary: pre) (auto simp: length_concat intro!: arg_cong [of _ _ sum_list])

lemma set_child_listing:
  "x \<in> set (child_listing join pre es) \<longleftrightarrow>
    (\<exists>(n, c) \<in> set es. x = (join pre n, c) \<or> kind_is_tree (e_kind c) \<and> x \<in> set (listing join (join pre n) c))"
  by (induction es) auto

lemma get_steps_tree: "get_steps e q = Some x \<Longrightarrow> q \<noteq> [] \<Longrightarrow> kind_is_tree (e_kind e)"
  by (cases q) (auto split: if_splits)

lemma set_listing:
  assumes "entry_wf e" "kind_is_tree (e_kind e)"
  shows "x \<in> set (listing join pre e) \<longleftrightarrow>
    (\<exists>q. q \<noteq> [] \<and> get_steps e q = Some (snd x) \<and> foldl join pre q = fst x)"
  using assms
proof (induction e arbitrary: pre)
  case (Entry k obj m es ud ls)
  have IH: "x \<in> set (listing join pre' c) \<longleftrightarrow> (\<exists>q. q \<noteq> [] \<and> get_steps c q = Some (snd x) \<and> foldl join pre' q = fst x)"
    if "(n, c) \<in> set es" "kind_is_tree (e_kind c)" for n c pre'
  proof -
    have "entry_wf c" using Entry.prems(1) that(1) by (force simp: list_all_iff)
    with Entry.IH [of "(n, c)" c] that show ?thesis by simp
  qed
  have get: "(n, c) \<in> set es \<longleftrightarrow> hm_get es n = Some c" for n c
    using Entry.prems by (simp add: hm_get_Some)
  have "x \<in> set (listing join pre (Entry k obj m es ud ls)) \<longleftrightarrow>
     (\<exists>(n, c) \<in> set es. x = (join pre n, c) \<or> kind_is_tree (e_kind c) \<and>
       (\<exists>q. q \<noteq> [] \<and> get_steps c q = Some (snd x) \<and> foldl join (join pre n) q = fst x))"
    by (subst listing_eq, subst set_child_listing, unfold entry.sel, rule bex_cong [OF refl])
      (auto simp: IH)
  also have "\<dots> \<longleftrightarrow> (\<exists>n c q. hm_get es n = Some c \<and> get_steps c q = Some (snd x) \<and> foldl join (join pre n) q = fst x)"
    (is "?L = ?R")
  proof
    assume ?L
    then obtain n c where "hm_get es n = Some c"
      and "x = (join pre n, c) \<or> (\<exists>q. get_steps c q = Some (snd x) \<and> foldl join (join pre n) q = fst x)"
      using get by blast
    then show ?R by (metis fst_conv snd_conv get_steps.simps(1) foldl_Nil)
  next
    assume ?R
    then obtain n c q where q: "hm_get es n = Some c" "get_steps c q = Some (snd x)" "foldl join (join pre n) q = fst x"
      by blast
    then show ?L
      by (intro bexI [of _ "(n, c)"]) (cases "q = []"; auto simp: get prod_eq_iff dest: get_steps_tree)+
  qed
  also have "\<dots> \<longleftrightarrow> (\<exists>q. q \<noteq> [] \<and> get_steps (Entry k obj m es ud ls) q = Some (snd x) \<and> foldl join pre q = fst x)"
    (is "?R = ?T")
  proof
    assume ?R
    then obtain n c q where q: "hm_get es n = Some c" "get_steps c q = Some (snd x)" "foldl join (join pre n) q = fst x"
      by blast
    with Entry.prems(2) show ?T by (intro exI [of _ "n # q"]) simp
  next
    assume ?T
    then show ?R using Entry.prems(2) by (auto simp: neq_Nil_conv split: option.splits) blast
  qed
  finally show ?case .
qed

text \<open>
  The walk of a manifest ends: it answers as many calls as there are entries below the root and
  nothing from then on.
\<close>

theorem walk_terminates:
  "walk_nth join n (walk self) = None \<longleftrightarrow> count_below (m_root self) \<le> n"
  by (simp add: walk_nth_pending walk_def walker_new_def listing_eq [symmetric] length_listing)

text \<open>
  C35: The walk of a manifest reaches every entry: what is at a non-empty path comes up at some call, with
  the names of the path joined to the root, and nothing else ever comes up.
\<close>

theorem walk_reaches_all:
  assumes "entry_wf (m_root self)" "kind_is_tree (e_kind (m_root self))"
  shows "(\<exists>n. walk_nth join n (walk self) = Some (path, e)) \<longleftrightarrow>
    (\<exists>q. q \<noteq> [] \<and> get_steps (m_root self) q = Some e \<and> path = foldl join ''/'' q)"
proof -
  have "(\<exists>n. walk_nth join n (walk self) = Some (path, e)) \<longleftrightarrow> (path, e) \<in> set (listing join ''/'' (m_root self))"
    by (auto simp: walk_nth_pending walk_def walker_new_def listing_eq in_set_conv_nth)
  then show ?thesis using set_listing [OF assms, of "(path, e)" join "''/''"] by auto
qed

theorem walk_reaches_all_witness:
  "\<exists>n. walk_nth (\<lambda>p n. p @ ''/'' @ n) n
     (walk \<lparr>m_root = example_dir [(''a'', example_dir [(''b'', mask_with_data ())])]\<rparr>) = Some (''//a/b'', mask_with_data ())"
proof -
  let ?m = "\<lparr>m_root = example_dir [(''a'', example_dir [(''b'', mask_with_data ())])]\<rparr>"
  have "get_steps (m_root ?m) [''a'', ''b''] = Some (mask_with_data ())"
    by (simp add: example_dir_def)
  then show ?thesis
    by (subst walk_reaches_all)
      (auto simp: example_dir_def mask_with_data_def hm_wf_def intro!: exI [of _ "[''a'', ''b'']"])
qed

end
