(* ===== verification/Manifest_Nodes.thy ===== *)
theory Manifest_Nodes
  imports Manifest_Paths
begin

text \<open>
  The order of manifest nodes (\<open>ManifestNode\<close> in \<^verbatim>\<open>crates/spfs/src/tracking/manifest.rs\<close>), which puts directories
  before files at every level, and the sorting of nodes with it. A node is a path with an entry. The
  normalisation of the relative_path crate is a parameter as in \<open>Entries\<close>.
\<close>

type_synonym 'u node = "str \<times> 'u entry"

text \<open>\<open>zip_longest\<close> gives the loop both lists of components; the arguments are the kinds of the two nodes.\<close>

definition lookahead_kinds ::
  "entry_kind \<Rightarrow> entry_kind \<Rightarrow> component_of_path list \<Rightarrow> component_of_path list \<Rightarrow> entry_kind \<times> entry_kind" where
  "lookahead_kinds k1 k2 as bs =
     (case (as, bs) of
        (Normal _ # _, Normal _ # _) \<Rightarrow> (Tree, Tree)
      | (_ # _, []) \<Rightarrow> (Tree, k2)
      | ([], _ # _) \<Rightarrow> (k1, Tree)
      | _ \<Rightarrow> (k1, k2))"

fun node_cmp_loop ::
  "entry_kind \<Rightarrow> entry_kind \<Rightarrow> component_of_path list \<Rightarrow> component_of_path list \<Rightarrow> ordering" where
  "node_cmp_loop k1 k2 [] [] = Equal"
| "node_cmp_loop k1 k2 (_ # _) [] = Greater"
| "node_cmp_loop k1 k2 [] (_ # _) = Less"
| "node_cmp_loop k1 k2 (Normal left # as) (Normal right # bs) =
     (let kinds = lookahead_kinds k1 k2 as bs;
          c = (case entry_kind_cmp (snd kinds) (fst kinds) of Equal \<Rightarrow> cmp_of left right | c \<Rightarrow> c) in
      if c = Equal then node_cmp_loop k1 k2 as bs else c)"
| "node_cmp_loop k1 k2 (_ # as) (_ # bs) = node_cmp_loop k1 k2 as bs"

definition node_cmp :: "(str \<Rightarrow> str \<times> component_of_path list) \<Rightarrow> 'u node \<Rightarrow> 'v node \<Rightarrow> ordering" where
  "node_cmp normalized self other =
     node_cmp_loop (e_kind (snd self)) (e_kind (snd other)) (snd (normalized (fst self))) (snd (normalized (fst other)))"

text \<open>\<open>sort\<close> and \<open>sort_unstable\<close> with a comparison; the two agree where no two items compare as equal.\<close>

fun insert_by :: "('a \<Rightarrow> 'a \<Rightarrow> ordering) \<Rightarrow> 'a \<Rightarrow> 'a list \<Rightarrow> 'a list" where
  "insert_by cmp x [] = [x]"
| "insert_by cmp x (y # ys) = (if cmp x y = Greater then y # insert_by cmp x ys else x # y # ys)"

fun sort_by :: "('a \<Rightarrow> 'a \<Rightarrow> ordering) \<Rightarrow> 'a list \<Rightarrow> 'a list" where
  "sort_by cmp [] = []"
| "sort_by cmp (x # xs) = insert_by cmp x (sort_by cmp xs)"

section \<open>Sorting\<close>

lemma set_insert_by [simp]: "set (insert_by cmp x xs) = insert x (set xs)"
  by (induction xs) auto

lemma set_sort_by [simp]: "set (sort_by cmp xs) = set xs"
  by (induction xs) auto

lemma length_sort_by [simp]: "length (sort_by cmp xs) = length xs"
proof -
  have "length (insert_by cmp x xs) = Suc (length xs)" for x xs by (induction xs) auto
  then show ?thesis by (induction xs) auto
qed

lemma insert_by_key: "insert_by (\<lambda>a b. cmp_of (f a) (f b)) x xs = insort_key f x xs"
  by (induction xs) (auto simp: not_less)

lemma sort_by_key: "sort_by (\<lambda>a b. cmp_of (f a) (f b)) xs = sort_key f xs"
  by (induction xs) (simp_all add: insert_by_key)

lemma insert_by_cong: "(\<And>y. y \<in> set ys \<Longrightarrow> c x y = d x y) \<Longrightarrow> insert_by c x ys = insert_by d x ys"
  by (induction ys) auto

lemma sort_by_cong: "(\<And>x y. x \<in> set xs \<Longrightarrow> y \<in> set xs \<Longrightarrow> c x y = d x y) \<Longrightarrow> sort_by c xs = sort_by d xs"
proof (induction xs)
  case (Cons x xs)
  then show ?case using insert_by_cong [of "sort_by d xs" c x d] by simp
qed simp

text \<open>A sorted list is determined by its items when their keys differ.\<close>

lemma sort_key_unique:
  fixes f :: "'a \<Rightarrow> 'b::linorder"
  assumes "set xs = set ys" "distinct xs" "distinct ys" "inj_on f (set xs)"
  shows "sort_key f xs = sort_key f ys"
proof (rule map_sorted_distinct_set_unique [of f])
  show "inj_on f (set (sort_key f xs) \<union> set (sort_key f ys))" using assms by simp
  show "distinct (map f (sort_key f xs))" "distinct (map f (sort_key f ys))"
    using assms by (simp_all add: distinct_map)
qed (use assms in simp_all)

section \<open>The order of nodes\<close>

text \<open>At every level the names on the way to a node and directories come first.\<close>

definition node_key :: "entry_kind \<Rightarrow> str list \<Rightarrow> (bool \<times> str) list" where
  "node_key k ns = map (\<lambda>n. (False, n)) (butlast ns) @ (if ns = [] then [] else [(\<not> kind_is_tree k, last ns)])"

lemma node_key_Cons: "node_key k (n # ns) = (ns = [] \<and> \<not> kind_is_tree k, n) # node_key k ns"
  by (simp add: node_key_def)

lemma node_key_Nil [simp]: "node_key k [] = []"
  by (simp add: node_key_def)

lemma cmp_of_flag: "cmp_of (a, m) (b, n) = (if a = b then cmp_of m n else if b then Less else Greater)"
  by (auto simp: cmp_of_def less_prod_def')

lemma lookahead_key:
  assumes "kinds = lookahead_kinds k1 k2 (map Normal as) (map Normal bs)"
  shows "(case entry_kind_cmp (snd kinds) (fst kinds) of Equal \<Rightarrow> cmp_of m n | c \<Rightarrow> c) =
    cmp_of (as = [] \<and> \<not> kind_is_tree k1, m) (bs = [] \<and> \<not> kind_is_tree k2, n)"
  using assms by (cases as; cases bs) (auto simp: lookahead_kinds_def entry_kind_cmp_def cmp_of_flag)

lemma node_cmp_key:
  "node_cmp_loop k1 k2 (map Normal as) (map Normal bs) = cmp_of (node_key k1 as) (node_key k2 bs)"
proof (induction as arbitrary: bs)
  case Nil
  then show ?case by (cases bs) (simp_all add: node_key_Cons)
next
  case outer: (Cons a as)
  show ?case
  proof (cases bs)
    case Nil
    then show ?thesis by (simp add: node_key_Cons)
  next
    case (Cons b bs')
    let ?c = "cmp_of (as = [] \<and> \<not> kind_is_tree k1, a) (bs' = [] \<and> \<not> kind_is_tree k2, b)"
    have lhs: "node_cmp_loop k1 k2 (map Normal (a # as)) (map Normal (b # bs')) =
        (if ?c = Equal then node_cmp_loop k1 k2 (map Normal as) (map Normal bs') else ?c)"
      using lookahead_key [of _ k1 k2 as bs' a b, OF refl] by (simp only: list.map node_cmp_loop.simps Let_def)
    have rhs: "cmp_of (node_key k1 (a # as)) (node_key k2 (b # bs')) =
        (if ?c = Equal then cmp_of (node_key k1 as) (node_key k2 bs') else ?c)"
      unfolding node_key_Cons cmp_of_Cons by (split ordering.split) auto
    show ?thesis by (simp only: Cons lhs rhs outer.IH)
  qed
qed

text \<open>
  On normalised paths the comparison of nodes, with its look ahead at the next components, is the
  lexicographic order of a key: at every level directories before files and then by name, a
  directory before what it contains.
\<close>

theorem node_cmp_lexicographic:
  "node_cmp_loop k1 k2 (map Normal as) (map Normal bs) = cmp_of (node_key k1 as) (node_key k2 bs)"
  by (rule node_cmp_key)

end
