(* ===== verification/Graph_Manifest.thy ===== *)
theory Graph_Manifest
  imports Manifest_Nodes
begin

text \<open>
  The stored form of a manifest (\<^verbatim>\<open>crates/spfs/src/graph/entry.rs\<close>, \<^verbatim>\<open>tree.rs\<close> and \<^verbatim>\<open>manifest.rs\<close>): one tree per directory,
  each entry of a directory naming its tree by digest, and the root tree first.

  The flatbuffers crate holds these objects; a table is the record of its fields. The digest algorithm and
  the normalisation of paths are parameters. Converting a stored manifest back follows digests,
  so it takes the number of levels it may descend; \<open>None\<close> means that this was not enough.
\<close>

section \<open>Entries and trees\<close>

datatype proto_kind = PBlob | PTree | PMask

record graph_entry =
  ge_name :: str
  ge_kind :: proto_kind
  ge_mode :: u32
  ge_size :: u64
  ge_object :: digest

type_synonym graph_tree = "graph_entry list"

datatype graph_error = GraphEntry entry_error | GraphEncoding encoding_error

type_synonym 'a graph_result = "(graph_error, 'a) outcome"

definition proto_of_kind :: "entry_kind \<Rightarrow> proto_kind" where
  "proto_of_kind k = (case k of Blob _ \<Rightarrow> PBlob | Tree \<Rightarrow> PTree | Mask \<Rightarrow> PMask)"

definition graph_entry_build :: "str \<Rightarrow> entry_kind \<Rightarrow> u32 \<Rightarrow> u64 \<Rightarrow> digest \<Rightarrow> graph_entry" where
  "graph_entry_build name kind mode sz object =
     \<lparr>ge_name = name, ge_kind = proto_of_kind kind, ge_mode = mode, ge_size = sz, ge_object = object\<rparr>"

definition graph_entry_from :: "str \<Rightarrow> 'u entry \<Rightarrow> graph_entry" where
  "graph_entry_from name entry =
     graph_entry_build name (e_kind entry) (e_mode entry) (size_for_legacy_encode entry) (e_object entry)"

definition graph_kind :: "graph_entry \<Rightarrow> entry_kind" where
  "graph_kind e = (case ge_kind e of PBlob \<Rightarrow> Blob (ge_size e) | PTree \<Rightarrow> Tree | PMask \<Rightarrow> Mask)"

definition graph_entry_size :: "graph_entry \<Rightarrow> u64" where
  "graph_entry_size e = (case ge_kind e of PBlob \<Rightarrow> ge_size e | _ \<Rightarrow> 0)"

definition graph_entry_cmp :: "graph_entry \<Rightarrow> graph_entry \<Rightarrow> ordering" where
  "graph_entry_cmp self other =
     (if ge_kind self = ge_kind other then cmp_of (ge_name self) (ge_name other)
      else entry_kind_cmp (graph_kind self) (graph_kind other))"

definition graph_entry_encode :: "graph_entry \<Rightarrow> byte_list graph_result" where
  "graph_entry_encode e =
     and_then (map_err GraphEncoding (write_digest (ge_object e))) (\<lambda>a.
     and_then (map_err GraphEntry (entry_kind_encode (graph_kind e))) (\<lambda>b.
     and_then (map_err GraphEncoding (write_uint64 (ucast (ge_mode e)))) (\<lambda>c.
     and_then (map_err GraphEncoding (write_uint64 (ge_size e))) (\<lambda>d.
     and_then (map_err GraphEncoding (write_string (ge_name e))) (\<lambda>f.
       Ok (a @ b @ c @ d @ f))))))"

definition graph_entry_decode :: "reader \<Rightarrow> (graph_entry \<times> reader) graph_result" where
  "graph_entry_decode r =
     and_then (map_err GraphEncoding (read_digest r)) (\<lambda>(object, r).
     and_then (map_err GraphEntry (entry_kind_decode r)) (\<lambda>(kind, r).
     and_then (map_err GraphEncoding (read_uint64 r)) (\<lambda>(mode, r).
     and_then (map_err GraphEncoding (read_uint64 r)) (\<lambda>(sz, r).
     and_then (map_err GraphEncoding (read_string r)) (\<lambda>(name, r).
       let kind = (if kind_is_blob kind then Blob sz else kind) in
       Ok (graph_entry_build name kind (ucast mode) sz object, r))))))"

definition tree_get :: "graph_tree \<Rightarrow> str \<Rightarrow> graph_entry option" where
  "tree_get t name = find (\<lambda>e. ge_name e = name) t"

fun encode_entries :: "graph_tree \<Rightarrow> byte_list graph_result" where
  "encode_entries [] = Ok []"
| "encode_entries (e # es) =
     and_then (graph_entry_encode e) (\<lambda>a. and_then (encode_entries es) (\<lambda>b. Ok (a @ b)))"

definition tree_encode :: "graph_tree \<Rightarrow> byte_list graph_result" where
  "tree_encode t =
     and_then (map_err GraphEncoding (write_uint64 (word_of_nat (length t)))) (\<lambda>a.
     and_then (encode_entries (sort_key ge_name t)) (\<lambda>b. Ok (a @ b)))"

fun decode_entries :: "nat \<Rightarrow> reader \<Rightarrow> (graph_tree \<times> reader) graph_result" where
  "decode_entries 0 r = Ok ([], r)"
| "decode_entries (Suc n) r =
     and_then (graph_entry_decode r) (\<lambda>(e, r). and_then (decode_entries n r) (\<lambda>(es, r). Ok (e # es, r)))"

definition tree_decode :: "reader \<Rightarrow> (graph_tree \<times> reader) graph_result" where
  "tree_decode r =
     and_then (map_err GraphEncoding (read_uint64 r)) (\<lambda>(entry_count, r). decode_entries (unat entry_count) r)"

definition tree_digest :: "(byte_list \<Rightarrow> digest) \<Rightarrow> graph_tree \<Rightarrow> digest graph_result" where
  "tree_digest hash t = and_then (tree_encode t) (\<lambda>bs. Ok (hash bs))"

text \<open>\<open>expect\<close> on the digest.\<close>

definition expect_digest :: "(byte_list \<Rightarrow> digest) \<Rightarrow> graph_tree \<Rightarrow> digest graph_result" where
  "expect_digest hash t = (case tree_digest hash t of Ok d \<Rightarrow> Ok d | _ \<Rightarrow> Panic)"

section \<open>Manifests\<close>

type_synonym graph_manifest = "graph_tree list"

fun encode_trees :: "graph_tree list \<Rightarrow> byte_list graph_result" where
  "encode_trees [] = Ok []"
| "encode_trees (t # ts) = and_then (tree_encode t) (\<lambda>a. and_then (encode_trees ts) (\<lambda>b. Ok (a @ b)))"

text \<open>The root tree comes first and is not counted; a manifest without trees does not exist.\<close>

definition manifest_encode :: "graph_manifest \<Rightarrow> byte_list graph_result" where
  "manifest_encode m =
     (case m of
        [] \<Rightarrow> Panic
      | root # trees \<Rightarrow>
          and_then (tree_encode root) (\<lambda>a.
          and_then (map_err GraphEncoding (write_uint64 (word_of_nat (length m) - 1))) (\<lambda>b.
          and_then (encode_trees trees) (\<lambda>c. Ok (a @ b @ c)))))"

fun decode_trees :: "nat \<Rightarrow> reader \<Rightarrow> (graph_tree list \<times> reader) graph_result" where
  "decode_trees 0 r = Ok ([], r)"
| "decode_trees (Suc n) r =
     and_then (tree_decode r) (\<lambda>(t, r). and_then (decode_trees n r) (\<lambda>(ts, r). Ok (t # ts, r)))"

definition manifest_decode :: "reader \<Rightarrow> (graph_manifest \<times> reader) graph_result" where
  "manifest_decode r =
     and_then (tree_decode r) (\<lambda>(root, r).
     and_then (map_err GraphEncoding (read_uint64 r)) (\<lambda>(num_trees, r).
     and_then (decode_trees (unat num_trees) r) (\<lambda>(trees, r). Ok (root # trees, r))))"

definition child_objects :: "graph_manifest \<Rightarrow> digest list" where
  "child_objects m =
     bs_from_list (concat (map (\<lambda>t. map ge_object (filter (\<lambda>e. kind_is_blob (graph_kind e)) t)) m))"

fun get_tree_cache :: "(byte_list \<Rightarrow> digest) \<Rightarrow> graph_tree list \<Rightarrow> (digest, graph_tree) hash_map \<Rightarrow> (digest, graph_tree) hash_map" where
  "get_tree_cache hash [] cache = cache"
| "get_tree_cache hash (t # ts) cache =
     (case tree_digest hash t of
        Ok digest \<Rightarrow> get_tree_cache hash ts (hm_insert digest t cache)
      | _ \<Rightarrow> get_tree_cache hash ts cache)"

definition get_tree :: "(byte_list \<Rightarrow> digest) \<Rightarrow> graph_manifest \<Rightarrow> digest \<Rightarrow> graph_tree option" where
  "get_tree hash m digest = find (\<lambda>t. tree_digest hash t = Ok digest) m"

definition new_tracking_entry :: "graph_entry \<Rightarrow> unit entry" where
  "new_tracking_entry e = Entry (graph_kind e) (if kind_is_tree (graph_kind e) then NULL_DIGEST else ge_object e)
     (ge_mode e) [] () (ge_size e)"

fun tree_loop ::
  "(graph_tree \<Rightarrow> unit entry \<Rightarrow> (unit, unit entry) outcome option) \<Rightarrow> (digest, graph_tree) hash_map \<Rightarrow> graph_tree
     \<Rightarrow> unit entry \<Rightarrow> (unit, unit entry) outcome option" where
  "tree_loop rec tree_cache [] parent = Some (Ok parent)"
| "tree_loop rec tree_cache (entry # rest) parent =
     (let new_entry = new_tracking_entry entry in
      if kind_is_tree (graph_kind entry) then
        (case hm_get tree_cache (ge_object entry) of
           None \<Rightarrow> Some Panic
         | Some t \<Rightarrow>
             (case rec t new_entry of
                Some (Ok new_entry) \<Rightarrow> tree_loop rec tree_cache rest (set_child parent (ge_name entry) new_entry)
              | r \<Rightarrow> r))
      else tree_loop rec tree_cache rest (set_child parent (ge_name entry) new_entry))"

fun iter_tree ::
  "nat \<Rightarrow> (digest, graph_tree) hash_map \<Rightarrow> graph_tree \<Rightarrow> unit entry \<Rightarrow> (unit, unit entry) outcome option" where
  "iter_tree 0 tree_cache t parent = None"
| "iter_tree (Suc levels) tree_cache t parent = tree_loop (iter_tree levels tree_cache) tree_cache t parent"

definition to_tracking_manifest ::
  "(byte_list \<Rightarrow> digest) \<Rightarrow> nat \<Rightarrow> graph_manifest \<Rightarrow> (unit, unit manifest) outcome option" where
  "to_tracking_manifest hash levels m =
     (case m of
        [] \<Rightarrow> Some Panic
      | root # _ \<Rightarrow>
          map_option (\<lambda>r. and_then r (\<lambda>e. Ok \<lparr>m_root = e\<rparr>))
            (iter_tree levels (get_tree_cache hash m []) root (empty_dir_with_open_perms_with_data ())))"

subsection \<open>Building\<close>

fun keep_unseen :: "(byte_list \<Rightarrow> digest) \<Rightarrow> digest list \<Rightarrow> graph_tree list \<Rightarrow> graph_tree list graph_result" where
  "keep_unseen hash seen [] = Ok []"
| "keep_unseen hash seen (t # ts) =
     and_then (expect_digest hash t) (\<lambda>d.
       if d \<in> set seen then keep_unseen hash seen ts
       else and_then (keep_unseen hash (d # seen) ts) (\<lambda>ts. Ok (t # ts)))"

lemma size_insert_by: "size_list f (insert_by cmp x xs) = f x + size_list f xs + 1"
  by (induction xs) auto

lemma size_sort_by [simp]: "size_list f (sort_by cmp xs) = size_list f xs"
  by (induction xs) (simp_all add: size_insert_by)

function build_from_entry ::
  "(byte_list \<Rightarrow> digest) \<Rightarrow> (str \<Rightarrow> str \<times> component_of_path list) \<Rightarrow> 'u entry \<Rightarrow> graph_tree list graph_result"
  and build_nodes ::
  "(byte_list \<Rightarrow> digest) \<Rightarrow> (str \<Rightarrow> str \<times> component_of_path list) \<Rightarrow> 'u node list \<Rightarrow> (graph_tree \<times> graph_tree list) graph_result" where
  "build_from_entry hash normalized (Entry k obj m es ud ls) =
     (let entries = sort_by (node_cmp normalized) es in
      and_then (build_nodes hash normalized entries) (\<lambda>(root, sub_manifests).
        keep_unseen hash [] (root # sub_manifests)))"
| "build_nodes hash normalized [] = Ok ([], [])"
| "build_nodes hash normalized ((name, e) # nodes) =
     (case e_kind e of
        Tree \<Rightarrow>
          and_then (build_from_entry hash normalized e) (\<lambda>sub.
          and_then (expect_digest hash (hd sub)) (\<lambda>sub_root_digest.
          and_then (build_nodes hash normalized nodes) (\<lambda>(roots, sub_manifests).
            Ok (graph_entry_build name (e_kind e) (e_mode e) (size_for_legacy_encode e) sub_root_digest # roots,
                sub @ sub_manifests))))
      | _ \<Rightarrow>
          and_then (build_nodes hash normalized nodes) (\<lambda>(roots, sub_manifests).
            Ok (graph_entry_from name e # roots, sub_manifests)))"
  by pat_completeness auto

termination
  by (relation "measure (\<lambda>s. case s of Inl (_, _, e) \<Rightarrow> size e
      | Inr (_, _, es) \<Rightarrow> size_list (size_prod (\<lambda>_. 0) size) es)") auto

definition to_graph_manifest ::
  "(byte_list \<Rightarrow> digest) \<Rightarrow> (str \<Rightarrow> str \<times> component_of_path list) \<Rightarrow> 'u manifest \<Rightarrow> graph_manifest graph_result" where
  "to_graph_manifest hash normalized m = build_from_entry hash normalized (m_root m)"

section \<open>The legacy encoding\<close>

definition graph_entry_wf :: "graph_entry \<Rightarrow> bool" where
  "graph_entry_wf e \<longleftrightarrow> digest_wf (ge_object e) \<and> text_wf (ge_name e)"

definition tree_wf :: "graph_tree \<Rightarrow> bool" where
  "tree_wf t \<longleftrightarrow> list_all graph_entry_wf t \<and> length t < 2 ^ 64"

definition entry_bytes :: "graph_entry \<Rightarrow> byte_list" where
  "entry_bytes e = ge_object e @ show_entry_kind (graph_kind e) @ [CHR 0x00] @ be_bytes INT64_SIZE (uint (ucast (ge_mode e) :: u64))
     @ be_bytes INT64_SIZE (uint (ge_size e)) @ ge_name e @ [CHR 0x00]"

definition tree_bytes :: "graph_tree \<Rightarrow> byte_list" where
  "tree_bytes t = be_bytes INT64_SIZE (uint (word_of_nat (length t) :: u64)) @ concat (map entry_bytes (sort_key ge_name t))"

lemma kind_text_wf: "text_wf (show_entry_kind k)"
  by (cases k) (simp_all add: show_entry_kind_def text_wf_def ascii_utf8 is_ascii_def)

lemma graph_entry_encode_bytes:
  assumes "graph_entry_wf e"
  shows "graph_entry_encode e = Ok (entry_bytes e)"
  using assms kind_text_wf [of "graph_kind e"]
  by (simp add: graph_entry_encode_def entry_bytes_def graph_entry_wf_def text_wf_def write_digest_def
      entry_kind_encode_def write_uint64_def write_string_def)

lemma entry_kind_decode_slice:
  "entry_kind_decode (slice (show_entry_kind k @ CHR 0x00 # rest)) =
    Ok (case k of Blob _ \<Rightarrow> Blob 0 | _ \<Rightarrow> k, slice rest)"
  using read_string_slice [OF kind_text_wf [of k], of rest]
  by (cases k) (simp_all add: entry_kind_decode_def entry_kind_from_str_def show_entry_kind_def)

lemma graph_entry_decode_bytes:
  assumes "graph_entry_wf e"
  shows "graph_entry_decode (slice (entry_bytes e @ rest)) = Ok (e, slice rest)"
proof -
  have mode: "ucast (ucast w :: u64) = w" for w :: u32 by (simp add: ucast_up_ucast_id is_up_def source_size_def target_size_def)
  have "digest_wf (ge_object e)" "text_wf (ge_name e)" using assms by (simp_all add: graph_entry_wf_def)
  then show ?thesis
    by (cases e; cases "ge_kind e")
      (simp_all add: entry_bytes_def graph_entry_decode_def read_digest_slice entry_kind_decode_slice read_uint64_slice
        read_string_slice graph_kind_def graph_entry_build_def proto_of_kind_def Let_def mode)
qed

lemma encode_entries_bytes:
  "list_all graph_entry_wf t \<Longrightarrow> encode_entries t = Ok (concat (map entry_bytes t))"
  by (induction t) (simp_all add: graph_entry_encode_bytes)

lemma decode_entries_bytes:
  "list_all graph_entry_wf t \<Longrightarrow> decode_entries (length t) (slice (concat (map entry_bytes t) @ rest)) = Ok (t, slice rest)"
  by (induction t) (simp_all add: graph_entry_decode_bytes)

lemma tree_wf_sort: "tree_wf t \<Longrightarrow> list_all graph_entry_wf (sort_key ge_name t)"
  by (simp add: tree_wf_def list_all_iff)

lemma tree_encode_bytes: "tree_wf t \<Longrightarrow> tree_encode t = Ok (tree_bytes t)"
  by (simp add: tree_encode_def write_uint64_def encode_entries_bytes tree_wf_sort tree_bytes_def)

lemma tree_decode_bytes:
  assumes "tree_wf t"
  shows "tree_decode (slice (tree_bytes t @ rest)) = Ok (sort_key ge_name t, slice rest)"
proof -
  have "unat (word_of_nat (length t) :: u64) = length (sort_key ge_name t)"
    using assms by (simp add: tree_wf_def unat_of_nat take_bit_eq_mod)
  then show ?thesis
    using decode_entries_bytes [OF tree_wf_sort [OF assms], of rest]
    by (simp add: tree_decode_def tree_bytes_def read_uint64_slice)
qed

lemma encode_trees_bytes: "list_all tree_wf ts \<Longrightarrow> encode_trees ts = Ok (concat (map tree_bytes ts))"
  by (induction ts) (simp_all add: tree_encode_bytes)

lemma decode_trees_bytes:
  "list_all tree_wf ts \<Longrightarrow> decode_trees (length ts) (slice (concat (map tree_bytes ts) @ rest)) = Ok (map (sort_key ge_name) ts, slice rest)"
  by (induction ts) (simp_all add: tree_decode_bytes)



lemma tree_bytes_inject:
  assumes "tree_wf t" "tree_wf t'" "tree_bytes t = tree_bytes t'"
  shows "sort_key ge_name t = sort_key ge_name t'"
  using tree_decode_bytes [OF assms(1), of "[]"] tree_decode_bytes [OF assms(2), of "[]"] assms(3) by simp

section \<open>Building and converting back\<close>

text \<open>The trees that can be stored: plain names, unique in their directory, and digests of the right length.\<close>

fun storable :: "'u entry \<Rightarrow> bool" where
  "storable (Entry k obj m es ud ls) \<longleftrightarrow> hm_wf es \<and> length es < 2 ^ 64
     \<and> list_all (\<lambda>p. plain_name (fst p) \<and> text_wf (fst p)
          \<and> (if kind_is_tree (e_kind (snd p)) then storable (snd p) else digest_wf (e_object (snd p)))) es"

text \<open>The tree of a directory, and the directories of a tree.\<close>

definition tree_key :: "graph_entry \<Rightarrow> bool \<times> str" where
  "tree_key e = (ge_kind e \<noteq> PTree, ge_name e)"

definition convert_child :: "digest \<Rightarrow> str \<times> 'u entry \<Rightarrow> graph_entry" where
  "convert_child d p = graph_entry_build (fst p) (e_kind (snd p)) (e_mode (snd p)) (size_for_legacy_encode (snd p))
     (if kind_is_tree (e_kind (snd p)) then d else e_object (snd p))"

fun graph_root :: "(byte_list \<Rightarrow> digest) \<Rightarrow> 'u entry \<Rightarrow> graph_tree" where
  "graph_root hash (Entry k obj m es ud ls) =
     sort_key tree_key (map (\<lambda>p. convert_child (hash (tree_bytes (graph_root hash (snd p)))) p) es)"

fun tree_nodes :: "'u entry \<Rightarrow> 'u entry list" where
  "tree_nodes (Entry k obj m es ud ls) =
     Entry k obj m es ud ls # concat (map (\<lambda>p. if kind_is_tree (e_kind (snd p)) then tree_nodes (snd p) else []) es)"

definition collision_free :: "(byte_list \<Rightarrow> digest) \<Rightarrow> 'u entry \<Rightarrow> bool" where
  "collision_free hash e \<longleftrightarrow> inj_on hash ((\<lambda>n. tree_bytes (graph_root hash n)) ` set (tree_nodes e))"

fun restored :: "'u entry \<Rightarrow> unit entry" where
  "restored (Entry k obj m es ud ls) =
     Entry k (if kind_is_tree k then NULL_DIGEST else obj) m
       (if kind_is_tree k
        then sort_key (\<lambda>p. (\<not> kind_is_tree (e_kind (snd p)), fst p)) (map (\<lambda>p. (fst p, restored (snd p))) es) else [])
       () (case k of Blob n \<Rightarrow> n | _ \<Rightarrow> ls)"

fun depth :: "'u entry \<Rightarrow> nat" where
  "depth (Entry k obj m es ud ls) = Suc (foldr max (map (\<lambda>p. depth (snd p)) es) 0)"

lemma convert_child_simps [simp]:
  "ge_name (convert_child d p) = fst p" "ge_kind (convert_child d p) = proto_of_kind (e_kind (snd p))"
  "ge_mode (convert_child d p) = e_mode (snd p)" "ge_size (convert_child d p) = size_for_legacy_encode (snd p)"
  by (simp_all add: convert_child_def graph_entry_build_def)

lemma proto_tree [simp]: "proto_of_kind k = PTree \<longleftrightarrow> kind_is_tree k"
  by (cases k) (simp_all add: proto_of_kind_def)

lemma tree_key_convert [simp]: "tree_key (convert_child d p) = (\<not> kind_is_tree (e_kind (snd p)), fst p)"
  by (simp add: tree_key_def)

lemma tree_wf_graph_root:
  assumes "storable e" "\<forall>bs. digest_wf (hash bs)"
  shows "tree_wf (graph_root hash e)"
  using assms
  by (cases e) (auto simp: tree_wf_def graph_entry_wf_def list_all_iff convert_child_def graph_entry_build_def)

lemma distinct_graph_root:
  assumes "storable e"
  shows "distinct (map ge_name (graph_root hash e))" "sorted (map tree_key (graph_root hash e))"
proof -
  obtain k obj m es ud ls where e: "e = Entry k obj m es ud ls" by (cases e)
  let ?c = "map (\<lambda>p. convert_child (hash (tree_bytes (graph_root hash (snd p)))) p) es"
  have "map ge_name ?c = map fst es" by simp
  then have "distinct (map ge_name ?c)" using assms by (metis e hm_wf_def storable.simps)
  then show "distinct (map ge_name (graph_root hash e))"
    unfolding e graph_root.simps distinct_map distinct_sort set_sort .
  show "sorted (map tree_key (graph_root hash e))" by (simp add: e)
qed

lemma graph_root_inject:
  assumes "storable e" "storable e'" "\<forall>bs. digest_wf (hash bs)"
    and "tree_bytes (graph_root hash e) = tree_bytes (graph_root hash e')"
  shows "graph_root hash e = graph_root hash e'"
proof -
  have "sort_key ge_name (graph_root hash e) = sort_key ge_name (graph_root hash e')"
    using assms by (intro tree_bytes_inject tree_wf_graph_root)
  then have sets: "set (graph_root hash e) = set (graph_root hash e')" by (metis set_sort)
  note d = distinct_graph_root [OF assms(1), of hash] distinct_graph_root [OF assms(2), of hash]
  have inj: "inj_on ge_name (set (graph_root hash e))" using d(1) by (simp add: distinct_map)
  show ?thesis
  proof (rule map_sorted_distinct_set_unique [of tree_key])
    show "inj_on tree_key (set (graph_root hash e) \<union> set (graph_root hash e'))"
      using inj sets by (auto simp: inj_on_def tree_key_def)
    show "distinct (map tree_key (graph_root hash e))" "distinct (map tree_key (graph_root hash e'))"
      using d inj sets by (auto simp: distinct_map inj_on_def tree_key_def)
  qed (use d sets in auto)
qed

subsection \<open>Building\<close>

lemma expect_digest_wf: "tree_wf t \<Longrightarrow> expect_digest hash t = Ok (hash (tree_bytes t))"
  by (simp add: expect_digest_def tree_digest_def tree_encode_bytes)

lemma keep_unseen_wf:
  assumes "list_all tree_wf ts"
  shows "\<exists>us. keep_unseen hash seen ts = Ok us \<and> set us \<subseteq> set ts
    \<and> (\<lambda>t. hash (tree_bytes t)) ` set ts \<subseteq> set seen \<union> (\<lambda>t. hash (tree_bytes t)) ` set us
    \<and> (ts \<noteq> [] \<longrightarrow> seen = [] \<longrightarrow> us \<noteq> [] \<and> hd us = hd ts)"
  using assms
proof (induction ts arbitrary: seen)
  case (Cons t ts)
  let ?d = "hash (tree_bytes t)"
  show ?case
  proof (cases "?d \<in> set seen")
    case True
    with Cons.IH [of seen] Cons.prems show ?thesis by (auto simp: expect_digest_wf)
  next
    case False
    with Cons.IH [of "?d # seen"] Cons.prems show ?thesis by (fastforce simp: expect_digest_wf)
  qed
qed simp

lemma sort_nodes:
  assumes "normalizes_plain normalized" "\<forall>p\<in>set es. plain_name (fst p)"
  shows "sort_by (node_cmp normalized) es = sort_key (\<lambda>p. (\<not> kind_is_tree (e_kind (snd p)), fst p)) es"
proof -
  have norm: "snd (normalized (fst p)) = map Normal [fst p]" if "p \<in> set es" for p
    using assms(1) [unfolded normalizes_plain_def, rule_format, of "[fst p]"] assms(2) that by simp
  have "node_cmp normalized p q = cmp_of (\<not> kind_is_tree (e_kind (snd p)), fst p) (\<not> kind_is_tree (e_kind (snd q)), fst q)"
    if "p \<in> set es" "q \<in> set es" for p q
  proof -
    have "node_cmp normalized p q = cmp_of (node_key (e_kind (snd p)) [fst p]) (node_key (e_kind (snd q)) [fst q])"
      unfolding node_cmp_def norm [OF that(1)] norm [OF that(2)] by (rule node_cmp_key)
    then show ?thesis by (simp add: node_key_def cmp_of_Cons split: ordering.split)
  qed
  then have "sort_by (node_cmp normalized) es = sort_by (\<lambda>p q. cmp_of (\<not> kind_is_tree (e_kind (snd p)), fst p)
      (\<not> kind_is_tree (e_kind (snd q)), fst q)) es"
    by (rule sort_by_cong)
  then show ?thesis by (simp only: sort_by_key)
qed

lemma map_insort_key: "map g (insort_key (\<lambda>x. f (g x)) x xs) = insort_key f (g x) (map g xs)"
  by (induction xs) auto

lemma map_sort_key: "map g (sort_key (\<lambda>x. f (g x)) xs) = sort_key f (map g xs)"
  by (induction xs) (simp_all add: map_insort_key)

lemma graph_root_sorted:
  "graph_root hash (Entry k obj m es ud ls) = map (\<lambda>p. convert_child (hash (tree_bytes (graph_root hash (snd p)))) p)
    (sort_key (\<lambda>p. (\<not> kind_is_tree (e_kind (snd p)), fst p)) es)"
  using map_sort_key [of "\<lambda>p. convert_child (hash (tree_bytes (graph_root hash (snd p)))) p" tree_key es] by simp

definition built :: "(byte_list \<Rightarrow> digest) \<Rightarrow> (str \<Rightarrow> str \<times> component_of_path list) \<Rightarrow> 'u entry \<Rightarrow> graph_tree list \<Rightarrow> bool" where
  "built hash normalized e ts \<longleftrightarrow> build_from_entry hash normalized e = Ok ts \<and> ts \<noteq> [] \<and> hd ts = graph_root hash e
     \<and> set ts \<subseteq> graph_root hash ` set (tree_nodes e)
     \<and> (\<lambda>n. hash (tree_bytes (graph_root hash n))) ` set (tree_nodes e) \<subseteq> (\<lambda>t. hash (tree_bytes t)) ` set ts"

definition sub_nodes :: "(str \<times> 'u entry) list \<Rightarrow> 'u entry set" where
  "sub_nodes es = (\<Union>p \<in> set es. if kind_is_tree (e_kind (snd p)) then set (tree_nodes (snd p)) else {})"

lemma sub_nodes_simps [simp]:
  "sub_nodes [] = {}"
  "sub_nodes (p # es) = (if kind_is_tree (e_kind (snd p)) then set (tree_nodes (snd p)) else {}) \<union> sub_nodes es"
  "sub_nodes (sort_by cmp es) = sub_nodes es"
  by (simp_all add: sub_nodes_def)

lemma set_tree_nodes: "set (tree_nodes (Entry k obj m es ud ls)) = insert (Entry k obj m es ud ls) (sub_nodes es)"
  by (simp add: sub_nodes_def)

lemma build_nodes_ok:
  assumes "\<And>p. p \<in> set ns \<Longrightarrow> kind_is_tree (e_kind (snd p)) \<Longrightarrow> tree_wf (graph_root hash (snd p)) \<and> (\<exists>ts. built hash normalized (snd p) ts)"
  shows "\<exists>subs. build_nodes hash normalized ns =
      Ok (map (\<lambda>p. convert_child (hash (tree_bytes (graph_root hash (snd p)))) p) ns, subs)
    \<and> set subs \<subseteq> graph_root hash ` sub_nodes ns
    \<and> (\<lambda>n. hash (tree_bytes (graph_root hash n))) ` sub_nodes ns \<subseteq> (\<lambda>t. hash (tree_bytes t)) ` set subs"
  using assms
proof (induction ns)
  case (Cons p ns)
  obtain name c where p: "p = (name, c)" by force
  obtain subs where subs: "build_nodes hash normalized ns =
      Ok (map (\<lambda>p. convert_child (hash (tree_bytes (graph_root hash (snd p)))) p) ns, subs)"
    "set subs \<subseteq> graph_root hash ` sub_nodes ns"
    "(\<lambda>n. hash (tree_bytes (graph_root hash n))) ` sub_nodes ns \<subseteq> (\<lambda>t. hash (tree_bytes t)) ` set subs"
    using Cons by auto
  show ?case
  proof (cases "kind_is_tree (e_kind c)")
    case True
    then obtain ts where ts: "built hash normalized c ts" "tree_wf (graph_root hash c)" using Cons.prems [of p] p by auto
    have "e_kind c = Tree" using True by (cases "e_kind c") simp_all
    then have "build_nodes hash normalized (p # ns) =
        Ok (map (\<lambda>p. convert_child (hash (tree_bytes (graph_root hash (snd p)))) p) (p # ns), ts @ subs)"
      using ts subs(1) by (simp add: p built_def expect_digest_wf convert_child_def)
    moreover have "set (ts @ subs) \<subseteq> graph_root hash ` sub_nodes (p # ns)"
      using ts(1) subs(2) True unfolding p built_def by (simp add: image_Un) blast
    moreover have "(\<lambda>n. hash (tree_bytes (graph_root hash n))) ` sub_nodes (p # ns) \<subseteq> (\<lambda>t. hash (tree_bytes t)) ` set (ts @ subs)"
      using ts(1) subs(3) True by (simp add: p built_def image_Un) blast
    ultimately show ?thesis by blast
  next
    case False
    then have "build_nodes hash normalized (p # ns) =
        Ok (map (\<lambda>p. convert_child (hash (tree_bytes (graph_root hash (snd p)))) p) (p # ns), subs)"
      using subs(1) by (cases "e_kind c") (simp_all add: p convert_child_def graph_entry_from_def)
    with False subs(2,3) show ?thesis by (simp add: p)
  qed
qed simp

lemma tree_nodes_storable: "storable e \<Longrightarrow> n \<in> set (tree_nodes e) \<Longrightarrow> storable n"
proof (induction e)
  case (Entry k obj m es ud ls)
  show ?case
  proof (cases "n = Entry k obj m es ud ls")
    case False
    then obtain p where p: "p \<in> set es" "kind_is_tree (e_kind (snd p))" "n \<in> set (tree_nodes (snd p))"
      using Entry.prems(2) by (auto split: if_splits)
    then have "storable (snd p)" using Entry.prems(1) by (auto simp: list_all_iff)
    with Entry.IH [of p "snd p"] p show ?thesis by (cases p) auto
  qed (use Entry.prems in simp)
qed

lemma nodes_tree_wf:
  assumes "storable e" "\<forall>bs. digest_wf (hash bs)" "set ts \<subseteq> graph_root hash ` set (tree_nodes e)"
  shows "list_all tree_wf ts"
  unfolding list_all_iff
proof
  fix t assume "t \<in> set ts"
  then obtain n where n: "n \<in> set (tree_nodes e)" "t = graph_root hash n" using assms(3) by blast
  show "tree_wf t" unfolding n(2) by (rule tree_wf_graph_root [OF tree_nodes_storable [OF assms(1) n(1)] assms(2)])
qed

lemma build_ok:
  assumes "storable e" "normalizes_plain normalized" "\<forall>bs. digest_wf (hash bs)"
  shows "\<exists>ts. built hash normalized e ts"
  using assms(1)
proof (induction e)
  case (Entry k obj m es ud ls)
  let ?e = "Entry k obj m es ud ls"
  let ?ns = "sort_by (node_cmp normalized) es"
  have sorted: "?ns = sort_key (\<lambda>p. (\<not> kind_is_tree (e_kind (snd p)), fst p)) es"
    using Entry.prems by (intro sort_nodes [OF assms(2)]) (auto simp: list_all_iff)
  have children: "tree_wf (graph_root hash (snd p)) \<and> (\<exists>ts. built hash normalized (snd p) ts)"
    if "p \<in> set ?ns" "kind_is_tree (e_kind (snd p))" for p
  proof -
    have "storable (snd p)" using Entry.prems that by (auto simp: list_all_iff)
    with Entry.IH [of p "snd p"] that tree_wf_graph_root [OF _ assms(3)] show ?thesis by (cases p) auto
  qed
  have root: "map (\<lambda>p. convert_child (hash (tree_bytes (graph_root hash (snd p)))) p) ?ns = graph_root hash ?e"
    by (subst graph_root_sorted, subst sorted, rule refl)
  have "\<exists>subs. build_nodes hash normalized ?ns =
      Ok (map (\<lambda>p. convert_child (hash (tree_bytes (graph_root hash (snd p)))) p) ?ns, subs)
    \<and> set subs \<subseteq> graph_root hash ` sub_nodes ?ns
    \<and> (\<lambda>n. hash (tree_bytes (graph_root hash n))) ` sub_nodes ?ns \<subseteq> (\<lambda>t. hash (tree_bytes t)) ` set subs"
    by (rule build_nodes_ok) (rule children)
  then obtain subs where
    subs: "build_nodes hash normalized ?ns = Ok (graph_root hash ?e, subs)" "set subs \<subseteq> graph_root hash ` sub_nodes es"
      "(\<lambda>n. hash (tree_bytes (graph_root hash n))) ` sub_nodes es \<subseteq> (\<lambda>t. hash (tree_bytes t)) ` set subs"
    unfolding root sub_nodes_simps(3) by blast
  have all: "set (graph_root hash ?e # subs) \<subseteq> graph_root hash ` set (tree_nodes ?e)"
    using subs(2) unfolding set_tree_nodes by auto
  have "list_all tree_wf (graph_root hash ?e # subs)" using Entry.prems assms(3) all by (rule nodes_tree_wf)
  from keep_unseen_wf [OF this, of hash "[]"] obtain us where
    us: "keep_unseen hash [] (graph_root hash ?e # subs) = Ok us" "set us \<subseteq> set (graph_root hash ?e # subs)"
      "(\<lambda>t. hash (tree_bytes t)) ` set (graph_root hash ?e # subs) \<subseteq> (\<lambda>t. hash (tree_bytes t)) ` set us"
      "us \<noteq> []" "hd us = graph_root hash ?e" by auto
  have "build_from_entry hash normalized ?e = Ok us" using subs(1) us(1) by simp
  moreover have "(\<lambda>n. hash (tree_bytes (graph_root hash n))) ` set (tree_nodes ?e) \<subseteq> (\<lambda>t. hash (tree_bytes t)) ` set us"
    using us(3) subs(3) unfolding set_tree_nodes image_insert by (simp only: list.set image_insert) blast
  ultimately show ?case using us all unfolding built_def by blast
qed

lemma built_all:
  assumes "built hash normalized e ts" "storable e" "\<forall>bs. digest_wf (hash bs)" "collision_free hash e"
  shows "set ts = graph_root hash ` set (tree_nodes e)"
proof
  show "set ts \<subseteq> graph_root hash ` set (tree_nodes e)" using assms(1) by (simp add: built_def)
  show "graph_root hash ` set (tree_nodes e) \<subseteq> set ts"
  proof
    fix t assume "t \<in> graph_root hash ` set (tree_nodes e)"
    then obtain n where n: "n \<in> set (tree_nodes e)" "t = graph_root hash n" by blast
    then have "hash (tree_bytes t) \<in> (\<lambda>t. hash (tree_bytes t)) ` set ts"
      using assms(1) unfolding built_def by blast
    then obtain t' where t': "t' \<in> set ts" "hash (tree_bytes t') = hash (tree_bytes t)" by force
    then obtain n' where n': "n' \<in> set (tree_nodes e)" "t' = graph_root hash n'"
      using assms(1) unfolding built_def by blast
    have "tree_bytes (graph_root hash n') = tree_bytes (graph_root hash n)"
      using assms(4) n n' t'(2) unfolding collision_free_def by (auto dest: inj_onD)
    then have "t' = t"
      using graph_root_inject [OF tree_nodes_storable [OF assms(2) n'(1)] tree_nodes_storable [OF assms(2) n(1)] assms(3)] n n'
      by simp
    with t'(1) show "t \<in> set ts" by simp
  qed
qed

lemma get_tree_cache_get:
  assumes "list_all tree_wf ts"
  shows "hm_get (get_tree_cache hash ts cache) d =
    (case find (\<lambda>t. hash (tree_bytes t) = d) (rev ts) of Some t \<Rightarrow> Some t | None \<Rightarrow> hm_get cache d)"
  using assms
proof (induction ts arbitrary: cache)
  case (Cons t ts)
  have "find P (xs @ [x]) = (case find P xs of Some y \<Rightarrow> Some y | None \<Rightarrow> if P x then Some x else None)" for P and xs :: "graph_tree list" and x
    by (induction xs) auto
  with Cons show ?case
    by (auto simp: tree_digest_def tree_encode_bytes split: option.split)
qed simp

lemma cache_complete:
  assumes "built hash normalized e ts" "storable e" "\<forall>bs. digest_wf (hash bs)" "collision_free hash e"
    and "n \<in> set (tree_nodes e)"
  shows "hm_get (get_tree_cache hash ts []) (hash (tree_bytes (graph_root hash n))) = Some (graph_root hash n)"
proof -
  let ?t = "graph_root hash n"
  have all: "set ts = graph_root hash ` set (tree_nodes e)" using assms(1-4) by (rule built_all)
  have wf: "list_all tree_wf ts" by (rule nodes_tree_wf [OF assms(2,3)]) (simp add: all)
  have same: "t' = ?t" if t': "t' \<in> set ts" "hash (tree_bytes t') = hash (tree_bytes ?t)" for t'
  proof -
    obtain n' where n': "n' \<in> set (tree_nodes e)" "t' = graph_root hash n'"
      using t'(1) unfolding all by blast
    have "tree_bytes t' = tree_bytes ?t"
      using assms(4,5) n' t'(2) unfolding collision_free_def by (auto dest: inj_onD)
    then show ?thesis
      using graph_root_inject [OF tree_nodes_storable [OF assms(2) n'(1)] tree_nodes_storable [OF assms(2) assms(5)] assms(3)] n' by simp
  qed
  have "?t \<in> set (rev ts)" using all assms(5) by simp
  then have "find (\<lambda>t. hash (tree_bytes t) = hash (tree_bytes ?t)) (rev ts) \<noteq> None" by (auto simp: find_None_iff)
  then obtain t' where "find (\<lambda>t. hash (tree_bytes t) = hash (tree_bytes ?t)) (rev ts) = Some t'" by blast
  moreover from this obtain i where "i < length (rev ts)" "t' = rev ts ! i" "hash (tree_bytes t') = hash (tree_bytes ?t)"
    by (auto simp: find_Some_iff)
  moreover from this have "t' = ?t" using same nth_mem [of i "rev ts"] by simp
  ultimately show ?thesis by (simp add: get_tree_cache_get [OF wf])
qed

subsection \<open>Converting back\<close>

definition with_children :: "unit entry \<Rightarrow> (str \<times> unit entry) list \<Rightarrow> unit entry" where
  "with_children e es = Entry (e_kind e) (e_object e) (e_mode e) es (e_user_data e) (e_legacy_size e)"

lemma hm_insert_fresh: "k \<notin> fst ` set m \<Longrightarrow> hm_insert k v m = m @ [(k, v)]"
  by (induction m) auto

lemma new_tracking_entry_restored:
  assumes "kind_is_tree (e_kind c)"
  shows "with_children (new_tracking_entry (convert_child d (n, c))) (e_entries (restored c)) = restored c"
  using assms
  by (cases c; cases "e_kind c")
    (auto simp: with_children_def new_tracking_entry_def graph_kind_def proto_of_kind_def size_for_legacy_encode_def)

lemma new_tracking_entry_leaf:
  assumes "\<not> kind_is_tree (e_kind c)"
  shows "new_tracking_entry (convert_child d (n, c)) = restored c"
  using assms
  by (cases c; cases "e_kind c")
    (auto simp: new_tracking_entry_def graph_kind_def proto_of_kind_def size_for_legacy_encode_def convert_child_def
      graph_entry_build_def)

lemma graph_kind_convert [simp]: "kind_is_tree (graph_kind (convert_child d p)) \<longleftrightarrow> kind_is_tree (e_kind (snd p))"
  by (cases "e_kind (snd p)") (simp_all add: graph_kind_def proto_of_kind_def)

lemma tree_loop_restored:
  assumes "distinct (map fst (e_entries parent) @ map fst ns)"
    and "\<And>n c. (n, c) \<in> set ns \<Longrightarrow> kind_is_tree (e_kind c) \<Longrightarrow>
      hm_get cache (hash (tree_bytes (graph_root hash c))) = Some (graph_root hash c)
      \<and> (\<forall>d. rec (graph_root hash c) (new_tracking_entry (convert_child d (n, c))) = Some (Ok (restored c)))"
  shows "tree_loop rec cache (map (\<lambda>p. convert_child (hash (tree_bytes (graph_root hash (snd p)))) p) ns) parent =
    Some (Ok (with_children parent (e_entries parent @ map (\<lambda>p. (fst p, restored (snd p))) ns)))"
  using assms
proof (induction ns arbitrary: parent)
  case Nil
  show ?case by (cases parent) (simp add: with_children_def)
next
  case (Cons p ns)
  obtain n c where p: "p = (n, c)" by force
  let ?g = "convert_child (hash (tree_bytes (graph_root hash c))) (n, c)"
  have fresh: "set_child parent n (restored c) = with_children parent (e_entries parent @ [(n, restored c)])"
    using Cons.prems(1) by (simp add: p set_child_def with_children_def hm_insert_fresh)
  let ?parent = "with_children parent (e_entries parent @ [(n, restored c)])"
  have IH: "tree_loop rec cache (map (\<lambda>p. convert_child (hash (tree_bytes (graph_root hash (snd p)))) p) ns) ?parent =
      Some (Ok (with_children ?parent (e_entries ?parent @ map (\<lambda>p. (fst p, restored (snd p))) ns)))"
    using Cons.prems by (intro Cons.IH) (auto simp: p with_children_def)
  have obj: "kind_is_tree (e_kind c) \<Longrightarrow> ge_object ?g = hash (tree_bytes (graph_root hash c))"
    by (simp add: convert_child_def graph_entry_build_def)
  have "tree_loop rec cache (?g # rest) parent = tree_loop rec cache rest ?parent" for rest
    using Cons.prems(2) [of n c] obj fresh
    by (cases "kind_is_tree (e_kind c)") (simp_all add: p new_tracking_entry_leaf)
  with IH show ?case by (simp add: p with_children_def)
qed

lemma depth_child: "(n, c) \<in> set (e_entries e) \<Longrightarrow> depth c < depth e"
proof -
  have le: "x \<in> set xs \<Longrightarrow> f x \<le> foldr max (map f xs) (0::nat)" for x f and xs :: "(str \<times> 'a entry) list"
    by (induction xs) auto
  show "(n, c) \<in> set (e_entries e) \<Longrightarrow> depth c < depth e"
    using le [of "(n, c)" "e_entries e" "\<lambda>p. depth (snd p)"] by (cases e) auto
qed

lemma iter_tree_restored:
  assumes "storable e" "kind_is_tree (e_kind e)" "depth e \<le> levels" "e_entries parent = []"
    and "\<And>n. n \<in> set (tree_nodes e) \<Longrightarrow> hm_get cache (hash (tree_bytes (graph_root hash n))) = Some (graph_root hash n)"
  shows "iter_tree levels cache (graph_root hash e) parent = Some (Ok (with_children parent (e_entries (restored e))))"
  using assms
proof (induction levels arbitrary: e parent)
  case 0
  then show ?case by (cases e) simp
next
  case (Suc levels)
  obtain k obj m es ud ls where e: "e = Entry k obj m es ud ls" by (cases e)
  let ?ns = "sort_key (\<lambda>p. (\<not> kind_is_tree (e_kind (snd p)), fst p)) es"
  have children: "hm_get cache (hash (tree_bytes (graph_root hash c))) = Some (graph_root hash c)
      \<and> (\<forall>d. iter_tree levels cache (graph_root hash c) (new_tracking_entry (convert_child d (n, c))) = Some (Ok (restored c)))"
    if "(n, c) \<in> set ?ns" "kind_is_tree (e_kind c)" for n c
  proof -
    have in_es: "(n, c) \<in> set es" using that by simp
    have sub: "set (tree_nodes c) \<subseteq> set (tree_nodes e)" using in_es that(2) unfolding e set_tree_nodes sub_nodes_def by force
    have "c \<in> set (tree_nodes c)" by (cases c) simp
    moreover have "iter_tree levels cache (graph_root hash c) (new_tracking_entry (convert_child d (n, c))) =
        Some (Ok (with_children (new_tracking_entry (convert_child d (n, c))) (e_entries (restored c))))" for d
    proof (rule Suc.IH)
      show "storable c" using Suc.prems(1) in_es that(2) by (fastforce simp: e list_all_iff)
      show "depth c \<le> levels" using depth_child [of n c e] in_es Suc.prems(3) by (simp add: e)
      show "e_entries (new_tracking_entry (convert_child d (n, c))) = []" by (simp add: new_tracking_entry_def)
    qed (use that sub Suc.prems(5) in auto)
    ultimately show ?thesis using sub Suc.prems(5) that(2) by (simp add: new_tracking_entry_restored subset_iff)
  qed
  have "distinct (map fst ?ns)"
  proof -
    have "distinct (map fst es)" using Suc.prems(1) by (simp add: e hm_wf_def)
    then show ?thesis by (simp add: distinct_map)
  qed
  then have "iter_tree (Suc levels) cache (graph_root hash e) parent =
      Some (Ok (with_children parent (map (\<lambda>p. (fst p, restored (snd p))) ?ns)))"
    using tree_loop_restored [of parent ?ns cache hash "iter_tree levels cache"] children Suc.prems(4)
    unfolding e graph_root_sorted by simp
  moreover have "e_kind (restored c) = e_kind c" for c :: "'a entry" by (cases c) simp
  ultimately show ?case
    using Suc.prems(2) map_sort_key [of "\<lambda>p. (fst p, restored (snd p))" "\<lambda>p. (\<not> kind_is_tree (e_kind (snd p)), fst p)" es]
    by (simp add: e)
qed

definition stored_meta :: "meta \<Rightarrow> meta" where
  "stored_meta x = (fst x, if kind_is_tree (fst x) then NULL_DIGEST else fst (snd x), snd (snd x))"

lemma map_of_sort_key: "distinct (map fst xs) \<Longrightarrow> map_of (sort_key f xs) = map_of xs"
  by (subst map_of_inject_set) (simp_all add: distinct_map)

lemma map_of_map_snd: "map_of (map (\<lambda>p. (fst p, g (snd p))) xs) n = map_option g (map_of xs n)"
  by (induction xs) auto

lemma hm_get_restored:
  assumes "storable e" "kind_is_tree (e_kind e)"
  shows "hm_get (e_entries (restored e)) n = map_option restored (hm_get (e_entries e) n)"
proof -
  obtain k obj m es ud ls where e: "e = Entry k obj m es ud ls" by (cases e)
  have "distinct (map fst (map (\<lambda>p. (fst p, restored (snd p))) es))" using assms(1) by (simp add: e hm_wf_def comp_def)
  then show ?thesis using assms(2) by (simp add: e map_of_sort_key map_of_map_snd)
qed

lemma restored_sel [simp]: "e_kind (restored e) = e_kind e" "meta_of (restored e) = stored_meta (meta_of e)"
  by (cases e; simp add: meta_of_def stored_meta_def)+

lemma storable_child:
  assumes "storable e" "hm_get (e_entries e) n = Some c" "kind_is_tree (e_kind c)"
  shows "storable c"
proof (cases e)
  case (Entry k obj m es ud ls)
  then have "(n, c) \<in> set es" using assms(2) by (simp add: map_of_SomeD)
  with assms(1,3) Entry show ?thesis by (auto simp: list_all_iff)
qed

lemma tree_at_restored:
  assumes "kind_is_tree (e_kind e) \<Longrightarrow> storable e"
  shows "tree_at (restored e) p = map_option stored_meta (tree_at e p)"
  using assms
proof (induction p arbitrary: e)
  case (Cons s rest)
  show ?case
  proof (cases "kind_is_tree (e_kind e)")
    case True
    have "tree_at (restored c) rest = map_option stored_meta (tree_at c rest)" if "hm_get (e_entries e) s = Some c" for c
      using that Cons.prems [OF True] by (intro Cons.IH) (rule storable_child)
    with True show ?thesis
      by (simp add: tree_at_Cons hm_get_restored [OF Cons.prems [OF True] True] split: option.split)
  qed (simp add: tree_at_Cons)
qed simp

text \<open>
  C16: Converting a manifest to its stored form and back gives the same tree: below the root every path has the
  kind, the mode and, unless it is a directory, the object it had. The digest has to be free of collisions on
  the trees of the manifest; the depth of the tree bounds the number of levels that the conversion
  descends.
\<close>

theorem manifest_store_round_trip:
  assumes "storable (m_root m)" "kind_is_tree (e_kind (m_root m))" "normalizes_plain normalized"
    and "\<forall>bs. digest_wf (hash bs)" "collision_free hash (m_root m)"
  shows "\<exists>gm. to_graph_manifest hash normalized m = Ok gm \<and> (\<forall>levels\<ge>depth (m_root m). \<exists>m'.
      to_tracking_manifest hash levels gm = Some (Ok m')
      \<and> (\<forall>p. p \<noteq> [] \<longrightarrow> tree_at (m_root m') p = map_option stored_meta (tree_at (m_root m) p)))"
proof -
  let ?e = "m_root m"
  let ?root = "with_children (empty_dir_with_open_perms_with_data ()) (e_entries (restored ?e))"
  obtain gm where gm: "built hash normalized ?e gm" using build_ok [OF assms(1,3,4)] by blast
  then obtain rest where cons: "gm = graph_root hash ?e # rest" by (cases gm) (auto simp: built_def)
  have "tree_at ?root p = map_option stored_meta (tree_at ?e p)" if ne: "p \<noteq> []" for p
  proof -
    obtain s q where "p = s # q" using ne by (cases p) auto
    then have "tree_at ?root p = tree_at (restored ?e) p"
      using assms(2) by (simp add: tree_at_Cons with_children_def empty_dir_with_open_perms_with_data_def)
    then show ?thesis using tree_at_restored [of ?e p] assms(1) by simp
  qed
  moreover have "to_tracking_manifest hash levels gm = Some (Ok \<lparr>m_root = ?root\<rparr>)" if "depth ?e \<le> levels" for levels
    using iter_tree_restored [OF assms(1,2) that, of "empty_dir_with_open_perms_with_data ()" "get_tree_cache hash gm []" hash]
      cache_complete [OF gm assms(1,4,5)]
    by (simp add: to_tracking_manifest_def cons empty_dir_with_open_perms_with_data_def)
  moreover have "to_graph_manifest hash normalized m = Ok gm" using gm by (simp add: to_graph_manifest_def built_def)
  ultimately show ?thesis by fastforce
qed

definition length_hash :: "byte_list \<Rightarrow> digest" where
  "length_hash bs = replicate DIGEST_SIZE (char_of (length bs))"

theorem manifest_store_round_trip_witness:
  "\<exists>gm m'. to_graph_manifest length_hash split_normalized
       \<lparr>m_root = example_dir [(''dd'', example_dir [(''f'', empty_file_with_open_perms_with_data ())])]\<rparr> = Ok gm
     \<and> to_tracking_manifest length_hash 9 gm = Some (Ok m')
     \<and> tree_at (m_root m') [''dd'', ''f''] = Some (Blob 0, EMPTY_DIGEST, 0x81FF)"
proof -
  let ?d = "example_dir [(''f'', empty_file_with_open_perms_with_data ())]"
  let ?m = "\<lparr>m_root = example_dir [(''dd'', ?d)]\<rparr>"
  have names: "plain_name ''dd''" "plain_name ''f''" "text_wf ''dd''" "text_wf ''f''"
    by (simp_all add: plain_name_def text_wf_def ascii_utf8 is_ascii_def)
  have digest: "digest_wf EMPTY_DIGEST" "\<forall>bs. digest_wf (length_hash bs)"
    by (simp_all add: digest_wf_def EMPTY_DIGEST_def DIGEST_SIZE_def length_hash_def)
  have storable: "storable (m_root ?m)"
    using names digest by (simp add: example_dir_def empty_file_with_open_perms_with_data_def hm_wf_def)
  have nodes: "set (tree_nodes (m_root ?m)) = {m_root ?m, ?d}"
    by (simp add: example_dir_def empty_file_with_open_perms_with_data_def)
  have "length (tree_bytes (graph_root length_hash ?d)) = 63" "length (tree_bytes (graph_root length_hash (m_root ?m))) = 64"
    by (simp_all add: tree_bytes_def entry_bytes_def example_dir_def empty_file_with_open_perms_with_data_def convert_child_def
        graph_entry_build_def length_hash_def INT64_SIZE_def EMPTY_DIGEST_def DIGEST_SIZE_def show_entry_kind_def graph_kind_def
        proto_of_kind_def)
  then have "length_hash (tree_bytes (graph_root length_hash ?d)) \<noteq> length_hash (tree_bytes (graph_root length_hash (m_root ?m)))"
    by (simp add: length_hash_def DIGEST_SIZE_def)
  then have "collision_free length_hash (m_root ?m)" unfolding collision_free_def nodes by (auto simp: inj_on_def)
  from manifest_store_round_trip [OF storable _ split_normalizes_plain digest(2) this]
  obtain gm where "to_graph_manifest length_hash split_normalized ?m = Ok gm" and levels: "\<forall>levels\<ge>depth (m_root ?m). \<exists>m'.
      to_tracking_manifest length_hash levels gm = Some (Ok m')
      \<and> (\<forall>p. p \<noteq> [] \<longrightarrow> tree_at (m_root m') p = map_option stored_meta (tree_at (m_root ?m) p))"
    by (auto simp: example_dir_def)
  moreover have "depth (m_root ?m) \<le> 9" by (simp add: example_dir_def empty_file_with_open_perms_with_data_def)
  moreover have "tree_at (m_root ?m) [''dd'', ''f''] = Some (Blob 0, EMPTY_DIGEST, 0x81FF)"
    by (simp add: tree_at_Cons example_dir_def empty_file_with_open_perms_with_data_def meta_of_def)
  ultimately show ?thesis by (fastforce simp: stored_meta_def)
qed

text \<open>
  The order of stored entries does not obey the laws of an order: a file compares as equal to a mask of any name, so two
  files that differ are both equal to the same mask.
\<close>

theorem graph_entry_cmp_unlawful: "\<not> ord_laws graph_entry_cmp"
proof
  assume laws: "ord_laws graph_entry_cmp"
  let ?e = "\<lambda>k n. graph_entry_build n k 0 0 NULL_DIGEST"
  have "graph_entry_cmp (?e (Blob 0) ''a'') (?e Mask ''b'') = Equal" "graph_entry_cmp (?e Mask ''b'') (?e (Blob 0) ''c'') = Equal"
    by (simp_all add: graph_entry_cmp_def graph_entry_build_def proto_of_kind_def graph_kind_def entry_kind_cmp_def)
  then have "graph_entry_cmp (?e (Blob 0) ''a'') (?e (Blob 0) ''c'') = Equal"
    by (rule ord_laws.cmp_Equal_trans [OF laws])
  then show False by (simp add: graph_entry_cmp_def graph_entry_build_def)
qed

end
