(* ===== verification/Diffs.thy ===== *)
theory Diffs
  imports Manifest_Nodes
begin

text \<open>
  Comparing two manifests (\<^verbatim>\<open>crates/spfs/src/tracking/diff.rs\<close>): the entries of both are walked, sorted and compared path by
  path. The joining and the normalisation of paths are the parameters of \<open>Entries\<close>. The debug assertion on a mask that
  hides nothing is not modelled, only the result that a release build gives.
\<close>

datatype 'u diff_mode =
    Unchanged "'u entry"
  | Changed "'u entry" "'u entry"
  | Added "'u entry"
  | Removed "'u entry"

definition show_diff_mode :: "'u diff_mode \<Rightarrow> str" where
  "show_diff_mode m = (case m of Unchanged _ \<Rightarrow> ''='' | Changed _ _ \<Rightarrow> ''~'' | Added _ \<Rightarrow> ''+'' | Removed _ \<Rightarrow> ''-'')"

definition diff_user_data :: "'u diff_mode \<Rightarrow> 'u" where
  "diff_user_data m =
     (case m of Unchanged e \<Rightarrow> e_user_data e | Changed a _ \<Rightarrow> e_user_data a | Added e \<Rightarrow> e_user_data e
      | Removed e \<Rightarrow> e_user_data e)"

text \<open>The type test of the unix_mode crate is a parameter.\<close>

definition diff_is_dir :: "(u32 \<Rightarrow> bool) \<Rightarrow> 'u diff_mode \<Rightarrow> bool" where
  "diff_is_dir is_dir m =
     (case m of Unchanged e \<Rightarrow> is_dir (e_mode e) | Changed a b \<Rightarrow> is_dir (e_mode a) \<and> is_dir (e_mode b)
      | Added e \<Rightarrow> is_dir (e_mode e) | Removed e \<Rightarrow> is_dir (e_mode e))"

record 'u diff =
  d_mode :: "'u diff_mode"
  d_path :: str

datatype 'u diff_path_result =
    DiffResult "'u diff"
  | PathMissingFromBothManifests
  | UselessMask

definition diff_path :: "'u manifest \<Rightarrow> 'u manifest \<Rightarrow> str \<Rightarrow> 'u diff_path_result" where
  "diff_path a b path =
     (case (get_path a path, get_path b path) of
        (None, None) \<Rightarrow> PathMissingFromBothManifests
      | (Some a_entry, Some b_entry) \<Rightarrow>
          if e_kind b_entry = Mask then DiffResult \<lparr>d_mode = Removed a_entry, d_path = path\<rparr>
          else if entry_eq a_entry b_entry then DiffResult \<lparr>d_mode = Unchanged a_entry, d_path = path\<rparr>
          else DiffResult \<lparr>d_mode = Changed a_entry b_entry, d_path = path\<rparr>
      | (None, Some e) \<Rightarrow>
          if e_kind e = Mask then UselessMask else DiffResult \<lparr>d_mode = Added e, d_path = path\<rparr>
      | (Some e, None) \<Rightarrow> DiffResult \<lparr>d_mode = Removed e, d_path = path\<rparr>)"

lemma pending_shorter: "(Some x, w') = walker_next join w \<Longrightarrow> length (pending join w') < length (pending join w)"
  using pending_next [of join w] by (auto split: prod.splits)

text \<open>All items of a walker.\<close>

function walker_collect :: "(str \<Rightarrow> str \<Rightarrow> str) \<Rightarrow> 'u walker \<Rightarrow> (str \<times> 'u entry) list" where
  "walker_collect join w =
     (case walker_next join w of (None, _) \<Rightarrow> [] | (Some x, w) \<Rightarrow> x # walker_collect join w)"
  by pat_completeness auto

termination
  by (relation "measure (\<lambda>(join, w). length (pending join w))") (auto intro: pending_shorter)

declare walker_collect.simps [simp del]

fun diff_loop :: "'u manifest \<Rightarrow> 'u manifest \<Rightarrow> str list \<Rightarrow> 'u node list \<Rightarrow> 'u diff list" where
  "diff_loop a b visited [] = []"
| "diff_loop a b visited ((path, e) # nodes) =
     (if path \<in> set visited then diff_loop a b visited nodes
      else case diff_path a b path of
             DiffResult d \<Rightarrow> d # diff_loop a b (path # visited) nodes
           | _ \<Rightarrow> diff_loop a b (path # visited) nodes)"

definition compute_diff ::
  "(str \<Rightarrow> str \<Rightarrow> str) \<Rightarrow> (str \<Rightarrow> str \<times> component_of_path list) \<Rightarrow> 'u manifest \<Rightarrow> 'u manifest \<Rightarrow> 'u diff list" where
  "compute_diff join normalized a b =
     diff_loop a b []
       (sort_by (node_cmp normalized) (walker_collect join (walk a) @ walker_collect join (walk b)))"

section \<open>What a diff lists\<close>

fun plain_tree :: "'u entry \<Rightarrow> bool" where
  "plain_tree (Entry k obj m es ud ls) \<longleftrightarrow> list_all (\<lambda>p. plain_name (fst p) \<and> plain_tree (snd p)) es"

text \<open>What the code relies on of the joining of paths: joining plain names to the root one by one puts slashes between
  them.\<close>

definition joins_plain :: "(str \<Rightarrow> str \<Rightarrow> str) \<Rightarrow> bool" where
  "joins_plain join \<longleftrightarrow> (\<forall>ns. ns \<noteq> [] \<longrightarrow> list_all plain_name ns \<longrightarrow> foldl join ''/'' ns = ''/'' @ path_of ns)"

definition compare_entries :: "'u entry option \<Rightarrow> 'u entry option \<Rightarrow> 'u diff_mode option" where
  "compare_entries x y =
     (case (x, y) of
        (None, None) \<Rightarrow> None
      | (Some a, Some b) \<Rightarrow>
          Some (if e_kind b = Mask then Removed a else if entry_eq a b then Unchanged a else Changed a b)
      | (None, Some b) \<Rightarrow> if e_kind b = Mask then None else Some (Added b)
      | (Some a, None) \<Rightarrow> Some (Removed a))"

lemma walker_collect_pending: "walker_collect join w = pending join w"
proof (induction join w rule: walker_collect.induct)
  case (1 join w)
  then show ?case
    using pending_next [of join w] by (subst walker_collect.simps) (auto split: prod.splits option.splits)
qed

lemma walk_collect: "walker_collect join (walk m) = listing join ''/'' (m_root m)"
  by (simp add: walker_collect_pending walk_def walker_new_def listing_eq)

lemma diff_loop_paths:
  "distinct (map d_path (diff_loop a b visited nodes)) \<and> d_path ` set (diff_loop a b visited nodes) \<inter> set visited = {}"
proof (induction a b visited nodes rule: diff_loop.induct)
  case (2 a b visited path e nodes)
  have "diff_path a b path = DiffResult d \<Longrightarrow> d_path d = path" for d
    by (auto simp: diff_path_def split: option.splits if_splits)
  with 2 show ?case by (auto split: diff_path_result.splits)
qed simp

lemma set_diff_loop:
  "d \<in> set (diff_loop a b visited nodes) \<longleftrightarrow>
    (\<exists>path \<in> fst ` set nodes - set visited. diff_path a b path = DiffResult d)"
proof (induction a b visited nodes rule: diff_loop.induct)
  case (2 a b visited path e nodes)
  then show ?case by (auto split: diff_path_result.splits)
qed simp

lemma get_steps_plain: "plain_tree e \<Longrightarrow> get_steps e ns = Some x \<Longrightarrow> list_all plain_name ns"
proof (induction ns arbitrary: e)
  case (Cons n ns)
  then obtain c where c: "hm_get (e_entries e) n = Some c" "get_steps c ns = Some x" by (auto split: if_splits option.splits)
  then have "plain_name n \<and> plain_tree c"
    using Cons.prems(1) map_of_SomeD [OF c(1)] by (cases e) (auto simp: list_all_iff)
  with Cons.IH [of c] c(2) show ?case by simp
qed simp

lemma get_path_slash:
  assumes "ns \<noteq> []" "list_all plain_name ns"
  shows "get_path m (''/'' @ path_of ns) = get_steps (m_root m) ns"
proof -
  have "trim_leading_slash (''/'' @ path_of ns) = path_of ns"
    using trim_leading_slash_plain [OF assms] by (subst trim_leading_slash.simps) simp
  then show ?thesis using get_path_plain [OF assms, of m] trim_leading_slash_plain [OF assms] by (simp add: get_path_def)
qed

lemma diff_path_plain:
  assumes "ns \<noteq> []" "list_all plain_name ns"
  shows "diff_path a b (''/'' @ path_of ns) = DiffResult d \<longleftrightarrow>
    compare_entries (get_steps (m_root a) ns) (get_steps (m_root b) ns) = Some (d_mode d) \<and> d_path d = ''/'' @ path_of ns"
  using get_path_slash [OF assms, of a] get_path_slash [OF assms, of b]
  by (cases d) (auto simp: diff_path_def compare_entries_def split: option.splits if_splits)

lemma walked_path:
  assumes "entry_wf (m_root m)" "kind_is_tree (e_kind (m_root m))" "plain_tree (m_root m)" "joins_plain join"
    and "ns \<noteq> []" "list_all plain_name ns"
  shows "''/'' @ path_of ns \<in> fst ` set (walker_collect join (walk m)) \<longleftrightarrow> get_steps (m_root m) ns \<noteq> None"
proof -
  have "''/'' @ path_of ns \<in> fst ` set (walker_collect join (walk m)) \<longleftrightarrow>
      (\<exists>q x. q \<noteq> [] \<and> get_steps (m_root m) q = Some x \<and> foldl join ''/'' q = ''/'' @ path_of ns)"
    unfolding walk_collect image_iff by (simp add: Bex_def set_listing [OF assms(1,2)] eq_commute) blast
  also have "\<dots> \<longleftrightarrow> (\<exists>x. get_steps (m_root m) ns = Some x)"
  proof
    assume "\<exists>q x. q \<noteq> [] \<and> get_steps (m_root m) q = Some x \<and> foldl join ''/'' q = ''/'' @ path_of ns"
    then obtain q x where q: "q \<noteq> []" "get_steps (m_root m) q = Some x" "foldl join ''/'' q = ''/'' @ path_of ns" by blast
    have plain: "list_all plain_name q" using assms(3) q(2) by (rule get_steps_plain)
    with q(1,3) assms(4) have "path_of q = path_of ns" by (simp add: joins_plain_def)
    then have "q = ns" using path_of_plain(1) [OF q(1) plain] path_of_plain(1) [OF assms(5,6)] by metis
    with q(2) show "\<exists>x. get_steps (m_root m) ns = Some x" by blast
  qed (use assms(4-6) in \<open>auto simp: joins_plain_def\<close>)
  finally show ?thesis by simp
qed

lemma bex_only: "(\<And>x. P x \<Longrightarrow> x = c) \<Longrightarrow> (\<exists>x\<in>S. P x) \<longleftrightarrow> c \<in> S \<and> P c"
  by blast

text \<open>
  C26: The diff of two manifests lists no path twice, and at every path of plain names it reports exactly how the entries of the two
  manifests compare: added, removed (also when the second one masks it), changed, or unchanged, and nothing where neither has an
  entry or a mask hides nothing.
\<close>

theorem compute_diff_complete:
  assumes "entry_wf (m_root a)" "kind_is_tree (e_kind (m_root a))" "plain_tree (m_root a)"
    and "entry_wf (m_root b)" "kind_is_tree (e_kind (m_root b))" "plain_tree (m_root b)"
    and "joins_plain join" "ns \<noteq> []" "list_all plain_name ns"
  shows "distinct (map d_path (compute_diff join normalized a b))
    \<and> (\<lparr>d_mode = mode, d_path = ''/'' @ path_of ns\<rparr> \<in> set (compute_diff join normalized a b) \<longleftrightarrow>
        compare_entries (get_steps (m_root a) ns) (get_steps (m_root b) ns) = Some mode)"
proof
  show "distinct (map d_path (compute_diff join normalized a b))"
    using diff_loop_paths unfolding compute_diff_def by blast
  let ?d = "\<lparr>d_mode = mode, d_path = ''/'' @ path_of ns\<rparr>"
  have own_path: "diff_path a b path = DiffResult ?d \<Longrightarrow> path = ''/'' @ path_of ns" for path
    by (auto simp: diff_path_def split: option.splits if_splits)
  have "?d \<in> set (compute_diff join normalized a b) \<longleftrightarrow>
      ''/'' @ path_of ns \<in> fst ` set (walker_collect join (walk a) @ walker_collect join (walk b))
      \<and> diff_path a b (''/'' @ path_of ns) = DiffResult ?d"
    unfolding compute_diff_def set_diff_loop set_sort_by list.set Diff_empty
    by (rule bex_only) (rule own_path)
  also have "\<dots> \<longleftrightarrow> (get_steps (m_root a) ns \<noteq> None \<or> get_steps (m_root b) ns \<noteq> None)
      \<and> compare_entries (get_steps (m_root a) ns) (get_steps (m_root b) ns) = Some mode"
    using walked_path [OF assms(1-3,7-9)] walked_path [OF assms(4-9)] diff_path_plain [OF assms(8,9), of a b ?d]
    by (simp add: image_Un)
  also have "\<dots> \<longleftrightarrow> compare_entries (get_steps (m_root a) ns) (get_steps (m_root b) ns) = Some mode"
    by (auto simp: compare_entries_def split: option.splits)
  finally show "?d \<in> set (compute_diff join normalized a b) \<longleftrightarrow>
      compare_entries (get_steps (m_root a) ns) (get_steps (m_root b) ns) = Some mode" .
qed

text \<open>Joining as the crate describes it: a slash between the parts unless the first one ends in one.\<close>

definition slash_join :: "str \<Rightarrow> str \<Rightarrow> str" where
  "slash_join p n = (if p \<noteq> [] \<and> last p = CHR ''/'' then p @ n else p @ ''/'' @ n)"

lemma foldl_slash_join:
  "p \<noteq> [] \<Longrightarrow> last p \<noteq> CHR ''/'' \<Longrightarrow> list_all plain_name ns \<Longrightarrow> foldl slash_join p ns = p @ concat (map (\<lambda>n. ''/'' @ n) ns)"
proof (induction ns arbitrary: p)
  case (Cons n ns)
  then have "last n \<noteq> CHR ''/''" "n \<noteq> []" using last_in_set [of n] by (auto simp: plain_name_def simp del: last_in_set)
  with Cons show ?case by (simp add: slash_join_def)
qed simp

lemma path_of_concat: "ns \<noteq> [] \<Longrightarrow> ''/'' @ path_of ns = concat (map (\<lambda>n. ''/'' @ n) ns)"
  by (induction "''/''" ns rule: join_str.induct) auto

lemma slash_joins_plain: "joins_plain slash_join"
  unfolding joins_plain_def
proof (intro allI impI)
  fix ns :: "str list" assume ns: "ns \<noteq> []" "list_all plain_name ns"
  then obtain n rest where n: "ns = n # rest" "plain_name n" "list_all plain_name rest" by (cases ns) auto
  then have "last n \<noteq> CHR ''/''" "n \<noteq> []" using last_in_set [of n] by (auto simp: plain_name_def simp del: last_in_set)
  then have "foldl slash_join ''/'' ns = concat (map (\<lambda>n. ''/'' @ n) ns)"
    using foldl_slash_join [of "''/'' @ n" rest] n by (simp add: slash_join_def)
  then show "foldl slash_join ''/'' ns = ''/'' @ path_of ns" using path_of_concat [OF ns(1)] by simp
qed

theorem compute_diff_complete_witness:
  "\<lparr>d_mode = Removed (empty_file_with_open_perms_with_data ()), d_path = ''/a''\<rparr> \<in> set (compute_diff slash_join split_normalized
     \<lparr>m_root = example_dir [(''a'', empty_file_with_open_perms_with_data ())]\<rparr> \<lparr>m_root = example_dir [(''a'', mask_with_data ())]\<rparr>)"
  using compute_diff_complete [of "\<lparr>m_root = example_dir [(''a'', empty_file_with_open_perms_with_data ())]\<rparr>"
      "\<lparr>m_root = example_dir [(''a'', mask_with_data ())]\<rparr>" slash_join "[''a'']" split_normalized
      "Removed (empty_file_with_open_perms_with_data ())"] slash_joins_plain
  by (simp add: example_dir_def empty_file_with_open_perms_with_data_def mask_with_data_def hm_wf_def plain_name_def compare_entries_def)

end
