(* ===== verification/Tags.thy ===== *)
theory Tags
  imports Names Encoding
begin

text \<open>
  Tags and tag specifiers (\<^verbatim>\<open>crates/spfs/src/tracking/tag.rs\<close>): the parser and the printer of
  \<open>[org/]name[~version]\<close>, the order on tags, and their binary form.

  Times come from the chrono crate. They are the values of a type with a linear order, and their printed
  form and its parser are parameters; so is the digest algorithm. The user name of the configuration and the current
  time, which \<open>Tag::new\<close> reads from the process, are arguments.
\<close>

section \<open>Tag specifiers\<close>

datatype tag_part = OrgPart | NamePart | VersionPart

datatype tag_error =
    EmptyTagName str
  | InvalidTagChar tag_part nat str str str
  | InvalidVersionNumber
  | TagEncoding encoding_error
  | TagTime str

type_synonym 'a tag_result = "(tag_error, 'a) outcome"

datatype tag_spec = TagSpec (ts_org: "str option") (ts_name: str) (ts_version: u64)

definition is_tag_name_char :: "char \<Rightarrow> bool" where
  "is_tag_name_char c \<longleftrightarrow> c = CHR ''-'' \<or> c = CHR ''_'' \<or> c = CHR ''.'' \<or> is_ascii_alphanumeric c"

definition is_tag_org_char :: "char \<Rightarrow> bool" where
  "is_tag_org_char c \<longleftrightarrow>
     c = CHR ''-'' \<or> c = CHR ''_'' \<or> c = CHR ''.'' \<or> c = CHR ''/'' \<or> is_ascii_alphanumeric c"

definition is_tag_version_char :: "char \<Rightarrow> bool" where
  "is_tag_version_char c \<longleftrightarrow> c = CHR ''-'' \<or> c = CHR ''_'' \<or> c = CHR ''.'' \<or> is_ascii_digit c"

definition find_error :: "(char \<Rightarrow> bool) \<Rightarrow> str \<Rightarrow> nat option" where
  "find_error valid s = (let i = first_invalid valid 0 (utf8_chars s) in if -1 < i then Some (nat i) else None)"

definition find_name_error :: "str \<Rightarrow> nat option" where
  "find_name_error name = find_error is_tag_name_char name"

definition find_org_error :: "str \<Rightarrow> nat option" where
  "find_org_error org = find_error is_tag_org_char org"

definition find_version_error :: "str \<Rightarrow> nat option" where
  "find_version_error version = find_error is_tag_version_char version"

text \<open>The message slices the part around the character by byte offsets.\<close>

definition tag_char_error :: "tag_part \<Rightarrow> str \<Rightarrow> nat option \<Rightarrow> unit tag_result" where
  "tag_char_error part s index =
     (case index of
        None \<Rightarrow> Ok ()
      | Some i \<Rightarrow>
          if is_char_boundary s i \<and> i < length (utf8_chars s) \<and> is_char_boundary s (i + 1)
          then Err (InvalidTagChar part i (take i s) (utf8_chars s ! i) (drop (i + 1) s)) else Panic)"

text \<open>\<open>rsplitn(2, '/')\<close> splits at the last slash, \<open>splitn(2, '~')\<close> at the first tilde.\<close>

definition split_tag_spec :: "str \<Rightarrow> tag_spec tag_result" where
  "split_tag_spec spec =
     (let (org, name_version) = (case rsplit_once CHR ''/'' spec of Some p \<Rightarrow> p | None \<Rightarrow> ([], spec));
          (name, version) = (case split_once CHR ''~'' name_version of Some p \<Rightarrow> p | None \<Rightarrow> (name_version, ''0'')) in
      if name = [] then Err (EmptyTagName spec)
      else
        and_then (tag_char_error OrgPart org (find_org_error org)) (\<lambda>_.
        and_then (tag_char_error NamePart name (find_name_error name)) (\<lambda>_.
        and_then (tag_char_error VersionPart version (find_version_error version)) (\<lambda>_.
          let org = (if org = [] then None else Some org) in
          case parse_u64 version of
            None \<Rightarrow> Err InvalidVersionNumber
          | Some v \<Rightarrow> Ok (TagSpec org name v)))))"

definition show_tag_spec :: "tag_spec \<Rightarrow> str" where
  "show_tag_spec spec =
     (case spec of
        TagSpec None name version \<Rightarrow> if version = 0 then name else name @ ''~'' @ show_u64 version
      | TagSpec (Some org) name version \<Rightarrow>
          if version = 0 then org @ ''/'' @ name else org @ ''/'' @ name @ ''~'' @ show_u64 version)"

definition tag_spec_path :: "tag_spec \<Rightarrow> str" where
  "tag_spec_path spec =
     (case ts_org spec of Some org \<Rightarrow> org @ ''/'' @ ts_name spec | None \<Rightarrow> ts_name spec)"

definition with_version :: "tag_spec \<Rightarrow> u64 \<Rightarrow> tag_spec" where
  "with_version spec version = TagSpec (ts_org spec) (ts_name spec) version"

definition build_tag_spec :: "str option \<Rightarrow> str \<Rightarrow> u64 \<Rightarrow> tag_spec tag_result" where
  "build_tag_spec org name version =
     (let path = (case org of Some org \<Rightarrow> org @ ''/'' @ name | None \<Rightarrow> name);
          spec = (if version \<noteq> 0 then path @ ''~'' @ show_u64 version else path) in
      split_tag_spec spec)"

section \<open>Tags\<close>

record 't tag =
  tag_time :: 't
  tag_org :: "str option"
  tag_name :: str
  tag_target :: digest
  tag_parent :: digest
  tag_user :: str

definition tag_new :: "str tag_result \<Rightarrow> 't \<Rightarrow> str option \<Rightarrow> str \<Rightarrow> digest \<Rightarrow> 't tag tag_result" where
  "tag_new config_user now org name target =
     and_then config_user (\<lambda>user.
     and_then (build_tag_spec org name 0) (\<lambda>spec.
       Ok \<lparr>tag_time = now, tag_org = ts_org spec, tag_name = ts_name spec, tag_target = target,
            tag_parent = NULL_DIGEST, tag_user = user\<rparr>))"

definition tag_to_spec :: "'t tag \<Rightarrow> u64 \<Rightarrow> tag_spec" where
  "tag_to_spec t version = TagSpec (tag_org t) (tag_name t) version"

definition tag_path :: "'t tag \<Rightarrow> str" where
  "tag_path t = (case tag_org t of Some org \<Rightarrow> org @ ''/'' @ tag_name t | None \<Rightarrow> tag_name t)"

definition username_without_org :: "'t tag \<Rightarrow> str" where
  "username_without_org t = hd (split_str CHR ''@'' (tag_user t))"

text \<open>The derived order compares the fields in the order of their declaration.\<close>

definition tag_key :: "'t tag \<Rightarrow> 't \<times> str option \<times> str \<times> digest \<times> digest \<times> str" where
  "tag_key t = (tag_time t, tag_org t, tag_name t, tag_target t, tag_parent t, tag_user t)"

definition tag_cmp :: "'t::linorder tag \<Rightarrow> 't tag \<Rightarrow> ordering" where
  "tag_cmp a b = cmp_of (tag_key a) (tag_key b)"

definition write_tag_string :: "str \<Rightarrow> byte_list tag_result" where
  "write_tag_string s = map_err TagEncoding (write_string s)"

definition tag_encode :: "('t \<Rightarrow> str) \<Rightarrow> 't tag \<Rightarrow> byte_list tag_result" where
  "tag_encode to_rfc3339 t =
     and_then (write_tag_string (case tag_org t of Some org \<Rightarrow> org | None \<Rightarrow> [])) (\<lambda>a.
     and_then (write_tag_string (tag_name t)) (\<lambda>b.
     and_then (map_err TagEncoding (write_digest (tag_target t))) (\<lambda>c.
     and_then (write_tag_string (tag_user t)) (\<lambda>d.
     and_then (write_tag_string (to_rfc3339 (tag_time t))) (\<lambda>e.
     and_then (map_err TagEncoding (write_digest (tag_parent t))) (\<lambda>f.
       Ok (a @ b @ c @ d @ e @ f)))))))"

definition tag_decode :: "(str \<Rightarrow> 't option) \<Rightarrow> reader \<Rightarrow> ('t tag \<times> reader) tag_result" where
  "tag_decode parse_from_rfc3339 r =
     and_then (map_err TagEncoding (read_string r)) (\<lambda>(org, r).
     let org = (if org = [] then None else Some org) in
     and_then (map_err TagEncoding (read_string r)) (\<lambda>(name, r).
     and_then (map_err TagEncoding (read_digest r)) (\<lambda>(target, r).
     and_then (map_err TagEncoding (read_string r)) (\<lambda>(user, r).
     and_then (map_err TagEncoding (read_string r)) (\<lambda>(time, r).
     case parse_from_rfc3339 time of
       None \<Rightarrow> Err (TagTime time)
     | Some time \<Rightarrow>
         and_then (map_err TagEncoding (read_digest r)) (\<lambda>(parent, r).
           Ok (\<lparr>tag_time = time, tag_org = org, tag_name = name, tag_target = target,
                 tag_parent = parent, tag_user = user\<rparr>, r)))))))"

definition tag_digest :: "(byte_list \<Rightarrow> digest) \<Rightarrow> ('t \<Rightarrow> str) \<Rightarrow> 't tag \<Rightarrow> digest tag_result" where
  "tag_digest hash to_rfc3339 t = and_then (tag_encode to_rfc3339 t) (\<lambda>bs. Ok (hash bs))"

section \<open>Parsing and printing\<close>

definition tag_spec_wf :: "tag_spec \<Rightarrow> bool" where
  "tag_spec_wf spec \<longleftrightarrow> ts_name spec \<noteq> [] \<and> list_all is_tag_name_char (ts_name spec)
     \<and> (case ts_org spec of None \<Rightarrow> True | Some org \<Rightarrow> org \<noteq> [] \<and> list_all is_tag_org_char org)"

lemma tag_chars_ascii:
  "is_tag_name_char c \<Longrightarrow> is_ascii c" "is_tag_org_char c \<Longrightarrow> is_ascii c" "is_tag_version_char c \<Longrightarrow> is_ascii c"
  using valid_char_facts(1)
  by (auto simp: is_tag_name_char_def is_tag_org_char_def is_tag_version_char_def is_ascii_alphanumeric_def
      is_ascii_def)

lemma find_error_None: "(\<And>c. v c \<Longrightarrow> is_ascii c) \<Longrightarrow> find_error v s = None \<longleftrightarrow> list_all v s"
  using validate_source_str_none [of v s] by (auto simp: find_error_def validate_source_str_def Let_def)

lemma tag_char_error_Ok: "tag_char_error part s i = Ok u \<longleftrightarrow> i = None"
  by (simp add: tag_char_error_def split: option.split)

lemma find_errors_None:
  "find_name_error s = None \<longleftrightarrow> list_all is_tag_name_char s"
  "find_org_error s = None \<longleftrightarrow> list_all is_tag_org_char s"
  "find_version_error s = None \<longleftrightarrow> list_all is_tag_version_char s"
  by (simp_all add: find_name_error_def find_org_error_def find_version_error_def find_error_None tag_chars_ascii)

lemmas tag_char_defs = is_tag_name_char_def is_tag_version_char_def is_ascii_alphanumeric_def
  is_ascii_lowercase_def is_ascii_uppercase_def is_ascii_digit_def less_eq_char_def

lemma tag_name_no_separator: "list_all is_tag_name_char s \<Longrightarrow> CHR ''/'' \<notin> set s \<and> CHR ''~'' \<notin> set s"
proof -
  have "\<not> is_tag_name_char CHR ''/''" "\<not> is_tag_name_char CHR ''~''"
    by (simp_all add: tag_char_defs)
  then show "list_all is_tag_name_char s \<Longrightarrow> ?thesis" by (auto simp: list_all_iff)
qed

lemma list_all_subset: "set s \<subseteq> set t \<Longrightarrow> list_all P t \<Longrightarrow> list_all P s"
  by (auto simp: list_all_iff)

lemma digits_are_version_chars:
  assumes "set s \<subseteq> set ''0123456789''"
  shows "list_all is_tag_version_char s" "CHR ''/'' \<notin> set s"
proof -
  have "list_all is_tag_version_char ''0123456789''" by (simp add: tag_char_defs)
  then show "list_all is_tag_version_char s" by (rule list_all_subset [OF assms])
  have "list_all (\<lambda>c. c \<noteq> CHR ''/'') ''0123456789''" by simp
  from list_all_subset [OF assms this] show "CHR ''/'' \<notin> set s" by (auto simp: list_all_iff)
qed

lemma parse_u64_zero: "parse_u64 ''0'' = Some 0"
  by code_simp

lemma split_tag_spec_parts:
  assumes org: "list_all is_tag_org_char org" and name: "name \<noteq> []" "list_all is_tag_name_char name"
    and sep: "prefix = (if org = [] then [] else org @ ''/'')"
    and tail: "tail = (if v = 0 then [] else ''~'' @ show_u64 v)"
  shows "split_tag_spec (prefix @ name @ tail) = Ok (TagSpec (if org = [] then None else Some org) name v)"
proof -
  note v = digits_are_version_chars [OF set_show_u64 [of v]]
  have "CHR ''/'' \<notin> set (name @ tail)" using tag_name_no_separator [OF name(2)] v(2) by (simp add: tail)
  then have "rsplit_once CHR ''/'' (prefix @ name @ tail) = (if org = [] then None else Some (org, name @ tail))"
    using rsplit_once_append [of "CHR ''/''" "name @ tail" org] by (simp add: sep)
  moreover have "split_once CHR ''~'' (name @ tail) = (if v = 0 then None else Some (name, show_u64 v))"
    using tag_name_no_separator [OF name(2)] by (simp add: tail)
  moreover have "list_all is_tag_version_char ''0''" by (simp add: tag_char_defs)
  ultimately show ?thesis
    using org name v(1)
    by (simp add: split_tag_spec_def tail sep tag_char_error_def find_errors_None [THEN iffD2] parse_u64_zero Let_def)
qed

lemma show_tag_spec_parts:
  assumes "tag_spec_wf spec"
  shows "\<exists>org. list_all is_tag_org_char org \<and> ts_org spec = (if org = [] then None else Some org)
    \<and> show_tag_spec spec = (if org = [] then [] else org @ ''/'') @ ts_name spec
        @ (if ts_version spec = 0 then [] else ''~'' @ show_u64 (ts_version spec))"
  using assms
  by (cases spec; cases "ts_org spec") (auto simp: tag_spec_wf_def show_tag_spec_def)

lemma build_tag_spec_show: "build_tag_spec (ts_org spec) (ts_name spec) (ts_version spec) = split_tag_spec (show_tag_spec spec)"
  by (cases spec; cases "ts_org spec") (simp_all add: build_tag_spec_def show_tag_spec_def Let_def)

lemma split_show_tag_spec:
  assumes "tag_spec_wf spec"
  shows "split_tag_spec (show_tag_spec spec) = Ok spec"
proof -
  obtain org where org: "list_all is_tag_org_char org" "ts_org spec = (if org = [] then None else Some org)"
    and printed: "show_tag_spec spec = (if org = [] then [] else org @ ''/'') @ ts_name spec
        @ (if ts_version spec = 0 then [] else ''~'' @ show_u64 (ts_version spec))"
    using show_tag_spec_parts [OF assms] by blast
  have "ts_name spec \<noteq> []" "list_all is_tag_name_char (ts_name spec)" using assms by (simp_all add: tag_spec_wf_def)
  from split_tag_spec_parts [OF org(1) this refl refl, of "ts_version spec"]
  have "split_tag_spec (show_tag_spec spec) = Ok (TagSpec (ts_org spec) (ts_name spec) (ts_version spec))"
    by (simp only: printed org(2))
  then show ?thesis by simp
qed

text \<open>
  C37: Printing a well-formed tag specifier and parsing the text gives the specifier back, with its
  organisation, name and version, and so does building it from its parts.
\<close>

theorem tag_spec_parse_print:
  assumes "tag_spec_wf spec"
  shows "split_tag_spec (show_tag_spec spec) = Ok spec
    \<and> build_tag_spec (ts_org spec) (ts_name spec) (ts_version spec) = Ok spec"
  using split_show_tag_spec [OF assms] by (simp add: build_tag_spec_show)

theorem tag_spec_parse_print_witness:
  "split_tag_spec ''spi/main~4'' = Ok (TagSpec (Some ''spi'') ''main'' 4)"
proof -
  let ?s = "TagSpec (Some ''spi'') ''main'' 4"
  have "tag_spec_wf ?s" by (simp add: tag_spec_wf_def tag_char_defs is_tag_org_char_def)
  moreover have "show_tag_spec ?s = ''spi/main~4''" by code_simp
  ultimately show ?thesis using tag_spec_parse_print [of ?s] by simp
qed

text \<open>
  C38: Every specifier that the parser returns is well formed: a non-empty name of the allowed
  characters, and either no organisation or a non-empty one of the allowed characters.
\<close>

theorem split_tag_spec_wf:
  assumes "split_tag_spec s = Ok spec"
  shows "tag_spec_wf spec"
  using assms
  by (auto simp: split_tag_spec_def tag_spec_wf_def tag_char_error_Ok find_errors_None Let_def
      split: prod.splits if_splits option.splits)

theorem split_tag_spec_wf_witness: "tag_spec_wf (TagSpec None ''main'' 0)"
proof (rule split_tag_spec_wf [of "''main''"])
  have "tag_spec_wf (TagSpec None ''main'' 0)" by (simp add: tag_spec_wf_def tag_char_defs)
  from show_tag_spec_parts [OF this] split_tag_spec_parts [of "[]" "''main''" "[]" "[]" 0]
  show "split_tag_spec ''main'' = Ok (TagSpec None ''main'' 0)" by (simp add: tag_char_defs)
qed

lemma ascii_no_boundary_panic:
  assumes "list_all is_ascii s" "find_error v s = Some i"
  shows "tag_char_error part s (Some i) \<noteq> Panic"
proof -
  have "validate_source_str s v = int i"
    using assms(2) by (auto simp: find_error_def validate_source_str_def Let_def split: if_splits)
  from invalid_char_panics_iff [OF this, of TagName, where 'a = unit] show ?thesis
    using assms(1) ascii_not_continuation
    by (auto simp: tag_char_error_def invalid_char_error_def list_all_length split: if_splits)
qed

lemma set_rsplit_once: "rsplit_once sep s = Some (a, b) \<Longrightarrow> s = a @ sep # b"
  by (auto simp: rsplit_once_def split_once_Some_iff rev_eq_append_conv)

lemma tag_parts_ascii:
  assumes "list_all is_ascii s"
    and "(case rsplit_once CHR ''/'' s of Some p \<Rightarrow> p | None \<Rightarrow> ([], s)) = (org, nv)"
    and "(case split_once CHR ''~'' nv of Some p \<Rightarrow> p | None \<Rightarrow> (nv, ''0'')) = (name, version)"
  shows "list_all is_ascii org" "list_all is_ascii name" "list_all is_ascii version"
  using assms set_rsplit_once [of "CHR ''/''" s]
  by (auto simp: split_once_Some_iff is_ascii_def split: option.splits)

lemma tag_char_error_ascii:
  "list_all is_ascii s \<Longrightarrow> i \<in> {find_org_error s, find_name_error s, find_version_error s}
    \<Longrightarrow> tag_char_error part s i \<noteq> Panic"
  using ascii_no_boundary_panic [of s _ _ part] tag_char_error_Ok [of part s None "()"]
  unfolding find_org_error_def find_name_error_def find_version_error_def
  by (cases i) (simp, metis insertE singletonD)

lemma and_then_unit_Panic: "and_then r (\<lambda>_ :: unit. f) = Panic \<longleftrightarrow> r = Panic \<or> r = Ok () \<and> f = Panic"
  by (cases r) auto

lemma two_byte_char_panics:
  assumes "list_all is_tag_name_char name"
  shows "tag_char_error NamePart (name @ [CHR 0xC3, CHR 0xA9]) (find_name_error (name @ [CHR 0xC3, CHR 0xA9])) = Panic"
proof -
  let ?s = "name @ [CHR 0xC3, CHR 0xA9]"
  have bad: "\<not> is_tag_name_char (CHR 0xC3)" by (simp add: tag_char_defs)
  then have "-1 < validate_source_str ?s is_tag_name_char"
    using validate_source_str_none [of is_tag_name_char ?s] tag_chars_ascii(1) by auto
  then obtain i where i: "validate_source_str ?s is_tag_name_char = int i" "list_all is_tag_name_char (take i ?s)"
    "i < length ?s" "is_tag_name_char (?s ! i) \<longrightarrow> takeWhile is_continuation (drop (i + 1) ?s) \<noteq> []"
    by (rule validate_source_str_at)
  have "i \<le> length name"
  proof (rule ccontr)
    assume "\<not> i \<le> length name"
    then have "length name < length (take i ?s)" "take i ?s ! length name = CHR 0xC3" by (simp_all add: nth_append)
    with i(2) bad show False unfolding list_all_length by metis
  qed
  moreover have "\<not> i < length name"
  proof
    assume lt: "i < length name"
    then have "is_tag_name_char (?s ! i)" using assms by (simp add: nth_append list_all_length)
    with i(4) have "is_continuation (?s ! (i + 1))" using takeWhile_drop_not_Nil by blast
    moreover have "?s ! (i + 1) = CHR 0xC3 \<or> is_tag_name_char (?s ! (i + 1))"
      using lt assms by (cases "i + 1 = length name") (auto simp: nth_append list_all_length)
    moreover have "\<not> is_continuation (CHR 0xC3)" by (simp add: is_continuation_def)
    ultimately show False using tag_chars_ascii(1) ascii_not_continuation by metis
  qed
  ultimately have "i = length name" by simp
  moreover from this have "is_continuation (?s ! (i + 1))" by (simp add: nth_append is_continuation_def)
  ultimately have "invalid_char_error TagName ?s i = (Panic :: unit name_result)"
    using invalid_char_panics_iff [OF i(1)] by simp
  moreover have "find_name_error ?s = Some i"
    using i(1) by (simp add: find_name_error_def find_error_def validate_source_str_def)
  ultimately show ?thesis by (simp add: tag_char_error_def invalid_char_error_def split: if_splits)
qed

text \<open>
  Parsing a tag specifier panics only on text with characters outside ASCII, and does so where the
  first character that the name does not allow takes two bytes: the error message is cut out
  of the text at a byte offset inside that character.
\<close>

theorem split_tag_spec_panics:
  "(list_all is_ascii s \<longrightarrow> split_tag_spec s \<noteq> Panic)
   \<and> (name \<noteq> [] \<and> list_all is_tag_name_char name \<longrightarrow> split_tag_spec (name @ [CHR 0xC3, CHR 0xA9]) = Panic)"
proof (intro conjI impI notI)
  assume ascii: "list_all is_ascii s" and panic: "split_tag_spec s = Panic"
  obtain org nv where nv: "(case rsplit_once CHR ''/'' s of Some p \<Rightarrow> p | None \<Rightarrow> ([], s)) = (org, nv)" by force
  obtain name version where v: "(case split_once CHR ''~'' nv of Some p \<Rightarrow> p | None \<Rightarrow> (nv, ''0'')) = (name, version)"
    by force
  note parts = tag_parts_ascii [OF ascii nv v]
  show False using panic parts
    by (simp add: split_tag_spec_def nv v Let_def tag_char_error_ascii split: if_splits option.splits)
next
  assume name: "name \<noteq> [] \<and> list_all is_tag_name_char name"
  then have "CHR ''/'' \<notin> set (name @ [CHR 0xC3, CHR 0xA9])" "CHR ''~'' \<notin> set (name @ [CHR 0xC3, CHR 0xA9])"
    using tag_name_no_separator [of name] by auto
  then show "split_tag_spec (name @ [CHR 0xC3, CHR 0xA9]) = Panic"
    using name two_byte_char_panics [of name]
    by (simp add: split_tag_spec_def find_errors_None(2) [THEN iffD2] tag_char_error_def [of OrgPart] Let_def)
qed

theorem split_tag_spec_panics_witness:
  "split_tag_spec ''spi/main'' \<noteq> Panic \<and> split_tag_spec (''caf'' @ [CHR 0xC3, CHR 0xA9]) = Panic"
  using split_tag_spec_panics [of "''spi/main''" "''caf''"] by (simp add: is_ascii_def tag_char_defs)

section \<open>The order of tags\<close>

lemma tag_key_inject: "tag_key a = tag_key b \<longleftrightarrow> a = b"
  by (cases a; cases b) (auto simp: tag_key_def)

interpretation tag_ord: ord_laws "tag_cmp :: 't::linorder tag \<Rightarrow> 't tag \<Rightarrow> ordering"
  using ord_laws_key [of tag_key] by (simp add: tag_cmp_def [abs_def])

lemma tag_cmp_Equal [simp]: "tag_cmp a b = Equal \<longleftrightarrow> a = b"
  by (simp add: tag_cmp_def tag_key_inject)

lemma tag_cmp_newer: "tag_time a < tag_time b \<Longrightarrow> tag_cmp a b = Less"
  by (simp add: tag_cmp_def tag_key_def)

section \<open>The binary form\<close>

definition tag_wf :: "'t tag \<Rightarrow> bool" where
  "tag_wf t \<longleftrightarrow> tag_org t \<noteq> Some [] \<and> text_wf (case tag_org t of Some org \<Rightarrow> org | None \<Rightarrow> [])
     \<and> text_wf (tag_name t) \<and> text_wf (tag_user t) \<and> digest_wf (tag_target t) \<and> digest_wf (tag_parent t)"

text \<open>The text form of times is one that the parser reads back.\<close>

definition times_round_trip :: "('t \<Rightarrow> str) \<Rightarrow> (str \<Rightarrow> 't option) \<Rightarrow> bool" where
  "times_round_trip to_rfc3339 parse \<longleftrightarrow> (\<forall>t. text_wf (to_rfc3339 t) \<and> parse (to_rfc3339 t) = Some t)"

lemma write_tag_string_wf: "text_wf s \<Longrightarrow> write_tag_string s = Ok (s @ [CHR 0x00])"
  by (simp add: write_tag_string_def text_wf_def write_string_def)

lemma tag_encode_wf:
  assumes "tag_wf t" "text_wf (to_rfc3339 (tag_time t))"
  shows "tag_encode to_rfc3339 t = Ok ((case tag_org t of Some org \<Rightarrow> org | None \<Rightarrow> []) @ CHR 0x00 # tag_name t @ CHR 0x00 #
    tag_target t @ tag_user t @ CHR 0x00 # to_rfc3339 (tag_time t) @ CHR 0x00 # tag_parent t)"
  using assms by (simp add: tag_encode_def tag_wf_def write_tag_string_wf write_digest_def)

lemma tag_decode_encode:
  assumes "tag_wf t" "times_round_trip to_rfc3339 parse"
  shows "\<exists>bs. tag_encode to_rfc3339 t = Ok bs \<and> (\<forall>rest. tag_decode parse (slice (bs @ rest)) = Ok (t, slice rest))"
proof -
  have time: "text_wf (to_rfc3339 (tag_time t))" "parse (to_rfc3339 (tag_time t)) = Some (tag_time t)"
    using assms(2) by (simp_all add: times_round_trip_def)
  show ?thesis using assms(1) time
    by (cases t) (auto simp: tag_encode_wf tag_decode_def tag_wf_def read_string_slice read_digest_slice Let_def
        split: option.splits)
qed

text \<open>
  Decoding the binary form of a tag from a byte slice gives the tag back and leaves what follows it.
\<close>

theorem tag_encode_decode:
  assumes "tag_wf t" "times_round_trip to_rfc3339 parse"
  shows "\<exists>bs. tag_encode to_rfc3339 t = Ok bs \<and> (\<forall>rest. tag_decode parse (slice (bs @ rest)) = Ok (t, slice rest))"
  using assms by (rule tag_decode_encode)

definition example_tag :: "int tag" where
  "example_tag = \<lparr>tag_time = 7, tag_org = Some ''spi'', tag_name = ''main'', tag_target = EMPTY_DIGEST,
     tag_parent = NULL_DIGEST, tag_user = ''u@h''\<rparr>"

definition tally_time :: "int \<Rightarrow> str" where
  "tally_time t = (if 0 \<le> t then CHR ''+'' else CHR ''-'') # replicate (nat \<bar>t\<bar>) CHR ''x''"

definition parse_tally :: "str \<Rightarrow> int option" where
  "parse_tally s = (case s of c # cs \<Rightarrow> Some (if c = CHR ''+'' then int (length cs) else - int (length cs)) | [] \<Rightarrow> None)"

lemma tally_round_trip: "times_round_trip tally_time parse_tally"
  unfolding times_round_trip_def text_wf_def
proof (intro allI conjI)
  fix t
  show "utf8_valid (tally_time t)"
    by (rule ascii_utf8) (simp add: tally_time_def list_all_iff is_ascii_def)
qed (auto simp: tally_time_def parse_tally_def)

lemma example_tag_wf: "tag_wf example_tag"
  by (simp add: example_tag_def tag_wf_def text_wf_def ascii_utf8 is_ascii_def digest_wf_def EMPTY_DIGEST_def
      NULL_DIGEST_def DIGEST_SIZE_def)

theorem tag_encode_decode_witness:
  "\<exists>bs. tag_encode tally_time example_tag = Ok bs
     \<and> (\<forall>rest. tag_decode parse_tally (slice (bs @ rest)) = Ok (example_tag, slice rest))"
  using tag_encode_decode [OF example_tag_wf tally_round_trip] .

end
