(* ===== verification/Tag_Iter.thy ===== *)
theory Tag_Iter
  imports Tags
begin

text \<open>
  The tag file and its reader (\<^verbatim>\<open>crates/spfs/src/storage/fs/tag.rs\<close>). A tag file holds the encoded tags
  from the oldest to the newest, each after its size. The reader \<open>TagIter\<close> first runs over the file to
  collect the sizes and then steps back from the end, so that it yields the newest tag first.

  The reader is a state machine. One step is one run through the body of \<open>poll_next\<close> with a read or a seek
  that is ready; a pending one puts the same state back and is left out. A read delivers some of the bytes it
  could, at least one unless there is none: the first argument of the step function chooses how many. A step
  returns what it yields, and a stream whose state is gone yields nothing more. Errors of the operating
  system are not modelled. Positions are natural numbers, the sizes are 64-bit words as in the code.
\<close>

section \<open>Writing\<close>

text \<open>\<open>write_i64\<close> of tokio writes big-endian.\<close>

definition tag_record :: "byte_list \<Rightarrow> byte_list" where
  "tag_record buf = be_bytes INT64_SIZE (uint (word_of_nat (length buf) :: u64)) @ buf"

fun encode_tags :: "('t \<Rightarrow> str) \<Rightarrow> 't tag list \<Rightarrow> byte_list tag_result" where
  "encode_tags to_rfc3339 [] = Ok []"
| "encode_tags to_rfc3339 (t # ts) =
     and_then (tag_encode to_rfc3339 t) (\<lambda>buf.
     and_then (encode_tags to_rfc3339 ts) (\<lambda>rest. Ok (tag_record buf @ rest)))"

section \<open>Reading\<close>

datatype tag_file_error =
    InvalidSizeIndex
  | SeekFailed
  | TagDecode tag_error
  | TagDecodePanic

type_synonym 't tag_item = "tag_file_error + 't tag"

datatype iter_state =
    ReadingIndex nat
  | SeekingIndex
  | SeekingTag u64
  | ReadingTag nat

record tag_iter =
  ti_buf :: byte_list
  ti_sizes :: "u64 list"
  ti_state :: "iter_state option"
  ti_pos :: nat

definition tag_iter_new :: tag_iter where
  "tag_iter_new = \<lparr>ti_buf = replicate INT64_SIZE (CHR 0x00), ti_sizes = [], ti_state = Some (ReadingIndex 0), ti_pos = 0\<rparr>"

text \<open>How many bytes a read of up to \<open>len\<close> bytes delivers.\<close>

definition read_count :: "byte_list \<Rightarrow> nat \<Rightarrow> nat \<Rightarrow> nat \<Rightarrow> nat" where
  "read_count file k len pos = (let avail = min len (length file - pos) in if avail = 0 then 0 else max 1 (min k avail))"

definition fill_from :: "byte_list \<Rightarrow> nat \<Rightarrow> nat \<Rightarrow> nat \<Rightarrow> byte_list \<Rightarrow> byte_list" where
  "fill_from file pos bytes_read count buf =
     take bytes_read buf @ take count (drop pos file) @ drop (bytes_read + count) buf"

text \<open>\<open>SeekFrom::Start\<close> and \<open>SeekFrom::Current\<close>: a position is a non-negative \<open>off_t\<close>.\<close>

definition seek_to :: "int \<Rightarrow> nat option" where
  "seek_to p = (if 0 \<le> p \<and> p < 2 ^ 63 then Some (nat p) else None)"

definition resize_buf :: "nat \<Rightarrow> byte_list \<Rightarrow> byte_list" where
  "resize_buf n buf = take n buf @ replicate (n - length buf) (CHR 0x00)"

definition sizes_fold :: "u64 list \<Rightarrow> u64" where
  "sizes_fold sizes = foldl (\<lambda>c s. c + s + word_of_nat INT64_SIZE) (word_of_nat INT64_SIZE) sizes"

text \<open>At the end of the index, the reader turns to the last tag.\<close>

definition index_done :: "tag_iter \<Rightarrow> 't tag_item list \<times> tag_iter" where
  "index_done it =
     (if ti_sizes it = [] then ([], it\<lparr>ti_state := None\<rparr>)
      else
        let size = last (ti_sizes it); sizes = butlast (ti_sizes it) in
        case seek_to (uint (sizes_fold sizes)) of
          None \<Rightarrow> ([Inl SeekFailed], it\<lparr>ti_sizes := sizes, ti_state := None\<rparr>)
        | Some pos \<Rightarrow> ([], it\<lparr>ti_sizes := sizes, ti_state := Some (SeekingTag size), ti_pos := pos\<rparr>))"

definition poll_reading_index :: "byte_list \<Rightarrow> nat \<Rightarrow> tag_iter \<Rightarrow> nat \<Rightarrow> 't tag_item list \<times> tag_iter" where
  "poll_reading_index file k it bytes_read =
     (let count = read_count file k (length (ti_buf it) - bytes_read) (ti_pos it);
          it = it\<lparr>ti_buf := fill_from file (ti_pos it) bytes_read count (ti_buf it), ti_pos := ti_pos it + count\<rparr> in
      if count = 0 then index_done it
      else
        let bytes_read = bytes_read + count in
        if bytes_read < length (ti_buf it) then ([], it\<lparr>ti_state := Some (ReadingIndex bytes_read)\<rparr>)
        else
          let size = (word_of_int (from_be (take bytes_read (ti_buf it))) :: u64) in
          if sint size < 0 then ([Inl InvalidSizeIndex], it\<lparr>ti_state := None\<rparr>)
          else
            let it = it\<lparr>ti_sizes := ti_sizes it @ [size]\<rparr> in
            case seek_to (int (ti_pos it) + sint size) of
              None \<Rightarrow> ([Inl SeekFailed], it\<lparr>ti_state := None\<rparr>)
            | Some pos \<Rightarrow> ([], it\<lparr>ti_state := Some SeekingIndex, ti_pos := pos\<rparr>))"

definition poll_seeking_index :: "tag_iter \<Rightarrow> 't tag_item list \<times> tag_iter" where
  "poll_seeking_index it =
     ([], it\<lparr>ti_buf := resize_buf INT64_SIZE (ti_buf it), ti_state := Some (ReadingIndex 0)\<rparr>)"

definition poll_seeking_tag :: "tag_iter \<Rightarrow> u64 \<Rightarrow> 't tag_item list \<times> tag_iter" where
  "poll_seeking_tag it sz =
     ([], it\<lparr>ti_buf := resize_buf (unat sz) (ti_buf it), ti_state := Some (ReadingTag 0)\<rparr>)"

definition poll_reading_tag ::
  "(str \<Rightarrow> 't option) \<Rightarrow> byte_list \<Rightarrow> nat \<Rightarrow> tag_iter \<Rightarrow> nat \<Rightarrow> 't tag_item list \<times> tag_iter" where
  "poll_reading_tag parse file k it bytes_read =
     (let count = read_count file k (length (ti_buf it) - bytes_read) (ti_pos it);
          it = it\<lparr>ti_buf := fill_from file (ti_pos it) bytes_read count (ti_buf it), ti_pos := ti_pos it + count\<rparr>;
          bytes_read = bytes_read + count in
      if bytes_read < length (ti_buf it) then ([], it\<lparr>ti_state := Some (ReadingTag bytes_read)\<rparr>)
      else
        case tag_decode parse (slice (ti_buf it)) of
          Panic \<Rightarrow> ([Inl TagDecodePanic], it\<lparr>ti_state := None\<rparr>)
        | Err e \<Rightarrow> ([Inl (TagDecode e)], it\<lparr>ti_state := None\<rparr>)
        | Ok (tag, _) \<Rightarrow>
            if ti_sizes it = [] then ([Inr tag], it\<lparr>ti_state := None\<rparr>)
            else
              let size = last (ti_sizes it);
                  it = it\<lparr>ti_sizes := butlast (ti_sizes it)\<rparr>;
                  next_tag_offset = word_of_nat bytes_read + word_of_nat INT64_SIZE + size in
              case seek_to (int (ti_pos it) - sint next_tag_offset) of
                None \<Rightarrow> ([Inl SeekFailed], it\<lparr>ti_state := None\<rparr>)
              | Some pos \<Rightarrow> ([Inr tag], it\<lparr>ti_state := Some (SeekingTag size), ti_pos := pos\<rparr>))"

definition poll_step :: "(str \<Rightarrow> 't option) \<Rightarrow> byte_list \<Rightarrow> nat \<Rightarrow> tag_iter \<Rightarrow> 't tag_item list \<times> tag_iter" where
  "poll_step parse file k it =
     (case ti_state it of
        None \<Rightarrow> ([], it)
      | Some (ReadingIndex bytes_read) \<Rightarrow> poll_reading_index file k it bytes_read
      | Some SeekingIndex \<Rightarrow> poll_seeking_index it
      | Some (SeekingTag sz) \<Rightarrow> poll_seeking_tag it sz
      | Some (ReadingTag bytes_read) \<Rightarrow> poll_reading_tag parse file k it bytes_read)"

text \<open>What a reader yields in a number of steps, for a schedule of the reads.\<close>

fun poll_run ::
  "(str \<Rightarrow> 't option) \<Rightarrow> byte_list \<Rightarrow> (nat \<Rightarrow> nat) \<Rightarrow> nat \<Rightarrow> tag_iter \<Rightarrow> 't tag_item list \<times> tag_iter" where
  "poll_run parse file ks 0 it = ([], it)"
| "poll_run parse file ks (Suc n) it =
     (let (out, it) = poll_step parse file (ks 0) it;
          (rest, it) = poll_run parse file (\<lambda>i. ks (Suc i)) n it in
      (out @ rest, it))"

section \<open>Runs\<close>

definition eventually_yields ::
  "(str \<Rightarrow> 't option) \<Rightarrow> byte_list \<Rightarrow> tag_iter \<Rightarrow> 't tag_item list \<Rightarrow> tag_iter \<Rightarrow> bool" where
  "eventually_yields parse file it out it' \<longleftrightarrow> (\<forall>ks. \<exists>n. poll_run parse file ks n it = (out, it'))"

lemma poll_run_add:
  assumes "poll_run parse file ks m it = (out, it')" "poll_run parse file (\<lambda>i. ks (i + m)) n it' = (out', it'')"
  shows "poll_run parse file ks (m + n) it = (out @ out', it'')"
  using assms
proof (induction m arbitrary: ks it out)
  case (Suc m)
  obtain o1 it1 where 1: "poll_step parse file (ks 0) it = (o1, it1)" by force
  obtain o2 it2 where 2: "poll_run parse file (\<lambda>i. ks (Suc i)) m it1 = (o2, it2)" by force
  then show ?case using Suc.IH [of "\<lambda>i. ks (Suc i)" it1 o2] Suc.prems 1 by simp
qed simp

lemma eventually_refl: "eventually_yields parse file it [] it"
  unfolding eventually_yields_def by (metis poll_run.simps(1))

lemma eventually_trans:
  assumes "eventually_yields parse file it out it'" "eventually_yields parse file it' out' it''"
  shows "eventually_yields parse file it (out @ out') it''"
  using assms poll_run_add unfolding eventually_yields_def by meson

lemma eventually_step:
  assumes "\<And>k. \<exists>it1. poll_step parse file k it = (o1, it1) \<and> eventually_yields parse file it1 out it'"
  shows "eventually_yields parse file it (o1 @ out) it'"
  unfolding eventually_yields_def
proof
  fix ks :: "nat \<Rightarrow> nat"
  obtain it1 where 1: "poll_step parse file (ks 0) it = (o1, it1)" "eventually_yields parse file it1 out it'"
    using assms by blast
  then obtain n where "poll_run parse file (\<lambda>i. ks (Suc i)) n it1 = (out, it')"
    unfolding eventually_yields_def by blast
  with 1 have "poll_run parse file ks (Suc n) it = (o1 @ out, it')" by simp
  then show "\<exists>n. poll_run parse file ks n it = (o1 @ out, it')" by blast
qed

section \<open>The layout of a tag file\<close>

definition layout :: "byte_list list \<Rightarrow> byte_list" where
  "layout bss = concat (map tag_record bss)"

definition offset :: "byte_list list \<Rightarrow> nat \<Rightarrow> nat" where
  "offset bss i = length (layout (take i bss))"

abbreviation size_of :: "byte_list \<Rightarrow> u64" where
  "size_of bs \<equiv> word_of_nat (length bs)"

lemma length_tag_record [simp]: "length (tag_record bs) = 8 + length bs"
  by (simp add: tag_record_def INT64_SIZE_def)

lemma offset_0 [simp]: "offset bss 0 = 0"
  by (simp add: offset_def layout_def)

lemma offset_Suc: "i < length bss \<Longrightarrow> offset bss (Suc i) = offset bss i + 8 + length (bss ! i)"
  by (simp add: offset_def layout_def take_Suc_conv_app_nth)

lemma offset_all: "offset bss (length bss) = length (layout bss)"
  by (simp add: offset_def)

lemma offset_mono: "i \<le> j \<Longrightarrow> offset bss i \<le> offset bss j"
  by (auto simp: offset_def layout_def le_iff_add take_add)

lemma offset_le: "offset bss i \<le> length (layout bss)"
  using offset_mono [of i "length bss" bss] offset_mono [of "length bss" i bss]
  by (cases "i \<le> length bss") (simp_all add: offset_all, simp add: offset_def)

lemma drop_offset: "drop (offset bss i) (layout bss) = layout (drop i bss)"
  unfolding offset_def layout_def
  by (metis append_eq_conv_conj append_take_drop_id concat_append map_append)

lemma drop_offset_nth:
  assumes "i < length bss"
  shows "drop (offset bss i) (layout bss) = tag_record (bss ! i) @ layout (drop (Suc i) bss)"
  unfolding drop_offset using assms by (simp add: layout_def flip: Cons_nth_drop_Suc)

lemma entry_inside: "i < length bss \<Longrightarrow> offset bss i + 8 + length (bss ! i) \<le> length (layout bss)"
  using offset_le [of bss "Suc i"] by (simp add: offset_Suc)

lemma u64_of_nat:
  assumes "n < 2 ^ 63"
  shows "uint (word_of_nat n :: u64) = int n" "sint (word_of_nat n :: u64) = int n" "unat (word_of_nat n :: u64) = n"
proof -
  have lt: "int n < 2 ^ 63" using assms by (metis of_nat_less_numeral_power_cancel_iff)
  then show u: "uint (word_of_nat n :: u64) = int n"
    by (simp add: unsigned_of_nat take_bit_eq_mod)
  then show "unat (word_of_nat n :: u64) = n" by (metis nat_int unat_eq_nat_uint)
  show "sint (word_of_nat n :: u64) = int n"
    using lt u by (simp add: sint_uint signed_take_bit_eq_if_positive bit_iff_odd take_bit_eq_mod)
qed

section \<open>Filling the buffer\<close>

lemma read_count_bounds:
  assumes "0 < len" "pos + len \<le> length file"
  shows "0 < read_count file k len pos" "read_count file k len pos \<le> len"
  using assms by (auto simp: read_count_def Let_def)

lemma fill_from_step:
  assumes "take b buf = take b (drop p0 file)" "b + c \<le> length buf" "p0 + b + c \<le> length file"
  shows "take (b + c) (fill_from file (p0 + b) b c buf) = take (b + c) (drop p0 file)"
    and "length (fill_from file (p0 + b) b c buf) = length buf"
proof -
  have "take c (drop (p0 + b) file) = take c (drop b (drop p0 file))" by (simp add: add.commute)
  then show "take (b + c) (fill_from file (p0 + b) b c buf) = take (b + c) (drop p0 file)"
    using assms by (simp add: fill_from_def take_add)
  show "length (fill_from file (p0 + b) b c buf) = length buf"
    using assms by (simp add: fill_from_def)
qed

section \<open>Reading the index\<close>

abbreviation small :: "byte_list list \<Rightarrow> bool" where
  "small bss \<equiv> length (layout bss) < 2 ^ 63"

abbreviation sizes_of :: "byte_list list \<Rightarrow> u64 list" where
  "sizes_of bss \<equiv> map size_of bss"

lemma small_entry: "small bss \<Longrightarrow> i < length bss \<Longrightarrow> length (bss ! i) < 2 ^ 63"
  using entry_inside [of i bss] by linarith

lemma size_field:
  assumes "i < length bss"
  shows "take 8 (drop (offset bss i) (layout bss)) = be_bytes 8 (uint (size_of (bss ! i)))"
  using assms by (simp add: drop_offset_nth tag_record_def INT64_SIZE_def)

lemma seek_to_offset: "small bss \<Longrightarrow> seek_to (int (offset bss i)) = Some (offset bss i)"
  using offset_le [of bss i]
  by (simp add: seek_to_def)

lemma index_step:
  assumes "small bss" "i < length bss" "b < 8" "length buf = 8"
    and "take b buf = take b (drop (offset bss i) (layout bss))"
    and it: "it = \<lparr>ti_buf = buf, ti_sizes = S, ti_state = Some (ReadingIndex b), ti_pos = offset bss i + b\<rparr>"
  shows "\<exists>c buf'. 0 < c \<and> b + c \<le> 8 \<and> length buf' = 8
    \<and> take (b + c) buf' = take (b + c) (drop (offset bss i) (layout bss))
    \<and> poll_step parse (layout bss) k it =
        (if b + c < 8 then ([], \<lparr>ti_buf = buf', ti_sizes = S, ti_state = Some (ReadingIndex (b + c)), ti_pos = offset bss i + b + c\<rparr>)
         else ([], \<lparr>ti_buf = buf', ti_sizes = S @ [size_of (bss ! i)], ti_state = Some SeekingIndex, ti_pos = offset bss (Suc i)\<rparr>))"
proof -
  define c where "c = read_count (layout bss) k (8 - b) (offset bss i + b)"
  define buf' where "buf' = fill_from (layout bss) (offset bss i + b) b c buf"
  note inside = entry_inside [OF assms(2)]
  have c: "0 < c" "b + c \<le> 8"
    using read_count_bounds [of "8 - b" "offset bss i + b" "layout bss" k] assms(3) inside by (auto simp: c_def)
  have buf': "take (b + c) buf' = take (b + c) (drop (offset bss i) (layout bss))" "length buf' = 8"
    using fill_from_step [OF assms(5), of c] assms(4) c inside by (simp_all add: buf'_def)
  have size: "word_of_int (from_be (take (b + c) buf')) = size_of (bss ! i)" if "b + c = 8"
    using buf'(1) that size_field [OF assms(2)] from_be_be_bytes [of "uint (size_of (bss ! i))" 8]
      uint_lt2p [of "size_of (bss ! i)"] by simp
  note sz = u64_of_nat [OF small_entry [OF assms(1,2)]]
  have after: "int (offset bss i + b + c) + sint (size_of (bss ! i)) = int (offset bss (Suc i))" if "b + c = 8"
    using that by (simp add: sz offset_Suc [OF assms(2)])
  have "poll_step parse (layout bss) k it =
        (if b + c < 8 then ([], \<lparr>ti_buf = buf', ti_sizes = S, ti_state = Some (ReadingIndex (b + c)), ti_pos = offset bss i + b + c\<rparr>)
         else ([], \<lparr>ti_buf = buf', ti_sizes = S @ [size_of (bss ! i)], ti_state = Some SeekingIndex, ti_pos = offset bss (Suc i)\<rparr>))"
    using c buf'(2) assms(4) size after seek_to_offset [OF assms(1), of "Suc i"]
    by (simp add: poll_step_def it poll_reading_index_def c_def [symmetric] buf'_def [symmetric] Let_def sz)
  with c buf' show ?thesis by blast
qed

lemmas eventually_silent = eventually_step [where ?o1.0 = "[]", simplified]

lemma eventually_stepI:
  assumes "\<And>k. poll_step parse file k it = ([], it1)" "eventually_yields parse file it1 out it'"
  shows "eventually_yields parse file it out it'"
  using assms by (intro eventually_silent) blast

lemma index_entry:
  assumes "small bss" "i < length bss" "b < 8" "length buf = 8"
    and "take b buf = take b (drop (offset bss i) (layout bss))"
  shows "\<exists>buf'. length buf' = 8 \<and> eventually_yields parse (layout bss)
    \<lparr>ti_buf = buf, ti_sizes = S, ti_state = Some (ReadingIndex b), ti_pos = offset bss i + b\<rparr> []
    \<lparr>ti_buf = buf', ti_sizes = S @ [size_of (bss ! i)], ti_state = Some (ReadingIndex 0), ti_pos = offset bss (Suc i)\<rparr>"
proof -
  let ?buf = "take 8 (drop (offset bss i) (layout bss))"
  let ?final = "\<lparr>ti_buf = ?buf, ti_sizes = S @ [size_of (bss ! i)], ti_state = Some (ReadingIndex 0), ti_pos = offset bss (Suc i)\<rparr>"
  have len: "length ?buf = 8" using entry_inside [OF assms(2)] by simp
  have "eventually_yields parse (layout bss)
    \<lparr>ti_buf = buf, ti_sizes = S, ti_state = Some (ReadingIndex b), ti_pos = offset bss i + b\<rparr> [] ?final"
    using assms(3-5)
  proof (induction "8 - b" arbitrary: b buf rule: less_induct)
    case less
    let ?it = "\<lparr>ti_buf = buf, ti_sizes = S, ti_state = Some (ReadingIndex b), ti_pos = offset bss i + b\<rparr>"
    have "\<exists>it1. poll_step parse (layout bss) k ?it = ([], it1) \<and> eventually_yields parse (layout bss) it1 [] ?final" for k
    proof -
      obtain c buf' where c: "0 < c" "b + c \<le> 8" "length buf' = 8"
        "take (b + c) buf' = take (b + c) (drop (offset bss i) (layout bss))"
        and step: "poll_step parse (layout bss) k ?it =
        (if b + c < 8 then ([], \<lparr>ti_buf = buf', ti_sizes = S, ti_state = Some (ReadingIndex (b + c)), ti_pos = offset bss i + b + c\<rparr>)
         else ([], \<lparr>ti_buf = buf', ti_sizes = S @ [size_of (bss ! i)], ti_state = Some SeekingIndex, ti_pos = offset bss (Suc i)\<rparr>))"
        using index_step [OF assms(1,2) less.prems refl] by blast
      show ?thesis
      proof (cases "b + c < 8")
        case True
        then show ?thesis using step less.hyps [of "b + c" buf'] c by (auto simp: add.assoc)
      next
        case False
        then have "buf' = ?buf" using c by simp
        with False step c(3) show ?thesis
          by (auto simp: poll_step_def poll_seeking_index_def resize_buf_def INT64_SIZE_def
              intro!: eventually_stepI [OF _ eventually_refl])
      qed
    qed
    then show ?case by (rule eventually_silent)
  qed
  with len show ?thesis by blast
qed

lemma index_all:
  assumes "small bss" "i \<le> length bss" "length buf = 8"
  shows "\<exists>buf'. length buf' = 8 \<and> eventually_yields parse (layout bss)
    \<lparr>ti_buf = buf, ti_sizes = sizes_of (take i bss), ti_state = Some (ReadingIndex 0), ti_pos = offset bss i\<rparr> []
    \<lparr>ti_buf = buf', ti_sizes = sizes_of bss, ti_state = Some (ReadingIndex 0), ti_pos = length (layout bss)\<rparr>"
  using assms(2,3)
proof (induction i arbitrary: buf rule: inc_induct)
  case base
  then show ?case using eventually_refl by (force simp: offset_all)
next
  case (step i)
  obtain buf1 where 1: "length buf1 = 8" "eventually_yields parse (layout bss)
    \<lparr>ti_buf = buf, ti_sizes = sizes_of (take i bss), ti_state = Some (ReadingIndex 0), ti_pos = offset bss i\<rparr> []
    \<lparr>ti_buf = buf1, ti_sizes = sizes_of (take (Suc i) bss), ti_state = Some (ReadingIndex 0), ti_pos = offset bss (Suc i)\<rparr>"
    using index_entry [OF assms(1) step.hyps(2), of 0 buf parse "sizes_of (take i bss)"] step.prems step.hyps(2)
    by (auto simp: take_Suc_conv_app_nth)
  from step.IH [OF 1(1)] eventually_trans [OF 1(2)] show ?case by fastforce
qed

section \<open>Reading the tags\<close>

lemma sizes_fold_offset:
  assumes "i \<le> length bss"
  shows "sizes_fold (sizes_of (take i bss)) = word_of_nat (offset bss i + 8)"
  using assms
proof (induction i)
  case 0
  then show ?case by (simp add: sizes_fold_def INT64_SIZE_def)
next
  case (Suc i)
  then have "sizes_fold (sizes_of (take (Suc i) bss)) = sizes_fold (sizes_of (take i bss)) + size_of (bss ! i) + 8"
    by (simp add: sizes_fold_def take_Suc_conv_app_nth INT64_SIZE_def)
  with Suc show ?case by (simp add: offset_Suc)
qed

lemma seek_to_tag: "small bss \<Longrightarrow> i < length bss \<Longrightarrow> seek_to (int (offset bss i) + 8) = Some (offset bss i + 8)"
  using entry_inside [of i bss] by (simp add: seek_to_def nat_add_distrib)

definition at_tag :: "byte_list list \<Rightarrow> nat \<Rightarrow> byte_list \<Rightarrow> tag_iter" where
  "at_tag bss i buf = \<lparr>ti_buf = buf, ti_sizes = sizes_of (take i bss), ti_state = Some (SeekingTag (size_of (bss ! i))),
     ti_pos = offset bss i + 8\<rparr>"

definition all_read :: "byte_list list \<Rightarrow> tag_iter" where
  "all_read bss = \<lparr>ti_buf = hd bss, ti_sizes = [], ti_state = None, ti_pos = 8 + length (hd bss)\<rparr>"

lemma tag_step:
  assumes "small bss" "i < length bss" "bs = bss ! i" "tag_decode parse (slice bs) = Ok (t, r)"
    and "b < length bs" "length buf = length bs"
    and "take b buf = take b (drop (offset bss i + 8) (layout bss))"
    and it: "it = \<lparr>ti_buf = buf, ti_sizes = sizes_of (take i bss), ti_state = Some (ReadingTag b), ti_pos = offset bss i + 8 + b\<rparr>"
  shows "\<exists>c buf'. 0 < c \<and> b + c \<le> length bs \<and> length buf' = length bs
    \<and> take (b + c) buf' = take (b + c) (drop (offset bss i + 8) (layout bss))
    \<and> poll_step parse (layout bss) k it =
        (if b + c < length bs
         then ([], \<lparr>ti_buf = buf', ti_sizes = sizes_of (take i bss), ti_state = Some (ReadingTag (b + c)), ti_pos = offset bss i + 8 + (b + c)\<rparr>)
         else ([Inr t], if i = 0 then all_read bss else at_tag bss (i - 1) bs))"
proof -
  define c where "c = read_count (layout bss) k (length bs - b) (offset bss i + 8 + b)"
  define buf' where "buf' = fill_from (layout bss) (offset bss i + 8 + b) b c buf"
  note inside = entry_inside [OF assms(2)]
  have c: "0 < c" "b + c \<le> length bs"
    using read_count_bounds [of "length bs - b" "offset bss i + 8 + b" "layout bss" k] assms(3,5) inside
    by (auto simp: c_def)
  have buf': "take (b + c) buf' = take (b + c) (drop (offset bss i + 8) (layout bss))" "length buf' = length bs"
    using fill_from_step [OF assms(7), of c] assms(3,6) c inside by (simp_all add: buf'_def)
  have whole: "buf' = bs" if "\<not> b + c < length bs"
  proof -
    have "drop 8 (drop (offset bss i) (layout bss)) = bs @ layout (drop (Suc i) bss)"
      using assms(2,3) by (simp add: drop_offset_nth tag_record_def INT64_SIZE_def)
    then show ?thesis using buf' that c by (simp add: add.commute)
  qed
  have pop: "sizes_of (take i bss) = sizes_of (take (i - 1) bss) @ [size_of (bss ! (i - 1))]" if "i \<noteq> 0"
    using that assms(2) take_Suc_conv_app_nth [of "i - 1" bss] by simp
  have rewind: "sint (size_of bs + 8 + size_of (bss ! (i - 1))) = int (length bs + 8 + length (bss ! (i - 1)))
      \<and> offset bss i = offset bss (i - 1) + 8 + length (bss ! (i - 1))" if "i \<noteq> 0"
  proof -
    have "offset bss i = offset bss (i - 1) + 8 + length (bss ! (i - 1))"
      using that assms(2) offset_Suc [of "i - 1" bss] by simp
    with inside assms(1,3) u64_of_nat(2) [of "length bs + 8 + length (bss ! (i - 1))"] show ?thesis by simp
  qed
  let ?more = "\<lparr>ti_buf = buf', ti_sizes = sizes_of (take i bss), ti_state = Some (ReadingTag (b + c)), ti_pos = offset bss i + 8 + (b + c)\<rparr>"
  let ?S = "sizes_of (take i bss)"
  have step: "poll_step parse (layout bss) k it =
      (if b + c < length bs then ([], ?more)
       else if ?S = [] then ([Inr t], \<lparr>ti_buf = bs, ti_sizes = [], ti_state = None, ti_pos = offset bss i + 8 + length bs\<rparr>)
       else case seek_to (int (offset bss i + 8 + length bs) - sint (size_of bs + 8 + last ?S)) of
          None \<Rightarrow> ([Inl SeekFailed], \<lparr>ti_buf = bs, ti_sizes = butlast ?S, ti_state = None, ti_pos = offset bss i + 8 + length bs\<rparr>)
        | Some pos \<Rightarrow> ([Inr t], \<lparr>ti_buf = bs, ti_sizes = butlast ?S, ti_state = Some (SeekingTag (last ?S)), ti_pos = pos\<rparr>))"
  proof (cases "b + c < length bs")
    case True
    then show ?thesis using buf'(2) assms(6)
      by (simp add: poll_step_def it poll_reading_tag_def c_def [symmetric] buf'_def [symmetric] Let_def)
  next
    case False
    then have bc: "b + c = length bs" "offset bss i + 8 + b + c = offset bss i + 8 + length bs" using c by simp_all
    from whole [OF False] have "fill_from (layout bss) (offset bss i + 8 + b) b c buf = bs" by (simp add: buf'_def)
    with assms(4,6) show ?thesis
      by (simp add: poll_step_def it poll_reading_tag_def c_def [symmetric] Let_def bc INT64_SIZE_def
          split: option.split)
  qed
  show ?thesis
  proof (intro exI conjI)
    show "poll_step parse (layout bss) k it =
        (if b + c < length bs then ([], ?more)
         else ([Inr t], if i = 0 then all_read bss else at_tag bss (i - 1) bs))"
    proof (cases "i = 0")
      case False
      then have "int (offset bss i + 8 + length bs) - sint (size_of bs + 8 + size_of (bss ! (i - 1))) =
          int (offset bss (i - 1)) + 8"
        using rewind by simp
      moreover have "last ?S = size_of (bss ! (i - 1))" "butlast ?S = sizes_of (take (i - 1) bss)" "?S \<noteq> []"
        unfolding pop [OF False] by simp_all
      moreover have "seek_to (int (offset bss (i - 1)) + 8) = Some (offset bss (i - 1) + 8)"
        using assms(1,2) by (intro seek_to_tag) simp_all
      ultimately show ?thesis using False by (simp only: step at_tag_def option.case if_False)
    next
      case True
      then show ?thesis using assms(2,3) by (simp add: step all_read_def hd_conv_nth)
    qed
  qed (use c buf' in auto)
qed

lemma tag_entry_read:
  assumes "small bss" "i < length bss" "tag_decode parse (slice (bss ! i)) = Ok (t, r)"
    and "b < length (bss ! i)" "length buf = length (bss ! i)"
    and "take b buf = take b (drop (offset bss i + 8) (layout bss))"
  shows "eventually_yields parse (layout bss)
    \<lparr>ti_buf = buf, ti_sizes = sizes_of (take i bss), ti_state = Some (ReadingTag b), ti_pos = offset bss i + 8 + b\<rparr> [Inr t]
    (if i = 0 then all_read bss else at_tag bss (i - 1) (bss ! i))"
  using assms(4-6)
proof (induction "length (bss ! i) - b" arbitrary: b buf rule: less_induct)
  case less
  let ?it = "\<lparr>ti_buf = buf, ti_sizes = sizes_of (take i bss), ti_state = Some (ReadingTag b), ti_pos = offset bss i + 8 + b\<rparr>"
  let ?final = "if i = 0 then all_read bss else at_tag bss (i - 1) (bss ! i)"
  show ?case
    unfolding eventually_yields_def
  proof
    fix ks :: "nat \<Rightarrow> nat"
    obtain c buf' where c: "0 < c" "b + c \<le> length (bss ! i)" "length buf' = length (bss ! i)"
      "take (b + c) buf' = take (b + c) (drop (offset bss i + 8) (layout bss))"
      and step: "poll_step parse (layout bss) (ks 0) ?it =
        (if b + c < length (bss ! i)
         then ([], \<lparr>ti_buf = buf', ti_sizes = sizes_of (take i bss), ti_state = Some (ReadingTag (b + c)), ti_pos = offset bss i + 8 + (b + c)\<rparr>)
         else ([Inr t], ?final))"
      using tag_step [OF assms(1,2) refl assms(3) less.prems refl, of "ks 0"] by blast
    show "\<exists>n. poll_run parse (layout bss) ks n ?it = ([Inr t], ?final)"
    proof (cases "b + c < length (bss ! i)")
      case True
      then obtain n where "poll_run parse (layout bss) (\<lambda>i. ks (Suc i)) n
        \<lparr>ti_buf = buf', ti_sizes = sizes_of (take i bss), ti_state = Some (ReadingTag (b + c)), ti_pos = offset bss i + 8 + (b + c)\<rparr>
          = ([Inr t], ?final)"
        using less.hyps [of "b + c" buf', unfolded eventually_yields_def] c(1,3,4) diff_less_mono2 [of b "b + c"]
        by (metis less_add_same_cancel1 add_lessD1)
      with True step have "poll_run parse (layout bss) ks (Suc n) ?it = ([Inr t], ?final)" by simp
      then show ?thesis by blast
    next
      case False
      with step have "poll_run parse (layout bss) ks (Suc 0) ?it = ([Inr t], ?final)" by simp
      then show ?thesis by blast
    qed
  qed
qed

lemma tag_entry:
  assumes "small bss" "i < length bss" "tag_decode parse (slice (bss ! i)) = Ok (t, r)" "bss ! i \<noteq> []"
  shows "eventually_yields parse (layout bss) (at_tag bss i buf) [Inr t]
    (if i = 0 then all_read bss else at_tag bss (i - 1) (bss ! i))"
proof (rule eventually_stepI)
  show "poll_step parse (layout bss) k (at_tag bss i buf) =
    ([], \<lparr>ti_buf = resize_buf (length (bss ! i)) buf, ti_sizes = sizes_of (take i bss), ti_state = Some (ReadingTag 0),
         ti_pos = offset bss i + 8 + 0\<rparr>)" for k
    using u64_of_nat [OF small_entry [OF assms(1,2)]] by (simp add: poll_step_def at_tag_def poll_seeking_tag_def)
  show "eventually_yields parse (layout bss)
    \<lparr>ti_buf = resize_buf (length (bss ! i)) buf, ti_sizes = sizes_of (take i bss), ti_state = Some (ReadingTag 0),
      ti_pos = offset bss i + 8 + 0\<rparr> [Inr t] (if i = 0 then all_read bss else at_tag bss (i - 1) (bss ! i))"
    using assms by (intro tag_entry_read) (auto simp: resize_buf_def)
qed

lemma tags_from:
  assumes "small bss" "length ts = length bss" "i < length bss"
    and "\<And>j. j < length bss \<Longrightarrow> bss ! j \<noteq> [] \<and> (\<exists>r. tag_decode parse (slice (bss ! j)) = Ok (ts ! j, r))"
  shows "eventually_yields parse (layout bss) (at_tag bss i buf) (map Inr (rev (take (Suc i) ts))) (all_read bss)"
  using assms(3)
proof (induction i arbitrary: buf)
  case 0
  then show ?case
    using tag_entry [OF assms(1) 0, of parse "ts ! 0"] assms(2) assms(4) [OF 0] by (auto simp: take_Suc_conv_app_nth)
next
  case (Suc i)
  have "eventually_yields parse (layout bss) (at_tag bss (Suc i) buf) [Inr (ts ! Suc i)] (at_tag bss i (bss ! Suc i))"
    using tag_entry [OF assms(1) Suc.prems, of parse "ts ! Suc i"] assms(4) [OF Suc.prems] by auto
  from eventually_trans [OF this Suc.IH] show ?case
    using Suc.prems assms(2) by (simp add: take_Suc_conv_app_nth [of "Suc i"])
qed

text \<open>What the reader yields when its state is gone and until then.\<close>

lemma poll_run_finished: "ti_state it = None \<Longrightarrow> poll_run parse file ks n it = ([], it)"
  by (induction n arbitrary: ks) (simp_all add: poll_step_def)

lemma read_layout:
  assumes "small bss" "length ts = length bss"
    and "\<And>j. j < length bss \<Longrightarrow> bss ! j \<noteq> [] \<and> (\<exists>r. tag_decode parse (slice (bss ! j)) = Ok (ts ! j, r))"
  shows "\<exists>it. ti_state it = None \<and> eventually_yields parse (layout bss) tag_iter_new (map Inr (rev ts)) it"
proof -
  obtain buf where buf: "length buf = 8" "eventually_yields parse (layout bss) tag_iter_new []
    \<lparr>ti_buf = buf, ti_sizes = sizes_of bss, ti_state = Some (ReadingIndex 0), ti_pos = length (layout bss)\<rparr>"
    using index_all [OF assms(1), of 0 "replicate 8 (CHR 0x00)" parse] by (auto simp: tag_iter_new_def INT64_SIZE_def)
  let ?it = "\<lparr>ti_buf = buf, ti_sizes = sizes_of bss, ti_state = Some (ReadingIndex 0), ti_pos = length (layout bss)\<rparr>"
  have step: "poll_step parse (layout bss) k ?it = index_done ?it" for k
    by (simp add: poll_step_def poll_reading_index_def read_count_def fill_from_def Let_def)
  have "\<exists>it. ti_state it = None \<and> eventually_yields parse (layout bss) ?it (map Inr (rev ts)) it"
  proof (cases "bss = []")
    case True
    then have "index_done ?it = ([], ?it\<lparr>ti_state := None\<rparr>)" by (simp add: index_done_def)
    then have "eventually_yields parse (layout bss) ?it [] (?it\<lparr>ti_state := None\<rparr>)"
      by (intro eventually_stepI [OF _ eventually_refl]) (simp add: step)
    moreover have "ti_state (?it\<lparr>ti_state := None\<rparr>) = None" by simp
    ultimately show ?thesis using assms(2) True by (metis length_0_conv list.map(1) rev.simps(1))
  next
    case False
    define i where "i = length bss - 1"
    have i: "i < length bss" "Suc i = length bss" using False by (simp_all add: i_def)
    have "butlast (sizes_of bss) = sizes_of (take i bss)" "last (sizes_of bss) = size_of (bss ! i)"
      using False by (simp_all add: i_def butlast_conv_take take_map last_conv_nth)
    moreover have "uint (sizes_fold (sizes_of (take i bss))) = int (offset bss i + 8)"
      using sizes_fold_offset [of i bss] i entry_inside [OF i(1)] assms(1) u64_of_nat(1) [of "offset bss i + 8"] by simp
    ultimately have "index_done ?it = ([], at_tag bss i buf)"
      using False seek_to_tag [OF assms(1) i(1)] by (simp add: index_done_def at_tag_def Let_def)
    then have to_last: "poll_step parse (layout bss) k ?it = ([], at_tag bss i buf)" for k by (simp add: step)
    have "eventually_yields parse (layout bss) ?it (map Inr (rev (take (Suc i) ts))) (all_read bss)"
      by (rule eventually_stepI [OF to_last tags_from [OF assms(1,2) i(1) assms(3)]])
    moreover have "ti_state (all_read bss) = None" by (simp add: all_read_def)
    ultimately show ?thesis using i(2) assms(2) by auto
  qed
  then show ?thesis using eventually_trans [OF buf(2)] by fastforce
qed

section \<open>Properties\<close>

lemma encode_tags_layout:
  assumes "list_all tag_wf ts" "times_round_trip to_rfc3339 parse"
  shows "\<exists>bss. length bss = length ts \<and> encode_tags to_rfc3339 ts = Ok (layout bss)
    \<and> (\<forall>j<length bss. bss ! j \<noteq> [] \<and> (\<exists>r. tag_decode parse (slice (bss ! j)) = Ok (ts ! j, r)))"
  using assms(1)
proof (induction ts)
  case Nil
  show ?case by (simp add: layout_def)
next
  case (Cons t ts)
  then obtain bss where bss: "length bss = length ts" "encode_tags to_rfc3339 ts = Ok (layout bss)"
    "\<forall>j<length bss. bss ! j \<noteq> [] \<and> (\<exists>r. tag_decode parse (slice (bss ! j)) = Ok (ts ! j, r))" by auto
  obtain bs where bs: "tag_encode to_rfc3339 t = Ok bs" "\<And>rest. tag_decode parse (slice (bs @ rest)) = Ok (t, slice rest)"
    using tag_decode_encode [of t to_rfc3339 parse] Cons.prems assms(2) by auto
  have "bs \<noteq> []"
    using bs(1) tag_encode_wf [of t to_rfc3339] Cons.prems assms(2) by (auto simp: times_round_trip_def)
  moreover have "tag_decode parse (slice bs) = Ok (t, slice [])" using bs(2) [of "[]"] by simp
  ultimately show ?case
    using bss bs(1) by (intro exI [of _ "bs # bss"]) (auto simp: layout_def less_Suc_eq_0_disj nth_Cons')
qed

lemma read_back_tags:
  assumes "list_all tag_wf ts" "times_round_trip to_rfc3339 parse"
    and "encode_tags to_rfc3339 ts = Ok file" "length file < 2 ^ 63"
  shows "\<exists>it. ti_state it = None \<and> (\<forall>ks. \<exists>n. poll_run parse file ks n tag_iter_new = (map Inr (rev ts), it))"
proof -
  obtain bss where "length bss = length ts" "layout bss = file"
    "\<forall>j<length bss. bss ! j \<noteq> [] \<and> (\<exists>r. tag_decode parse (slice (bss ! j)) = Ok (ts ! j, r))"
    using encode_tags_layout [OF assms(1,2)] assms(3) by auto
  with read_layout [of bss ts parse] assms(4) show ?thesis by (auto simp: eventually_yields_def)
qed

text \<open>
  C28: Reading a tag file that was written from a list of tags yields every tag, the last one that
  was written first, and then ends, however the reads of the file are cut into pieces.
\<close>

theorem tag_file_read_back:
  assumes "list_all tag_wf ts" "times_round_trip to_rfc3339 parse"
    and "encode_tags to_rfc3339 ts = Ok file" "length file < 2 ^ 63"
  shows "\<exists>it. ti_state it = None \<and> (\<forall>ks. \<exists>n. poll_run parse file ks n tag_iter_new = (map Inr (rev ts), it))"
  using assms by (rule read_back_tags)

theorem tag_file_read_back_witness:
  "\<exists>file it. encode_tags tally_time [example_tag, example_tag\<lparr>tag_time := 9\<rparr>] = Ok file \<and> ti_state it = None
     \<and> (\<forall>ks. \<exists>n. poll_run parse_tally file ks n tag_iter_new = ([Inr (example_tag\<lparr>tag_time := 9\<rparr>), Inr example_tag], it))"
proof -
  let ?t = "example_tag\<lparr>tag_time := 9\<rparr>"
  have wf: "list_all tag_wf [example_tag, ?t]" using example_tag_wf by (simp add: tag_wf_def)
  have time: "text_wf (tally_time x)" for x using tally_round_trip by (simp add: times_round_trip_def)
  obtain bytes where bytes: "encode_tags tally_time [example_tag, ?t] = Ok bytes" "length bytes < 2 ^ 63"
    using wf by (simp add: tag_encode_wf time) (simp add: example_tag_def tally_time_def EMPTY_DIGEST_def NULL_DIGEST_def DIGEST_SIZE_def)
  then show ?thesis using tag_file_read_back [OF wf tally_round_trip bytes] by auto
qed

text \<open>A file that was cut off inside its only tag.\<close>

definition in_cut_tag :: "byte_list \<Rightarrow> byte_list \<Rightarrow> tag_iter \<Rightarrow> bool" where
  "in_cut_tag bs file it \<longleftrightarrow>
     (case ti_state it of
        Some (ReadingIndex b) \<Rightarrow> length (ti_buf it) = 8 \<and>
          (if ti_sizes it = [] then b < 8 \<and> ti_pos it = b \<and> take b (ti_buf it) = take b file
           else ti_sizes it = [size_of bs] \<and> b = 0 \<and> ti_pos it = 8 + length bs)
      | Some SeekingIndex \<Rightarrow> length (ti_buf it) = 8 \<and> ti_sizes it = [size_of bs] \<and> ti_pos it = 8 + length bs
      | Some (SeekingTag sz) \<Rightarrow> sz = size_of bs \<and> ti_sizes it = [] \<and> ti_pos it = 8
      | Some (ReadingTag b) \<Rightarrow> ti_sizes it = [] \<and> length (ti_buf it) = length bs \<and> ti_pos it = 8 + b \<and> 8 + b \<le> length file
      | None \<Rightarrow> False)"

lemma in_cut_tag_running: "in_cut_tag bs file it \<Longrightarrow> ti_state it \<noteq> None"
  by (cases "ti_state it") (simp_all add: in_cut_tag_def)

lemma in_cut_tag_index:
  assumes "length bs < 2 ^ 62" "file = take (8 + j) (tag_record bs)" "j < length bs"
    and "length buf = 8" "b < 8" "take b buf = take b file"
    and it: "it = \<lparr>ti_buf = buf, ti_sizes = [], ti_state = Some (ReadingIndex b), ti_pos = b\<rparr>"
  shows "fst (poll_step parse file k it) = [] \<and> in_cut_tag bs file (snd (poll_step parse file k it))"
proof -
  define c where "c = read_count file k (8 - b) b"
  define buf' where "buf' = fill_from file b b c buf"
  have len: "length file = 8 + j" using assms(2,3) by simp
  have c: "0 < c" "b + c \<le> 8"
    using read_count_bounds [of "8 - b" b "file" k] assms(5) len by (auto simp: c_def)
  have buf': "take (b + c) buf' = take (b + c) file" "length buf' = 8"
    using fill_from_step [of b buf 0 "file" c] assms(4,6) c len by (simp_all add: buf'_def)
  have "take 8 file = be_bytes 8 (uint (size_of bs))" by (simp add: assms(2) tag_record_def INT64_SIZE_def)
  then have size: "word_of_int (from_be (take (b + c) buf')) = size_of bs" if "b + c = 8"
    using buf'(1) that from_be_be_bytes [of "uint (size_of bs)" 8] uint_lt2p [of "size_of bs"] by simp
  have sz: "sint (size_of bs) = int (length bs)" using assms(1) by (intro u64_of_nat) simp
  have seek: "seek_to (8 + int (length bs)) = Some (8 + length bs)" using assms(1) by (simp add: seek_to_def nat_add_distrib)
  show ?thesis
    using c buf' assms(4) size seek
    by (simp add: poll_step_def it poll_reading_index_def c_def [symmetric] buf'_def [symmetric] Let_def sz in_cut_tag_def)
qed

lemma in_cut_tag_step:
  assumes "length bs < 2 ^ 62" "file = take (8 + j) (tag_record bs)" "j < length bs" "in_cut_tag bs file it"
  shows "fst (poll_step parse file k it) = [] \<and> in_cut_tag bs file (snd (poll_step parse file k it))"
proof -
  have len: "length file = 8 + j" using assms(2,3) by simp
  have sz: "unat (size_of bs) = length bs" using assms(1) by (intro u64_of_nat) simp
  obtain buf S st pos where it: "it = \<lparr>ti_buf = buf, ti_sizes = S, ti_state = st, ti_pos = pos\<rparr>" by (cases it) auto
  show ?thesis
  proof (cases st)
    case None
    then show ?thesis using assms(4) it by (simp add: in_cut_tag_def)
  next
    case (Some s)
    show ?thesis
    proof (cases s)
      case (ReadingIndex b)
      show ?thesis
      proof (cases "S = []")
        case True
        then show ?thesis
          using in_cut_tag_index [OF assms(1-3), of buf b it parse k] assms(4) Some ReadingIndex it
          unfolding in_cut_tag_def [of bs "file" it] by simp
      next
        case False
        then show ?thesis
          using assms(3,4) Some ReadingIndex it len
          by (simp add: in_cut_tag_def poll_step_def poll_reading_index_def read_count_def fill_from_def Let_def
              index_done_def sizes_fold_def INT64_SIZE_def seek_to_def)
      qed
    next
      case SeekingIndex
      then show ?thesis using assms(4) Some it
        by (simp add: in_cut_tag_def poll_step_def poll_seeking_index_def resize_buf_def INT64_SIZE_def)
    next
      case (SeekingTag sz')
      then show ?thesis using assms(4) Some it len sz
        by (simp add: in_cut_tag_def poll_step_def poll_seeking_tag_def resize_buf_def)
    next
      case (ReadingTag b)
      define c where "c = read_count file k (length bs - b) (8 + b)"
      have inv: "S = []" "length buf = length bs" "pos = 8 + b" "8 + b \<le> length file"
        using assms(4) Some ReadingTag it by (simp_all add: in_cut_tag_def)
      have c: "b + c < length bs" "8 + b + c \<le> length file"
        using assms(3) len inv(4) by (auto simp: c_def read_count_def Let_def)
      then have "length (fill_from file (8 + b) b c buf) = length bs" using inv(2) by (simp add: fill_from_def)
      with c inv Some ReadingTag it show ?thesis
        by (simp add: in_cut_tag_def poll_step_def poll_reading_tag_def c_def [symmetric] Let_def)
    qed
  qed
qed

text \<open>
  A tag file that ends inside its tag makes the reader run for ever: however many steps it takes, it
  has neither yielded anything, not even an error, nor come to an end.
\<close>

theorem cut_tag_file_never_ends:
  assumes "length bs < 2 ^ 62" "j < length bs"
  shows "fst (poll_run parse (take (8 + j) (tag_record bs)) ks n tag_iter_new) = []
    \<and> ti_state (snd (poll_run parse (take (8 + j) (tag_record bs)) ks n tag_iter_new)) \<noteq> None"
proof -
  let ?file = "take (8 + j) (tag_record bs)"
  have run: "fst (poll_run parse ?file ks n it) = [] \<and> in_cut_tag bs ?file (snd (poll_run parse ?file ks n it))"
    if "in_cut_tag bs ?file it" for ks n it
    using that
  proof (induction n arbitrary: it ks)
    case (Suc n)
    obtain it1 where "poll_step parse ?file (ks 0) it = ([], it1)" "in_cut_tag bs ?file it1"
      using in_cut_tag_step [OF assms(1) refl assms(2) Suc.prems, of parse "ks 0"]
      by (cases "poll_step parse ?file (ks 0) it") auto
    with Suc.IH [of it1 "\<lambda>i. ks (Suc i)"] show ?case by (simp add: case_prod_beta)
  qed simp
  have "in_cut_tag bs ?file tag_iter_new" by (simp add: in_cut_tag_def tag_iter_new_def INT64_SIZE_def)
  from run [OF this] in_cut_tag_running show ?thesis by blast
qed

theorem cut_tag_file_never_ends_witness:
  "ti_state (snd (poll_run parse_tally (take (8 + 2) (tag_record ''abc'')) (\<lambda>i. i) 1000 tag_iter_new)) \<noteq> None"
  using cut_tag_file_never_ends [of "''abc''" 2 parse_tally "\<lambda>i. i" 1000] by simp

end
