(* ===== verification/Tag_Storage.thy ===== *)
theory Tag_Storage
  imports Tag_Iter Entries
begin

text \<open>
  The tag streams of a repository on disk (\<^verbatim>\<open>crates/spfs/src/storage/fs/tag.rs\<close>) and the operations that every
  tag storage derives from them (\<^verbatim>\<open>crates/spfs/src/storage/tag.rs\<close>): inserting, removing, resolving and
  pushing tags.

  The files of the repository are a map from paths to contents; a path is the list of its names. Directories are
  taken to exist, and errors of the operating system beyond a missing file or a lock that is held are not
  modelled. The relative_path crate is a parameter. An operation that reads a tag stream takes the schedule of the
  reads and the number of steps granted to the reader, and is \<open>None\<close> when the reader has not finished by
  then; the theorems show that a number of steps is enough.
\<close>

type_synonym path = "str list"
type_synonym files = "path \<rightharpoonup> byte_list"

datatype storage_error =
    UnknownReference str
  | TagError tag_error
  | StreamError tag_file_error
  | TagAlreadyLocked
  | RemoveFileMissing

type_synonym 'a stored = "(storage_error, 'a) outcome \<times> files"

record rel_path_ops =
  rp_components :: "str \<Rightarrow> component_of_path list"
  rp_to_path :: "str \<Rightarrow> path \<Rightarrow> path"

record fs_repo =
  fr_root :: path
  fr_namespace :: "str option"

section \<open>Paths\<close>

definition TAG_NAMESPACE_MARKER :: str where "TAG_NAMESPACE_MARKER = ''#ns''"

fun normal_names :: "component_of_path list \<Rightarrow> str list" where
  "normal_names [] = []"
| "normal_names (Normal n # cs) = n # normal_names cs"
| "normal_names (_ # cs) = normal_names cs"

definition tags_root_in_namespace :: "rel_path_ops \<Rightarrow> fs_repo \<Rightarrow> str option \<Rightarrow> path" where
  "tags_root_in_namespace rp repo ns =
     fr_root repo @ [''tags''] @
       (case ns of
          None \<Rightarrow> []
        | Some name \<Rightarrow> map (\<lambda>c. c @ TAG_NAMESPACE_MARKER) (normal_names (rp_components rp name)))"

text \<open>\<open>Path::file_stem\<close>, \<open>Path::set_file_name\<close> and \<open>Path::with_extension\<close> for a path that ends in a name.\<close>

definition file_stem :: "str \<Rightarrow> str" where
  "file_stem name = (case rsplit_once CHR ''.'' name of Some (a, _) \<Rightarrow> if a = [] then name else a | None \<Rightarrow> name)"

definition set_file_name :: "path \<Rightarrow> str \<Rightarrow> path" where
  "set_file_name path name = butlast path @ [name]"

definition with_extension :: "path \<Rightarrow> str \<Rightarrow> path" where
  "with_extension path ext = butlast path @ [file_stem (last path) @ ''.'' @ ext]"

definition tag_to_path :: "rel_path_ops \<Rightarrow> tag_spec \<Rightarrow> path \<Rightarrow> path" where
  "tag_to_path rp spec root = set_file_name (rp_to_path rp (tag_spec_path spec) root) (ts_name spec @ ''.tag'')"

definition lock_file :: "path \<Rightarrow> path" where
  "lock_file tag_file = with_extension tag_file ''tag.lock''"

definition work_file :: "path \<Rightarrow> path" where
  "work_file original = with_extension original ''tag.work''"

section \<open>Locking and writing\<close>

text \<open>A tag lock is a file that must not exist yet; it is removed when the lock is dropped.\<close>

definition with_lock :: "path \<Rightarrow> (files \<Rightarrow> 'a stored option) \<Rightarrow> files \<Rightarrow> 'a stored option" where
  "with_lock tag_file body fs =
     (if fs (lock_file tag_file) \<noteq> None then Some (Err TagAlreadyLocked, fs)
      else map_option (\<lambda>(r, fs). (r, fs(lock_file tag_file := None))) (body (fs(lock_file tag_file \<mapsto> []))))"

text \<open>The working file is opened for appending.\<close>

definition write_tags_to_path :: "('t \<Rightarrow> str) \<Rightarrow> path \<Rightarrow> 't tag list \<Rightarrow> files \<Rightarrow> unit stored" where
  "write_tags_to_path to_rfc3339 filepath tags fs =
     (let old = (case fs filepath of Some bs \<Rightarrow> bs | None \<Rightarrow> []) in
      case encode_tags to_rfc3339 tags of
        Panic \<Rightarrow> (Panic, fs(filepath \<mapsto> old))
      | Err e \<Rightarrow> (Err (TagError e), fs(filepath \<mapsto> old))
      | Ok bs \<Rightarrow> (Ok (), fs(filepath \<mapsto> old @ bs)))"

definition write_tags :: "('t \<Rightarrow> str) \<Rightarrow> path \<Rightarrow> 't tag list \<Rightarrow> files \<Rightarrow> unit stored" where
  "write_tags to_rfc3339 original tags fs =
     (if tags = [] then
        (case fs original of None \<Rightarrow> (Err RemoveFileMissing, fs) | Some _ \<Rightarrow> (Ok (), fs(original := None)))
      else
        case write_tags_to_path to_rfc3339 (work_file original) tags fs of
          (Ok _, fs) \<Rightarrow> (Ok (), (fs(original := fs (work_file original)))(work_file original := None))
        | (Err e, fs) \<Rightarrow> (Err e, fs(work_file original := None))
        | (Panic, fs) \<Rightarrow> (Panic, fs))"

section \<open>Streams\<close>

definition read_stream :: "(str \<Rightarrow> 't option) \<Rightarrow> (nat \<Rightarrow> nat) \<Rightarrow> nat \<Rightarrow> byte_list \<Rightarrow> 't tag_item list option" where
  "read_stream parse ks steps bytes =
     (case poll_run parse bytes ks steps tag_iter_new of (out, it) \<Rightarrow> if ti_state it = None then Some out else None)"

definition read_tag_in_namespace ::
  "rel_path_ops \<Rightarrow> fs_repo \<Rightarrow> (str \<Rightarrow> 't option) \<Rightarrow> (nat \<Rightarrow> nat) \<Rightarrow> nat \<Rightarrow> str option \<Rightarrow> tag_spec \<Rightarrow> files
     \<Rightarrow> (storage_error, 't tag_item list) outcome option" where
  "read_tag_in_namespace rp repo parse ks steps ns spec fs =
     (case fs (tag_to_path rp spec (tags_root_in_namespace rp repo ns)) of
        None \<Rightarrow> Some (Err (UnknownReference (show_tag_spec spec)))
      | Some bytes \<Rightarrow> map_option Ok (read_stream parse ks steps bytes))"

definition read_tag ::
  "rel_path_ops \<Rightarrow> fs_repo \<Rightarrow> (str \<Rightarrow> 't option) \<Rightarrow> (nat \<Rightarrow> nat) \<Rightarrow> nat \<Rightarrow> tag_spec \<Rightarrow> files
     \<Rightarrow> (storage_error, 't tag_item list) outcome option" where
  "read_tag rp repo parse ks steps spec fs =
     read_tag_in_namespace rp repo parse ks steps (fr_namespace repo) spec fs"

text \<open>The loop of \<open>insert_tag_in_namespace\<close>; it builds the list from the oldest to the newest tag, and \<open>None\<close> means that
  the tag is there already.\<close>

fun insert_loop ::
  "'t::linorder tag \<Rightarrow> bool \<Rightarrow> 't tag list \<Rightarrow> 't tag_item list \<Rightarrow> (storage_error, 't tag list option) outcome" where
  "insert_loop tag inserted tags [] = Ok (Some (if inserted then tags else tag # tags))"
| "insert_loop tag inserted tags (Inl e # stream) = Err (StreamError e)"
| "insert_loop tag True tags (Inr next # stream) = insert_loop tag True (next # tags) stream"
| "insert_loop tag False tags (Inr next # stream) =
     (case tag_cmp next tag of
        Less \<Rightarrow> insert_loop tag True (next # tag # tags) stream
      | Greater \<Rightarrow> insert_loop tag False (next # tags) stream
      | Equal \<Rightarrow> Ok None)"

definition insert_tag_in_namespace ::
  "rel_path_ops \<Rightarrow> fs_repo \<Rightarrow> ('t \<Rightarrow> str) \<Rightarrow> (str \<Rightarrow> 't option) \<Rightarrow> (nat \<Rightarrow> nat) \<Rightarrow> nat \<Rightarrow> str option \<Rightarrow> 't::linorder tag
     \<Rightarrow> files \<Rightarrow> unit stored option" where
  "insert_tag_in_namespace rp repo to_rfc3339 parse ks steps ns tag fs =
     (case build_tag_spec (tag_org tag) (tag_name tag) 0 of
        Panic \<Rightarrow> Some (Panic, fs)
      | Err e \<Rightarrow> Some (Err (TagError e), fs)
      | Ok tag_spec \<Rightarrow>
          let filepath = tag_to_path rp tag_spec (tags_root_in_namespace rp repo ns) in
          with_lock filepath (\<lambda>fs.
            case read_tag_in_namespace rp repo parse ks steps ns tag_spec fs of
              None \<Rightarrow> None
            | Some (Err (UnknownReference _)) \<Rightarrow> Some (write_tags to_rfc3339 filepath [tag] fs)
            | Some (Err e) \<Rightarrow> Some (Err e, fs)
            | Some Panic \<Rightarrow> Some (Panic, fs)
            | Some (Ok stream) \<Rightarrow>
                (case insert_loop tag False [] stream of
                   Panic \<Rightarrow> Some (Panic, fs)
                 | Err e \<Rightarrow> Some (Err e, fs)
                 | Ok None \<Rightarrow> Some (Ok (), fs)
                 | Ok (Some tags) \<Rightarrow> Some (write_tags to_rfc3339 filepath tags fs))) fs)"

definition insert_tag ::
  "rel_path_ops \<Rightarrow> fs_repo \<Rightarrow> ('t \<Rightarrow> str) \<Rightarrow> (str \<Rightarrow> 't option) \<Rightarrow> (nat \<Rightarrow> nat) \<Rightarrow> nat \<Rightarrow> 't::linorder tag
     \<Rightarrow> files \<Rightarrow> unit stored option" where
  "insert_tag rp repo to_rfc3339 parse ks steps tag fs =
     insert_tag_in_namespace rp repo to_rfc3339 parse ks steps (fr_namespace repo) tag fs"

definition remove_tag_stream_in_namespace ::
  "rel_path_ops \<Rightarrow> fs_repo \<Rightarrow> str option \<Rightarrow> tag_spec \<Rightarrow> files \<Rightarrow> unit stored option" where
  "remove_tag_stream_in_namespace rp repo ns tag fs =
     (case build_tag_spec (ts_org tag) (ts_name tag) 0 of
        Panic \<Rightarrow> Some (Panic, fs)
      | Err e \<Rightarrow> Some (Err (TagError e), fs)
      | Ok tag_spec \<Rightarrow>
          let filepath = tag_to_path rp tag_spec (tags_root_in_namespace rp repo ns) in
          with_lock filepath (\<lambda>fs.
            case fs filepath of
              None \<Rightarrow> Some (Err (UnknownReference (show_tag_spec tag)), fs)
            | Some _ \<Rightarrow> Some (Ok (), fs(filepath := None))) fs)"

text \<open>The stream is read with \<open>read_tag\<close>, in the namespace of the repository.\<close>

fun remove_loop :: "'t tag \<Rightarrow> 't tag list \<Rightarrow> 't tag_item list \<Rightarrow> (storage_error, 't tag list) outcome" where
  "remove_loop tag tags [] = Ok tags"
| "remove_loop tag tags (Inl e # stream) = Err (StreamError e)"
| "remove_loop tag tags (Inr next # stream) = remove_loop tag (if next \<noteq> tag then next # tags else tags) stream"

definition remove_tag_in_namespace ::
  "rel_path_ops \<Rightarrow> fs_repo \<Rightarrow> ('t \<Rightarrow> str) \<Rightarrow> (str \<Rightarrow> 't option) \<Rightarrow> (nat \<Rightarrow> nat) \<Rightarrow> nat \<Rightarrow> str option \<Rightarrow> 't tag
     \<Rightarrow> files \<Rightarrow> unit stored option" where
  "remove_tag_in_namespace rp repo to_rfc3339 parse ks steps ns tag fs =
     (case build_tag_spec (tag_org tag) (tag_name tag) 0 of
        Panic \<Rightarrow> Some (Panic, fs)
      | Err e \<Rightarrow> Some (Err (TagError e), fs)
      | Ok tag_spec \<Rightarrow>
          let filepath = tag_to_path rp tag_spec (tags_root_in_namespace rp repo ns) in
          with_lock filepath (\<lambda>fs.
            case read_tag rp repo parse ks steps tag_spec fs of
              None \<Rightarrow> None
            | Some (Err e) \<Rightarrow> Some (Err e, fs)
            | Some Panic \<Rightarrow> Some (Panic, fs)
            | Some (Ok stream) \<Rightarrow>
                (case remove_loop tag [] stream of
                   Panic \<Rightarrow> Some (Panic, fs)
                 | Err e \<Rightarrow> Some (Err e, fs)
                 | Ok tags \<Rightarrow> Some (write_tags to_rfc3339 filepath tags fs))) fs)"

section \<open>Derived operations\<close>

fun resolve_loop :: "tag_spec \<Rightarrow> u64 \<Rightarrow> 't tag_item list \<Rightarrow> (storage_error, 't tag) outcome" where
  "resolve_loop spec version [] = Err (UnknownReference (show_tag_spec spec))"
| "resolve_loop spec version (Inl e # stream) = Err (StreamError e)"
| "resolve_loop spec version (Inr tag # stream) =
     (if ts_version spec = version then Ok tag else resolve_loop spec (version + 1) stream)"

definition resolve_tag_in_namespace ::
  "rel_path_ops \<Rightarrow> fs_repo \<Rightarrow> (str \<Rightarrow> 't option) \<Rightarrow> (nat \<Rightarrow> nat) \<Rightarrow> nat \<Rightarrow> str option \<Rightarrow> tag_spec \<Rightarrow> files
     \<Rightarrow> (storage_error, 't tag) outcome option" where
  "resolve_tag_in_namespace rp repo parse ks steps ns spec fs =
     (case read_tag_in_namespace rp repo parse ks steps ns spec fs of
        None \<Rightarrow> None
      | Some r \<Rightarrow> Some (and_then r (\<lambda>stream. resolve_loop spec 0 stream)))"

definition resolve_tag ::
  "rel_path_ops \<Rightarrow> fs_repo \<Rightarrow> (str \<Rightarrow> 't option) \<Rightarrow> (nat \<Rightarrow> nat) \<Rightarrow> nat \<Rightarrow> tag_spec \<Rightarrow> files
     \<Rightarrow> (storage_error, 't tag) outcome option" where
  "resolve_tag rp repo parse ks steps spec fs =
     resolve_tag_in_namespace rp repo parse ks steps (fr_namespace repo) spec fs"

definition has_tag_in_namespace ::
  "rel_path_ops \<Rightarrow> fs_repo \<Rightarrow> (str \<Rightarrow> 't option) \<Rightarrow> (nat \<Rightarrow> nat) \<Rightarrow> nat \<Rightarrow> str option \<Rightarrow> tag_spec \<Rightarrow> files \<Rightarrow> bool option" where
  "has_tag_in_namespace rp repo parse ks steps ns spec fs =
     map_option is_ok_result (resolve_tag_in_namespace rp repo parse ks steps ns spec fs)"

text \<open>The configured user and the current time are arguments.\<close>

definition push_tag ::
  "rel_path_ops \<Rightarrow> fs_repo \<Rightarrow> (byte_list \<Rightarrow> digest) \<Rightarrow> ('t \<Rightarrow> str) \<Rightarrow> (str \<Rightarrow> 't option) \<Rightarrow> str tag_result \<Rightarrow> 't::linorder
     \<Rightarrow> (nat \<Rightarrow> nat) \<Rightarrow> nat \<Rightarrow> tag_spec \<Rightarrow> digest \<Rightarrow> files \<Rightarrow> 't tag stored option" where
  "push_tag rp repo hash to_rfc3339 parse config_user now ks steps tag target fs =
     (case resolve_tag rp repo parse ks steps tag fs of
        None \<Rightarrow> None
      | Some r \<Rightarrow>
          let parent = (case r of Ok p \<Rightarrow> Some p | _ \<Rightarrow> None);
              push = (\<lambda>parent_ref.
                case tag_new config_user now (ts_org tag) (ts_name tag) target of
                  Panic \<Rightarrow> Some (Panic, fs)
                | Err e \<Rightarrow> Some (Err (TagError e), fs)
                | Ok new_tag \<Rightarrow>
                    let new_tag = new_tag\<lparr>tag_parent := parent_ref\<rparr> in
                    (case insert_tag rp repo to_rfc3339 parse ks steps new_tag fs of
                       None \<Rightarrow> None
                     | Some (r, fs) \<Rightarrow> Some (and_then r (\<lambda>_. Ok new_tag), fs))) in
          case r of
            Panic \<Rightarrow> Some (Panic, fs)
          | _ \<Rightarrow>
            (case parent of
               None \<Rightarrow> push NULL_DIGEST
             | Some p \<Rightarrow>
                 if tag_target p = target then Some (Ok p, fs)
                 else (case tag_digest hash to_rfc3339 p of
                         Panic \<Rightarrow> Some (Panic, fs)
                       | Err e \<Rightarrow> Some (Err (TagError e), fs)
                       | Ok d \<Rightarrow> push d)))"

section \<open>Streams of tags\<close>

text \<open>What a tag stream is: its tags from the newest to the oldest.\<close>

definition newest_first :: "'t::linorder tag list \<Rightarrow> bool" where
  "newest_first tags \<longleftrightarrow> sorted_wrt (\<lambda>a b. tag_cmp b a = Less) tags"

fun insert_desc :: "'t::linorder tag \<Rightarrow> 't tag list \<Rightarrow> 't tag list" where
  "insert_desc t [] = [t]"
| "insert_desc t (x # xs) =
     (case tag_cmp x t of Less \<Rightarrow> t # x # xs | Equal \<Rightarrow> x # xs | Greater \<Rightarrow> x # insert_desc t xs)"

definition stored_at :: "('t \<Rightarrow> str) \<Rightarrow> files \<Rightarrow> path \<Rightarrow> 't tag list \<Rightarrow> bool" where
  "stored_at to_rfc3339 fs p tags \<longleftrightarrow> list_all tag_wf tags
     \<and> (\<exists>bytes. fs p = Some bytes \<and> encode_tags to_rfc3339 (rev tags) = Ok bytes)"

definition readable_size :: "files \<Rightarrow> path \<Rightarrow> bool" where
  "readable_size fs p \<longleftrightarrow> (case fs p of None \<Rightarrow> True | Some bytes \<Rightarrow> length bytes < 2 ^ 63)"

text \<open>A stream without tags has no file.\<close>

definition holds :: "('t \<Rightarrow> str) \<Rightarrow> files \<Rightarrow> path \<Rightarrow> 't tag list \<Rightarrow> bool" where
  "holds to_rfc3339 fs p tags \<longleftrightarrow> (if tags = [] then fs p = None else stored_at to_rfc3339 fs p tags)"

lemma set_insert_desc: "set (insert_desc t tags) = insert t (set tags)"
  by (induction tags) (auto split: ordering.split)

lemma newest_first_insert_desc:
  assumes "newest_first tags"
  shows "newest_first (insert_desc t tags)"
  using assms
proof (induction tags)
  case (Cons x xs)
  then show ?case
    by (auto simp: newest_first_def set_insert_desc tag_ord.cmp_Greater_iff split: ordering.split
        dest: tag_ord.cmp_lt_trans)
qed (simp add: newest_first_def)

lemma insert_loop_True: "insert_loop t True acc (map Inr tags) = Ok (Some (rev tags @ acc))"
  by (induction tags arbitrary: acc) auto

lemma insert_loop_desc:
  assumes "newest_first tags"
  shows "insert_loop t False acc (map Inr tags) =
    Ok (if t \<in> set tags then None else Some (rev (insert_desc t tags) @ acc))"
  using assms
proof (induction tags arbitrary: acc)
  case (Cons x xs)
  have later: "y \<in> set xs \<Longrightarrow> tag_cmp y x = Less" for y using Cons.prems by (simp add: newest_first_def)
  show ?case
  proof (cases "tag_cmp x t")
    case Less
    have "t \<noteq> x" "t \<notin> set xs"
      using Less later [of t] tag_ord.cmp_lt_trans [of x t x] by (auto simp: tag_ord.cmp_refl)
    with Less show ?thesis by (simp add: insert_loop_True)
  next
    case Equal
    then show ?thesis by (simp add: tag_ord.cmp_refl)
  next
    case Greater
    then have "t \<noteq> x" by (auto simp: tag_ord.cmp_refl)
    with Greater Cons show ?thesis by (simp add: newest_first_def)
  qed
qed simp

lemma insert_desc_present:
  "newest_first tags \<Longrightarrow> t \<in> set tags \<Longrightarrow> insert_desc t tags = tags"
proof (induction tags)
  case (Cons x xs)
  then show ?case
    using tag_ord.cmp_Greater_iff [of x t]
    by (auto simp: newest_first_def tag_ord.cmp_refl split: ordering.split)
qed simp

lemma remove_loop_filter: "remove_loop t acc (map Inr tags) = Ok (rev (filter (\<lambda>x. x \<noteq> t) tags) @ acc)"
  by (induction tags arbitrary: acc) auto

section \<open>Files\<close>

lemma encode_tags_append:
  "encode_tags f (xs @ ys) = and_then (encode_tags f xs) (\<lambda>a. and_then (encode_tags f ys) (\<lambda>b. Ok (a @ b)))"
proof (induction xs)
  case Nil
  show ?case by (cases "encode_tags f ys") simp_all
next
  case (Cons x xs)
  then show ?case
    by (cases "tag_encode f x"; cases "encode_tags f xs"; cases "encode_tags f ys") simp_all
qed

lemma encode_tags_wf:
  assumes "list_all tag_wf ts" "times_round_trip to_rfc3339 parse"
  shows "\<exists>bytes. encode_tags to_rfc3339 ts = Ok bytes"
  using encode_tags_layout [OF assms] by blast

lemma read_stream_stored:
  assumes "list_all tag_wf tags" "times_round_trip to_rfc3339 parse"
    and "encode_tags to_rfc3339 (rev tags) = Ok bytes" "length bytes < 2 ^ 63"
  shows "\<exists>n. \<forall>steps\<ge>n. read_stream parse ks steps bytes = Some (map Inr tags)"
proof -
  have "list_all tag_wf (rev tags)" using assms(1) by simp
  from read_back_tags [OF this assms(2-4)] obtain it n where
    n: "ti_state it = None" "poll_run parse bytes ks n tag_iter_new = (map Inr tags, it)" by fastforce
  have "poll_run parse bytes ks (n + m) tag_iter_new = (map Inr tags, it)" for m
    using poll_run_add [OF n(2) poll_run_finished [OF n(1)], of m] by simp
  then have "\<forall>steps\<ge>n. read_stream parse ks steps bytes = Some (map Inr tags)"
    using n(1) by (auto simp: read_stream_def le_iff_add)
  then show ?thesis by blast
qed

lemma tag_paths_distinct:
  assumes "p = tag_to_path rp spec root"
  shows "lock_file q \<noteq> p" "work_file q \<noteq> p" "lock_file q \<noteq> work_file q'"
proof -
  have ends: "last (last (lock_file q)) = CHR ''k''" "last (last (work_file q)) = CHR ''k''" "last (last p) = CHR ''g''"
    by (simp_all add: assms lock_file_def work_file_def with_extension_def tag_to_path_def set_file_name_def)
  then show "lock_file q \<noteq> p" "work_file q \<noteq> p" by auto
  have "last (butlast (last (lock_file q))) = CHR ''c''" "last (butlast (last (work_file q'))) = CHR ''r''"
    by (simp_all add: lock_file_def work_file_def with_extension_def butlast_append)
  then show "lock_file q \<noteq> work_file q'" by auto
qed

lemma write_tags_nonempty:
  assumes "list_all tag_wf (tags @ stale)" "times_round_trip to_rfc3339 parse" "tags \<noteq> []"
    and "fs w = (if stale = [] then None else Some wbytes)" "encode_tags to_rfc3339 (rev stale) = Ok wbytes"
    and "w = work_file p" "w \<noteq> p"
  shows "\<exists>bytes. encode_tags to_rfc3339 (rev (tags @ stale)) = Ok bytes
    \<and> write_tags to_rfc3339 p (rev tags) fs = (Ok (), (fs(p \<mapsto> bytes))(w := None))"
proof -
  obtain bytes where bytes: "encode_tags to_rfc3339 (rev tags) = Ok bytes"
    using encode_tags_wf [of "rev tags" to_rfc3339 parse] assms(1,2) by auto
  have "(case fs w of Some bs \<Rightarrow> bs | None \<Rightarrow> []) = wbytes"
    using assms(4,5) by (cases "stale = []") auto
  then have "write_tags to_rfc3339 p (rev tags) fs = (Ok (), (fs(p \<mapsto> wbytes @ bytes))(w := None))"
    using assms(3,6,7) bytes by (auto simp: write_tags_def write_tags_to_path_def fun_eq_iff)
  then show ?thesis using bytes assms(5) by (simp add: encode_tags_append)
qed

lemma read_tag_holds:
  assumes "holds to_rfc3339 fs p tags" "tags \<noteq> []" "readable_size fs p" "times_round_trip to_rfc3339 parse"
    and "p = tag_to_path rp spec (tags_root_in_namespace rp repo ns)"
  shows "\<exists>n. \<forall>steps\<ge>n. read_tag_in_namespace rp repo parse ks steps ns spec fs = Some (Ok (map Inr tags))"
proof -
  obtain bytes where "fs p = Some bytes" "encode_tags to_rfc3339 (rev tags) = Ok bytes" "list_all tag_wf tags"
    using assms(1,2) by (auto simp: holds_def stored_at_def)
  with read_stream_stored [of tags to_rfc3339 parse bytes ks] assms(3-5) show ?thesis
    by (auto simp: read_tag_in_namespace_def readable_size_def)
qed

lemma holds_lock [simp]:
  assumes "p = tag_to_path rp spec root"
  shows "holds f (fs(lock_file q := x)) p tags \<longleftrightarrow> holds f fs p tags"
    and "readable_size (fs(lock_file q := x)) p \<longleftrightarrow> readable_size fs p"
  using tag_paths_distinct(1) [OF assms, of q] by (auto simp: holds_def stored_at_def readable_size_def)

text \<open>Inserting when a working file with some tags was left behind.\<close>

lemma insert_tag_with_stale:
  assumes spec: "build_tag_spec (tag_org t) (tag_name t) 0 = Ok spec"
    and p: "p = tag_to_path rp spec (tags_root_in_namespace rp repo ns)"
    and time: "times_round_trip to_rfc3339 parse"
    and tags: "holds to_rfc3339 fs p tags" "newest_first tags" "readable_size fs p" "t \<notin> set tags" "tag_wf t"
    and lock: "fs (lock_file p) = None"
    and stale: "holds to_rfc3339 fs (work_file p) stale"
  shows "\<exists>n. \<forall>steps\<ge>n. \<exists>fs'. insert_tag_in_namespace rp repo to_rfc3339 parse ks steps ns t fs = Some (Ok (), fs')
    \<and> stored_at to_rfc3339 fs' p (insert_desc t tags @ stale) \<and> fs' (work_file p) = None
    \<and> (\<forall>q. q \<noteq> p \<longrightarrow> q \<noteq> work_file p \<longrightarrow> fs' q = fs q)"
proof -
  note paths = tag_paths_distinct [OF p, of p] tag_paths_distinct(3) [OF p, of p p]
  let ?fs = "fs(lock_file p \<mapsto> [])"
  let ?new = "insert_desc t tags"
  have wf: "list_all tag_wf tags" "list_all tag_wf stale"
    using tags(1) stale by (auto simp: holds_def stored_at_def split: if_splits)
  have wf': "list_all tag_wf (?new @ stale)" using wf tags(5) by (auto simp: list_all_iff set_insert_desc)
  have "?new \<noteq> []" by (metis empty_set insert_not_empty set_insert_desc)
  obtain wbytes where "?fs (work_file p) = (if stale = [] then None else Some wbytes)"
    "encode_tags to_rfc3339 (rev stale) = Ok wbytes"
    using stale paths by (auto simp: holds_def stored_at_def split: if_splits)
  then obtain bytes where bytes: "encode_tags to_rfc3339 (rev (?new @ stale)) = Ok bytes"
    and wrote: "write_tags to_rfc3339 p (rev ?new) ?fs = (Ok (), (?fs(p \<mapsto> bytes))(work_file p := None))"
    using write_tags_nonempty [of ?new stale to_rfc3339 parse ?fs "work_file p" wbytes p] wf' time \<open>?new \<noteq> []\<close> paths(2)
    by blast
  have body: "\<exists>n. \<forall>steps\<ge>n. insert_tag_in_namespace rp repo to_rfc3339 parse ks steps ns t fs =
      map_option (\<lambda>(r, fs). (r, fs(lock_file p := None))) (Some (write_tags to_rfc3339 p (rev ?new) ?fs))"
  proof (cases "tags = []")
    case True
    then have "?fs p = None" using tags(1) paths by (simp add: holds_def)
    with True show ?thesis
      using lock by (simp add: insert_tag_in_namespace_def spec p [symmetric] with_lock_def read_tag_in_namespace_def)
  next
    case False
    obtain n where n: "\<forall>steps\<ge>n. read_tag_in_namespace rp repo parse ks steps ns spec ?fs = Some (Ok (map Inr tags))"
      using read_tag_holds [of to_rfc3339 ?fs p tags parse rp spec repo ns] tags(1,3) False time p by auto
    have "insert_tag_in_namespace rp repo to_rfc3339 parse ks steps ns t fs =
      map_option (\<lambda>(r, fs). (r, fs(lock_file p := None))) (Some (write_tags to_rfc3339 p (rev ?new) ?fs))"
      if "n \<le> steps" for steps
      using lock insert_loop_desc [OF tags(2), of t "[]"] tags(4) n that
      by (simp add: insert_tag_in_namespace_def spec p [symmetric] with_lock_def)
    then show ?thesis by blast
  qed
  let ?fs' = "((?fs(p \<mapsto> bytes))(work_file p := None))(lock_file p := None)"
  have "stored_at to_rfc3339 ?fs' p (?new @ stale)" "?fs' (work_file p) = None"
    "\<forall>q. q \<noteq> p \<longrightarrow> q \<noteq> work_file p \<longrightarrow> ?fs' q = fs q"
    using wf' bytes paths lock by (auto simp: stored_at_def)
  with body show ?thesis by (force simp: wrote)
qed

lemma insert_tag_present:
  assumes spec: "build_tag_spec (tag_org t) (tag_name t) 0 = Ok spec"
    and p: "p = tag_to_path rp spec (tags_root_in_namespace rp repo ns)"
    and time: "times_round_trip to_rfc3339 parse"
    and tags: "holds to_rfc3339 fs p tags" "newest_first tags" "readable_size fs p" "t \<in> set tags"
    and lock: "fs (lock_file p) = None"
  shows "\<exists>n. \<forall>steps\<ge>n. insert_tag_in_namespace rp repo to_rfc3339 parse ks steps ns t fs = Some (Ok (), fs)"
proof -
  let ?fs = "fs(lock_file p \<mapsto> [])"
  have "tags \<noteq> []" using tags(4) by auto
  then obtain n where n: "\<forall>steps\<ge>n. read_tag_in_namespace rp repo parse ks steps ns spec ?fs = Some (Ok (map Inr tags))"
    using read_tag_holds [of to_rfc3339 ?fs p tags parse rp spec repo ns] tags(1,3) time p by auto
  have "insert_tag_in_namespace rp repo to_rfc3339 parse ks steps ns t fs = Some (Ok (), fs)" if "n \<le> steps" for steps
    using lock insert_loop_desc [OF tags(2), of t "[]"] tags(4) n that
    by (simp add: insert_tag_in_namespace_def spec p [symmetric] with_lock_def fun_upd_idem)
  then show ?thesis by blast
qed

lemma insert_tag_ordered:
  assumes "build_tag_spec (tag_org t) (tag_name t) 0 = Ok spec"
    and "p = tag_to_path rp spec (tags_root_in_namespace rp repo ns)" "times_round_trip to_rfc3339 parse"
    and "holds to_rfc3339 fs p tags" "newest_first tags" "readable_size fs p" "tag_wf t"
    and "fs (lock_file p) = None" "fs (work_file p) = None"
  shows "\<exists>n. \<forall>steps\<ge>n. \<exists>fs'. insert_tag_in_namespace rp repo to_rfc3339 parse ks steps ns t fs = Some (Ok (), fs')
    \<and> holds to_rfc3339 fs' p (insert_desc t tags) \<and> newest_first (insert_desc t tags)
    \<and> (\<forall>q. q \<noteq> p \<longrightarrow> fs' q = fs q)"
proof (cases "t \<in> set tags")
  case True
  from insert_tag_present [OF assms(1-6) True assms(8), of ks] obtain n where
    n: "\<forall>steps\<ge>n. insert_tag_in_namespace rp repo to_rfc3339 parse ks steps ns t fs = Some (Ok (), fs)" by blast
  have "insert_desc t tags = tags" using assms(5) True by (rule insert_desc_present)
  with n assms(4,5) show ?thesis by auto
next
  case False
  have "holds to_rfc3339 fs (work_file p) ([] :: 'a tag list)" using assms(9) by (simp add: holds_def)
  from insert_tag_with_stale [OF assms(1-6) False assms(7,8) this, of ks] obtain n where
    n: "\<forall>steps\<ge>n. \<exists>fs'. insert_tag_in_namespace rp repo to_rfc3339 parse ks steps ns t fs = Some (Ok (), fs')
      \<and> stored_at to_rfc3339 fs' p (insert_desc t tags) \<and> fs' (work_file p) = None
      \<and> (\<forall>q. q \<noteq> p \<longrightarrow> q \<noteq> work_file p \<longrightarrow> fs' q = fs q)" by auto
  have "insert_desc t tags \<noteq> []" by (metis empty_set insert_not_empty set_insert_desc)
  then have "holds to_rfc3339 fs' p (insert_desc t tags) \<longleftrightarrow> stored_at to_rfc3339 fs' p (insert_desc t tags)" for fs'
    by (simp add: holds_def)
  moreover have "(\<forall>q. q \<noteq> p \<longrightarrow> fs' q = fs q)"
    if "fs' (work_file p) = None" "\<forall>q. q \<noteq> p \<longrightarrow> q \<noteq> work_file p \<longrightarrow> fs' q = fs q" for fs'
    using that assms(9) by auto
  ultimately show ?thesis using n newest_first_insert_desc [OF assms(5), of t] by meson
qed

section \<open>Properties\<close>

text \<open>
  C7: Inserting a tag into its stream puts it where it belongs in the order from the newest to the oldest
  tag, or changes nothing when it is there already; the stream stays ordered, and no other file of
  the repository changes. The reader of the old stream comes to its end.
\<close>

theorem insert_tag_refines_ordered_insert:
  assumes "build_tag_spec (tag_org t) (tag_name t) 0 = Ok spec"
    and "p = tag_to_path rp spec (tags_root_in_namespace rp repo ns)" "times_round_trip to_rfc3339 parse"
    and "holds to_rfc3339 fs p tags" "newest_first tags" "readable_size fs p" "tag_wf t"
    and "fs (lock_file p) = None" "fs (work_file p) = None"
  shows "\<exists>n. \<forall>steps\<ge>n. \<exists>fs'. insert_tag_in_namespace rp repo to_rfc3339 parse ks steps ns t fs = Some (Ok (), fs')
    \<and> holds to_rfc3339 fs' p (insert_desc t tags) \<and> newest_first (insert_desc t tags)
    \<and> (\<forall>q. q \<noteq> p \<longrightarrow> fs' q = fs q)"
  using assms by (rule insert_tag_ordered)

definition split_paths :: rel_path_ops where
  "split_paths = \<lparr>rp_components = (\<lambda>s. map Normal (split_str CHR ''/'' s)), rp_to_path = (\<lambda>s root. root @ split_str CHR ''/'' s)\<rparr>"

definition example_repo :: fs_repo where
  "example_repo = \<lparr>fr_root = [''repo''], fr_namespace = None\<rparr>"

abbreviation example_spec :: tag_spec where
  "example_spec \<equiv> TagSpec (Some ''spi'') ''main'' 0"

lemma example_tag_spec: "build_tag_spec (tag_org example_tag) (tag_name example_tag) 0 = Ok example_spec"
proof -
  have "tag_spec_wf example_spec" by (simp add: tag_spec_wf_def tag_char_defs is_tag_org_char_def)
  from show_tag_spec_parts [OF this] split_tag_spec_parts [of "''spi''" "''main''" "''spi/''" "[]" 0]
  show ?thesis by (simp add: example_tag_def build_tag_spec_def tag_char_defs is_tag_org_char_def)
qed

theorem insert_tag_refines_ordered_insert_witness:
  "\<exists>n. \<forall>steps\<ge>n. \<exists>fs'.
     insert_tag_in_namespace split_paths example_repo tally_time parse_tally (\<lambda>i. 1) steps (Some ''ns'') example_tag Map.empty
       = Some (Ok (), fs')
     \<and> holds tally_time fs' (tag_to_path split_paths example_spec (tags_root_in_namespace split_paths example_repo (Some ''ns'')))
         [example_tag]"
proof -
  define p where "p = tag_to_path split_paths example_spec (tags_root_in_namespace split_paths example_repo (Some ''ns''))"
  define fs :: files where "fs = Map.empty"
  have fs: "holds tally_time fs p ([] :: int tag list)" "readable_size fs p" "fs (lock_file p) = None" "fs (work_file p) = None"
    by (simp_all add: holds_def readable_size_def fs_def)
  have "newest_first ([] :: int tag list)" by (simp add: newest_first_def)
  from insert_tag_refines_ordered_insert [OF example_tag_spec p_def tally_round_trip fs(1) this fs(2) example_tag_wf fs(3,4),
      of "\<lambda>i. 1"]
  show ?thesis unfolding p_def [symmetric] fs_def [symmetric] insert_desc.simps(1) by meson
qed

text \<open>
  A working file that an interrupted write left behind is opened for appending and then renamed: the tags in it end up
  in the stream behind the oldest tag, whatever their times.
\<close>

theorem stale_working_file_joins_stream:
  assumes "build_tag_spec (tag_org t) (tag_name t) 0 = Ok spec"
    and "p = tag_to_path rp spec (tags_root_in_namespace rp repo ns)" "times_round_trip to_rfc3339 parse"
    and "holds to_rfc3339 fs p tags" "newest_first tags" "readable_size fs p" "t \<notin> set tags" "tag_wf t"
    and "fs (lock_file p) = None" "stale \<noteq> []" "stored_at to_rfc3339 fs (work_file p) stale"
  shows "\<exists>n. \<forall>steps\<ge>n. \<exists>fs'. insert_tag_in_namespace rp repo to_rfc3339 parse ks steps ns t fs = Some (Ok (), fs')
    \<and> stored_at to_rfc3339 fs' p (insert_desc t tags @ stale)"
  using insert_tag_with_stale [OF assms(1-9), of stale ks] assms(10,11) unfolding holds_def by metis

lemma holds_empty_iff: "holds f fs p [] \<longleftrightarrow> fs p = None"
  by (simp add: holds_def)

theorem stale_working_file_joins_stream_witness:
  "\<exists>p fs fs' n. insert_tag_in_namespace split_paths example_repo tally_time parse_tally (\<lambda>i. 1) n None example_tag fs = Some (Ok (), fs')
     \<and> fs p = None \<and> stored_at tally_time fs' p [example_tag, example_tag\<lparr>tag_time := 9\<rparr>]"
proof -
  let ?t = "example_tag\<lparr>tag_time := 9\<rparr>"
  define p where "p = tag_to_path split_paths example_spec (tags_root_in_namespace split_paths example_repo None)"
  note paths = tag_paths_distinct [OF p_def, of p] tag_paths_distinct(3) [OF p_def, of p p]
  have wf: "list_all tag_wf [?t]" using example_tag_wf by (simp add: tag_wf_def)
  then obtain bytes where bytes: "encode_tags tally_time [?t] = Ok bytes"
    using encode_tags_wf [OF wf tally_round_trip] by auto
  define fs :: files where "fs = [work_file p \<mapsto> bytes]"
  have "\<exists>n. \<forall>steps\<ge>n. \<exists>fs'. insert_tag_in_namespace split_paths example_repo tally_time parse_tally (\<lambda>i. 1) steps None example_tag fs
      = Some (Ok (), fs') \<and> stored_at tally_time fs' p (insert_desc example_tag [] @ [?t])"
    using example_tag_wf wf bytes paths
    by (intro stale_working_file_joins_stream [OF example_tag_spec p_def tally_round_trip])
      (auto simp: fs_def holds_def newest_first_def readable_size_def stored_at_def)
  moreover have "fs p = None" using paths by (simp add: fs_def)
  ultimately show ?thesis by fastforce
qed

text \<open>
  Removing a tag in some namespace reads the stream of the repository's own namespace. It leaves that stream
  without the tag in the file of the namespace it was asked for, whatever was there before: the removal is right
  when the two namespaces are the same, and otherwise the history of the named one is lost.
\<close>

theorem remove_tag_copies_default_namespace:
  assumes spec: "build_tag_spec (tag_org t) (tag_name t) 0 = Ok spec"
    and p: "p = tag_to_path rp spec (tags_root_in_namespace rp repo ns)"
    and pd: "pd = tag_to_path rp spec (tags_root_in_namespace rp repo (fr_namespace repo))"
    and time: "times_round_trip to_rfc3339 parse"
    and tags: "holds to_rfc3339 fs pd tags" "tags \<noteq> []" "readable_size fs pd" "fs p \<noteq> None"
    and free: "fs (lock_file p) = None" "fs (work_file p) = None"
  shows "\<exists>n. \<forall>steps\<ge>n. \<exists>fs'. remove_tag_in_namespace rp repo to_rfc3339 parse ks steps ns t fs = Some (Ok (), fs')
    \<and> holds to_rfc3339 fs' p (filter (\<lambda>x. x \<noteq> t) tags) \<and> (\<forall>q. q \<noteq> p \<longrightarrow> fs' q = fs q)"
proof -
  note paths = tag_paths_distinct [OF p, of p] tag_paths_distinct(3) [OF p, of p p]
  let ?fs = "fs(lock_file p \<mapsto> [])"
  let ?rest = "filter (\<lambda>x. x \<noteq> t) tags"
  have wf: "list_all tag_wf ?rest" using tags(1,2) by (auto simp: holds_def stored_at_def list_all_iff)
  obtain fs' where wrote: "write_tags to_rfc3339 p (rev ?rest) ?fs = (Ok (), fs')"
    and fs': "holds to_rfc3339 fs' p ?rest" "\<forall>q. q \<noteq> p \<longrightarrow> fs' q = ?fs q"
  proof (cases "?rest = []")
    case True
    then show thesis using that [of "?fs(p := None)"] tags(4) paths by (auto simp: write_tags_def holds_def)
  next
    case False
    obtain bytes where "encode_tags to_rfc3339 (rev ?rest) = Ok bytes"
      "write_tags to_rfc3339 p (rev ?rest) ?fs = (Ok (), (?fs(p \<mapsto> bytes))(work_file p := None))"
      using write_tags_nonempty [of ?rest "[]" to_rfc3339 parse ?fs "work_file p" "[]" p] wf time False paths free by auto
    then show thesis using that [of "(?fs(p \<mapsto> bytes))(work_file p := None)"] False wf paths free
      by (auto simp: holds_def stored_at_def)
  qed
  obtain n where n: "\<forall>steps\<ge>n. read_tag_in_namespace rp repo parse ks steps (fr_namespace repo) spec ?fs = Some (Ok (map Inr tags))"
    using read_tag_holds [of to_rfc3339 ?fs pd tags parse rp spec repo "fr_namespace repo"] tags time pd by auto
  have "remove_tag_in_namespace rp repo to_rfc3339 parse ks steps ns t fs = Some (Ok (), fs'(lock_file p := None))"
    if "n \<le> steps" for steps
    using free n that wrote remove_loop_filter [of t "[]" tags]
    by (simp add: remove_tag_in_namespace_def spec p [symmetric] with_lock_def read_tag_def)
  moreover have "holds to_rfc3339 (fs'(lock_file p := None)) p ?rest"
    using fs'(1) holds_lock(1) [OF p, of to_rfc3339 fs' p None] by simp
  moreover have "\<forall>q. q \<noteq> p \<longrightarrow> (fs'(lock_file p := None)) q = fs q" using fs'(2) free by auto
  ultimately show ?thesis by blast
qed

theorem remove_tag_copies_default_namespace_witness:
  "\<exists>fs fs' n. let p = tag_to_path split_paths example_spec (tags_root_in_namespace split_paths example_repo (Some ''ns'')) in
     stored_at tally_time fs p [example_tag\<lparr>tag_time := 9\<rparr>, example_tag]
     \<and> remove_tag_in_namespace split_paths example_repo tally_time parse_tally (\<lambda>i. 1) n (Some ''ns'') example_tag fs = Some (Ok (), fs')
     \<and> holds tally_time fs' p []"
proof -
  let ?t = "example_tag\<lparr>tag_time := 9\<rparr>"
  define p where "p = tag_to_path split_paths example_spec (tags_root_in_namespace split_paths example_repo (Some ''ns''))"
  define pd where "pd = tag_to_path split_paths example_spec (tags_root_in_namespace split_paths example_repo (fr_namespace example_repo))"
  have ne: "p \<noteq> pd"
    by (simp add: p_def pd_def tag_to_path_def tags_root_in_namespace_def split_paths_def example_repo_def set_file_name_def
        tag_spec_path_def TAG_NAMESPACE_MARKER_def)
  note paths = tag_paths_distinct [OF p_def, of p] tag_paths_distinct [OF pd_def, of p]
  have wf: "list_all tag_wf [example_tag]" "list_all tag_wf [example_tag, ?t]" using example_tag_wf by (simp_all add: tag_wf_def)
  obtain a b where a: "encode_tags tally_time [example_tag] = Ok a" and b: "encode_tags tally_time [example_tag, ?t] = Ok b"
    using encode_tags_wf [OF wf(1) tally_round_trip] encode_tags_wf [OF wf(2) tally_round_trip] by blast
  have time: "text_wf (tally_time x)" for x using tally_round_trip by (simp add: times_round_trip_def)
  from a have small: "length a < 2 ^ 63"
    by (simp add: tag_encode_wf [OF example_tag_wf time])
      (auto simp: example_tag_def tally_time_def EMPTY_DIGEST_def NULL_DIGEST_def DIGEST_SIZE_def)
  define fs :: files where "fs = [p \<mapsto> b, pd \<mapsto> a]"
  have "\<exists>n. \<forall>steps\<ge>n. \<exists>fs'. remove_tag_in_namespace split_paths example_repo tally_time parse_tally (\<lambda>i. 1) steps (Some ''ns'') example_tag fs
      = Some (Ok (), fs') \<and> holds tally_time fs' p (filter (\<lambda>x. x \<noteq> example_tag) [example_tag]) \<and> (\<forall>q. q \<noteq> p \<longrightarrow> fs' q = fs q)"
    using ne paths a small wf
    by (intro remove_tag_copies_default_namespace [OF example_tag_spec p_def pd_def tally_round_trip])
      (auto simp: fs_def holds_def stored_at_def readable_size_def)
  then have "\<exists>n. \<exists>fs'. remove_tag_in_namespace split_paths example_repo tally_time parse_tally (\<lambda>i. 1) n (Some ''ns'') example_tag fs
      = Some (Ok (), fs') \<and> holds tally_time fs' p (filter (\<lambda>x. x \<noteq> example_tag) [example_tag])"
    by (meson order_refl)
  then obtain n fs' where "remove_tag_in_namespace split_paths example_repo tally_time parse_tally (\<lambda>i. 1) n (Some ''ns'') example_tag fs
      = Some (Ok (), fs')" "holds tally_time fs' p []"
    by auto
  moreover have "stored_at tally_time fs p [?t, example_tag]" using ne b wf by (simp add: stored_at_def fs_def)
  ultimately show ?thesis unfolding p_def [symmetric] Let_def by blast
qed

section \<open>Pushing\<close>

lemma resolve_newest:
  assumes "ts_version spec = 0"
  shows "resolve_loop spec 0 (map Inr (t # tags)) = Ok t"
  using assms by simp

lemma insert_desc_newest:
  assumes "\<forall>x\<in>set tags. tag_time x < tag_time t"
  shows "insert_desc t tags = t # tags"
  using assms by (cases tags) (simp_all add: tag_cmp_newer)

lemma tag_spec_text_wf:
  assumes "list_all is_tag_name_char s \<or> list_all is_tag_org_char s"
  shows "text_wf s"
proof -
  have "\<not> is_tag_name_char (CHR 0x00)" "\<not> is_tag_org_char (CHR 0x00)"
    by (simp_all add: tag_char_defs is_tag_org_char_def)
  then show ?thesis using assms tag_chars_ascii by (auto simp: text_wf_def list_all_iff intro!: ascii_utf8)
qed

lemma tag_new_wf:
  assumes "tag_spec_wf spec" "ts_version spec = 0" "text_wf user" "digest_wf target" "digest_wf parent"
  shows "\<exists>t. tag_new (Ok user) now (ts_org spec) (ts_name spec) target = Ok t \<and> tag_wf (t\<lparr>tag_parent := parent\<rparr>)
    \<and> tag_org t = ts_org spec \<and> tag_name t = ts_name spec \<and> tag_target t = target \<and> tag_time t = now"
proof -
  have "build_tag_spec (ts_org spec) (ts_name spec) 0 = Ok spec"
    using split_show_tag_spec [OF assms(1)] build_tag_spec_show [of spec] assms(2) by simp
  moreover have "text_wf (ts_name spec)" "text_wf (case ts_org spec of Some org \<Rightarrow> org | None \<Rightarrow> [])" "ts_org spec \<noteq> Some []"
    using assms(1) tag_spec_text_wf by (auto simp: tag_spec_wf_def split: option.splits)
  ultimately show ?thesis using assms(3-5) by (simp add: tag_new_def tag_wf_def)
qed

lemma resolve_holds:
  assumes "holds to_rfc3339 fs p (t # rest)" "readable_size fs p" "times_round_trip to_rfc3339 parse"
    and "p = tag_to_path rp spec (tags_root_in_namespace rp repo (fr_namespace repo))" "ts_version spec = 0"
  shows "\<exists>n. \<forall>steps\<ge>n. resolve_tag rp repo parse ks steps spec fs = Some (Ok t)"
proof -
  obtain n where "\<forall>steps\<ge>n. read_tag_in_namespace rp repo parse ks steps (fr_namespace repo) spec fs = Some (Ok (map Inr (t # rest)))"
    using read_tag_holds [OF assms(1) _ assms(2-4)] by blast
  then have "\<forall>steps\<ge>n. resolve_tag rp repo parse ks steps spec fs = Some (Ok t)"
    using assms(5) by (simp add: resolve_tag_def resolve_tag_in_namespace_def)
  then show ?thesis by blast
qed

lemma resolve_missing:
  assumes "fs p = None" "p = tag_to_path rp spec (tags_root_in_namespace rp repo (fr_namespace repo))"
  shows "resolve_tag rp repo parse ks steps spec fs = Some (Err (UnknownReference (show_tag_spec spec)))"
  using assms by (simp add: resolve_tag_def resolve_tag_in_namespace_def read_tag_in_namespace_def)

lemma insert_new_tag:
  assumes "tag_spec_wf spec" "ts_version spec = 0"
    and "p = tag_to_path rp spec (tags_root_in_namespace rp repo (fr_namespace repo))" "times_round_trip to_rfc3339 parse"
    and "holds to_rfc3339 fs p tags" "newest_first tags" "readable_size fs p" "\<forall>x\<in>set tags. tag_time x < now"
    and "fs (lock_file p) = None" "fs (work_file p) = None"
    and "text_wf user" "digest_wf target" "digest_wf parent"
  shows "\<exists>t. tag_new (Ok user) now (ts_org spec) (ts_name spec) target = Ok t \<and> tag_target t = target
    \<and> (\<exists>n. \<forall>steps\<ge>n. \<exists>fs'. insert_tag rp repo to_rfc3339 parse ks steps (t\<lparr>tag_parent := parent\<rparr>) fs = Some (Ok (), fs')
          \<and> holds to_rfc3339 fs' p (t\<lparr>tag_parent := parent\<rparr> # tags))"
proof -
  obtain t where t: "tag_new (Ok user) now (ts_org spec) (ts_name spec) target = Ok t" "tag_wf (t\<lparr>tag_parent := parent\<rparr>)"
    "tag_org t = ts_org spec" "tag_name t = ts_name spec" "tag_target t = target" "tag_time t = now"
    using tag_new_wf [OF assms(1,2,11-13), of now] by blast
  let ?t = "t\<lparr>tag_parent := parent\<rparr>"
  have build: "build_tag_spec (tag_org ?t) (tag_name ?t) 0 = Ok spec"
    using split_show_tag_spec [OF assms(1)] build_tag_spec_show [of spec] assms(2) t by simp
  have "insert_desc ?t tags = ?t # tags" using assms(8) t(6) by (intro insert_desc_newest) simp
  with insert_tag_ordered [OF build assms(3-7) t(2) assms(9,10), of ks]
  have "\<exists>n. \<forall>steps\<ge>n. \<exists>fs'. insert_tag rp repo to_rfc3339 parse ks steps ?t fs = Some (Ok (), fs')
      \<and> holds to_rfc3339 fs' p (?t # tags)"
    unfolding insert_tag_def by (metis (no_types, lifting))
  with t show ?thesis by blast
qed

lemma push_new:
  assumes "resolve_tag rp repo parse ks steps spec fs = Some r"
    and "(r = Ok h \<and> tag_target h \<noteq> target \<and> tag_digest hash to_rfc3339 h = Ok parent) \<or> (\<exists>e. r = Err e \<and> parent = NULL_DIGEST)"
    and "tag_new user now (ts_org spec) (ts_name spec) target = Ok t"
    and "insert_tag rp repo to_rfc3339 parse ks steps (t\<lparr>tag_parent := parent\<rparr>) fs = Some (Ok (), fs')"
  shows "push_tag rp repo hash to_rfc3339 parse user now ks steps spec target fs = Some (Ok (t\<lparr>tag_parent := parent\<rparr>), fs')"
  using assms by (auto simp: push_tag_def)

lemma push_inserts:
  assumes "tag_spec_wf spec" "ts_version spec = 0"
    and "p = tag_to_path rp spec (tags_root_in_namespace rp repo (fr_namespace repo))" "times_round_trip to_rfc3339 parse"
    and "holds to_rfc3339 fs p tags" "newest_first tags" "readable_size fs p" "\<forall>x\<in>set tags. tag_time x < now"
    and "fs (lock_file p) = None" "fs (work_file p) = None"
    and "text_wf user" "digest_wf target" "digest_wf parent"
    and "\<forall>steps\<ge>n1. resolve_tag rp repo parse ks steps spec fs = Some r"
    and "(r = Ok h \<and> tag_target h \<noteq> target \<and> tag_digest hash to_rfc3339 h = Ok parent) \<or> (\<exists>e. r = Err e \<and> parent = NULL_DIGEST)"
  shows "\<exists>n. \<forall>steps\<ge>n. \<exists>t fs'. push_tag rp repo hash to_rfc3339 parse (Ok user) now ks steps spec target fs = Some (Ok t, fs')
    \<and> tag_target t = target
    \<and> (readable_size fs' p \<longrightarrow> (\<exists>m. \<forall>steps\<ge>m. resolve_tag rp repo parse ks steps spec fs' = Some (Ok t)))"
proof -
  obtain t n where t: "tag_new (Ok user) now (ts_org spec) (ts_name spec) target = Ok t" "tag_target t = target"
    and n: "\<forall>steps\<ge>n. \<exists>fs'. insert_tag rp repo to_rfc3339 parse ks steps (t\<lparr>tag_parent := parent\<rparr>) fs = Some (Ok (), fs')
      \<and> holds to_rfc3339 fs' p (t\<lparr>tag_parent := parent\<rparr> # tags)"
    using insert_new_tag [OF assms(1-13), of ks] by blast
  let ?t = "t\<lparr>tag_parent := parent\<rparr>"
  have "\<exists>fs'. push_tag rp repo hash to_rfc3339 parse (Ok user) now ks steps spec target fs = Some (Ok ?t, fs')
      \<and> holds to_rfc3339 fs' p (?t # tags)" if le: "max n n1 \<le> steps" for steps
  proof -
    have le': "n \<le> steps" "n1 \<le> steps" using le by simp_all
    obtain fs' where "insert_tag rp repo to_rfc3339 parse ks steps ?t fs = Some (Ok (), fs')" "holds to_rfc3339 fs' p (?t # tags)"
      using n le'(1) by blast
    moreover have "resolve_tag rp repo parse ks steps spec fs = Some r" using assms(14) le'(2) by blast
    ultimately show ?thesis using push_new [OF _ assms(15) t(1)] by blast
  qed
  moreover have "\<exists>m. \<forall>steps\<ge>m. resolve_tag rp repo parse ks steps spec fs' = Some (Ok ?t)"
    if "holds to_rfc3339 fs' p (?t # tags)" "readable_size fs' p" for fs'
    using resolve_holds [OF that assms(4,3,2), of ks] .
  moreover have "tag_target ?t = target" using t(2) by simp
  ultimately show ?thesis by (intro exI [of _ "max n n1"]) blast
qed



end
