(* ===== verification/Option_Maps.thy ===== *)
theory Option_Maps
  imports Names
begin

text \<open>
  The values of package build options (\<^verbatim>\<open>crates/spk-schema/crates/foundation/src/option_map/mod.rs\<close>): the options of the host,
  the options that concern one package, the environment variables that carry them and the two-level mapping that
  templates are rendered with. Options are a \<open>BTreeMap\<close> from option names to strings.
\<close>

section \<open>Operations\<close>

type_synonym option_map = "(str, str) btree_map"

text \<open>Collecting into an ordered map, and \<open>BTreeMap::append\<close>.\<close>

definition bt_append :: "('k::linorder, 'v) btree_map \<Rightarrow> ('k \<times> 'v) list \<Rightarrow> ('k, 'v) btree_map" where
  "bt_append m xs = fold (\<lambda>(k, v). bt_insert k v) xs m"

definition bt_from_list :: "('k::linorder \<times> 'v) list \<Rightarrow> ('k, 'v) btree_map" where
  "bt_from_list xs = bt_append [] xs"

text \<open>The release information of the host is a parameter: \<open>None\<close> when it cannot be read, else the id and the version id.\<close>

definition host_options :: "str \<Rightarrow> str \<Rightarrow> (str option \<times> str option) option \<Rightarrow> (unit, option_map) outcome" where
  "host_options os arch release =
     (let opts = bt_insert ''arch'' arch (bt_insert ''os'' os []) in
      case release of
        None \<Rightarrow> Err ()
      | Some (None, _) \<Rightarrow> Ok opts
      | Some (Some distro, version_id) \<Rightarrow>
          let opts = bt_insert ''distro'' distro opts in
          case validate_opt_name distro of
            Panic \<Rightarrow> Panic
          | Err _ \<Rightarrow> Ok opts
          | Ok _ \<Rightarrow> Ok (case version_id of Some v \<Rightarrow> bt_insert distro v opts | None \<Rightarrow> opts))"

definition show_option_map :: "option_map \<Rightarrow> str" where
  "show_option_map self = CHR ''{'' # join_str '', '' (map (\<lambda>(n, v). n @ '': '' @ v) self) @ ''}''"

definition option_var :: "str \<Rightarrow> str" where
  "option_var name = ''SPK_OPT_'' @ env_name name"

definition package_option_var :: "str \<Rightarrow> str \<Rightarrow> str" where
  "package_option_var ns name = ''SPK_PKG_'' @ env_name ns @ ''_OPT_'' @ env_name (without_namespace name)"

fun to_environment_loop :: "option_map \<Rightarrow> (str, str) hash_map \<Rightarrow> (str, str) hash_map" where
  "to_environment_loop [] out = out"
| "to_environment_loop ((name, value) # rest) out =
     to_environment_loop rest
       (case namespace name of
          Some ns \<Rightarrow> hm_insert (option_var name) value (hm_insert (package_option_var ns name) value out)
        | None \<Rightarrow> hm_insert (option_var name) value out)"

definition to_environment :: "option_map \<Rightarrow> (str, str) hash_map" where
  "to_environment self = to_environment_loop self []"

definition global_options :: "option_map \<Rightarrow> option_map" where
  "global_options self = bt_from_list (filter (\<lambda>(k, v). CHR ''.'' \<notin> set k) self)"

definition package_options_without_global :: "option_map \<Rightarrow> str \<Rightarrow> option_map" where
  "package_options_without_global self pkg =
     bt_from_list (map (\<lambda>(name, value). (without_namespace name, value))
       (filter (\<lambda>(name, value). namespace name = Some pkg) self))"

definition package_options :: "option_map \<Rightarrow> str \<Rightarrow> option_map" where
  "package_options self pkg = bt_append (global_options self) (package_options_without_global self pkg)"

definition starts_with :: "str \<Rightarrow> str \<Rightarrow> bool" where
  "starts_with s pre \<longleftrightarrow> take (length pre) s = pre"

fun str_contains :: "str \<Rightarrow> str \<Rightarrow> bool" where
  "str_contains [] pat = (pat = [])"
| "str_contains (c # s) pat = (starts_with (c # s) pat \<or> str_contains s pat)"

definition is_option_var :: "str \<Rightarrow> bool" where
  "is_option_var name \<longleftrightarrow>
     starts_with name ''SPK_OPT_'' \<or> starts_with name ''SPK_PKG_'' \<and> str_contains name ''_OPT_''"

definition clean_environment :: "(str, str) hash_map \<Rightarrow> (str, str) hash_map" where
  "clean_environment env = fold hm_remove (filter is_option_var (map fst env)) env"

text \<open>Values of the two-level mapping; inserting into a mapping keeps the place of a key that is there.\<close>

datatype yaml_value = YString str | YMapping "(str \<times> str) list"

fun as_mapping :: "yaml_value \<Rightarrow> (str \<times> str) list" where
  "as_mapping (YMapping m) = m"
| "as_mapping (YString _) = []"

fun expand_loop :: "option_map \<Rightarrow> (str, yaml_value) hash_map \<Rightarrow> (str, yaml_value) hash_map" where
  "expand_loop [] yaml = yaml"
| "expand_loop ((key, value) # rest) yaml =
     expand_loop rest
       (case namespace key of
          Some ns \<Rightarrow>
            let target = (case hm_get yaml ns of Some ns_value \<Rightarrow> as_mapping ns_value | None \<Rightarrow> []) in
            hm_insert ns (YMapping (hm_insert (base_name key) value target)) yaml
        | None \<Rightarrow> hm_insert (base_name key) (YString value) yaml)"

definition to_yaml_value_expanded :: "option_map \<Rightarrow> (str, yaml_value) hash_map" where
  "to_yaml_value_expanded self = expand_loop self []"

section \<open>Options of a package\<close>

definition options_wf :: "option_map \<Rightarrow> bool" where
  "options_wf m \<longleftrightarrow> bt_wf m \<and> (\<forall>k \<in> fst ` set m. validate_opt_name k = Ok ())"

lemma bt_append_facts:
  "bt_wf m \<Longrightarrow> bt_wf (bt_append m xs) \<and> bt_get (bt_append m xs) = bt_get m ++ map_of (rev xs)"
proof (induction xs arbitrary: m)
  case (Cons x xs)
  obtain k v where x: "x = (k, v)" by (cases x)
  have "bt_append m (x # xs) = bt_append (bt_insert k v m) xs" by (simp add: bt_append_def x)
  with Cons.IH [of "bt_insert k v m"] Cons.prems show ?case
    by (simp add: x fun_eq_iff map_add_def split: option.split)
qed (simp add: bt_append_def)

lemma bt_append_wf [simp]: "bt_wf m \<Longrightarrow> bt_wf (bt_append m xs)"
  using bt_append_facts by blast

lemma bt_get_append: "bt_wf m \<Longrightarrow> bt_get (bt_append m xs) = bt_get m ++ map_of (rev xs)"
  using bt_append_facts by blast

lemma bt_from_list_wf [simp]: "bt_wf (bt_from_list xs)"
  by (simp add: bt_from_list_def)

lemma map_of_rev_distinct: "distinct (map fst xs) \<Longrightarrow> map_of (rev xs) = map_of xs"
  by (induction xs) (auto simp: fun_eq_iff map_add_def map_of_eq_None_iff [symmetric] split: option.split)

lemma bt_get_from_list: "distinct (map fst xs) \<Longrightarrow> bt_get (bt_from_list xs) = map_of xs"
  by (simp add: bt_from_list_def bt_get_append map_of_rev_distinct)

text \<open>An option name is a base name, or a package name and a base name around a dot.\<close>

lemma opt_name_cases:
  assumes "validate_opt_name k = Ok ()"
  obtains "namespace k = None" "base_name k = k" "CHR ''.'' \<notin> set k"
  | ns b where "namespace k = Some ns" "base_name k = b" "k = ns @ CHR ''.'' # b" "CHR ''.'' \<notin> set ns" "CHR ''.'' \<notin> set b"
proof -
  consider "CHR ''.'' \<notin> set k"
    | ns b where "k = ns @ CHR ''.'' # b" "CHR ''.'' \<notin> set ns" "CHR ''.'' \<notin> set b"
    using assms pkg_chars_are_opt_chars valid_chars_no_dot
    by (auto simp: validate_opt_name_Ok_cases validate_pkg_name_Ok_iff validate_opt_base_name_Ok_iff)
  then show ?thesis
    by cases (auto simp: namespace_def base_name_def intro: that)
qed

lemma only_separator: "c \<notin> set a \<Longrightarrow> c \<notin> set b \<Longrightarrow> a @ c # b = a' @ c # b' \<Longrightarrow> a = a'"
  by (induction a arbitrary: a') (auto simp: Cons_eq_append_conv)

lemma namespace_Some_iff:
  assumes "validate_opt_name k = Ok ()"
  shows "namespace k = Some ns \<longleftrightarrow> (\<exists>b. k = ns @ CHR ''.'' # b)"
proof
  assume "\<exists>b. k = ns @ CHR ''.'' # b"
  then obtain b where k: "k = ns @ CHR ''.'' # b" by blast
  with assms show "namespace k = Some ns"
  proof (cases rule: opt_name_cases)
    case (2 ns' b')
    from 2(3) k have "ns' @ CHR ''.'' # b' = ns @ CHR ''.'' # b" by simp
    with 2(4,5) have "ns' = ns" by (rule only_separator)
    with 2(1) show ?thesis by (simp only:)
  qed simp
qed (auto simp: namespace_def split_once_Some_iff)

lemma scoped_namespace:
  assumes "validate_opt_name k = Ok ()" "namespace k = Some ns"
  shows "k = ns @ CHR ''.'' # base_name k" "CHR ''.'' \<notin> set ns" "CHR ''.'' \<notin> set (base_name k)"
  using assms(1) by (rule opt_name_cases; use assms(2) in force)+

lemma plain_namespace:
  assumes "validate_opt_name k = Ok ()"
  shows "namespace k = None \<longleftrightarrow> CHR ''.'' \<notin> set k \<and> base_name k = k"
  using assms by (rule opt_name_cases) force+

lemma options_wf_key: "options_wf m \<Longrightarrow> (k, v) \<in> set m \<Longrightarrow> validate_opt_name k = Ok ()"
  unfolding options_wf_def by force

lemma options_wf_distinct: "options_wf m \<Longrightarrow> distinct (map fst m)"
  by (simp add: options_wf_def bt_wf_distinct)

lemma bt_get_filter_keys:
  "distinct (map fst m) \<Longrightarrow> map_of (filter (\<lambda>(k, v). P k) m) k = (if P k then map_of m k else None)"
  by (induction m) (auto simp: map_of_eq_None_iff)

lemma global_options_get:
  assumes "options_wf m"
  shows "bt_get (global_options m) k = (if CHR ''.'' \<in> set k then None else bt_get m k)"
  using options_wf_distinct [OF assms]
  by (simp add: global_options_def bt_get_from_list distinct_map_filter bt_get_filter_keys)

lemma package_scope_get:
  assumes "options_wf m"
  shows "bt_get (package_options_without_global m pkg) k =
    (if CHR ''.'' \<in> set k \<or> CHR ''.'' \<in> set pkg then None else bt_get m (pkg @ CHR ''.'' # k))"
proof -
  let ?own = "filter (\<lambda>(name, value). namespace name = Some pkg) m"
  let ?short = "map (\<lambda>(name, value). (without_namespace name, value)) ?own"
  have own: "n = pkg @ CHR ''.'' # without_namespace n \<and> CHR ''.'' \<notin> set pkg \<and> CHR ''.'' \<notin> set (without_namespace n)"
    if "(n, v) \<in> set ?own" for n v
    using that options_wf_key [OF assms, of n v] scoped_namespace [of n pkg] unfolding without_namespace_def by simp
  have "inj_on without_namespace (fst ` set ?own)"
  proof (rule inj_onI)
    fix a b assume in_own: "a \<in> fst ` set ?own" "b \<in> fst ` set ?own" and eq: "without_namespace a = without_namespace b"
    then obtain va vb where "(a, va) \<in> set ?own" "(b, vb) \<in> set ?own" by force
    then have "a = pkg @ CHR ''.'' # without_namespace a" "b = pkg @ CHR ''.'' # without_namespace b" using own by blast+
    with eq show "a = b" by metis
  qed
  moreover have "distinct (map fst ?own)" using options_wf_distinct [OF assms] by (rule distinct_map_filter)
  ultimately have "distinct (map without_namespace (map fst ?own))" by (simp only: distinct_map set_map)
  moreover have "map fst ?short = map without_namespace (map fst ?own)" by simp
  ultimately have distinct: "distinct (map fst ?short)" by (simp only:)
  have "(k, v) \<in> set ?short \<longleftrightarrow> CHR ''.'' \<notin> set k \<and> CHR ''.'' \<notin> set pkg \<and> (pkg @ CHR ''.'' # k, v) \<in> set m" for v
  proof
    assume "(k, v) \<in> set ?short"
    then obtain n where n: "(n, v) \<in> set ?own" "without_namespace n = k" by force
    then have "n = pkg @ CHR ''.'' # k" "CHR ''.'' \<notin> set pkg" "CHR ''.'' \<notin> set k" using own by blast+
    with n(1) show "CHR ''.'' \<notin> set k \<and> CHR ''.'' \<notin> set pkg \<and> (pkg @ CHR ''.'' # k, v) \<in> set m" by auto
  next
    assume r: "CHR ''.'' \<notin> set k \<and> CHR ''.'' \<notin> set pkg \<and> (pkg @ CHR ''.'' # k, v) \<in> set m"
    then have "namespace (pkg @ CHR ''.'' # k) = Some pkg" "without_namespace (pkg @ CHR ''.'' # k) = k"
      by (simp_all add: namespace_def without_namespace_def base_name_def)
    with r show "(k, v) \<in> set ?short" by force
  qed
  then have "bt_get ?short k = Some v \<longleftrightarrow> (if CHR ''.'' \<in> set k \<or> CHR ''.'' \<in> set pkg then None else bt_get m (pkg @ CHR ''.'' # k)) = Some v" for v
    by (simp only: map_of_eq_Some_iff [OF distinct] map_of_eq_Some_iff [OF options_wf_distinct [OF assms]] option.distinct simp_thms split: if_split) blast
  then show ?thesis
    using distinct unfolding package_options_without_global_def
    by (simp only: bt_get_from_list) (metis not_Some_eq)
qed

text \<open>
  The options of a package are the ones written for it and, where there is none, the global ones; nothing
  of another package comes through.
\<close>

theorem package_options_lookup:
  assumes "options_wf m" "validate_pkg_name pkg = Ok ()"
  shows "bt_get (package_options m pkg) k =
    (if CHR ''.'' \<in> set k then None
     else case bt_get m (pkg @ CHR ''.'' # k) of Some v \<Rightarrow> Some v | None \<Rightarrow> bt_get m k)"
proof -
  have "CHR ''.'' \<notin> set pkg"
    using assms(2) pkg_chars_are_opt_chars valid_chars_no_dot by (auto simp: validate_pkg_name_Ok_iff)
  moreover have "bt_wf (global_options m)" "distinct (map fst (package_options_without_global m pkg))"
    by (simp_all add: global_options_def package_options_without_global_def bt_wf_distinct)
  ultimately show ?thesis
    by (simp add: package_options_def bt_get_append map_of_rev_distinct map_add_def package_scope_get global_options_get assms(1)
        split: option.split)
qed

definition example_options :: option_map where
  "example_options = [(''arch'', ''x86''), (''debug'', ''on''), (''python.abi'', ''cp37''), (''python.debug'', ''off'')]"

lemma example_options_wf: "options_wf example_options"
  unfolding options_wf_def by code_simp

theorem package_options_lookup_witness:
  "bt_get (package_options example_options ''python'') ''debug'' = Some ''off''
    \<and> bt_get (package_options example_options ''python'') ''arch'' = Some ''x86''
    \<and> bt_get (package_options example_options ''python'') ''python.abi'' = None"
proof -
  have "validate_pkg_name ''python'' = Ok ()" by code_simp
  note package_options_lookup [OF example_options_wf this]
  then show ?thesis by (simp add: example_options_def)
qed

section \<open>Environment variables\<close>

lemma fold_hm_remove: "hm_get (fold hm_remove ks m) k = (if k \<in> set ks then None else hm_get m k)"
  by (induction ks arbitrary: m) auto

lemma starts_with_append [simp]: "starts_with (pre @ s) pre"
  by (simp add: starts_with_def)

lemma starts_with_contains: "starts_with s pat \<Longrightarrow> str_contains s pat"
  by (cases s) (auto simp: starts_with_def)

lemma str_contains_append: "str_contains (a @ pat @ b) pat"
  by (induction a) (simp_all add: starts_with_contains)

lemma is_option_var_option [simp]: "is_option_var (option_var name)" "is_option_var (package_option_var ns name)"
proof -
  show "is_option_var (option_var name)"
    unfolding is_option_var_def option_var_def by (intro disjI1 starts_with_append)
  have "str_contains ((''SPK_PKG_'' @ env_name ns) @ ''_OPT_'' @ env_name (without_namespace name)) ''_OPT_''"
    by (rule str_contains_append)
  then show "is_option_var (package_option_var ns name)"
    unfolding is_option_var_def package_option_var_def append_assoc by (intro disjI2 conjI starts_with_append)
qed

lemma to_environment_loop_vars:
  "dom (hm_get out) \<subseteq> Collect is_option_var \<Longrightarrow> dom (hm_get (to_environment_loop m out)) \<subseteq> Collect is_option_var"
proof (induction m out rule: to_environment_loop.induct)
  case (2 n v rest out)
  let ?out = "case namespace n of Some ns \<Rightarrow> hm_insert (option_var n) v (hm_insert (package_option_var ns n) v out)
    | None \<Rightarrow> hm_insert (option_var n) v out"
  have "dom (hm_get ?out) \<subseteq> Collect is_option_var" using 2(2) by (cases "namespace n") auto
  from 2(1) [OF this] show ?case by simp
qed simp

lemma to_environment_loop_keeps:
  "k \<in> dom (hm_get out) \<Longrightarrow> k \<in> dom (hm_get (to_environment_loop m out))"
  by (induction m out rule: to_environment_loop.induct) (auto split: option.splits simp: domI)

lemma to_environment_loop_sets: "name \<in> fst ` set m \<Longrightarrow> option_var name \<in> dom (hm_get (to_environment_loop m out))"
proof (induction m out rule: to_environment_loop.induct)
  case (2 n v rest out)
  have "option_var n \<in> dom (hm_get (to_environment_loop ((n, v) # rest) out))"
    by (simp, rule to_environment_loop_keeps) (auto split: option.split)
  with 2 show ?case by auto
qed simp

text \<open>
  Cleaning an environment removes the option variables and nothing else; every variable that a set of options
  defines is one of them, and every option has its variable.
\<close>

theorem clean_environment_complete:
  "hm_get (clean_environment env) k = (if is_option_var k then None else hm_get env k)
   \<and> (k \<in> dom (hm_get (to_environment m)) \<longrightarrow> is_option_var k)
   \<and> (name \<in> fst ` set m \<longrightarrow> option_var name \<in> dom (hm_get (to_environment m)))"
proof (intro conjI impI)
  show "hm_get (clean_environment env) k = (if is_option_var k then None else hm_get env k)"
    by (auto simp: clean_environment_def fold_hm_remove map_of_eq_None_iff)
  show "is_option_var k" if "k \<in> dom (hm_get (to_environment m))"
    using to_environment_loop_vars [of "[]" m] that by (auto simp: to_environment_def)
  show "option_var name \<in> dom (hm_get (to_environment m))" if "name \<in> fst ` set m"
    unfolding to_environment_def using that by (rule to_environment_loop_sets)
qed

theorem clean_environment_complete_witness:
  "hm_get (clean_environment (to_environment example_options)) ''SPK_OPT_debug'' = None
    \<and> option_var ''debug'' \<in> dom (hm_get (to_environment example_options))"
  using clean_environment_complete [of "to_environment example_options" "''SPK_OPT_debug''" example_options "''debug''"]
  by (auto simp: example_options_def is_option_var_def starts_with_def)

section \<open>The expanded mapping\<close>

definition scope :: "option_map \<Rightarrow> str \<Rightarrow> (str \<times> str) list" where
  "scope m ns = map (\<lambda>(k, v). (base_name k, v)) (filter (\<lambda>(k, v). namespace k = Some ns) m)"

text \<open>What the expanded mapping is meant to hold: the options of a package under its name, and any other name as it is.\<close>

definition expanded :: "option_map \<Rightarrow> str \<Rightarrow> yaml_value option" where
  "expanded m k =
     (if scope m k \<noteq> [] then Some (YMapping (scope m k))
      else if namespace k = None then map_option YString (bt_get m k) else None)"

lemma scope_snoc: "scope (m @ [(k, v)]) ns = scope m ns @ (if namespace k = Some ns then [(base_name k, v)] else [])"
  by (simp add: scope_def)

lemma hm_insert_new: "k \<notin> fst ` set m \<Longrightarrow> hm_insert k v m = m @ [(k, v)]"
  by (induction m) auto

lemma scope_fresh:
  assumes "options_wf (m @ [(k, v)])" "namespace k = Some ns"
  shows "base_name k \<notin> fst ` set (scope m ns)"
proof
  assume "base_name k \<in> fst ` set (scope m ns)"
  then obtain k' v' where k': "(k', v') \<in> set m" "namespace k' = Some ns" "base_name k' = base_name k"
    by (auto simp: scope_def)
  have "validate_opt_name k' = Ok ()" "validate_opt_name k = Ok ()"
    using options_wf_key [OF assms(1), of k' v'] options_wf_key [OF assms(1), of k v] k'(1) by auto
  then have "k' = ns @ CHR ''.'' # base_name k'" "k = ns @ CHR ''.'' # base_name k"
    using scoped_namespace(1) k'(2) assms(2) by blast+
  then have "k' = k" using k'(3) by metis
  with k'(1) options_wf_distinct [OF assms(1)] show False by force
qed

lemma scope_of_greatest:
  assumes "options_wf (m @ [(k, v)])" "namespace k = None"
  shows "scope m k = []"
proof (rule ccontr)
  assume "scope m k \<noteq> []"
  then obtain k' v' where k': "(k', v') \<in> set m" "namespace k' = Some k"
    by (auto simp: scope_def filter_empty_conv)
  have "validate_opt_name k' = Ok ()" using options_wf_key [OF assms(1), of k' v'] k'(1) by simp
  then have "k' = k @ CHR ''.'' # base_name k'" using scoped_namespace(1) k'(2) by blast
  then have "k < k'" unfolding list_less_def by (metis lexord_append_rightI)
  moreover have "k' < k" using assms(1) k'(1) by (force simp: options_wf_def bt_wf_append)
  ultimately show False by simp
qed

lemma expand_loop_expanded:
  assumes "options_wf (done @ rest)" "hm_get yaml = expanded done"
  shows "hm_get (expand_loop rest yaml) = expanded (done @ rest)"
  using assms
proof (induction rest arbitrary: "done" yaml)
  case (Cons kv rest)
  obtain k v where kv: "kv = (k, v)" by (cases kv)
  let ?yaml = "case namespace k of
      Some ns \<Rightarrow> let target = (case hm_get yaml ns of Some ns_value \<Rightarrow> as_mapping ns_value | None \<Rightarrow> []) in
        hm_insert ns (YMapping (hm_insert (base_name k) v target)) yaml
    | None \<Rightarrow> hm_insert (base_name k) (YString v) yaml"
  have wf: "options_wf (done @ [(k, v)])"
    using Cons.prems(1) by (auto simp: kv options_wf_def bt_wf_append)
  have "hm_get ?yaml = expanded (done @ [(k, v)])"
  proof (cases "namespace k")
    case None
    have "base_name k = k" "namespace k = None"
      using plain_namespace [of k] options_wf_key [OF wf, of k v] None by auto
    moreover have "hm_get done k = None" using options_wf_distinct [OF wf] by (simp add: map_of_eq_None_iff)
    ultimately show ?thesis
      using scope_of_greatest [OF wf None] Cons.prems(2)
      by (auto simp: fun_eq_iff expanded_def scope_snoc map_add_def split: option.split)
  next
    case (Some ns)
    then have "(case hm_get yaml ns of Some ns_value \<Rightarrow> as_mapping ns_value | None \<Rightarrow> []) = scope done ns"
      using Cons.prems(2) by (auto simp: expanded_def split: option.splits)
    with Some scope_fresh [OF wf Some] Cons.prems(2) show ?thesis
      by (auto simp: fun_eq_iff expanded_def scope_snoc hm_insert_new map_add_def split: option.split)
  qed
  from Cons.IH [OF _ this] Cons.prems(1) show ?case by (simp add: kv)
qed simp

text \<open>
  The expanded mapping has the options of each package as a mapping under the package's name and every other
  option as it is; a plain option with the name of a package that has options is dropped.
\<close>

theorem to_yaml_value_expanded_correct:
  assumes "options_wf m"
  shows "hm_get (to_yaml_value_expanded m) = expanded m"
  unfolding to_yaml_value_expanded_def
  using expand_loop_expanded [of "[]" m "[]"] assms by (simp add: expanded_def scope_def fun_eq_iff)

theorem to_yaml_value_expanded_witness:
  "hm_get (to_yaml_value_expanded example_options) ''python'' = Some (YMapping [(''abi'', ''cp37''), (''debug'', ''off'')])"
proof -
  have "expanded example_options ''python'' = Some (YMapping [(''abi'', ''cp37''), (''debug'', ''off'')])" by code_simp
  then show ?thesis using to_yaml_value_expanded_correct [OF example_options_wf] by simp
qed

end
