(* ===== verification/Package_Idents.thy ===== *)
theory Package_Idents
  imports Compat
begin

text \<open>
  Package identifiers (\<^verbatim>\<open>crates/spk-schema/crates/foundation/src/ident\<close>: \<^verbatim>\<open>mod.rs\<close>, \<^verbatim>\<open>ident_version.rs\<close>, \<^verbatim>\<open>ident_any.rs\<close>, \<^verbatim>\<open>ident_build.rs\<close>,
  \<^verbatim>\<open>ident_located.rs\<close>): a base and a target, nested from a name and a version to a build in a repository, their printed forms
  and the paths that they are stored under. Joining relative paths puts a slash between them.
\<close>

section \<open>Identifiers\<close>

record ('b, 't) ident =
  base :: 'b
  target :: 't

type_synonym version_ident = "(str, version) ident"
type_synonym any_ident = "(version_ident, build option) ident"
type_synonym build_ident = "(version_ident, build) ident"
type_synonym located_build_ident = "(str, build_ident) ident"

definition ident_new :: "'b \<Rightarrow> 't \<Rightarrow> ('b, 't) ident" where
  "ident_new b t = \<lparr>base = b, target = t\<rparr>"

definition into_inner :: "('b, 't) ident \<Rightarrow> 'b \<times> 't" where
  "into_inner self = (base self, target self)"

definition with_base :: "('b, 't) ident \<Rightarrow> 'b \<Rightarrow> ('b, 't) ident" where
  "with_base self b = self\<lparr>base := b\<rparr>"

definition with_target :: "('b, 't) ident \<Rightarrow> 't \<Rightarrow> ('b, 't) ident" where
  "with_target self t = self\<lparr>target := t\<rparr>"

text \<open>The name and the version of an identifier of a version or a build.\<close>

abbreviation ident_name :: "(version_ident, 't) ident \<Rightarrow> str" where
  "ident_name self \<equiv> base (base self)"

abbreviation ident_version :: "(version_ident, 't) ident \<Rightarrow> version" where
  "ident_version self \<equiv> target (base self)"

definition version_ident_new_zero :: "str \<Rightarrow> version_ident" where
  "version_ident_new_zero name = ident_new name default_version"

definition version_to_any_ident :: "version_ident \<Rightarrow> build option \<Rightarrow> any_ident" where
  "version_to_any_ident self b = ident_new self b"

definition version_to_build_ident :: "version_ident \<Rightarrow> build \<Rightarrow> build_ident" where
  "version_to_build_ident self b = ident_new self b"

definition any_with_build :: "any_ident \<Rightarrow> build option \<Rightarrow> any_ident" where
  "any_with_build self b = ident_new (base self) b"

definition any_to_build_ident :: "any_ident \<Rightarrow> build \<Rightarrow> build_ident" where
  "any_to_build_ident self b = ident_new (base self) b"

definition any_into_build_ident :: "any_ident \<Rightarrow> build_ident option" where
  "any_into_build_ident self = map_option (ident_new (base self)) (target self)"

definition any_can_embed :: "any_ident \<Rightarrow> bool" where
  "any_can_embed self \<longleftrightarrow> (case target self of Some b \<Rightarrow> is_buildid b | None \<Rightarrow> False)"

definition any_is_embedded :: "any_ident \<Rightarrow> bool" where
  "any_is_embedded self \<longleftrightarrow> (case target self of Some b \<Rightarrow> is_embedded b | None \<Rightarrow> False)"

definition any_is_source :: "any_ident \<Rightarrow> bool" where
  "any_is_source self \<longleftrightarrow> (case target self of Some b \<Rightarrow> is_source b | None \<Rightarrow> False)"

datatype ident_error =
    MissingBuild
  | RepositoryNotAllowed
  | MissingAssociatedBuild
  | IdentName name_error
  | IdentVersion version_error

definition try_into_located_build_ident :: "any_ident \<Rightarrow> str \<Rightarrow> (ident_error, located_build_ident) outcome" where
  "try_into_located_build_ident self repository_name =
     (case target self of
        Some b \<Rightarrow> Ok (ident_new repository_name (ident_new (base self) b))
      | None \<Rightarrow> Err MissingBuild)"

definition build_into_any_ident :: "build_ident \<Rightarrow> any_ident" where
  "build_into_any_ident self = ident_new (base self) (Some (target self))"

definition build_into_located :: "build_ident \<Rightarrow> str \<Rightarrow> located_build_ident" where
  "build_into_located self repository_name = ident_new repository_name self"

section \<open>Printing\<close>

text \<open>\<open>alt\<close> is the alternate form \<open>{:#}\<close>.\<close>

definition show_version_fmt :: "bool \<Rightarrow> version \<Rightarrow> str" where
  "show_version_fmt alt v = (if alt then show_version_alt v else show_version v)"

definition version_and_build :: "bool \<Rightarrow> any_ident \<Rightarrow> str option" where
  "version_and_build alt self =
     (case target self of
        Some b \<Rightarrow> Some (show_version_fmt alt (ident_version self) @ CHR ''/'' # build_digest b)
      | None \<Rightarrow>
          if is_zero (ident_version self) then None else Some (show_version_fmt alt (ident_version self)))"

definition show_any_ident :: "bool \<Rightarrow> any_ident \<Rightarrow> str" where
  "show_any_ident alt self =
     ident_name self @ (case version_and_build alt self of Some vb \<Rightarrow> CHR ''/'' # vb | None \<Rightarrow> [])"

definition show_version_ident :: "bool \<Rightarrow> version_ident \<Rightarrow> str" where
  "show_version_ident alt self = base self @ CHR ''/'' # show_version_fmt alt (target self)"

definition show_build_ident :: "bool \<Rightarrow> build_ident \<Rightarrow> str" where
  "show_build_ident alt self = show_version_ident alt (base self) @ CHR ''/'' # build_digest (target self)"

definition show_located_build_ident :: "located_build_ident \<Rightarrow> str" where
  "show_located_build_ident self = base self @ CHR ''/'' # show_build_ident False (target self)"

section \<open>Paths\<close>

definition path_join :: "str \<Rightarrow> str \<Rightarrow> str" where
  "path_join a b = a @ CHR ''/'' # b"

definition any_metadata_path :: "(str \<Rightarrow> str) \<Rightarrow> any_ident \<Rightarrow> str" where
  "any_metadata_path base32_nopad self =
     (case target self of
        Some b \<Rightarrow> path_join (path_join (ident_name self) (metadata_path (ident_version self))) (build_metadata_path base32_nopad b)
      | None \<Rightarrow>
          if is_zero (ident_version self) then ident_name self
          else path_join (ident_name self) (metadata_path (ident_version self)))"

text \<open>The path of a build in tags is its metadata path.\<close>

definition any_tag_path :: "(str \<Rightarrow> str) \<Rightarrow> any_ident \<Rightarrow> str" where
  "any_tag_path base32_nopad self =
     (case target self of
        Some b \<Rightarrow> path_join (path_join (ident_name self) (tag_path (ident_version self))) (build_metadata_path base32_nopad b)
      | None \<Rightarrow>
          if is_zero (ident_version self) then ident_name self
          else path_join (ident_name self) (tag_path (ident_version self)))"

definition version_ident_tag_path :: "version_ident \<Rightarrow> str" where
  "version_ident_tag_path self = path_join (base self) (tag_path (target self))"

definition build_ident_tag_path :: "(str \<Rightarrow> str) \<Rightarrow> build_ident \<Rightarrow> str" where
  "build_ident_tag_path base32_nopad self =
     path_join (path_join (ident_name self) (tag_path (ident_version self))) (build_metadata_path base32_nopad (target self))"

definition build_ident_metadata_path :: "(str \<Rightarrow> str) \<Rightarrow> build_ident \<Rightarrow> str" where
  "build_ident_metadata_path base32_nopad self =
     path_join (path_join (ident_name self) (metadata_path (ident_version self))) (build_metadata_path base32_nopad (target self))"

definition ident_parts_of_any :: "any_ident \<Rightarrow> ident_parts_buf" where
  "ident_parts_of_any ident =
     \<lparr>ib_repository_name = None, ib_pkg_name = ident_name ident,
      ib_version_str = Some (normalized_version_string (ident_version ident)),
      ib_build_str = map_option build_digest (target ident)\<rparr>"

definition ident_parts_of_build :: "build_ident \<Rightarrow> ident_parts_buf" where
  "ident_parts_of_build ident =
     \<lparr>ib_repository_name = None, ib_pkg_name = ident_name ident,
      ib_version_str = Some (normalized_version_string (ident_version ident)),
      ib_build_str = Some (build_digest (target ident))\<rparr>"

definition parts_eq_build_ident :: "ident_parts_buf \<Rightarrow> build_ident \<Rightarrow> bool" where
  "parts_eq_build_ident self other \<longleftrightarrow>
     ib_repository_name self = None \<and> ib_pkg_name self = ident_name other
     \<and> ib_version_str self = Some (normalized_version_string (ident_version other))
     \<and> ib_build_str self = Some (build_digest (target other))"

text \<open>Building an identifier from its parts; parsing a build is written in nom and a parameter.\<close>

definition build_ident_of_parts ::
  "(str \<Rightarrow> (ident_error, build) outcome) \<Rightarrow> ident_parts_buf \<Rightarrow> (ident_error, build_ident) outcome" where
  "build_ident_of_parts parse_build parts =
     (if ib_repository_name parts \<noteq> None then Err RepositoryNotAllowed
      else
        and_then (map_err IdentName (validate_pkg_name (ib_pkg_name parts))) (\<lambda>_.
        and_then (case ib_version_str parts of
                    Some v \<Rightarrow> map_err IdentVersion (parse_version v) | None \<Rightarrow> Ok default_version) (\<lambda>version.
        and_then (case ib_build_str parts of Some b \<Rightarrow> parse_build b | None \<Rightarrow> Err MissingAssociatedBuild) (\<lambda>b.
          Ok (ident_new (ident_new (ib_pkg_name parts) version) b)))))"

end
