(* ===== verification/Requests.thy ===== *)
theory Requests
  imports Package_Idents Range_Simplify "HOL-Library.Multiset"
begin

text \<open>
  Requests for packages and variables (\<^verbatim>\<open>crates/spk-schema/crates/foundation/src/ident\<close>: \<^verbatim>\<open>range_ident.rs\<close>, \<^verbatim>\<open>pinnable_request.rs\<close>,
  \<^verbatim>\<open>pinned_request.rs\<close>, \<^verbatim>\<open>pkg_request_with_options.rs\<close>, \<^verbatim>\<open>request_with_options.rs\<close>): identifiers with a version filter, the policies of a
  request, merging two requests, comparing them, and rendering the pins of requests that are taken from the build environment. An
  operation that changes its receiver returns the receiver as it leaves it, also when it fails. The order in which the rules of a
  filter are compared is the parameter \<open>perms\<close>, as in the theory of filters; the nom parser of version filters is a parameter.
\<close>

section \<open>Range identifiers\<close>

record range_ident =
  ri_repository_name :: "str option"
  ri_name :: str
  ri_components :: "component btree_set"
  ri_version :: "version_range list"
  ri_build :: "build option"

definition build_opt_eq :: "build option \<Rightarrow> build option \<Rightarrow> bool" where
  "build_opt_eq a b \<longleftrightarrow> (case (a, b) of (Some x, Some y) \<Rightarrow> build_eq x y | (None, None) \<Rightarrow> True | _ \<Rightarrow> False)"

definition range_ident_new :: "any_ident \<Rightarrow> version_range \<Rightarrow> component list \<Rightarrow> range_ident" where
  "range_ident_new ident version_range components =
     \<lparr>ri_repository_name = None, ri_name = ident_name ident, ri_components = bs_from_list components,
      ri_version = filter_single version_range, ri_build = target ident\<rparr>"

definition range_ident_double_equals :: "any_ident \<Rightarrow> component list \<Rightarrow> range_ident" where
  "range_ident_double_equals ident components =
     range_ident_new ident (double_equals_version_range (ident_version ident)) components"

definition range_ident_equals :: "any_ident \<Rightarrow> component list \<Rightarrow> range_ident" where
  "range_ident_equals ident components =
     range_ident_new ident (equals_version_range (ident_version ident)) components"

definition ri_is_source :: "range_ident \<Rightarrow> bool" where
  "ri_is_source self \<longleftrightarrow> (case ri_build self of Some b \<Rightarrow> is_source b | None \<Rightarrow> False)"

definition ri_is_applicable :: "range_ident \<Rightarrow> any_ident \<Rightarrow> bool" where
  "ri_is_applicable self pkg \<longleftrightarrow>
     (if ident_name pkg \<noteq> ri_name self then False
      else if \<not> is_ok (is_applicable (Filter (ri_version self)) (ident_version pkg)) then False
      else if ri_build self \<noteq> None \<and> \<not> build_opt_eq (ri_build self) (target pkg) then False
      else True)"

definition show_range_ident :: "range_ident \<Rightarrow> str" where
  "show_range_ident self =
     (case ri_repository_name self of Some name \<Rightarrow> name @ ''/'' | None \<Rightarrow> [])
     @ ri_name self @ fmt_component_set (ri_components self)
     @ (if filter_is_empty (ri_version self) then [] else CHR ''/'' # show_range (Filter (ri_version self)))
     @ (case ri_build self of Some b \<Rightarrow> CHR ''/'' # build_digest b | None \<Rightarrow> [])"

definition to_version_and_build_string :: "range_ident \<Rightarrow> str" where
  "to_version_and_build_string self =
     (if filter_is_empty (ri_version self) then []
      else show_range (Filter (ri_version self))
        @ (case ri_build self of Some b \<Rightarrow> CHR ''/'' # build_digest b | None \<Rightarrow> []))"

definition ri_contains :: "range_ident \<Rightarrow> range_ident \<Rightarrow> compatibility" where
  "ri_contains self other =
     (if ri_name other \<noteq> ri_name self
      then Incompatible (PackageNameMismatch (VersionSelectorName (ri_name self) (ri_name other)))
      else
        let compat = contains (Filter (ri_version self)) (Filter (ri_version other)) in
        if \<not> is_ok compat then compat
        else if ri_build other = None \<or> build_opt_eq (ri_build self) (ri_build other) \<or> ri_build self = None
        then Compatible
        else Incompatible (BuildIdNotSuperset (VersionSelectorBuild (show_range_ident self) (show_range_ident other))))"

definition repository_conflict :: "range_ident \<Rightarrow> range_ident \<Rightarrow> package_repo_problem option" where
  "repository_conflict self other =
     (case (ri_repository_name self, ri_repository_name other) of
        (Some ours, Some theirs) \<Rightarrow> if ours = theirs then None else Some (RestrictRepo (ri_name self) ours theirs)
      | _ \<Rightarrow> None)"

definition ri_restrict ::
  "(nat \<Rightarrow> (nat \<times> nat) list) \<Rightarrow> range_ident \<Rightarrow> range_ident \<Rightarrow> restrict_mode \<Rightarrow> compatibility \<times> range_ident" where
  "ri_restrict perms self other mode =
     (case repository_conflict self other of
        Some problem \<Rightarrow> (Incompatible (PackageRepoMismatch problem), self)
      | None \<Rightarrow>
          let self = (if ri_repository_name self = None then self\<lparr>ri_repository_name := ri_repository_name other\<rparr> else self) in
          case restrict perms (ri_version self) (Filter (ri_version other)) mode of
            (Incompatible incompatible, version) \<Rightarrow>
              (Incompatible (RestrictReason (ri_name self) incompatible), self\<lparr>ri_version := version\<rparr>)
          | (Compatible, version) \<Rightarrow>
              let self = self\<lparr>ri_version := version, ri_components := fold bs_insert (ri_components other) (ri_components self)\<rparr> in
              if ri_build other = None then (Compatible, self)
              else if build_opt_eq (ri_build self) (ri_build other) \<or> ri_build self = None
              then (Compatible, self\<lparr>ri_build := ri_build other\<rparr>)
              else (Incompatible (BuildIdMismatch (VersionSelectorBuild (show_range_ident self) (show_range_ident other))), self))"

definition ri_with_components :: "range_ident \<Rightarrow> component list \<Rightarrow> range_ident" where
  "ri_with_components self components = self\<lparr>ri_components := bs_from_list components\<rparr>"

definition range_of_located :: "located_build_ident \<Rightarrow> range_ident" where
  "range_of_located ident =
     \<lparr>ri_repository_name = Some (base ident), ri_name = ident_name (target ident), ri_components = [],
      ri_version = filter_from_version (ident_version (target ident)), ri_build = Some (target (target ident))\<rparr>"

definition range_of_any :: "any_ident \<Rightarrow> range_ident" where
  "range_of_any ident =
     \<lparr>ri_repository_name = None, ri_name = ident_name ident, ri_components = [],
      ri_version = filter_from_version (ident_version ident), ri_build = target ident\<rparr>"

definition range_of_version :: "version_ident \<Rightarrow> range_ident" where
  "range_of_version ident =
     \<lparr>ri_repository_name = None, ri_name = base ident, ri_components = [],
      ri_version = filter_from_version (target ident), ri_build = None\<rparr>"

definition range_of_build :: "build_ident \<Rightarrow> range_ident" where
  "range_of_build ident =
     \<lparr>ri_repository_name = None, ri_name = ident_name ident, ri_components = [],
      ri_version = filter_from_version (ident_version ident), ri_build = Some (target ident)\<rparr>"

datatype request_error =
    NoPin
  | PrePositionUnsupported
  | PostPositionUnsupported
  | BuildRequired
  | RangeError range_error
  | FilterSyntax str
  | NotPinned
  | SuppressionNotPinned
  | ValueAndPin str str
  | ValueMissing str
  | PinnedValueMissing
  | PinnedValueEmpty
  | PinNotBoolean str str
  | VersionAndPin str "version_range list"
  | PkgAndVar
  | NeitherPkgNorVar

type_synonym 'a request_result = "(request_error, 'a) outcome"

definition any_ident_of_range :: "range_ident \<Rightarrow> any_ident request_result" where
  "any_ident_of_range ri =
     and_then (map_err RangeError (try_into_version (ri_version ri)))
       (\<lambda>version. Ok (ident_new (ident_new (ri_name ri) version) (ri_build ri)))"

definition build_ident_of_range :: "range_ident \<Rightarrow> build_ident request_result" where
  "build_ident_of_range ri =
     (case ri_build ri of
        None \<Rightarrow> Err BuildRequired
      | Some b \<Rightarrow>
          and_then (map_err RangeError (try_into_version (ri_version ri)))
            (\<lambda>version. Ok (ident_new (ident_new (ri_name ri) version) b)))"

section \<open>Policies and requesters\<close>

datatype prerelease_policy = ExcludeAll | IncludeAll
datatype inclusion_policy = Always | IfAlreadyPresent
datatype pin_policy = Required | IfPresentInBuildEnv

text \<open>The derived orders, in the order of the variants.\<close>

instantiation prerelease_policy :: linorder
begin

definition less_eq_prerelease_policy :: "prerelease_policy \<Rightarrow> prerelease_policy \<Rightarrow> bool" where
  "less_eq_prerelease_policy a b \<longleftrightarrow> a = ExcludeAll \<or> b = IncludeAll"

definition less_prerelease_policy :: "prerelease_policy \<Rightarrow> prerelease_policy \<Rightarrow> bool" where
  "less_prerelease_policy a b \<longleftrightarrow> a = ExcludeAll \<and> b = IncludeAll"

instance
  by standard (auto simp: less_eq_prerelease_policy_def less_prerelease_policy_def intro: prerelease_policy.exhaust)

end

instantiation inclusion_policy :: linorder
begin

definition less_eq_inclusion_policy :: "inclusion_policy \<Rightarrow> inclusion_policy \<Rightarrow> bool" where
  "less_eq_inclusion_policy a b \<longleftrightarrow> a = Always \<or> b = IfAlreadyPresent"

definition less_inclusion_policy :: "inclusion_policy \<Rightarrow> inclusion_policy \<Rightarrow> bool" where
  "less_inclusion_policy a b \<longleftrightarrow> a = Always \<and> b = IfAlreadyPresent"

instance
  by standard (auto simp: less_eq_inclusion_policy_def less_inclusion_policy_def intro: inclusion_policy.exhaust)

end

fun show_prerelease_policy :: "prerelease_policy \<Rightarrow> str" where
  "show_prerelease_policy ExcludeAll = ''ExcludeAll''"
| "show_prerelease_policy IncludeAll = ''IncludeAll''"

fun show_inclusion_policy :: "inclusion_policy \<Rightarrow> str" where
  "show_inclusion_policy Always = ''Always''"
| "show_inclusion_policy IfAlreadyPresent = ''IfAlreadyPresent''"

datatype requested_by =
    OldUnusedCommandLine
  | CommandLineRequest str
  | EmbeddedIn build_ident
  | RequestedBySourceBuild any_ident
  | RequestedByBinaryBuild build_ident
  | SourceTest any_ident
  | BuildTest any_ident
  | InstallTest version_ident
  | CurrentEnvironment
  | UnknownRequester
  | DoesNotMatter
  | NoState
  | SpkInternalTest
  | PackageBuild build_ident
  | PackageVersion version_ident
  | VariantRequest

fun show_requested_by :: "requested_by \<Rightarrow> str" where
  "show_requested_by OldUnusedCommandLine = ''command line''"
| "show_requested_by (CommandLineRequest original_request) = original_request @ '' on the command line''"
| "show_requested_by (EmbeddedIn ident) = ''embedded in '' @ show_build_ident False ident"
| "show_requested_by (RequestedBySourceBuild ident) = show_any_ident False ident @ '' source build''"
| "show_requested_by (RequestedByBinaryBuild ident) = show_build_ident False ident @ '' binary build''"
| "show_requested_by (SourceTest ident) = show_any_ident False ident @ '' source test''"
| "show_requested_by (BuildTest ident) = show_any_ident False ident @ '' build test''"
| "show_requested_by (InstallTest ident) = show_version_ident False ident @ '' install test''"
| "show_requested_by CurrentEnvironment = ''current environment''"
| "show_requested_by UnknownRequester = ''unknown''"
| "show_requested_by DoesNotMatter = ''n/a''"
| "show_requested_by NoState = ''no state? this should not happen?''"
| "show_requested_by SpkInternalTest = ''spk'' @ [CHR 0x27] @ ''s test suite''"
| "show_requested_by (PackageBuild ident) = show_build_ident False ident"
| "show_requested_by (PackageVersion ident) = show_version_ident False ident @ '' recipe''"
| "show_requested_by VariantRequest = ''target variant''"

section \<open>Package requests\<close>

record pkg_request =
  pr_pkg :: range_ident
  pr_prerelease_policy :: "prerelease_policy option"
  pr_inclusion_policy :: inclusion_policy
  pr_pin :: "str option"
  pr_pin_policy :: pin_policy
  pr_required_compat :: "compat_rule option"
  pr_requested_by :: "(str, requested_by list) btree_map"

definition pkg_request_new :: "range_ident \<Rightarrow> requested_by \<Rightarrow> pkg_request" where
  "pkg_request_new pkg requester =
     \<lparr>pr_pkg = pkg, pr_prerelease_policy = None, pr_inclusion_policy = Always, pr_pin = None, pr_pin_policy = Required,
      pr_required_compat = Some Binary, pr_requested_by = [(show_range_ident pkg, [requester])]\<rparr>"

text \<open>\<open>entry(key).or_default().push(requester)\<close>.\<close>

definition push_requester :: "str \<Rightarrow> requested_by \<Rightarrow> (str, requested_by list) btree_map \<Rightarrow> (str, requested_by list) btree_map" where
  "push_requester key requester m =
     bt_insert key ((case bt_get m key of Some rs \<Rightarrow> rs | None \<Rightarrow> []) @ [requester]) m"

definition add_requester :: "pkg_request \<Rightarrow> requested_by \<Rightarrow> pkg_request" where
  "add_requester self requester =
     self\<lparr>pr_requested_by := push_requester (show_range_ident (pr_pkg self)) requester (pr_requested_by self)\<rparr>"

definition get_requesters :: "pkg_request \<Rightarrow> requested_by list" where
  "get_requesters self = concat (map snd (pr_requested_by self))"

definition pkg_request_from_ident :: "any_ident \<Rightarrow> requested_by \<Rightarrow> pkg_request" where
  "pkg_request_from_ident pkg requester =
     pkg_request_new
       \<lparr>ri_repository_name = None, ri_name = ident_name pkg, ri_components = [],
        ri_version = filter_single (equals_version_range (ident_version pkg)), ri_build = target pkg\<rparr> requester"

definition pkg_request_from_ident_exact :: "any_ident \<Rightarrow> requested_by \<Rightarrow> pkg_request" where
  "pkg_request_from_ident_exact pkg requester =
     pkg_request_new
       \<lparr>ri_repository_name = None, ri_name = ident_name pkg, ri_components = [],
        ri_version = filter_single (double_equals_version_range (ident_version pkg)), ri_build = target pkg\<rparr> requester"

text \<open>The filter parser of \<open>VersionFilter::from_str\<close> is a parameter.\<close>

definition rendered_to_pkgrequest ::
  "(str \<Rightarrow> version_range list request_result) \<Rightarrow> pkg_request \<Rightarrow> str \<Rightarrow> pkg_request request_result" where
  "rendered_to_pkgrequest parse_filter self rendered =
     and_then (parse_filter rendered) (\<lambda>version.
       Ok (self\<lparr>pr_pin := None, pr_pkg := (pr_pkg self)\<lparr>ri_version := version\<rparr>\<rparr>))"

datatype scanner_mode = ScanBase | ScanPre | ScanPost

text \<open>The scan over a pin: \<open>digits\<close> are the parts of the version that have not been used, followed by zeros.\<close>

fun render_scan :: "version \<Rightarrow> u32 list \<Rightarrow> scanner_mode \<Rightarrow> str \<Rightarrow> str request_result" where
  "render_scan v digits mode [] = Ok []"
| "render_scan v digits mode (c # cs) =
     (if c = CHR ''x'' \<and> mode = ScanBase then
        and_then (render_scan v (tl digits) mode cs) (\<lambda>r. Ok (show_u32 (case digits of d # _ \<Rightarrow> d | [] \<Rightarrow> 0) @ r))
      else if c = CHR ''x'' \<and> mode = ScanPre then Err PrePositionUnsupported
      else if c = CHR ''x'' \<and> mode = ScanPost then Err PostPositionUnsupported
      else if c = CHR ''X'' \<and> mode = ScanPre then
        and_then (render_scan v digits mode cs) (\<lambda>r. Ok (show_tag_set (v_pre v) @ r))
      else if c = CHR ''X'' \<and> mode = ScanPost then
        and_then (render_scan v digits mode cs) (\<lambda>r. Ok (show_tag_set (v_post v) @ r))
      else if c = CHR ''v'' \<and> mode = ScanBase then
        and_then (render_scan v digits mode cs) (\<lambda>r. Ok (base_normalized v @ r))
      else if c = CHR ''V'' \<and> mode = ScanBase then
        and_then (render_scan v digits mode cs) (\<lambda>r. Ok (show_version v @ r))
      else
        and_then (render_scan v digits (if c = CHR ''-'' then ScanPre else if c = CHR ''+'' then ScanPost else mode) cs)
          (\<lambda>r. Ok (c # r)))"

definition trim_release_marks :: "str \<Rightarrow> str" where
  "trim_release_marks s = rev (dropWhile (\<lambda>c. c = CHR ''+'' \<or> c = CHR ''-'') (rev s))"

definition render_pin ::
  "(str \<Rightarrow> version_range list request_result) \<Rightarrow> pkg_request \<Rightarrow> build_ident \<Rightarrow> pkg_request request_result" where
  "render_pin parse_filter self pkg =
     (case pr_pin self of
        None \<Rightarrow> Err NoPin
      | Some pin \<Rightarrow>
          if pin = ''API'' \<or> pin = ''Binary'' then
            rendered_to_pkgrequest parse_filter self (pin @ CHR '':'' # base_normalized (ident_version pkg))
          else
            and_then (render_scan (ident_version pkg) (parts_of (ident_version pkg)) ScanBase pin)
              (\<lambda>rendered. rendered_to_pkgrequest parse_filter self (trim_release_marks rendered)))"

definition is_version_applicable :: "pkg_request \<Rightarrow> version \<Rightarrow> compatibility" where
  "is_version_applicable self version =
     (if (pr_prerelease_policy self = None \<or> pr_prerelease_policy self = Some ExcludeAll) \<and> v_pre version \<noteq> []
      then Incompatible PrereleasesNotAllowed
      else is_applicable (Filter (ri_version (pr_pkg self))) version)"

definition show_policy_option :: "prerelease_policy option \<Rightarrow> str" where
  "show_policy_option p = (case p of Some p \<Rightarrow> show_prerelease_policy p | None \<Rightarrow> ''None'')"

definition pkg_request_contains :: "pkg_request \<Rightarrow> pkg_request \<Rightarrow> compatibility" where
  "pkg_request_contains self other =
     (let compat = ri_contains (pr_pkg self) (pr_pkg other) in
      if \<not> is_ok compat then compat
      else if pr_prerelease_policy self > pr_prerelease_policy other
        \<and> \<not> (pr_prerelease_policy self = Some ExcludeAll \<and> pr_prerelease_policy other = None)
      then Incompatible (InclusionPolicyNotSuperset
             (PrereleasePolicy (show_policy_option (pr_prerelease_policy self)) (show_policy_option (pr_prerelease_policy other))))
      else if pr_inclusion_policy self > pr_inclusion_policy other
      then Incompatible (InclusionPolicyNotSuperset
             (StandardPolicy (show_inclusion_policy (pr_inclusion_policy self)) (show_inclusion_policy (pr_inclusion_policy other))))
      else Compatible)"

definition merge_prerelease :: "prerelease_policy option \<Rightarrow> prerelease_policy option \<Rightarrow> prerelease_policy option" where
  "merge_prerelease a b =
     (case (a, b) of (Some x, Some y) \<Rightarrow> Some (min x y) | (None, y) \<Rightarrow> y | (x, None) \<Rightarrow> x)"

definition merge_requesters ::
  "(str, requested_by list) btree_map \<Rightarrow> (str, requested_by list) btree_map \<Rightarrow> (str, requested_by list) btree_map" where
  "merge_requesters ours theirs =
     fold (\<lambda>(key, request_list) m. fold (push_requester key) request_list m) theirs ours"

definition pkg_request_restrict ::
  "(nat \<Rightarrow> (nat \<times> nat) list) \<Rightarrow> pkg_request \<Rightarrow> pkg_request \<Rightarrow> compatibility \<times> pkg_request" where
  "pkg_request_restrict perms self other =
     (let self = self\<lparr>pr_prerelease_policy := merge_prerelease (pr_prerelease_policy self) (pr_prerelease_policy other),
                      pr_inclusion_policy := min (pr_inclusion_policy self) (pr_inclusion_policy other)\<rparr>;
          mode = (if pr_inclusion_policy self = IfAlreadyPresent then AllowNonIntersectingRanges else RequireIntersectingRanges) in
      case ri_restrict perms (pr_pkg self) (pr_pkg other) mode of
        (result, pkg) \<Rightarrow>
          let self = self\<lparr>pr_pkg := pkg\<rparr> in
          (result,
           if is_ok result then self\<lparr>pr_requested_by := merge_requesters (pr_requested_by self) (pr_requested_by other)\<rparr>
           else self))"

section \<open>Merging requests\<close>

lemma embedded_source_eq_trans:
  "embedded_source_eq x y \<Longrightarrow> embedded_source_eq x z = embedded_source_eq y z"
  by (cases x; cases y; cases z) (auto simp: embedded_source_package_eq_def)

lemma build_eq_trans: "build_eq x y \<Longrightarrow> build_eq x z = build_eq y z"
  by (cases x; cases y; cases z) (auto simp: embedded_source_eq_trans)

lemma build_eq_sym: "build_eq x y = build_eq y x"
  by (cases x; cases y; simp; cases "(x, y)" rule: prod.exhaust)
    (auto simp: embedded_source_package_eq_def elim!: embedded_source_eq.elims)

lemma build_opt_eq_class: "build_opt_eq x y \<Longrightarrow> build_opt_eq x z = build_opt_eq y z"
  by (cases x; cases y; cases z) (auto simp: build_opt_eq_def build_eq_trans)

lemma build_opt_eq_sym: "build_opt_eq x y = build_opt_eq y x"
  by (cases x; cases y) (auto simp: build_opt_eq_def build_eq_sym)

lemma rules_of_Filter [simp]: "rules_of (Filter rules) = rules"
  by simp

definition simple_rules :: "version_range list \<Rightarrow> bool" where
  "simple_rules rules \<longleftrightarrow> rules_wf rules \<and> list_all simple_range rules"

lemma restrict_rules_subset:
  assumes "rules_wf self" "restrict perms self (Filter other) mode = (result, out)"
  shows "set out \<subseteq> set self \<union> set other"
proof -
  let ?all = "rules_extend self other"
  have all: "rules_wf ?all" "set ?all \<subseteq> set self \<union> set other" using rules_extend_facts [OF assms(1)] by auto
  have "set (simplify_rules perms False ?all) \<subseteq> set ?all"
    using simplify_loop_subset [of perms False ?all] by (simp add: simplify_rules_eq [OF all(1)])
  with all(2) assms(2) show ?thesis
    by (auto simp: restrict_def split: compatibility.splits if_splits simp del: intersects.simps)
qed

lemma restrict_simple:
  assumes "all_pairs perms" "simple_rules self" "simple_rules other" "restrict perms self (Filter other) mode = (result, out)"
  shows "simple_rules out"
  using restrict_rules_subset [OF _ assms(4)] restrict_filter [OF assms(1) _ _ _ assms(4)] assms(2,3)
  by (fastforce simp: simple_rules_def list_all_iff)

text \<open>A package is admitted by a request when its name, its version and its build are.\<close>

lemma ri_is_applicable_iff:
  "ri_is_applicable self pkg \<longleftrightarrow>
     ident_name pkg = ri_name self \<and> is_applicable (Filter (ri_version self)) (ident_version pkg) = Compatible
     \<and> (ri_build self = None \<or> build_opt_eq (ri_build self) (target pkg))"
  by (simp add: ri_is_applicable_def del: is_applicable.simps)

lemma ri_restrict_applicable:
  assumes "all_pairs perms" "simple_rules (ri_version self)" "simple_rules (ri_version other)"
    and "ri_restrict perms self other mode = (result, out)" "ri_name self = ri_name other"
  shows "simple_rules (ri_version out)
    \<and> (if result = Compatible
       then (ri_is_applicable out pkg \<longleftrightarrow> ri_is_applicable self pkg \<and> ri_is_applicable other pkg)
         \<and> set (ri_components out) = set (ri_components self) \<union> set (ri_components other)
       else repository_conflict self other \<noteq> None \<or> \<not> (ri_is_applicable self pkg \<and> ri_is_applicable other pkg))"
proof (cases "repository_conflict self other")
  case None
  obtain r version where r: "restrict perms (ri_version self) (Filter (ri_version other)) mode = (r, version)" by fastforce
  have simple: "simple_rules version" using restrict_simple [OF assms(1-3) r] .
  note filter = restrict_filter [OF assms(1) _ _ _ r, of "ident_version pkg"]
  have components: "set (fold bs_insert xs s) = set xs \<union> set s" for xs s :: "component list"
    by (induction xs arbitrary: s) auto
  show ?thesis
  proof (cases r)
    case Compatible
    with filter assms(2,3) have v: "is_applicable (Filter version) (ident_version pkg) = Compatible \<longleftrightarrow>
        is_applicable (Filter (ri_version self)) (ident_version pkg) = Compatible
        \<and> is_applicable (Filter (ri_version other)) (ident_version pkg) = Compatible"
      by (simp add: simple_rules_def del: is_applicable.simps)
    define merged where "merged = (if ri_repository_name self = None then self\<lparr>ri_repository_name := ri_repository_name other\<rparr> else self)
      \<lparr>ri_version := version, ri_components := fold bs_insert (ri_components other) (ri_components self)\<rparr>"
    have merged: "ri_name merged = ri_name self" "ri_version merged = version" "ri_build merged = ri_build self"
      "set (ri_components merged) = set (ri_components self) \<union> set (ri_components other)"
      by (auto simp: merged_def components)
    have run: "(result, out) = (if ri_build other = None then (Compatible, merged)
        else if build_opt_eq (ri_build self) (ri_build other) \<or> ri_build self = None
        then (Compatible, merged\<lparr>ri_build := ri_build other\<rparr>)
        else (Incompatible (BuildIdMismatch (VersionSelectorBuild (show_range_ident merged) (show_range_ident other))), merged))"
      using assms(4) None r Compatible
      by (cases "ri_repository_name self"; cases "ri_build self"; cases "ri_build other";
          cases "build_opt_eq (ri_build self) (ri_build other)") (auto simp: ri_restrict_def merged_def Let_def)
    show ?thesis
    proof (cases "ri_build other")
      case None
      with run merged v simple assms(5) show ?thesis by (auto simp: ri_is_applicable_iff simp del: is_applicable.simps)
    next
      case (Some b)
      note wanted = Some
      show ?thesis
      proof (cases "build_opt_eq (ri_build self) (ri_build other) \<or> ri_build self = None")
        case True
        with run Some have out: "result = Compatible" "out = merged\<lparr>ri_build := ri_build other\<rparr>" by auto
        have "build_opt_eq (Some b) (target pkg) \<Longrightarrow> ri_build self = None \<or> build_opt_eq (ri_build self) (target pkg)"
          using build_opt_eq_class [of "ri_build self" "Some b" "target pkg"] True Some by auto
        with out merged v simple assms(5) Some show ?thesis
          by (auto simp: ri_is_applicable_iff simp del: is_applicable.simps)
      next
        case False
        with run Some have out: "result \<noteq> Compatible" "out = merged" by auto
        have "\<not> (build_opt_eq (ri_build self) (target pkg) \<and> build_opt_eq (ri_build other) (target pkg))"
          using build_opt_eq_class [of "ri_build self" "target pkg" "ri_build other"]
            build_opt_eq_sym [of "ri_build other" "target pkg"] False by auto
        with out merged simple False Some show ?thesis
          by (auto simp: ri_is_applicable_iff simp del: is_applicable.simps)
      qed
    qed
  next
    case (Incompatible reason)
    with filter assms(2,3) have "\<not> (is_applicable (Filter (ri_version self)) (ident_version pkg) = Compatible
        \<and> is_applicable (Filter (ri_version other)) (ident_version pkg) = Compatible)"
      by (simp add: simple_rules_def del: is_applicable.simps)
    moreover have "result \<noteq> Compatible \<and> ri_version out = version"
      using assms(4) None r Incompatible by (cases "ri_repository_name self") (auto simp: ri_restrict_def Let_def)
    ultimately show ?thesis using simple by (auto simp: ri_is_applicable_iff simp del: is_applicable.simps)
  qed
qed (use assms(2,4) in \<open>auto simp: ri_restrict_def\<close>)


text \<open>The requesters of a request, whatever request of theirs they are listed under.\<close>

lemma push_requester_facts:
  assumes "bt_wf m"
  shows "bt_wf (push_requester key requester m)
    \<and> mset (concat (map snd (push_requester key requester m))) = add_mset requester (mset (concat (map snd m)))"
proof -
  have insert: "bt_wf m \<Longrightarrow> mset (concat (map snd (bt_insert k v m))) + mset (case bt_get m k of Some rs \<Rightarrow> rs | None \<Rightarrow> [])
      = mset v + mset (concat (map snd m))" for k and v :: "requested_by list"
  proof (induction k v m rule: bt_insert.induct)
    case (2 k v k' v' m)
    show ?case
    proof (cases "k < k'")
      case True
      with 2(2) have "k \<notin> fst ` set m" by (force simp del: split_paired_All)
      with True show ?thesis by (auto simp: map_of_eq_None_iff [THEN iffD2])
    qed (use 2 in \<open>auto simp: ac_simps\<close>)
  qed simp
  show ?thesis
    using assms insert [OF assms, of key "(case bt_get m key of Some rs \<Rightarrow> rs | None \<Rightarrow> []) @ [requester]"]
    by (simp add: push_requester_def)
qed

lemma push_requesters_facts:
  "bt_wf m \<Longrightarrow> bt_wf (fold (push_requester key) rs m)
    \<and> mset (concat (map snd (fold (push_requester key) rs m))) = mset rs + mset (concat (map snd m))"
  by (induction rs arbitrary: m) (simp_all add: push_requester_facts)

lemma merge_requesters_facts:
  "bt_wf ours \<Longrightarrow> bt_wf (merge_requesters ours theirs)
    \<and> mset (concat (map snd (merge_requesters ours theirs))) = mset (concat (map snd ours)) + mset (concat (map snd theirs))"
proof (induction theirs arbitrary: ours)
  case (Cons x theirs)
  obtain key rs where x: "x = (key, rs)" by fastforce
  with Cons push_requesters_facts [of ours key rs] show ?case
    by (simp add: merge_requesters_def ac_simps)
qed (simp add: merge_requesters_def)

text \<open>What a request admits: the package is applicable and its version passes the pre-release policy.\<close>

definition pkg_request_admits :: "pkg_request \<Rightarrow> any_ident \<Rightarrow> bool" where
  "pkg_request_admits self pkg \<longleftrightarrow>
     ri_is_applicable (pr_pkg self) pkg \<and> is_version_applicable self (ident_version pkg) = Compatible"

definition prerelease_allowed :: "prerelease_policy option \<Rightarrow> version \<Rightarrow> bool" where
  "prerelease_allowed policy v \<longleftrightarrow> policy = Some IncludeAll \<or> v_pre v = []"

lemma pkg_request_admits_iff:
  "pkg_request_admits self pkg \<longleftrightarrow>
     ri_is_applicable (pr_pkg self) pkg \<and> prerelease_allowed (pr_prerelease_policy self) (ident_version pkg)"
proof -
  have "p = Some IncludeAll \<longleftrightarrow> \<not> (p = None \<or> p = Some ExcludeAll)" for p
    by (cases p; cases "the p") auto
  then show ?thesis
    by (auto simp: pkg_request_admits_def is_version_applicable_def prerelease_allowed_def ri_is_applicable_iff
        simp del: is_applicable.simps not_Some_eq not_None_eq)
qed

definition pkg_request_wf :: "pkg_request \<Rightarrow> bool" where
  "pkg_request_wf self \<longleftrightarrow> simple_rules (ri_version (pr_pkg self)) \<and> bt_wf (pr_requested_by self)"


definition request_python :: "version_range list \<Rightarrow> prerelease_policy option \<Rightarrow> component list \<Rightarrow> pkg_request" where
  "request_python rules policy components =
     (pkg_request_new \<lparr>ri_repository_name = None, ri_name = ''python'', ri_components = components, ri_version = rules, ri_build = None\<rparr>
        (CommandLineRequest ''python''))\<lparr>pr_prerelease_policy := policy\<rparr>"


text \<open>
  A request contains another one that is wider: the request for any version of python contains the request for \<open>=3.7\<close>, and the
  package python/2.7 satisfies the first and not the second. Satisfying a request does not imply that the requests it contains are
  satisfied.
\<close>

theorem pkg_request_contains_wider:
  "pkg_request_contains (request_python [] None [Run]) (request_python [equals_version_range (from_parts [3, 7])] None [Run]) = Compatible
   \<and> pkg_request_admits (request_python [] None [Run]) (ident_new (ident_new ''python'' (from_parts [2, 7])) None)
   \<and> \<not> pkg_request_admits (request_python [equals_version_range (from_parts [3, 7])] None [Run])
         (ident_new (ident_new ''python'' (from_parts [2, 7])) None)"
  by code_simp

section \<open>Rendering pins\<close>

text \<open>The first parts of a version, with zeros behind them.\<close>

fun leading_parts :: "nat \<Rightarrow> u32 list \<Rightarrow> u32 list" where
  "leading_parts 0 digits = []"
| "leading_parts (Suc n) digits = (case digits of d # _ \<Rightarrow> d | [] \<Rightarrow> 0) # leading_parts n (tl digits)"

lemma leading_parts_eq: "leading_parts n digits = take n (digits @ replicate n 0)"
proof (induction n digits rule: leading_parts.induct)
  case (2 n digits)
  have "take n (xs @ replicate n 0) = take n (xs @ [0] @ replicate n 0)" for xs :: "u32 list"
    by (cases "n \<le> length xs") (auto simp: not_le Suc_diff_Suc simp flip: replicate_Suc)
  with 2 show ?case by (cases digits) (simp_all add: replicate_append_same)
qed simp

definition pin_literal :: "char \<Rightarrow> bool" where
  "pin_literal c \<longleftrightarrow> c \<notin> {CHR ''x'', CHR ''v'', CHR ''V'', CHR ''-'', CHR ''+''}"

lemma render_scan_literal:
  "list_all pin_literal prefix \<Longrightarrow>
     render_scan v digits ScanBase (prefix @ cs) = and_then (render_scan v digits ScanBase cs) (\<lambda>r. Ok (prefix @ r))"
  by (cases "render_scan v digits ScanBase cs"; induction prefix) (auto simp: pin_literal_def)

lemma render_scan_digits:
  "render_scan v digits ScanBase (join_str ''.'' (replicate (Suc n) ''x''))
     = Ok (join_str ''.'' (map show_u32 (leading_parts (Suc n) digits)))"
  by (induction n arbitrary: digits) simp_all

text \<open>
  A pin of the form \<open>x.x.x\<close> behind a prefix such as \<open>~\<close> or \<open>>=\<close> renders to the prefix and as many leading parts of the version as
  the pin has positions, with zeros for the parts that the version does not have.
\<close>

theorem render_pin_positions:
  assumes "list_all pin_literal prefix" "pr_pin self = Some (prefix @ join_str ''.'' (replicate (Suc n) ''x''))"
  shows "render_pin parse_filter self pkg =
    rendered_to_pkgrequest parse_filter self
      (prefix @ join_str ''.'' (map show_u32 (take (Suc n) (parts_of (ident_version pkg) @ replicate (Suc n) 0))))"
proof -
  let ?xs = "join_str ''.'' (replicate (Suc n) ''x'')"
    and ?parts = "join_str ''.'' (map show_u32 (leading_parts (Suc n) (parts_of (ident_version pkg))))"
  have last: "ps \<noteq> [] \<Longrightarrow> last ps \<noteq> [] \<Longrightarrow> join_str sep ps \<noteq> [] \<and> last (join_str sep ps) = last (last ps)" for sep ps
    by (induction sep ps rule: join_str.induct) auto
  have "?xs \<noteq> [] \<and> last ?xs = CHR ''x''" using last [of "replicate (Suc n) ''x''" "''.''"] by simp
  then have "last (prefix @ ?xs) = CHR ''x''" by (simp del: replicate.simps)
  then have pin: "prefix @ ?xs \<noteq> ''API''" "prefix @ ?xs \<noteq> ''Binary''" by (auto simp del: replicate.simps)
  have digit: "last ?parts \<in> set ''0123456789''" and nonempty: "?parts \<noteq> []"
  proof -
    let ?ds = "map show_u32 (leading_parts (Suc n) (parts_of (ident_version pkg)))"
    have ds: "?ds \<noteq> []" by simp
    obtain d where d: "last ?ds = show_u32 d" using last_in_set [OF ds] by (metis (no_types, lifting) in_set_conv_nth nth_map length_map)
    have ends: "last ?ds \<noteq> []" "set (last ?ds) \<subseteq> set ''0123456789''" unfolding d by (rule show_u32_not_Nil, rule set_show_u32)
    have parts: "?parts \<noteq> [] \<and> last ?parts = last (last ?ds)" using last [OF ds ends(1)] .
    show "last ?parts \<in> set ''0123456789''" using parts subsetD [OF ends(2) last_in_set [OF ends(1)]] by (simp only:)
    show "?parts \<noteq> []" using parts by (rule conjunct1)
  qed
  have "trim_release_marks (prefix @ ?parts) = prefix @ ?parts"
    using digit nonempty by (cases ?parts rule: rev_cases) (auto simp: trim_release_marks_def)
  then show ?thesis
    unfolding leading_parts_eq [symmetric]
    using pin assms render_scan_literal [OF assms(1)] render_scan_digits [of "ident_version pkg" "parts_of (ident_version pkg)" n]
    by (simp add: render_pin_def del: replicate.simps leading_parts.simps render_scan.simps)
qed


theorem render_pin_positions_witness:
  "render_pin (\<lambda>rendered. Err (FilterSyntax rendered)) ((request_python [] None [Run])\<lparr>pr_pin := Some ''>=x.x.x''\<rparr>)
     (ident_new (ident_new ''python'' (from_parts [3, 7])) SourceBuild)
   = Err (FilterSyntax ''>=3.7.0'')"
proof -
  let ?self = "(request_python [] None [Run])\<lparr>pr_pin := Some ''>=x.x.x''\<rparr>"
  have "list_all pin_literal ''>=''" "pr_pin ?self = Some (''>='' @ join_str ''.'' (replicate (Suc 2) ''x''))"
    by (simp_all add: pin_literal_def numeral_2_eq_2)
  from render_pin_positions [OF this, of "\<lambda>rendered. Err (FilterSyntax rendered)"
      "ident_new (ident_new ''python'' (from_parts [3, 7])) SourceBuild"]
  show ?thesis by (rule trans) code_simp
qed

end
