(* ===== verification/Var_Requests.thy ===== *)
theory Var_Requests
  imports Requests Option_Maps
begin

text \<open>
  Requests for variables and requests with options (\<^verbatim>\<open>pinnable_request.rs\<close>, \<^verbatim>\<open>pinned_request.rs\<close>, \<^verbatim>\<open>pkg_request_with_options.rs\<close> and
  \<^verbatim>\<open>request_with_options.rs\<close> under \<^verbatim>\<open>crates/spk-schema/crates/foundation/src/ident\<close>): the values of variables, which may still have to be
  taken from the build environment, the comparison of variable requests, the options that accumulate on a package request while
  requests are merged, and the last step of reading a request from a specification.
\<close>

section \<open>Variable requests\<close>

record 'v var_request =
  vr_var :: str
  vr_value :: 'v
  vr_description :: "str option"

datatype pinnable_value = FromBuildEnv | FromBuildEnvIfPresent | Pinned str

fun is_from_build_env :: "pinnable_value \<Rightarrow> bool" where
  "is_from_build_env (Pinned _) = False"
| "is_from_build_env _ = True"

fun as_pinned :: "pinnable_value \<Rightarrow> str option" where
  "as_pinned (Pinned v) = Some v"
| "as_pinned _ = None"

definition var_request_new_with_value :: "str \<Rightarrow> 'v \<Rightarrow> 'v var_request" where
  "var_request_new_with_value name v = \<lparr>vr_var = name, vr_value = v, vr_description = None\<rparr>"

definition var_render_pin :: "pinnable_value var_request \<Rightarrow> str \<Rightarrow> str var_request request_result" where
  "var_render_pin self v =
     (if \<not> is_from_build_env (vr_value self) then Err NoPin
      else Ok \<lparr>vr_var = vr_var self, vr_value = v, vr_description = vr_description self\<rparr>)"

text \<open>The checks on the names that every form of \<open>contains\<close> starts with.\<close>

definition var_names_problem :: "str \<Rightarrow> str \<Rightarrow> var_request_problem option" where
  "var_names_problem self_var other_var =
     (if base_name self_var \<noteq> base_name other_var then Some (DifferentVar self_var other_var)
      else if namespace self_var \<noteq> None \<and> namespace self_var \<noteq> namespace other_var
      then Some (DifferentNamespace self_var other_var)
      else None)"

definition var_values_problem :: "str \<Rightarrow> str \<Rightarrow> var_request_problem option" where
  "var_values_problem self_value other_value =
     (if other_value \<noteq> [] \<and> self_value \<noteq> other_value then Some (DifferentValue self_value other_value) else None)"

definition not_superset :: "var_request_problem option \<Rightarrow> compatibility" where
  "not_superset p = (case p of Some problem \<Rightarrow> Incompatible (VarRequestNotSuperset problem) | None \<Rightarrow> Compatible)"

text \<open>Two requests that may still have to be pinned.\<close>

definition var_contains_pinnable :: "pinnable_value var_request \<Rightarrow> pinnable_value var_request \<Rightarrow> compatibility" where
  "var_contains_pinnable self other =
     not_superset
       (case var_names_problem (vr_var self) (vr_var other) of
          Some problem \<Rightarrow> Some problem
        | None \<Rightarrow>
            (case (as_pinned (vr_value self), as_pinned (vr_value other)) of
               (Some self_value, Some other_value) \<Rightarrow> var_values_problem self_value other_value
             | _ \<Rightarrow> Some Incomparable))"

text \<open>A pinned request against one that may still have to be pinned.\<close>

definition var_pinned_contains_pinnable :: "str var_request \<Rightarrow> pinnable_value var_request \<Rightarrow> compatibility" where
  "var_pinned_contains_pinnable self other =
     not_superset
       (case var_names_problem (vr_var self) (vr_var other) of
          Some problem \<Rightarrow> Some problem
        | None \<Rightarrow>
            (case as_pinned (vr_value other) of
               Some other_value \<Rightarrow> var_values_problem (vr_value self) other_value
             | None \<Rightarrow> Some Incomparable))"

definition var_contains :: "str var_request \<Rightarrow> str var_request \<Rightarrow> compatibility" where
  "var_contains self other =
     not_superset
       (case var_names_problem (vr_var self) (vr_var other) of
          Some problem \<Rightarrow> Some problem
        | None \<Rightarrow> var_values_problem (vr_value self) (vr_value other))"

definition show_var_request :: "pinnable_value var_request \<Rightarrow> str" where
  "show_var_request self =
     ''var: '' @ vr_var self
     @ (case as_pinned (vr_value self) of Some v \<Rightarrow> CHR ''/'' # v | None \<Rightarrow> ''/<fromBuildEnv>'')"

definition var_pinnable_of_pinned :: "str var_request \<Rightarrow> pinnable_value var_request" where
  "var_pinnable_of_pinned req =
     \<lparr>vr_var = vr_var req, vr_value = Pinned (vr_value req), vr_description = vr_description req\<rparr>"

definition var_pinned_of_pinnable :: "pinnable_value var_request \<Rightarrow> str var_request request_result" where
  "var_pinned_of_pinnable req =
     (case vr_value req of
        Pinned v \<Rightarrow> Ok \<lparr>vr_var = vr_var req, vr_value = v, vr_description = vr_description req\<rparr>
      | _ \<Rightarrow> Err NotPinned)"

section \<open>Requests of a specification\<close>

datatype pinnable_request =
    PinnablePkg pkg_request
  | PinnableVar "pinnable_value var_request"
  | Suppress str str

datatype pinned_request = PinnedPkg pkg_request | PinnedVar "str var_request"

fun pinnable_request_name :: "pinnable_request \<Rightarrow> str" where
  "pinnable_request_name (PinnableVar r) = vr_var r"
| "pinnable_request_name (PinnablePkg r) = ri_name (pr_pkg r)"
| "pinnable_request_name (Suppress var _) = var"

fun pinned_request_name :: "pinned_request \<Rightarrow> str" where
  "pinned_request_name (PinnedVar r) = vr_var r"
| "pinned_request_name (PinnedPkg r) = ri_name (pr_pkg r)"

fun pinnable_of_pinned :: "pinned_request \<Rightarrow> pinnable_request" where
  "pinnable_of_pinned (PinnedPkg p) = PinnablePkg p"
| "pinnable_of_pinned (PinnedVar v) = PinnableVar (var_pinnable_of_pinned v)"

fun pinned_of_pinnable :: "pinnable_request \<Rightarrow> pinned_request request_result" where
  "pinned_of_pinnable (PinnablePkg r) = Ok (PinnedPkg r)"
| "pinned_of_pinnable (PinnableVar r) = and_then (var_pinned_of_pinnable r) (\<lambda>r. Ok (PinnedVar r))"
| "pinned_of_pinnable (Suppress _ _) = Err SuppressionNotPinned"

datatype pin_value = NoPinValue | TruePin | StringPin str

fun pin_is_some :: "pin_value \<Rightarrow> bool" where
  "pin_is_some NoPinValue = False"
| "pin_is_some _ = True"

fun into_pkg_pin :: "pin_value \<Rightarrow> str option" where
  "into_pkg_pin NoPinValue = None"
| "into_pkg_pin TruePin = Some ''Binary''"
| "into_pkg_pin (StringPin s) = Some s"

fun into_var_pin :: "pin_value \<Rightarrow> str \<Rightarrow> str option \<Rightarrow> pinnable_value request_result" where
  "into_var_pin (StringPin s) var _ = Err (PinNotBoolean var s)"
| "into_var_pin TruePin var (Some v) = Err (ValueAndPin var v)"
| "into_var_pin NoPinValue var None = Err (ValueMissing var)"
| "into_var_pin NoPinValue var (Some v) = Ok (Pinned v)"
| "into_var_pin TruePin var None = Ok FromBuildEnv"

text \<open>The fields that a request in a specification can have, and what they make together. A suppression is the comment that its value
  renders to.\<close>

record request_fields =
  rf_pkg :: "range_ident option"
  rf_prerelease_policy :: "prerelease_policy option"
  rf_inclusion_policy :: "inclusion_policy option"
  rf_var :: "str option"
  rf_value :: "str option"
  rf_description :: "str option"
  rf_suppress :: "str option"
  rf_pin :: "pin_value option"
  rf_pin_policy :: "pin_policy option"

abbreviation or_default :: "'a \<Rightarrow> 'a option \<Rightarrow> 'a" where
  "or_default d x \<equiv> (case x of Some y \<Rightarrow> y | None \<Rightarrow> d)"

definition request_of_fields :: "request_fields \<Rightarrow> pinnable_request request_result" where
  "request_of_fields self =
     (case (rf_pkg self, rf_var self) of
        (Some pkg, None) \<Rightarrow>
          if pin_is_some (or_default NoPinValue (rf_pin self)) \<and> \<not> filter_is_empty (ri_version pkg)
          then Err (VersionAndPin (ri_name pkg) (ri_version pkg))
          else Ok (PinnablePkg
            \<lparr>pr_pkg = pkg, pr_prerelease_policy = rf_prerelease_policy self,
             pr_inclusion_policy = or_default Always (rf_inclusion_policy self),
             pr_pin = into_pkg_pin (or_default NoPinValue (rf_pin self)),
             pr_pin_policy = or_default Required (rf_pin_policy self),
             pr_required_compat = None, pr_requested_by = []\<rparr>)
      | (None, Some var) \<Rightarrow>
          (case rf_suppress self of
             Some comment \<Rightarrow> Ok (Suppress var comment)
           | None \<Rightarrow>
               and_then (into_var_pin (or_default NoPinValue (rf_pin self)) var (rf_value self)) (\<lambda>v.
                 Ok (PinnableVar
                   \<lparr>vr_var = var,
                    vr_value = (if as_pinned v = None \<and> rf_pin_policy self = Some IfPresentInBuildEnv then FromBuildEnvIfPresent else v),
                    vr_description = rf_description self\<rparr>)))
      | (Some _, Some _) \<Rightarrow> Err PkgAndVar
      | (None, None) \<Rightarrow> Err NeitherPkgNorVar)"

text \<open>Reading a request that is already pinned, where a variable needs a value.\<close>

definition pinned_request_of_fields :: "request_fields \<Rightarrow> pinned_request request_result" where
  "pinned_request_of_fields self =
     (case (rf_pkg self, rf_var self) of
        (Some pkg, None) \<Rightarrow>
          if pin_is_some (or_default NoPinValue (rf_pin self)) \<and> \<not> filter_is_empty (ri_version pkg)
          then Err (VersionAndPin (ri_name pkg) (ri_version pkg))
          else Ok (PinnedPkg
            \<lparr>pr_pkg = pkg, pr_prerelease_policy = rf_prerelease_policy self,
             pr_inclusion_policy = or_default Always (rf_inclusion_policy self),
             pr_pin = into_pkg_pin (or_default NoPinValue (rf_pin self)),
             pr_pin_policy = or_default Required (rf_pin_policy self),
             pr_required_compat = None, pr_requested_by = []\<rparr>)
      | (None, Some var) \<Rightarrow>
          (case rf_value self of
             None \<Rightarrow> Err PinnedValueMissing
           | Some v \<Rightarrow>
               if v = [] then Err PinnedValueEmpty
               else Ok (PinnedVar \<lparr>vr_var = var, vr_value = v, vr_description = rf_description self\<rparr>))
      | (Some _, Some _) \<Rightarrow> Err PkgAndVar
      | (None, None) \<Rightarrow> Err NeitherPkgNorVar)"

section \<open>Requests with options\<close>

datatype option_value = CompleteOption str | PartialOption str

fun ov_value :: "option_value \<Rightarrow> str" where
  "ov_value (CompleteOption v) = v"
| "ov_value (PartialOption v) = v"

fun is_complete :: "option_value \<Rightarrow> bool" where
  "is_complete (CompleteOption _) = True"
| "is_complete (PartialOption _) = False"

definition convert_to_partial :: "option_value \<Rightarrow> option_value" where
  "convert_to_partial v = PartialOption (ov_value v)"

type_synonym request_options = "(str, option_value) btree_map"

record pkg_request_with_options =
  po_pkg_request :: pkg_request
  po_options :: request_options

definition with_options_new :: "range_ident \<Rightarrow> requested_by \<Rightarrow> pkg_request_with_options" where
  "with_options_new pkg requester = \<lparr>po_pkg_request = pkg_request_new pkg requester, po_options = []\<rparr>"

definition with_options_from_ident :: "any_ident \<Rightarrow> requested_by \<Rightarrow> pkg_request_with_options" where
  "with_options_from_ident pkg requester = \<lparr>po_pkg_request = pkg_request_from_ident pkg requester, po_options = []\<rparr>"

text \<open>The second loop of \<open>restrict\<close>, over the options of the other request.\<close>

fun merge_options_loop :: "request_options \<Rightarrow> request_options \<Rightarrow> compatibility \<times> request_options" where
  "merge_options_loop ours [] = (Compatible, ours)"
| "merge_options_loop ours ((key, v) # theirs) =
     (case bt_get ours key of
        Some self_value \<Rightarrow>
          if ov_value self_value \<noteq> ov_value v
          then (Incompatible (VarOptionMismatch (IncompatibleValue (ov_value self_value) (ov_value v))), ours)
          else if \<not> is_complete self_value then merge_options_loop ours theirs
          else if is_complete v then merge_options_loop ours theirs
          else merge_options_loop (bt_insert key v ours) theirs
      | None \<Rightarrow> merge_options_loop (bt_insert key (PartialOption (ov_value v)) ours) theirs)"

definition with_options_restrict ::
  "(nat \<Rightarrow> (nat \<times> nat) list) \<Rightarrow> pkg_request_with_options \<Rightarrow> pkg_request_with_options \<Rightarrow> compatibility \<times> pkg_request_with_options" where
  "with_options_restrict perms self other =
     (case pkg_request_restrict perms (po_pkg_request self) (po_pkg_request other) of
        (result, pr) \<Rightarrow>
          let self = self\<lparr>po_pkg_request := pr\<rparr> in
          if \<not> is_ok result then (result, self)
          else
            let ours = map (\<lambda>(key, v). (key, if bt_contains_key (po_options other) key then v else convert_to_partial v)) (po_options self) in
            case merge_options_loop ours (po_options other) of (result, ours) \<Rightarrow> (result, self\<lparr>po_options := ours\<rparr>))"

datatype request_with_options = OptPkg pkg_request_with_options | OptVar "str var_request"

fun request_with_options_name :: "request_with_options \<Rightarrow> str" where
  "request_with_options_name (OptVar r) = vr_var r"
| "request_with_options_name (OptPkg r) = ri_name (pr_pkg (po_pkg_request r))"

fun with_options_of_pinned :: "pinned_request \<Rightarrow> request_with_options" where
  "with_options_of_pinned (PinnedPkg r) = OptPkg \<lparr>po_pkg_request = r, po_options = []\<rparr>"
| "with_options_of_pinned (PinnedVar r) = OptVar r"

fun pinned_of_with_options :: "request_with_options \<Rightarrow> pinned_request" where
  "pinned_of_with_options (OptPkg r) = PinnedPkg (po_pkg_request r)"
| "pinned_of_with_options (OptVar r) = PinnedVar r"

section \<open>Comparing variable requests\<close>

text \<open>A request contains another one when the names agree, where the first may leave out the namespace, and so do the values, where the
  second may leave out the value.\<close>

lemma var_contains_iff:
  "var_contains self other = Compatible \<longleftrightarrow>
     base_name (vr_var self) = base_name (vr_var other)
     \<and> (namespace (vr_var self) = None \<or> namespace (vr_var self) = namespace (vr_var other))
     \<and> (vr_value other = [] \<or> vr_value self = vr_value other)"
  by (auto simp: var_contains_def var_names_problem_def var_values_problem_def not_superset_def)

text \<open>
  Containment of variable requests is reflexive and transitive, so chains of requests can be compared pairwise; and pinning both
  sides does not change the verdict: the three forms of the comparison agree on pinned values.
\<close>

theorem var_contains_preorder:
  "var_contains r r = Compatible
   \<and> (var_contains r s = Compatible \<and> var_contains s t = Compatible \<longrightarrow> var_contains r t = Compatible)
   \<and> var_contains_pinnable (var_pinnable_of_pinned r) (var_pinnable_of_pinned s) = var_contains r s
   \<and> var_pinned_contains_pinnable r (var_pinnable_of_pinned s) = var_contains r s"
proof -
  have "var_contains r s = Compatible \<and> var_contains s t = Compatible \<longrightarrow> var_contains r t = Compatible"
    unfolding var_contains_iff by auto
  then show ?thesis
    by (auto simp: var_contains_iff var_contains_pinnable_def var_pinned_contains_pinnable_def var_pinnable_of_pinned_def)
      (simp_all add: var_contains_def split: option.splits)
qed

theorem var_contains_preorder_witness:
  "var_contains (var_request_new_with_value ''abi'' ''cp37'') (var_request_new_with_value ''python.abi'' []) = Compatible"
proof -
  let ?r = "var_request_new_with_value ''abi'' ''cp37''" and ?s = "var_request_new_with_value ''python.abi'' ''cp37''"
    and ?t = "var_request_new_with_value ''python.abi'' []"
  have "var_contains ?r ?s = Compatible" "var_contains ?s ?t = Compatible" by code_simp+
  then show ?thesis using var_contains_preorder [of ?r ?s ?t] by blast
qed

section \<open>Merging the options of requests\<close>

text \<open>What merging promises for one option: a value is complete when both requests have it and agree that it is complete, and partial
  when one of them did not mention it; two different values do not merge.\<close>

fun merged_option :: "option_value option \<Rightarrow> option_value option \<Rightarrow> option_value option" where
  "merged_option None None = None"
| "merged_option (Some a) None = Some (PartialOption (ov_value a))"
| "merged_option None (Some b) = Some (PartialOption (ov_value b))"
| "merged_option (Some a) (Some b) =
     Some ((if is_complete a \<and> is_complete b then CompleteOption else PartialOption) (ov_value a))"

definition options_agree :: "request_options \<Rightarrow> request_options \<Rightarrow> bool" where
  "options_agree ours theirs \<longleftrightarrow>
     list_all (\<lambda>(k, b). case bt_get ours k of Some a \<Rightarrow> ov_value a = ov_value b | None \<Rightarrow> True) theirs"

lemma ov_eq: "ov_value a = ov_value b \<Longrightarrow> is_complete a = is_complete b \<Longrightarrow> a = b"
  by (cases a; cases b) auto

lemma merge_options_loop_facts:
  assumes "bt_wf ours" "distinct (map fst theirs)" "merge_options_loop ours theirs = (result, out)"
  shows "bt_wf out \<and> (result = Compatible \<longleftrightarrow> options_agree ours theirs)
    \<and> (result = Compatible \<longrightarrow>
        (\<forall>k. bt_get out k = (case bt_get theirs k of
           None \<Rightarrow> bt_get ours k
         | Some b \<Rightarrow> (case bt_get ours k of
             None \<Rightarrow> Some (PartialOption (ov_value b)) | Some a \<Rightarrow> Some (if is_complete a then b else a)))))"
  using assms
proof (induction ours theirs rule: merge_options_loop.induct)
  case (2 ours key v theirs)
  have wf: "bt_wf ours" "distinct (map fst theirs)" "key \<notin> fst ` set theirs" using 2(5,6) by auto
  then have fresh: "bt_get theirs key = None" by (simp add: map_of_eq_None_iff)
  have agree: "options_agree (bt_insert key x ours) theirs = options_agree ours theirs" for x
    unfolding options_agree_def using wf by (intro list.pred_cong) (auto simp: image_iff)
  show ?case
  proof (cases "bt_get ours key")
    case None
    with 2(7) have run: "merge_options_loop (bt_insert key (PartialOption (ov_value v)) ours) theirs = (result, out)" by simp
    show ?thesis
      using 2(1) [OF None bt_wf_insert [OF wf(1)] wf(2) run] None wf(1) fresh unfolding agree bt_get_insert [OF wf(1)] fun_upd_apply
      by (auto simp: options_agree_def cong: option.case_cong)
  next
    case (Some a)
    consider "ov_value a \<noteq> ov_value v" | "ov_value a = ov_value v" "\<not> is_complete a"
      | "ov_value a = ov_value v" "is_complete a" "is_complete v" | "ov_value a = ov_value v" "is_complete a" "\<not> is_complete v"
      by blast
    then show ?thesis
    proof cases
      case 1
      with Some 2(7) wf(1) show ?thesis by (auto simp: options_agree_def)
    next
      case c: 2
      with Some 2(7) have run: "merge_options_loop ours theirs = (result, out)" by simp
      show ?thesis using 2(2) [OF Some _ _ wf(1,2) run] c Some fresh by (auto simp: options_agree_def)
    next
      case c: 3
      with Some 2(7) have run: "merge_options_loop ours theirs = (result, out)" by simp
      have "a = v" using c ov_eq by blast
      with 2(3) [OF Some _ _ _ wf(1,2) run] c Some fresh show ?thesis by (auto simp: options_agree_def)
    next
      case c: 4
      with Some 2(7) have run: "merge_options_loop (bt_insert key v ours) theirs = (result, out)" by simp
      show ?thesis
        using 2(4) [OF Some _ _ _ bt_wf_insert [OF wf(1)] wf(2) run] c Some wf(1) fresh unfolding agree bt_get_insert [OF wf(1)] fun_upd_apply
        by (auto simp: options_agree_def cong: option.case_cong)
    qed
  qed
qed (simp add: options_agree_def)


lemma map_of_pointwise: "map_of (map (\<lambda>(k, v). (k, f k v)) xs) k = map_option (f k) (map_of xs k)"
  by (induction xs) auto

lemma with_options_restrict_facts:
  assumes "bt_wf (po_options self)" "bt_wf (po_options other)"
    and "fst (pkg_request_restrict perms (po_pkg_request self) (po_pkg_request other)) = Compatible"
    and "with_options_restrict perms self other = (result, out)"
  shows "bt_wf (po_options out)
    \<and> po_pkg_request out = snd (pkg_request_restrict perms (po_pkg_request self) (po_pkg_request other))
    \<and> (result = Compatible \<longleftrightarrow> options_agree (po_options self) (po_options other))
    \<and> (result = Compatible \<longrightarrow>
        bt_get (po_options out) key = merged_option (bt_get (po_options self) key) (bt_get (po_options other) key))"
proof -
  let ?partial = "\<lambda>key v. if bt_contains_key (po_options other) key then v else convert_to_partial v"
  let ?ours = "map (\<lambda>(key, v). (key, ?partial key v)) (po_options self)"
  have get: "bt_get ?ours k = map_option (?partial k) (bt_get (po_options self) k)" for k
    using map_of_pointwise [of ?partial "po_options self"] by simp
  have wf: "bt_wf ?ours" using assms(1) by (simp add: bt_wf_def comp_def case_prod_unfold)
  obtain options where run: "merge_options_loop ?ours (po_options other) = (result, options)"
    "po_options out = options" "po_pkg_request out = snd (pkg_request_restrict perms (po_pkg_request self) (po_pkg_request other))"
    using assms(3,4) by (auto simp: with_options_restrict_def Let_def split: prod.splits)
  have agree: "options_agree ?ours (po_options other) = options_agree (po_options self) (po_options other)"
    unfolding options_agree_def list_all_iff get
    by (intro ball_cong) (auto simp: bt_contains_key_def convert_to_partial_def image_iff split: option.splits)
  have distinct: "distinct (map fst (po_options other))" using assms(2) by (rule bt_wf_distinct)
  have "result = Compatible \<Longrightarrow>
      bt_get (po_options out) key = merged_option (bt_get (po_options self) key) (bt_get (po_options other) key)"
  proof -
    assume ok: "result = Compatible"
    with merge_options_loop_facts [OF wf distinct run(1)] agree
    have out: "bt_get options key = (case bt_get (po_options other) key of
           None \<Rightarrow> bt_get ?ours key
         | Some b \<Rightarrow> (case bt_get ?ours key of
             None \<Rightarrow> Some (PartialOption (ov_value b)) | Some a \<Rightarrow> Some (if is_complete a then b else a)))"
      and same: "options_agree (po_options self) (po_options other)" by blast+
    have key: "bt_contains_key (po_options other) key \<longleftrightarrow> bt_get (po_options other) key \<noteq> None"
      by (simp add: bt_contains_key_def map_of_eq_None_iff)
    have both: "bt_get (po_options self) key = Some a \<Longrightarrow> bt_get (po_options other) key = Some b \<Longrightarrow> ov_value a = ov_value b" for a b
      using same map_of_SomeD by (fastforce simp: options_agree_def list_all_iff)
    have merge: "ov_value a = ov_value b \<Longrightarrow> merged_option (Some a) (Some b) = Some (if is_complete a then b else a)" for a b
      by (cases a; cases b) auto
    show ?thesis
    proof (cases "bt_get (po_options self) key"; cases "bt_get (po_options other) key")
      fix a b
      assume a: "bt_get (po_options self) key = Some a" and b: "bt_get (po_options other) key = Some b"
      have "bt_get options key = Some (if is_complete a then b else a)" using out unfolding get key by (simp add: a b)
      then show ?thesis unfolding run(2) a b using merge [OF both [OF a b]] by simp
    qed (use out in \<open>simp_all add: run(2) get key convert_to_partial_def\<close>)
  qed
  with merge_options_loop_facts [OF wf distinct run(1)] run(2,3) show ?thesis unfolding agree by blast
qed

text \<open>
  Merging requests with options. When the package requests merge, the merge succeeds exactly when no option has two different values,
  and every option then has the value and the completeness that the specification of merging gives it, whichever of the two requests
  mentions it; an option is complete in the result only when both requests have it complete.
\<close>

theorem with_options_restrict_options:
  assumes "bt_wf (po_options self)" "bt_wf (po_options other)"
    and "fst (pkg_request_restrict perms (po_pkg_request self) (po_pkg_request other)) = Compatible"
    and "with_options_restrict perms self other = (result, out)"
  shows "bt_wf (po_options out)
    \<and> po_pkg_request out = snd (pkg_request_restrict perms (po_pkg_request self) (po_pkg_request other))
    \<and> (result = Compatible \<longleftrightarrow> options_agree (po_options self) (po_options other))
    \<and> (result = Compatible \<longrightarrow>
        bt_get (po_options out) key = merged_option (bt_get (po_options self) key) (bt_get (po_options other) key))"
  using assms by (rule with_options_restrict_facts)

theorem with_options_restrict_options_witness:
  "bt_get (po_options (snd (with_options_restrict lexicographic_pairs
     \<lparr>po_pkg_request = request_python [] None [Run], po_options = [(''abi'', CompleteOption ''cp37'')]\<rparr>
     \<lparr>po_pkg_request = request_python [] None [Run], po_options = [(''abi'', CompleteOption ''cp37''), (''debug'', CompleteOption ''on'')]\<rparr>)))
     ''debug'' = Some (PartialOption ''on'')"
proof -
  let ?self = "\<lparr>po_pkg_request = request_python [] None [Run], po_options = [(''abi'', CompleteOption ''cp37'')]\<rparr>"
  let ?other = "\<lparr>po_pkg_request = request_python [] None [Run], po_options = [(''abi'', CompleteOption ''cp37''), (''debug'', CompleteOption ''on'')]\<rparr>"
  obtain result out where run: "with_options_restrict lexicographic_pairs ?self ?other = (result, out)" by fastforce
  have wf: "bt_wf (po_options ?self)" "bt_wf (po_options ?other)"
    and ok: "fst (pkg_request_restrict lexicographic_pairs (po_pkg_request ?self) (po_pkg_request ?other)) = Compatible"
    and agree: "options_agree (po_options ?self) (po_options ?other)"
    and expected: "merged_option (bt_get (po_options ?self) ''debug'') (bt_get (po_options ?other) ''debug'') = Some (PartialOption ''on'')"
    by code_simp+
  show ?thesis using with_options_restrict_options [OF wf ok run, of "''debug''"] agree expected unfolding run snd_conv by argo
qed

end
