(* ===== verification/Requirements.thy ===== *)
theory Requirements
  imports Var_Requests
begin

text \<open>
  Lists of requirements (\<^verbatim>\<open>crates/spk-schema/src/requirements_list.rs\<close>): lookup and replacement by name, merging a request into a list,
  asking whether a list contains a request, rendering the pins of a list for the packages and options of a build environment, and
  attaching the options that are in scope to the package requests. The three kinds of requests that a list can hold share the operation
  that merges a request into a list; a locale states what it needs from the kind of request, and is interpreted for the three of them.
\<close>

section \<open>Operations on lists of any kind of request\<close>

datatype requirements_error =
    CannotMerge incompatible_reason
  | OnlyPackagesMerge
  | PackageNotPresent str
  | VariableNotSet str
  | RequestFailed request_error
  | MultipleRequirements str
  | DeserializeFailed request_error

type_synonym 'a requirements_result = "(requirements_error, 'a) outcome"

definition req_get :: "('r \<Rightarrow> str) \<Rightarrow> 'r list \<Rightarrow> str \<Rightarrow> 'r option" where
  "req_get name self n = find (\<lambda>r. name r = n) self"

fun insert_or_replace :: "('r \<Rightarrow> str) \<Rightarrow> 'r list \<Rightarrow> 'r \<Rightarrow> 'r option \<times> 'r list" where
  "insert_or_replace name [] request = (None, [request])"
| "insert_or_replace name (existing # self) request =
     (if name existing = name request then (Some existing, request # self)
      else case insert_or_replace name self request of (replaced, self) \<Rightarrow> (replaced, existing # self))"

definition remove_all :: "('r \<Rightarrow> str) \<Rightarrow> 'r list \<Rightarrow> str \<Rightarrow> 'r list" where
  "remove_all name self n = filter (\<lambda>existing. name existing \<noteq> n) self"

text \<open>The loop of the three \<open>insert_or_merge\<close> operations. \<open>merge\<close> is the match on the existing and the new request: \<open>None\<close> when they cannot
  be merged, and else the verdict of \<open>restrict\<close> with what is left of the existing request, which stays in the list either way.\<close>

fun insert_or_merge ::
  "('r \<Rightarrow> str) \<Rightarrow> ('r \<Rightarrow> 'r \<Rightarrow> (compatibility \<times> 'r) option) \<Rightarrow> 'r list \<Rightarrow> 'r \<Rightarrow> unit requirements_result \<times> 'r list" where
  "insert_or_merge name merge [] request = (Ok (), [request])"
| "insert_or_merge name merge (existing # self) request =
     (if name existing \<noteq> name request
      then (case insert_or_merge name merge self request of (result, self) \<Rightarrow> (result, existing # self))
      else case merge existing request of
             None \<Rightarrow> (Err OnlyPackagesMerge, existing # self)
           | Some (Incompatible incompatible, existing) \<Rightarrow> (Err (CannotMerge incompatible), existing # self)
           | Some (Compatible, existing) \<Rightarrow> (Ok (), existing # self))"

fun try_from_loop ::
  "('r list \<Rightarrow> 'r \<Rightarrow> unit requirements_result \<times> 'r list) \<Rightarrow> 'r list \<Rightarrow> 'r list \<Rightarrow> 'r list requirements_result" where
  "try_from_loop ins out [] = Ok out"
| "try_from_loop ins out (item # items) =
     (case ins out item of (result, out) \<Rightarrow> and_then result (\<lambda>_. try_from_loop ins out items))"

fun show_requirements_loop :: "('r \<Rightarrow> str) \<Rightarrow> 'r list \<Rightarrow> str" where
  "show_requirements_loop show_request [] = []"
| "show_requirements_loop show_request (i # entries) =
     show_request i @ (if entries \<noteq> [] then '', '' else []) @ show_requirements_loop show_request entries"

definition show_requirements :: "('r \<Rightarrow> str) \<Rightarrow> 'r list \<Rightarrow> str" where
  "show_requirements show_request self = ''['' @ show_requirements_loop show_request self @ '']''"

text \<open>Reading a list: \<open>items\<close> are the values of the sequence with what deserialising each of them as a request gives. Requests without
  a value, as old packages have them, are skipped.\<close>

fun visit_seq :: "('r \<Rightarrow> str) \<Rightarrow> str list \<Rightarrow> 'r list \<Rightarrow> 'r request_result list \<Rightarrow> 'r list requirements_result" where
  "visit_seq name requirement_names requirements [] = Ok requirements"
| "visit_seq name requirement_names requirements (item # seq) =
     (case item of
        Ok request \<Rightarrow>
          if name request \<in> set requirement_names then Err (MultipleRequirements (name request))
          else visit_seq name (name request # requirement_names) (requirements @ [request]) seq
      | Err err \<Rightarrow>
          if err = PinnedValueMissing \<or> err = PinnedValueEmpty then visit_seq name requirement_names requirements seq
          else Err (DeserializeFailed err)
      | Panic \<Rightarrow> Panic)"

section \<open>The three kinds of lists\<close>

type_synonym pair_order = "nat \<Rightarrow> (nat \<times> nat) list"

fun merge_pinnable :: "pair_order \<Rightarrow> pinnable_request \<Rightarrow> pinnable_request \<Rightarrow> (compatibility \<times> pinnable_request) option" where
  "merge_pinnable perms (PinnablePkg existing) (PinnablePkg request) =
     Some (map_prod id PinnablePkg (pkg_request_restrict perms existing request))"
| "merge_pinnable perms _ _ = None"

fun merge_pinned :: "pair_order \<Rightarrow> pinned_request \<Rightarrow> pinned_request \<Rightarrow> (compatibility \<times> pinned_request) option" where
  "merge_pinned perms (PinnedPkg existing) (PinnedPkg request) =
     Some (map_prod id PinnedPkg (pkg_request_restrict perms existing request))"
| "merge_pinned perms _ _ = None"

fun merge_with_options ::
  "pair_order \<Rightarrow> request_with_options \<Rightarrow> request_with_options \<Rightarrow> (compatibility \<times> request_with_options) option" where
  "merge_with_options perms (OptPkg existing) (OptPkg request) =
     Some (map_prod id OptPkg (with_options_restrict perms existing request))"
| "merge_with_options perms _ _ = None"

definition insert_or_merge_pinnable ::
  "pair_order \<Rightarrow> pinnable_request list \<Rightarrow> pinnable_request \<Rightarrow> unit requirements_result \<times> pinnable_request list" where
  "insert_or_merge_pinnable perms = insert_or_merge pinnable_request_name (merge_pinnable perms)"

definition insert_or_merge_pinned ::
  "pair_order \<Rightarrow> pinned_request list \<Rightarrow> pinned_request \<Rightarrow> unit requirements_result \<times> pinned_request list" where
  "insert_or_merge_pinned perms = insert_or_merge pinned_request_name (merge_pinned perms)"

definition insert_or_merge_with_options ::
  "pair_order \<Rightarrow> request_with_options list \<Rightarrow> request_with_options \<Rightarrow> unit requirements_result \<times> request_with_options list" where
  "insert_or_merge_with_options perms = insert_or_merge request_with_options_name (merge_with_options perms)"

definition try_from_iter_pinnable :: "pair_order \<Rightarrow> pinnable_request list \<Rightarrow> pinnable_request list requirements_result" where
  "try_from_iter_pinnable perms items = try_from_loop (insert_or_merge_pinnable perms) [] items"

definition try_from_iter_pinned :: "pair_order \<Rightarrow> pinned_request list \<Rightarrow> pinned_request list requirements_result" where
  "try_from_iter_pinned perms items = try_from_loop (insert_or_merge_pinned perms) [] items"

definition try_from_iter_with_options ::
  "pair_order \<Rightarrow> request_with_options list \<Rightarrow> request_with_options list requirements_result" where
  "try_from_iter_with_options perms items = try_from_loop (insert_or_merge_with_options perms) [] items"

text \<open>The loop of \<open>contains_request\<close> with the global request that it has met so far.\<close>

fun contains_loop :: "str var_request option \<Rightarrow> pinned_request list \<Rightarrow> request_with_options \<Rightarrow> compatibility" where
  "contains_loop global_opt_request [] (OptVar theirs) =
     (case global_opt_request of
        Some ours \<Rightarrow> var_contains ours theirs
      | None \<Rightarrow> Incompatible (RequirementsNotSuperset (vr_var theirs)))"
| "contains_loop global_opt_request [] (OptPkg theirs) =
     Incompatible (RequirementsNotSuperset (ri_name (pr_pkg (po_pkg_request theirs))))"
| "contains_loop global_opt_request (PinnedPkg ours # self) (OptPkg theirs) =
     (if ri_name (pr_pkg ours) = ri_name (pr_pkg (po_pkg_request theirs)) then pkg_request_contains ours (po_pkg_request theirs)
      else contains_loop global_opt_request self (OptPkg theirs))"
| "contains_loop global_opt_request (PinnedVar ours # self) (OptVar theirs) =
     (if vr_var ours = vr_var theirs then var_contains ours theirs
      else if namespace (vr_var theirs) \<noteq> None \<and> vr_var ours = base_name (vr_var theirs)
      then contains_loop (Some ours) self (OptVar theirs)
      else contains_loop global_opt_request self (OptVar theirs))"
| "contains_loop global_opt_request (_ # self) theirs = contains_loop global_opt_request self theirs"

definition contains_request :: "pinned_request list \<Rightarrow> request_with_options \<Rightarrow> compatibility" where
  "contains_request self theirs = contains_loop None self theirs"

text \<open>The same loop over requests with options, whose package requests are compared without their options.\<close>

fun contains_loop_with_options ::
  "str var_request option \<Rightarrow> request_with_options list \<Rightarrow> request_with_options \<Rightarrow> compatibility" where
  "contains_loop_with_options global_opt_request [] (OptVar theirs) =
     (case global_opt_request of
        Some ours \<Rightarrow> var_contains ours theirs
      | None \<Rightarrow> Incompatible (RequirementsNotSuperset (vr_var theirs)))"
| "contains_loop_with_options global_opt_request [] (OptPkg theirs) =
     Incompatible (RequirementsNotSuperset (ri_name (pr_pkg (po_pkg_request theirs))))"
| "contains_loop_with_options global_opt_request (OptPkg ours # self) (OptPkg theirs) =
     (if ri_name (pr_pkg (po_pkg_request ours)) = ri_name (pr_pkg (po_pkg_request theirs))
      then pkg_request_contains (po_pkg_request ours) (po_pkg_request theirs)
      else contains_loop_with_options global_opt_request self (OptPkg theirs))"
| "contains_loop_with_options global_opt_request (OptVar ours # self) (OptVar theirs) =
     (if vr_var ours = vr_var theirs then var_contains ours theirs
      else if namespace (vr_var theirs) \<noteq> None \<and> vr_var ours = base_name (vr_var theirs)
      then contains_loop_with_options (Some ours) self (OptVar theirs)
      else contains_loop_with_options global_opt_request self (OptVar theirs))"
| "contains_loop_with_options global_opt_request (_ # self) theirs = contains_loop_with_options global_opt_request self theirs"

definition contains_request_with_options :: "request_with_options list \<Rightarrow> request_with_options \<Rightarrow> compatibility" where
  "contains_request_with_options self theirs = contains_loop_with_options None self theirs"

section \<open>Rendering pins\<close>

text \<open>What becomes of one request: \<open>None\<close> when it is dropped.\<close>

definition render_pkg_request ::
  "(str \<Rightarrow> version_range list request_result) \<Rightarrow> (str, build_ident) hash_map \<Rightarrow> pkg_request \<Rightarrow> pinned_request requirements_result option" where
  "render_pkg_request parse_filter resolved_by_name r =
     (case hm_get resolved_by_name (ri_name (pr_pkg r)) of
        None \<Rightarrow>
          if pr_pin r = None \<and> pr_pin_policy r = IfPresentInBuildEnv then None
          else if pr_pin r = None then Some (Ok (PinnedPkg r))
          else if pr_pin_policy r = IfPresentInBuildEnv then None
          else Some (Err (PackageNotPresent (ri_name (pr_pkg r))))
      | Some resolved \<Rightarrow>
          if pr_pin r = None then Some (Ok (PinnedPkg r))
          else Some (and_then (map_err RequestFailed (render_pin parse_filter r resolved)) (\<lambda>r. Ok (PinnedPkg r))))"

definition render_var_request :: "option_map \<Rightarrow> pinnable_value var_request \<Rightarrow> pinned_request requirements_result option" where
  "render_var_request options r =
     (case vr_value r of
        Pinned v \<Rightarrow> Some (Ok (PinnedVar \<lparr>vr_var = vr_var r, vr_value = v, vr_description = vr_description r\<rparr>))
      | pin \<Rightarrow>
          let opts = (case namespace (vr_var r) of Some ns \<Rightarrow> package_options options ns | None \<Rightarrow> options) in
          case bt_get opts (without_namespace (vr_var r)) of
            None \<Rightarrow> if pin = FromBuildEnvIfPresent then None else Some (Err (VariableNotSet (vr_var r)))
          | Some opt \<Rightarrow> Some (and_then (map_err RequestFailed (var_render_pin r opt)) (\<lambda>r. Ok (PinnedVar r))))"

fun render_request ::
  "(str \<Rightarrow> version_range list request_result) \<Rightarrow> option_map \<Rightarrow> (str, build_ident) hash_map \<Rightarrow> pinnable_request
    \<Rightarrow> pinned_request requirements_result option" where
  "render_request parse_filter options resolved_by_name (PinnablePkg r) = render_pkg_request parse_filter resolved_by_name r"
| "render_request parse_filter options resolved_by_name (PinnableVar r) = render_var_request options r"
| "render_request parse_filter options resolved_by_name (Suppress _ _) = None"

text \<open>\<open>filter_map\<close> followed by \<open>collect\<close> into a result.\<close>

fun filter_map_collect :: "('a \<Rightarrow> ('e, 'b) outcome option) \<Rightarrow> 'a list \<Rightarrow> ('e, 'b list) outcome" where
  "filter_map_collect f [] = Ok []"
| "filter_map_collect f (x # xs) =
     (case f x of
        None \<Rightarrow> filter_map_collect f xs
      | Some r \<Rightarrow> and_then r (\<lambda>y. and_then (filter_map_collect f xs) (\<lambda>ys. Ok (y # ys))))"

definition render_all_pins ::
  "(str \<Rightarrow> version_range list request_result) \<Rightarrow> pinnable_request list \<Rightarrow> option_map \<Rightarrow> (str, build_ident) hash_map
    \<Rightarrow> pinned_request list requirements_result" where
  "render_all_pins parse_filter self options resolved_by_name =
     filter_map_collect (render_request parse_filter options resolved_by_name) self"

definition pinned_list_of_pinnable :: "pinnable_request list \<Rightarrow> pinned_request list requirements_result" where
  "pinned_list_of_pinnable requirements =
     filter_map_collect (\<lambda>req. Some (map_err RequestFailed (pinned_of_pinnable req))) requirements"

section \<open>Options in scope\<close>

text \<open>One entry of the index of namespaced options: the first value is kept, another one must be the same.\<close>

definition index_option ::
  "str \<Rightarrow> str \<Rightarrow> (str, request_options) hash_map \<Rightarrow> (requirements_error, (str, request_options) hash_map) outcome" where
  "index_option opt_name v index =
     (case namespace opt_name of
        None \<Rightarrow> Ok index
      | Some ns \<Rightarrow>
          let entry = (case hm_get index ns of Some m \<Rightarrow> m | None \<Rightarrow> []) in
          (case bt_get entry opt_name of
             None \<Rightarrow> Ok (hm_insert ns (bt_insert opt_name (CompleteOption v) entry) index)
           | Some e \<Rightarrow> if ov_value e \<noteq> v then Panic else Ok (hm_insert ns entry index)))"

fun index_options ::
  "(str \<times> str) list \<Rightarrow> (str, request_options) hash_map \<Rightarrow> (requirements_error, (str, request_options) hash_map) outcome" where
  "index_options [] index = Ok index"
| "index_options ((opt_name, v) # options) index = and_then (index_option opt_name v index) (index_options options)"

definition var_options :: "pinned_request list \<Rightarrow> (str \<times> str) list" where
  "var_options requirements = List.map_filter (\<lambda>req. case req of PinnedVar r \<Rightarrow> Some (vr_var r, vr_value r) | _ \<Rightarrow> None) requirements"

fun attach_options :: "(str, request_options) hash_map \<Rightarrow> pinned_request \<Rightarrow> request_with_options" where
  "attach_options index (PinnedPkg r) =
     OptPkg \<lparr>po_pkg_request = r, po_options = (case hm_get index (ri_name (pr_pkg r)) of Some m \<Rightarrow> m | None \<Rightarrow> [])\<rparr>"
| "attach_options index (PinnedVar r) = OptVar r"

definition convert_requests_to_requests_with_options ::
  "(str \<times> str) list \<Rightarrow> pinned_request list \<Rightarrow> (requirements_error, request_with_options list) outcome" where
  "convert_requests_to_requests_with_options options requirements =
     and_then (index_options options []) (\<lambda>index.
     and_then (index_options (var_options requirements) index) (\<lambda>index.
       Ok (map (attach_options index) requirements)))"

section \<open>Lists with one request per name\<close>

text \<open>Adding names that are not there yet keeps a list of names without repetitions.\<close>

lemma fold_new_names:
  "distinct ns \<Longrightarrow> distinct (fold (\<lambda>n ns. if n \<in> set ns then ns else ns @ [n]) xs ns)
     \<and> set (fold (\<lambda>n ns. if n \<in> set ns then ns else ns @ [n]) xs ns) = set ns \<union> set xs"
  by (induction xs arbitrary: ns) auto

text \<open>What an operation that merges requests by name needs from the requests: merging keeps the name of the existing request.\<close>

locale named_requests =
  fixes name :: "'r \<Rightarrow> str" and merge :: "'r \<Rightarrow> 'r \<Rightarrow> (compatibility \<times> 'r) option"
  assumes merge_name: "merge existing request = Some (c, merged) \<Longrightarrow> name merged = name existing"
begin

lemma insert_names:
  "map name (snd (insert_or_merge name merge self request)) =
     map name self @ (if name request \<in> name ` set self then [] else [name request])"
  by (induction self) (auto split: option.splits compatibility.splits prod.splits dest: merge_name)

lemma insert_others:
  "n \<noteq> name request \<Longrightarrow> req_get name (snd (insert_or_merge name merge self request)) n = req_get name self n"
  by (induction self) (auto simp: req_get_def split: option.splits compatibility.splits prod.splits dest: merge_name)

text \<open>The names of a list that is built from requests, in the order of their first appearance.\<close>

lemma try_from_names:
  "try_from_loop (insert_or_merge name merge) out items = Ok result \<Longrightarrow>
     map name result = fold (\<lambda>n ns. if n \<in> set ns then ns else ns @ [n]) (map name items) (map name out)"
proof (induction items arbitrary: out)
  case (Cons item items)
  obtain r out' where run: "insert_or_merge name merge out item = (r, out')" by fastforce
  with Cons.prems have "try_from_loop (insert_or_merge name merge) out' items = Ok result" by auto
  from Cons.IH [OF this] show ?case using insert_names [of out item] run by (auto simp: image_iff)
qed simp

lemma try_from_unique:
  "try_from_loop (insert_or_merge name merge) [] items = Ok out \<Longrightarrow> distinct (map name out) \<and> name ` set out = name ` set items"
  using try_from_names [of "[]" items out] fold_new_names [of "[]" "map name items"] by simp (metis set_map)

end

lemma ri_restrict_name: "ri_name (snd (ri_restrict perms self other mode)) = ri_name self"
  by (auto simp: ri_restrict_def Let_def split: option.splits compatibility.splits prod.splits)

lemma pkg_request_restrict_name: "ri_name (pr_pkg (snd (pkg_request_restrict perms self other))) = ri_name (pr_pkg self)"
  using ri_restrict_name by (auto simp: pkg_request_restrict_def Let_def split: prod.splits) (metis snd_conv)+

lemma with_options_restrict_name:
  "ri_name (pr_pkg (po_pkg_request (snd (with_options_restrict perms self other)))) = ri_name (pr_pkg (po_pkg_request self))"
  using pkg_request_restrict_name [of perms "po_pkg_request self" "po_pkg_request other"]
  by (auto simp: with_options_restrict_def Let_def split: prod.splits)

interpretation pinnable: named_requests pinnable_request_name "merge_pinnable perms"
proof
  fix existing request c merged
  assume "merge_pinnable perms existing request = Some (c, merged)"
  then show "pinnable_request_name merged = pinnable_request_name existing"
    by (cases existing; cases request) (auto simp: map_prod_def case_prod_unfold pkg_request_restrict_name)
qed

interpretation pinned: named_requests pinned_request_name "merge_pinned perms"
proof
  fix existing request c merged
  assume "merge_pinned perms existing request = Some (c, merged)"
  then show "pinned_request_name merged = pinned_request_name existing"
    by (cases existing; cases request) (auto simp: map_prod_def case_prod_unfold pkg_request_restrict_name)
qed

interpretation with_options: named_requests request_with_options_name "merge_with_options perms"
proof
  fix existing request c merged
  assume "merge_with_options perms existing request = Some (c, merged)"
  then show "request_with_options_name merged = request_with_options_name existing"
    by (cases existing; cases request) (auto simp: map_prod_def case_prod_unfold with_options_restrict_name)
qed

text \<open>
  A requirements list that is built from requests has one request for every name, in the order in which the names first appear,
  for each of the three kinds of requests; and merging one more request into a list leaves the requests of the other names alone, also
  when the merge fails.
\<close>

theorem requirements_one_per_name:
  "(try_from_iter_pinnable perms pinnables = Ok list1 \<longrightarrow>
      distinct (map pinnable_request_name list1) \<and> pinnable_request_name ` set list1 = pinnable_request_name ` set pinnables)
   \<and> (try_from_iter_pinned perms pinneds = Ok list2 \<longrightarrow>
      distinct (map pinned_request_name list2) \<and> pinned_request_name ` set list2 = pinned_request_name ` set pinneds)
   \<and> (try_from_iter_with_options perms opts = Ok list3 \<longrightarrow>
      distinct (map request_with_options_name list3)
      \<and> request_with_options_name ` set list3 = request_with_options_name ` set opts)
   \<and> (n \<noteq> pinned_request_name request \<longrightarrow>
      req_get pinned_request_name (snd (insert_or_merge_pinned perms self request)) n = req_get pinned_request_name self n)"
  unfolding try_from_iter_pinnable_def try_from_iter_pinned_def try_from_iter_with_options_def
    insert_or_merge_pinnable_def insert_or_merge_pinned_def insert_or_merge_with_options_def
  by (intro conjI impI; (erule pinnable.try_from_unique [THEN conjunct1] pinnable.try_from_unique [THEN conjunct2]
      pinned.try_from_unique [THEN conjunct1] pinned.try_from_unique [THEN conjunct2] with_options.try_from_unique [THEN conjunct1]
      with_options.try_from_unique [THEN conjunct2] pinned.insert_others))

definition example_requests :: "pinned_request list" where
  "example_requests = [PinnedPkg (request_python [] None [Run]), PinnedVar (var_request_new_with_value ''python.abi'' ''cp37''),
     PinnedPkg (request_python [GreaterThan (from_parts [3])] None [Build])]"

theorem requirements_one_per_name_witness:
  "\<exists>out. try_from_iter_pinned lexicographic_pairs example_requests = Ok out \<and> distinct (map pinned_request_name out)"
proof -
  have "is_ok_result (try_from_iter_pinned lexicographic_pairs example_requests)" by code_simp
  then obtain out where "try_from_iter_pinned lexicographic_pairs example_requests = Ok out" by (auto elim: is_ok_result.elims)
  moreover from this have "distinct (map pinned_request_name out)"
    by (rule requirements_one_per_name [THEN conjunct2, THEN conjunct1, rule_format, THEN conjunct1])
  ultimately show ?thesis by blast
qed

section \<open>Asking a list for a request\<close>

lemma contains_loop_with_options_eq:
  "contains_loop_with_options g self theirs = contains_loop g (map pinned_of_with_options self) theirs"
  by (induction g self theirs rule: contains_loop_with_options.induct) auto

lemma req_get_None: "n \<notin> name ` set self \<Longrightarrow> req_get name self n = None"
  by (auto simp: req_get_def find_None_iff)

lemma req_get_Cons: "req_get name (r # self) n = (if name r = n then Some r else req_get name self n)"
  by (simp add: req_get_def)

text \<open>The request for a variable by name, if the request of that name is one for a variable.\<close>

definition get_var :: "pinned_request list \<Rightarrow> str \<Rightarrow> str var_request option" where
  "get_var self n = (case req_get pinned_request_name self n of Some (PinnedVar r) \<Rightarrow> Some r | _ \<Rightarrow> None)"

definition get_pkg :: "pinned_request list \<Rightarrow> str \<Rightarrow> pkg_request option" where
  "get_pkg self n = (case req_get pinned_request_name self n of Some (PinnedPkg r) \<Rightarrow> Some r | _ \<Rightarrow> None)"

text \<open>What a list promises about a variable: the request of the same name answers, else the global one of its base name.\<close>

definition responsible_var :: "pinned_request list \<Rightarrow> str \<Rightarrow> str var_request option" where
  "responsible_var self n =
     (case get_var self n of
        Some ours \<Rightarrow> Some ours
      | None \<Rightarrow> if namespace n = None then None else get_var self (base_name n))"

lemma contains_loop_var:
  "distinct (map pinned_request_name self) \<Longrightarrow>
     contains_loop g self (OptVar theirs) =
       (case responsible_var self (vr_var theirs) of
          Some ours \<Rightarrow> var_contains ours theirs
        | None \<Rightarrow> contains_loop g [] (OptVar theirs))"
proof (induction self arbitrary: g)
  case (Cons r self)
  have fresh: "req_get pinned_request_name self (pinned_request_name r) = None" using Cons.prems by (intro req_get_None) simp
  show ?case
    using Cons fresh
    by (cases r) (auto simp: responsible_var_def get_var_def req_get_Cons split: option.splits pinned_request.splits)
qed (simp add: responsible_var_def get_var_def req_get_def)

lemma contains_loop_pkg:
  "distinct (map pinned_request_name self) \<Longrightarrow>
     contains_loop g self (OptPkg theirs) =
       (case get_pkg self (request_with_options_name (OptPkg theirs)) of
          Some ours \<Rightarrow> pkg_request_contains ours (po_pkg_request theirs)
        | None \<Rightarrow> contains_loop g [] (OptPkg theirs))"
proof (induction self arbitrary: g)
  case (Cons r self)
  have fresh: "req_get pinned_request_name self (pinned_request_name r) = None" using Cons.prems by (intro req_get_None) simp
  show ?case using Cons fresh by (cases r) (auto simp: get_pkg_def req_get_Cons split: option.splits)
qed (simp add: get_pkg_def req_get_def)

text \<open>
  In a list with one request per name, the verdict on a request comes from one request of the list: for a package the one with its
  name, for a variable the one with exactly its name and only in its absence the global one with its base name, wherever in the list
  they stand; and if there is none the request is not contained. Lists of requests with options answer like the lists without them.
\<close>

theorem contains_request_responsible:
  assumes "distinct (map pinned_request_name self)"
  shows "contains_request self (OptVar v) =
      (case responsible_var self (vr_var v) of
         Some ours \<Rightarrow> var_contains ours v
       | None \<Rightarrow> Incompatible (RequirementsNotSuperset (vr_var v)))
    \<and> contains_request self (OptPkg p) =
      (case get_pkg self (ri_name (pr_pkg (po_pkg_request p))) of
         Some ours \<Rightarrow> pkg_request_contains ours (po_pkg_request p)
       | None \<Rightarrow> Incompatible (RequirementsNotSuperset (ri_name (pr_pkg (po_pkg_request p)))))
    \<and> (map pinned_of_with_options opts = self \<longrightarrow> contains_request_with_options opts theirs = contains_request self theirs)"
  using contains_loop_var [OF assms] contains_loop_pkg [OF assms]
  by (auto simp: contains_request_def contains_request_with_options_def contains_loop_with_options_eq split: option.split)

theorem contains_request_responsible_witness:
  "contains_request
     [PinnedVar (var_request_new_with_value ''abi'' ''cp39''), PinnedVar (var_request_new_with_value ''python.abi'' ''cp37'')]
     (OptVar (var_request_new_with_value ''python.abi'' ''cp37'')) = Compatible"
proof -
  let ?self = "[PinnedVar (var_request_new_with_value ''abi'' ''cp39''), PinnedVar (var_request_new_with_value ''python.abi'' ''cp37'')]"
  have "distinct (map pinned_request_name ?self)" by (simp add: var_request_new_with_value_def)
  from contains_request_responsible [OF this, THEN conjunct1, of "var_request_new_with_value ''python.abi'' ''cp37''"]
  show ?thesis by (rule trans) code_simp
qed

section \<open>Rendering the pins of a list\<close>

lemma filter_map_collect_Ok:
  "filter_map_collect f xs = Ok ys \<longleftrightarrow> list_all2 (\<lambda>x y. f x = Some (Ok y)) (filter (\<lambda>x. f x \<noteq> None) xs) ys"
  by (induction xs arbitrary: ys) (auto simp: list_all2_Cons1 split: option.splits)

lemma filter_map_collect_is_ok:
  "is_ok_result (filter_map_collect f xs) \<longleftrightarrow> list_all (\<lambda>x. case f x of None \<Rightarrow> True | Some r \<Rightarrow> is_ok_result r) xs"
  by (induction xs) (auto simp: is_ok_result_iff list_all_iff split: option.splits)

text \<open>The value of a variable in the build environment.\<close>

definition environment_value :: "option_map \<Rightarrow> str \<Rightarrow> str option" where
  "environment_value options var =
     bt_get (case namespace var of Some ns \<Rightarrow> package_options options ns | None \<Rightarrow> options) (without_namespace var)"

text \<open>A request is carried over unless it suppresses, or asks to be left out when the environment does not have what it names.\<close>

fun carried_over :: "option_map \<Rightarrow> (str, build_ident) hash_map \<Rightarrow> pinnable_request \<Rightarrow> bool" where
  "carried_over options resolved (PinnablePkg r) \<longleftrightarrow>
     pr_pin_policy r = Required \<or> hm_get resolved (ri_name (pr_pkg r)) \<noteq> None"
| "carried_over options resolved (PinnableVar r) \<longleftrightarrow>
     vr_value r \<noteq> FromBuildEnvIfPresent \<or> environment_value options (vr_var r) \<noteq> None"
| "carried_over options resolved (Suppress _ _) \<longleftrightarrow> False"

text \<open>A request that is carried over can be rendered when it has no pin, or the environment has what it names and the pin renders.\<close>

fun can_be_rendered ::
  "(str \<Rightarrow> version_range list request_result) \<Rightarrow> option_map \<Rightarrow> (str, build_ident) hash_map \<Rightarrow> pinnable_request \<Rightarrow> bool" where
  "can_be_rendered parse_filter options resolved (PinnablePkg r) \<longleftrightarrow>
     pr_pin r = None \<or>
     (case hm_get resolved (ri_name (pr_pkg r)) of Some pkg \<Rightarrow> is_ok_result (render_pin parse_filter r pkg) | None \<Rightarrow> False)"
| "can_be_rendered parse_filter options resolved (PinnableVar r) \<longleftrightarrow>
     \<not> is_from_build_env (vr_value r) \<or> environment_value options (vr_var r) \<noteq> None"
| "can_be_rendered parse_filter options resolved (Suppress _ _) \<longleftrightarrow> True"

fun has_no_pin :: "pinned_request \<Rightarrow> bool" where
  "has_no_pin (PinnedPkg r) \<longleftrightarrow> pr_pin r = None"
| "has_no_pin (PinnedVar _) \<longleftrightarrow> True"

lemma render_pin_facts:
  "render_pin parse_filter r pkg = Ok r' \<Longrightarrow> pr_pin r' = None \<and> ri_name (pr_pkg r') = ri_name (pr_pkg r)"
  by (auto simp: render_pin_def rendered_to_pkgrequest_def split: option.splits if_splits)

lemma render_request_dropped:
  "render_request parse_filter options resolved r = None \<longleftrightarrow> \<not> carried_over options resolved r"
proof (cases r)
  case (PinnablePkg p)
  then show ?thesis by (cases "pr_pin_policy p") (auto simp: render_pkg_request_def split: option.splits)
next
  case (PinnableVar v)
  then show ?thesis
    by (cases "vr_value v") (auto simp: render_var_request_def Let_def environment_value_def split: option.splits)
qed simp

lemma render_request_Ok:
  "render_request parse_filter options resolved r = Some (Ok y) \<Longrightarrow>
     pinned_request_name y = pinnable_request_name r \<and> has_no_pin y"
  by (cases r) (auto simp: render_pkg_request_def render_var_request_def var_render_pin_def Let_def
      dest: render_pin_facts split: option.splits if_splits pinnable_value.splits)

lemma render_request_is_ok:
  "carried_over options resolved r \<Longrightarrow>
     (case render_request parse_filter options resolved r of None \<Rightarrow> True | Some x \<Rightarrow> is_ok_result x)
       \<longleftrightarrow> can_be_rendered parse_filter options resolved r"
proof (cases r)
  case (PinnablePkg p)
  have "is_ok_result (and_then (map_err f x) (\<lambda>y. Ok (g y))) = is_ok_result x" for x :: "('e, 'b) outcome" and f :: "'e \<Rightarrow> 'f" and g
    by (cases x) auto
  with PinnablePkg show "carried_over options resolved r \<Longrightarrow> ?thesis"
    by (cases "pr_pin_policy p") (auto simp: render_pkg_request_def split: option.splits)
next
  case (PinnableVar v)
  then show "carried_over options resolved r \<Longrightarrow> ?thesis"
    by (cases "vr_value v") (auto simp: render_var_request_def Let_def environment_value_def var_render_pin_def split: option.splits)
qed simp

lemma render_request_verdict:
  "(case render_request parse_filter options resolved r of None \<Rightarrow> True | Some x \<Rightarrow> is_ok_result x)
     \<longleftrightarrow> (carried_over options resolved r \<longrightarrow> can_be_rendered parse_filter options resolved r)"
  using render_request_is_ok [of options resolved r parse_filter] render_request_dropped [of parse_filter options resolved r]
  by (cases "carried_over options resolved r") simp_all



section \<open>Attaching the options in scope\<close>

text \<open>The index as a map from names to values: every namespace has its own map, with names of that namespace only.\<close>

definition index_entry :: "(str, request_options) hash_map \<Rightarrow> str \<Rightarrow> request_options" where
  "index_entry index ns = (case hm_get index ns of Some m \<Rightarrow> m | None \<Rightarrow> [])"

lemma index_entry_insert: "index_entry (hm_insert ns m index) = (index_entry index)(ns := m)"
  by (auto simp: index_entry_def)

text \<open>The index after a list of options: the first value of every name.\<close>

definition indexes :: "(str, request_options) hash_map \<Rightarrow> (str \<times> str) list \<Rightarrow> bool" where
  "indexes index opts \<longleftrightarrow> (\<forall>ns. bt_wf (index_entry index ns) \<and>
     (\<forall>n. bt_get (index_entry index ns) n = (if namespace n = Some ns then map_option CompleteOption (map_of opts n) else None)))"

definition consistent_options :: "(str \<times> str) list \<Rightarrow> (str \<times> str) list \<Rightarrow> bool" where
  "consistent_options opts new \<longleftrightarrow> list_all (\<lambda>(n, v). namespace n = None \<or> map_of (opts @ new) n = Some v) new"

lemma index_option_eq:
  "index_option n v index =
     (case namespace n of
        None \<Rightarrow> Ok index
      | Some ns \<Rightarrow>
          (case bt_get (index_entry index ns) n of
             None \<Rightarrow> Ok (hm_insert ns (bt_insert n (CompleteOption v) (index_entry index ns)) index)
           | Some e \<Rightarrow> if ov_value e \<noteq> v then Panic else Ok (hm_insert ns (index_entry index ns) index)))"
  unfolding index_option_def index_entry_def Let_def by (rule refl)

lemma map_of_snoc: "map_of (opts @ [(n, v)]) k = (case map_of opts k of Some x \<Rightarrow> Some x | None \<Rightarrow> if k = n then Some v else None)"
  by (auto simp: map_add_def split: option.splits)

lemma index_option_step:
  assumes "indexes index opts"
  shows "if namespace n \<noteq> None \<and> map_of opts n \<noteq> None \<and> map_of opts n \<noteq> Some v then index_option n v index = Panic
    else \<exists>index'. index_option n v index = Ok index' \<and> indexes index' (opts @ [(n, v)])"
proof (cases "namespace n")
  case None
  have "indexes index (opts @ [(n, v)])"
    using assms None unfolding indexes_def map_of_snoc by (auto split: option.splits)
  with None show ?thesis by (simp add: index_option_eq)
next
  case (Some ns)
  have wf: "bt_wf (index_entry index ns)" and get: "bt_get (index_entry index ns) n = map_option CompleteOption (map_of opts n)"
    using assms Some by (simp_all add: indexes_def)
  show ?thesis
  proof (cases "map_of opts n")
    case None
    let ?index = "hm_insert ns (bt_insert n (CompleteOption v) (index_entry index ns)) index"
    have "indexes ?index (opts @ [(n, v)])"
      using assms wf Some None unfolding indexes_def map_of_snoc index_entry_insert fun_upd_apply
      by (auto split: option.splits)
    with Some None get show ?thesis by (simp add: index_option_eq)
  next
    case found: (Some v')
    have "indexes (hm_insert ns (index_entry index ns) index) (opts @ [(n, v)])"
      using assms found unfolding indexes_def map_of_snoc index_entry_insert fun_upd_apply by (auto split: option.splits)
    with Some found get show ?thesis by (simp add: index_option_eq)
  qed
qed

lemma index_options_step:
  "indexes index opts \<Longrightarrow>
     if consistent_options opts new then \<exists>index'. index_options new index = Ok index' \<and> indexes index' (opts @ new)
     else index_options new index = Panic"
proof (induction new arbitrary: opts index)
  case (Cons x new)
  obtain n v where x: "x = (n, v)" by fastforce
  have tail: "consistent_options opts (x # new) \<longleftrightarrow>
      (namespace n = None \<or> map_of opts n = None \<or> map_of opts n = Some v) \<and> consistent_options (opts @ [(n, v)]) new"
    by (auto simp: consistent_options_def x map_add_def split: option.splits)
  show ?case
  proof (cases "namespace n \<noteq> None \<and> map_of opts n \<noteq> None \<and> map_of opts n \<noteq> Some v")
    case True
    with index_option_step [OF Cons.prems, of n v] tail show ?thesis by (auto simp: x)
  next
    case False
    with index_option_step [OF Cons.prems, of n v] obtain index' where
      step: "index_option n v index = Ok index'" "indexes index' (opts @ [(n, v)])" by auto
    from Cons.IH [OF step(2)] tail False step(1) show ?thesis by (auto simp: x)
  qed
qed (simp add: consistent_options_def)

lemma convert_requests_facts:
  "(if consistent_options [] (options @ var_options requirements)
    then \<exists>out. convert_requests_to_requests_with_options options requirements = Ok out
           \<and> map pinned_of_with_options out = requirements
           \<and> (\<forall>p. OptPkg p \<in> set out \<longrightarrow>
                bt_wf (po_options p)
                \<and> bt_get (po_options p) n =
                   (if namespace n = Some (request_with_options_name (OptPkg p))
                    then map_option CompleteOption (map_of (options @ var_options requirements) n) else None))
    else convert_requests_to_requests_with_options options requirements = Panic)"
proof -
  have empty: "indexes [] []" by (simp add: indexes_def index_entry_def)
  have split: "index_options (a @ b) i = and_then (index_options a i) (index_options b)" for a b i
  proof (induction a arbitrary: i)
    case (Cons x a)
    then show ?case by (cases x; cases "index_option (fst x) (snd x) i") auto
  qed simp
  have convert: "convert_requests_to_requests_with_options options requirements =
      and_then (index_options (options @ var_options requirements) []) (\<lambda>index. Ok (map (attach_options index) requirements))"
    by (cases "index_options options []") (simp_all add: convert_requests_to_requests_with_options_def split)
  have kept: "pinned_of_with_options (attach_options index r) = r" for index r by (cases r) auto
  have attached: "attach_options index r = OptPkg p \<Longrightarrow> po_options p = index_entry index (request_with_options_name (OptPkg p))" for index r p
    by (cases r) (auto simp: index_entry_def)
  show ?thesis
    using index_options_step [OF empty, of "options @ var_options requirements"] attached
    by (fastforce simp: convert indexes_def kept comp_def)
qed

lemma convert_requests_kept:
  assumes "convert_requests_to_requests_with_options options requirements = Ok out"
  shows "map pinned_of_with_options out = requirements"
  using assms convert_requests_facts [of options requirements undefined] by (auto split: if_splits)

text \<open>
  Attaching the options in scope: every package request gets exactly the options of its own namespace, from the given options and from
  the variable requests of the list, each with its first value and complete, and the requests are otherwise unchanged. The conversion
  panics exactly when one name has two different values.
\<close>

theorem convert_requests_correct:
  "(if consistent_options [] (options @ var_options requirements)
    then \<exists>out. convert_requests_to_requests_with_options options requirements = Ok out
           \<and> map pinned_of_with_options out = requirements
           \<and> (\<forall>p. OptPkg p \<in> set out \<longrightarrow>
                bt_wf (po_options p)
                \<and> bt_get (po_options p) n =
                   (if namespace n = Some (request_with_options_name (OptPkg p))
                    then map_option CompleteOption (map_of (options @ var_options requirements) n) else None))
    else convert_requests_to_requests_with_options options requirements = Panic)"
  by (rule convert_requests_facts)

theorem convert_requests_witness:
  "\<exists>out. convert_requests_to_requests_with_options [(''python.debug'', ''on'')] example_requests = Ok out
     \<and> map pinned_of_with_options out = example_requests
     \<and> (\<forall>p. OptPkg p \<in> set out \<longrightarrow>
          bt_wf (po_options p)
          \<and> bt_get (po_options p) ''python.abi'' =
             (if namespace ''python.abi'' = Some (request_with_options_name (OptPkg p))
              then map_option CompleteOption (map_of ([(''python.debug'', ''on'')] @ var_options example_requests) ''python.abi'') else None))"
proof -
  have "consistent_options [] ([(''python.debug'', ''on'')] @ var_options example_requests)" by code_simp
  with convert_requests_correct [of "[(''python.debug'', ''on'')]" example_requests "''python.abi''"] show ?thesis
    by (simp only: if_True)
qed

end
