(* ===== verification/Component_Specs.thy ===== *)
theory Component_Specs
  imports Requirements
begin

text \<open>
  The components of a package (\<^verbatim>\<open>component_spec.rs\<close>, \<^verbatim>\<open>component_spec_list.rs\<close> and \<^verbatim>\<open>component_embedded_packages.rs\<close> under
  \<^verbatim>\<open>crates/spk-schema/src\<close>): what a component has, the checks that a list of components passes when it is read, and the search for all
  components that a set of requested components uses, which is proved to be the reflexive transitive closure of the declared uses.
\<close>

section \<open>Component specifications\<close>

datatype component_file_match_mode = MatchAll | MatchRemaining

record component_embedded_package =
  cep_pkg :: "str \<times> version option"
  cep_components :: "component btree_set"

record component_embedded_packages =
  cel_components :: "component_embedded_package list"
  cel_fabricated :: bool

definition no_embedded_packages :: component_embedded_packages where
  "no_embedded_packages = \<lparr>cel_components = [], cel_fabricated = False\<rparr>"

text \<open>Files are matched by the rules of a \<^verbatim>\<open>FileMatcher\<close>, which are also what its equality compares.\<close>

record component_spec =
  cs_name :: component
  cs_files :: "str list"
  cs_uses :: "component list"
  cs_requirements :: "pinned_request list"
  cs_embedded :: component_embedded_packages
  cs_file_match_mode :: component_file_match_mode
  cs_requirements_with_options :: "request_with_options list"

datatype component_error =
    ComponentNameError name_error
  | AllWhenReplacingAll
  | EmptyComponents
  | DuplicateComponent component
  | AllIsReserved
  | UnknownUse component component
  | ComponentRequirements requirements_error

definition component_spec_new :: "str \<Rightarrow> (component_error, component_spec) outcome" where
  "component_spec_new name =
     and_then (map_err ComponentNameError (component_parse name)) (\<lambda>name.
       Ok \<lparr>cs_name = name, cs_files = [], cs_uses = [], cs_requirements = [], cs_embedded = no_embedded_packages,
           cs_file_match_mode = MatchAll, cs_requirements_with_options = []\<rparr>)"

definition default_component :: "component \<Rightarrow> component_spec" where
  "default_component name =
     \<lparr>cs_name = name, cs_files = [''*''], cs_uses = [], cs_requirements = [], cs_embedded = no_embedded_packages,
      cs_file_match_mode = MatchAll, cs_requirements_with_options = []\<rparr>"

definition default_build :: component_spec where "default_build = default_component Build"
definition default_run :: component_spec where "default_run = default_component Run"
definition default_source :: component_spec where "default_source = default_component Source"

text \<open>The requests with options are kept in step with the requirements; the conversion panics on contradictory options.\<close>

definition update_requirements_with_options :: "component_spec \<Rightarrow> (requirements_error, component_spec) outcome" where
  "update_requirements_with_options self =
     and_then (convert_requests_to_requests_with_options [] (cs_requirements self)) (\<lambda>reqs.
       Ok (self\<lparr>cs_requirements_with_options := reqs\<rparr>))"

definition requirements_mut ::
  "component_spec \<Rightarrow> (pinned_request list \<Rightarrow> pinned_request list) \<Rightarrow> (requirements_error, component_spec) outcome" where
  "requirements_mut self f = update_requirements_with_options (self\<lparr>cs_requirements := f (cs_requirements self)\<rparr>)"

text \<open>A component of a recipe has requirements that may have to be pinned.\<close>

record recipe_component_spec =
  rcs_name :: component
  rcs_files :: "str list"
  rcs_uses :: "component list"
  rcs_requirements :: "pinnable_request list"
  rcs_embedded :: component_embedded_packages
  rcs_file_match_mode :: component_file_match_mode

definition new_from_recipe ::
  "(str \<Rightarrow> version_range list request_result) \<Rightarrow> recipe_component_spec \<Rightarrow> option_map \<Rightarrow> (str, build_ident) hash_map
    \<Rightarrow> (requirements_error, component_spec) outcome" where
  "new_from_recipe parse_filter spec options resolved_by_name =
     and_then (render_all_pins parse_filter (rcs_requirements spec) options resolved_by_name) (\<lambda>requirements.
     and_then (convert_requests_to_requests_with_options options requirements) (\<lambda>with_options.
       Ok \<lparr>cs_name = rcs_name spec, cs_files = rcs_files spec, cs_uses = rcs_uses spec, cs_requirements = requirements,
           cs_embedded = rcs_embedded spec, cs_file_match_mode = rcs_file_match_mode spec,
           cs_requirements_with_options = with_options\<rparr>))"

text \<open>\<open>ComponentSpecList::render_all_pins\<close>.\<close>

definition components_render_all_pins ::
  "(str \<Rightarrow> version_range list request_result) \<Rightarrow> recipe_component_spec list \<Rightarrow> option_map \<Rightarrow> (str, build_ident) hash_map
    \<Rightarrow> (requirements_error, component_spec list) outcome" where
  "components_render_all_pins parse_filter self options resolved_by_name =
     filter_map_collect (\<lambda>c. Some (new_from_recipe parse_filter c options resolved_by_name)) self"

section \<open>Packages embedded in a component\<close>

definition component_embedded_package_new :: "str \<times> version option \<Rightarrow> component \<Rightarrow> component_embedded_package" where
  "component_embedded_package_new pkg c = \<lparr>cep_pkg = pkg, cep_components = [c]\<rparr>"

fun replace_all_loop :: "component btree_set \<Rightarrow> component list \<Rightarrow> (component_error, component btree_set) outcome" where
  "replace_all_loop components [] = Ok components"
| "replace_all_loop components (c # cs) =
     (if c = All then Err AllWhenReplacingAll else replace_all_loop (bs_insert c components) cs)"

definition replace_all :: "component_embedded_package \<Rightarrow> component list \<Rightarrow> (component_error, component_embedded_package) outcome" where
  "replace_all self iter =
     and_then (replace_all_loop (bs_from_list (filter (\<lambda>c. c \<noteq> All) (cep_components self))) iter) (\<lambda>components.
       if components = [] then Err EmptyComponents else Ok (self\<lparr>cep_components := components\<rparr>))"

definition show_component_embedded_package :: "component_embedded_package \<Rightarrow> str" where
  "show_component_embedded_package self =
     fst (cep_pkg self) @ fmt_component_set (cep_components self)
     @ (case snd (cep_pkg self) of Some v \<Rightarrow> CHR ''/'' # show_version v | None \<Rightarrow> [])"

definition embedded_list_from :: "component_embedded_package list \<Rightarrow> component_embedded_packages" where
  "embedded_list_from items = \<lparr>cel_components = items, cel_fabricated = False\<rparr>"

definition set_fabricated :: "component_embedded_packages \<Rightarrow> component_embedded_packages" where
  "set_fabricated self = self\<lparr>cel_fabricated := True\<rparr>"

section \<open>Lists of components\<close>

definition component_names :: "component_spec list \<Rightarrow> component btree_set" where
  "component_names self = bs_from_list (map cs_name self)"

definition components_get :: "component_spec list \<Rightarrow> component \<Rightarrow> component_spec option" where
  "components_get self name = find (\<lambda>c. cs_name c = name) self"

definition position :: "('a \<Rightarrow> bool) \<Rightarrow> 'a list \<Rightarrow> nat option" where
  "position P xs = (let n = length (takeWhile (\<lambda>x. \<not> P x) xs) in if n < length xs then Some n else None)"

definition get_or_insert_with :: "component_spec list \<Rightarrow> component \<Rightarrow> component_spec \<Rightarrow> component_spec list \<times> nat" where
  "get_or_insert_with self name dflt =
     (case position (\<lambda>c. cs_name c = name) self of
        Some p \<Rightarrow> (self, p)
      | None \<Rightarrow> (self @ [dflt], length self))"

text \<open>The components by name, where the last of several definitions of a name counts, and what the search goes on with after a
  component.\<close>

definition uses_by_name :: "component_spec list \<Rightarrow> (component, component list) hash_map" where
  "uses_by_name self = fold (\<lambda>c. hm_insert (cs_name c) (cs_uses c)) self []"

definition uses_next :: "(component, component list) hash_map \<Rightarrow> component \<Rightarrow> component list" where
  "uses_next by_name requested =
     (if requested = All then map fst by_name else [])
     @ (case hm_get by_name requested of Some uses \<Rightarrow> uses | None \<Rightarrow> [])"

definition uses_universe :: "(component, component list) hash_map \<Rightarrow> component set" where
  "uses_universe by_name = fst ` set by_name \<union> \<Union> (set ` snd ` set by_name)"

lemma finite_uses_universe [simp]: "finite (uses_universe by_name)"
  by (auto simp: uses_universe_def)

lemma uses_next_subset: "set (uses_next by_name c) \<subseteq> uses_universe by_name"
proof (cases "hm_get by_name c")
  case (Some uses)
  then have "(c, uses) \<in> set by_name" by (rule map_of_SomeD)
  then have "set uses \<subseteq> uses_universe by_name" by (force simp: uses_universe_def)
  with Some show ?thesis by (auto simp: uses_next_def uses_universe_def)
qed (auto simp: uses_next_def uses_universe_def)

lemma uses_loop_measure:
  assumes "requested \<notin> set visited"
  shows "card ((uses_universe by_name \<union> set (rev (uses_next by_name requested) @ to_visit)) - set (bs_insert requested visited))
    < card ((uses_universe by_name \<union> set (requested # to_visit)) - set visited)"
  using assms uses_next_subset [of by_name requested] by (intro psubset_card_mono) auto

text \<open>The stack is a list with its top in front.\<close>

function resolve_uses_loop ::
  "(component, component list) hash_map \<Rightarrow> component list \<Rightarrow> component btree_set \<Rightarrow> component btree_set" where
  "resolve_uses_loop by_name [] visited = visited"
| "resolve_uses_loop by_name (requested # to_visit) visited =
     (if requested \<in> set visited then resolve_uses_loop by_name to_visit visited
      else resolve_uses_loop by_name (rev (uses_next by_name requested) @ to_visit) (bs_insert requested visited))"
  by pat_completeness auto
termination
  by (relation "measures [\<lambda>(by_name, to_visit, visited). card ((uses_universe by_name \<union> set to_visit) - set visited),
      \<lambda>(by_name, to_visit, visited). length to_visit]")
    (use uses_loop_measure in \<open>auto simp: insert_absorb intro!: card_mono le_imp_less_or_eq\<close>)

definition resolve_uses :: "component_spec list \<Rightarrow> component list \<Rightarrow> component btree_set" where
  "resolve_uses self requests = filter (\<lambda>c. c \<noteq> All) (resolve_uses_loop (uses_by_name self) (rev requests) [])"

section \<open>Reading a list of components\<close>

fun collect_components :: "component list \<Rightarrow> component_spec list \<Rightarrow> component_spec list \<Rightarrow> (component_error, component list \<times> component_spec list) outcome" where
  "collect_components seen components [] = Ok (seen, components)"
| "collect_components seen components (c # seq) =
     (if cs_name c \<in> set seen then Err (DuplicateComponent (cs_name c))
      else collect_components (cs_name c # seen) (components @ [c]) seq)"

definition ensure_component :: "component \<Rightarrow> component list \<times> component_spec list \<Rightarrow> component list \<times> component_spec list" where
  "ensure_component name acc =
     (case acc of (seen, components) \<Rightarrow>
        if name \<in> set seen then (seen, components) else (name # seen, components @ [default_component name]))"

definition unknown_use :: "component list \<Rightarrow> component_spec list \<Rightarrow> (component \<times> component) option" where
  "unknown_use seen components =
     (case concat (map (\<lambda>c. map (Pair (cs_name c)) (filter (\<lambda>u. u \<notin> set seen) (cs_uses c))) components) of
        [] \<Rightarrow> None | x # _ \<Rightarrow> Some x)"

definition visit_components :: "component_spec list \<Rightarrow> (component_error, component_spec list) outcome" where
  "visit_components seq =
     and_then (collect_components [] [] seq) (\<lambda>collected.
       let (seen, components) = ensure_component Run (ensure_component Build collected) in
       if All \<in> set seen then Err AllIsReserved
       else case unknown_use seen components of
              Some (name, used) \<Rightarrow> Err (UnknownUse name used)
            | None \<Rightarrow>
                Ok (if list_ex (\<lambda>c. cs_file_match_mode c = MatchRemaining) components then components
                    else sort_key cs_name components))"

definition default_components :: "component_spec list" where
  "default_components = [default_build, default_run]"

section \<open>The closure of the declared uses\<close>

text \<open>One component leads to another when it declares to use it; all of them are reached from \<open>All\<close>.\<close>

definition uses_step :: "component_spec list \<Rightarrow> (component \<times> component) set" where
  "uses_step self = {(a, b). b \<in> set (uses_next (uses_by_name self) a)}"

lemma resolve_uses_loop_closure:
  assumes "\<forall>v \<in> set visited. \<forall>u \<in> set (uses_next by_name v). u \<in> set visited \<union> set to_visit" "bs_wf visited"
  shows "bs_wf (resolve_uses_loop by_name to_visit visited)
    \<and> set (resolve_uses_loop by_name to_visit visited) = {(a, b). b \<in> set (uses_next by_name a)}\<^sup>* `` (set visited \<union> set to_visit)"
  using assms
proof (induction by_name to_visit visited rule: resolve_uses_loop.induct)
  case (1 by_name visited)
  have "b \<in> set visited" if "(a, b) \<in> {(a, b). b \<in> set (uses_next by_name a)}\<^sup>*" "a \<in> set visited" for a b
    using that 1(1) by (induction rule: rtrancl_induct) auto
  with 1(2) show ?case by (auto simp: Image_iff)
next
  case (2 by_name requested to_visit visited)
  let ?R = "{(a, b). b \<in> set (uses_next by_name a)}"
  show ?case
  proof (cases "requested \<in> set visited")
    case True
    with 2 show ?thesis by (simp add: insert_absorb)
  next
    case False
    have "?R\<^sup>* `` (set (bs_insert requested visited) \<union> set (rev (uses_next by_name requested) @ to_visit))
        = ?R\<^sup>* `` (set visited \<union> set (requested # to_visit))"
      by (auto simp: Image_iff intro: converse_rtrancl_into_rtrancl)
    with 2(2) [OF False] 2(3,4) False show ?thesis by auto
  qed
qed

lemma resolve_uses_reach:
  "bs_wf (resolve_uses self requests)
   \<and> set (resolve_uses self requests) = (uses_step self)\<^sup>* `` set requests - {All}"
  using resolve_uses_loop_closure [of "[]" "uses_by_name self" "rev requests"]
  by (auto simp: resolve_uses_def uses_step_def bs_wf_def sorted_wrt_filter)


lemma uses_by_name_facts:
  "hm_get (fold (\<lambda>c. hm_insert (cs_name c) (cs_uses c)) self m) = hm_get m ++ map_of (rev (map (\<lambda>c. (cs_name c, cs_uses c)) self))
    \<and> fst ` set (fold (\<lambda>c. hm_insert (cs_name c) (cs_uses c)) self m) = fst ` set m \<union> cs_name ` set self"
  by (induction self arbitrary: m) (auto simp: map_add_def split: option.splits)

lemma uses_step_iff:
  assumes "distinct (map cs_name self)"
  shows "(a, b) \<in> uses_step self \<longleftrightarrow> a = All \<and> b \<in> cs_name ` set self \<or> (\<exists>c \<in> set self. cs_name c = a \<and> b \<in> set (cs_uses c))"
proof -
  let ?uses = "map (\<lambda>c. (cs_name c, cs_uses c)) self"
  have distinct: "distinct (map fst (rev ?uses))" using assms by (simp add: rev_map [symmetric] comp_def)
  have get: "hm_get (uses_by_name self) = map_of (rev ?uses)" and keys: "set (map fst (uses_by_name self)) = cs_name ` set self"
    using uses_by_name_facts [of self "[]"] by (auto simp: uses_by_name_def)
  have "b \<in> set (case hm_get (uses_by_name self) a of Some uses \<Rightarrow> uses | None \<Rightarrow> [])
      \<longleftrightarrow> (\<exists>c \<in> set self. cs_name c = a \<and> b \<in> set (cs_uses c))"
  proof -
    have "hm_get (uses_by_name self) a = Some uses \<longleftrightarrow> (\<exists>c \<in> set self. cs_name c = a \<and> cs_uses c = uses)" for uses
      unfolding get map_of_eq_Some_iff [OF distinct] by auto
    moreover have "b \<in> set (case g of Some uses \<Rightarrow> uses | None \<Rightarrow> []) \<longleftrightarrow> (\<exists>uses. g = Some uses \<and> b \<in> set uses)" for g by (cases g) auto
    ultimately show ?thesis by auto
  qed
  then show ?thesis using keys by (simp add: uses_step_def uses_next_def del: set_map)
qed

lemma collect_components_facts:
  assumes "collect_components seen components seq = Ok (seen', components')" "set seen = cs_name ` set components" "distinct (map cs_name components)"
  shows "components' = components @ seq \<and> set seen' = cs_name ` set components' \<and> distinct (map cs_name components')"
  using assms
proof (induction seen components seq rule: collect_components.induct)
  case (2 seen components c seq)
  then have fresh: "cs_name c \<notin> set seen" by (auto split: if_splits)
  have "set (cs_name c # seen) = cs_name ` set (components @ [c])" "distinct (map cs_name (components @ [c]))"
    using fresh 2(3,4) by auto
  moreover have "collect_components (cs_name c # seen) (components @ [c]) seq = Ok (seen', components')" using 2(2) fresh by simp
  ultimately show ?case using 2(1) [OF fresh] unfolding append_assoc append_Cons append_Nil by blast
qed auto

lemma ensure_component_facts:
  assumes "ensure_component name (seen, components) = (seen', components')" "set seen = cs_name ` set components" "distinct (map cs_name components)"
  shows "set seen' = cs_name ` set components' \<and> distinct (map cs_name components')
    \<and> cs_name ` set components' = insert name (cs_name ` set components)"
  using assms by (auto simp: ensure_component_def default_component_def split: if_splits)

text \<open>What a list of components promises: \<open>build\<close> and \<open>run\<close> are there, no name twice and none of them reserved, and every use is defined.\<close>

definition components_wf :: "component_spec list \<Rightarrow> bool" where
  "components_wf self \<longleftrightarrow> distinct (map cs_name self) \<and> Build \<in> cs_name ` set self \<and> Run \<in> cs_name ` set self
     \<and> All \<notin> cs_name ` set self \<and> list_all (\<lambda>c. set (cs_uses c) \<subseteq> cs_name ` set self) self"

lemma unknown_use_None: "unknown_use seen components = None \<longleftrightarrow> list_all (\<lambda>c. set (cs_uses c) \<subseteq> set seen) components"
proof -
  have "unknown_use seen components = None \<longleftrightarrow>
      concat (map (\<lambda>c. map (Pair (cs_name c)) (filter (\<lambda>u. u \<notin> set seen) (cs_uses c))) components) = []"
    by (auto simp: unknown_use_def simp del: concat_eq_Nil_conv split: list.splits)
  then show ?thesis by (auto simp: list_all_iff filter_empty_conv)
qed

lemma components_wf_sort: "components_wf (sort_key f self) = components_wf self"
  by (simp add: components_wf_def list_all_iff distinct_map)

text \<open>
  A list of components that is read has the components \<open>build\<close> and \<open>run\<close> and those that were given, each once and none called \<open>all\<close>,
  and uses only components that it has. For such a list the components that are needed for a request are all in the list, and
  requesting \<open>all\<close> needs exactly the components of the list.
\<close>

theorem visit_components_closed:
  assumes "visit_components seq = Ok self"
  shows "components_wf self \<and> cs_name ` set self = cs_name ` set seq \<union> {Build, Run}
    \<and> (set requests \<subseteq> insert All (cs_name ` set self) \<longrightarrow> set (resolve_uses self requests) \<subseteq> cs_name ` set self)
    \<and> set (resolve_uses self [All]) = cs_name ` set self"
proof -
  obtain seen0 components0 where c0: "collect_components [] [] seq = Ok (seen0, components0)"
    using assms by (auto simp: visit_components_def)
  obtain seen1 components1 where c1: "ensure_component Build (seen0, components0) = (seen1, components1)" by fastforce
  obtain seen components where c2: "ensure_component Run (seen1, components1) = (seen, components)" by fastforce
  have f0: "components0 = seq" "set seen0 = cs_name ` set components0" "distinct (map cs_name components0)"
    using collect_components_facts [OF c0] by auto
  have f1: "set seen1 = cs_name ` set components1" "distinct (map cs_name components1)"
    "cs_name ` set components1 = insert Build (cs_name ` set seq)"
    using ensure_component_facts [OF c1 f0(2,3)] f0(1) by auto
  note f2 = ensure_component_facts [OF c2 f1(1,2)]
  have names: "set seen = cs_name ` set components" "distinct (map cs_name components)"
    "cs_name ` set components = cs_name ` set seq \<union> {Build, Run}"
    using f1(3) f2 by auto
  have checks: "All \<notin> set seen" "unknown_use seen components = None"
    and self: "self = (if list_ex (\<lambda>c. cs_file_match_mode c = MatchRemaining) components then components else sort_key cs_name components)"
    using assms c0 c1 c2 by (auto simp: visit_components_def split: if_splits option.splits)
  have "components_wf components"
    using names checks unfolding components_wf_def unknown_use_None by (auto simp: list_all_iff)
  then have wf: "components_wf self" and set: "set self = set components" by (auto simp: self components_wf_sort)
  have distinct: "distinct (map cs_name self)" and uses: "c \<in> set self \<Longrightarrow> set (cs_uses c) \<subseteq> cs_name ` set self" for c
    using wf by (auto simp: components_wf_def list_all_iff)
  have closed: "b \<in> insert All (cs_name ` set self)" if "(a, b) \<in> (uses_step self)\<^sup>*" "a \<in> insert All (cs_name ` set self)" for a b
    using that by (induction rule: rtrancl_induct) (use uses in \<open>auto simp: uses_step_iff [OF distinct]\<close>)
  have sub: "set requests \<subseteq> insert All (cs_name ` set self) \<Longrightarrow> set (resolve_uses self requests) \<subseteq> cs_name ` set self" for requests
    using closed unfolding resolve_uses_reach [THEN conjunct2] by blast
  have all: "n \<in> set (resolve_uses self [All])" if n: "n \<in> cs_name ` set self" for n
  proof -
    have "n \<noteq> All" using n wf unfolding components_wf_def by blast
    moreover have "(All, n) \<in> (uses_step self)\<^sup>*" using n uses_step_iff [OF distinct, of All n] by blast
    ultimately show ?thesis by (simp add: resolve_uses_reach [THEN conjunct2])
  qed
  have "set (resolve_uses self [All]) = cs_name ` set self" using sub [of "[All]"] all by (intro equalityI subsetI) auto
  with wf sub set names(3) show ?thesis by (simp only:) blast
qed

theorem visit_components_closed_witness:
  "set (resolve_uses [(default_component Build)\<lparr>cs_uses := [Run]\<rparr>, default_component Run] [Build]) \<subseteq> {Build, Run}"
proof -
  let ?self = "[(default_component Build)\<lparr>cs_uses := [Run]\<rparr>, default_component Run]"
  have "visit_components [(default_component Build)\<lparr>cs_uses := [Run]\<rparr>] = Ok ?self" by code_simp
  from visit_components_closed [OF this, THEN conjunct2, THEN conjunct2, THEN conjunct1, of "[Build]"]
  have "set (resolve_uses ?self [Build]) \<subseteq> cs_name ` set ?self" by (auto simp: default_component_def)
  then show ?thesis by (auto simp: default_component_def)
qed

end
