(* ===== verification/Package_Options.thy ===== *)
theory Package_Options
  imports Requirements
begin

text \<open>
  The options of a package build (\<^verbatim>\<open>crates/spk-schema/src/option.rs\<close>): package and variable options, reading them from a specification,
  their values, checking and assigning values, and turning options into requests and back. The parsers of version ranges and of range
  identifiers are parameters.
\<close>

section \<open>Options\<close>

datatype inheritance = Weak | StrongForBuildOnly | Strong

record var_opt =
  vo_var :: str
  vo_default :: str
  vo_choices :: "str list"
  vo_inheritance :: inheritance
  vo_description :: "str option"
  vo_compat :: "compat option"
  vo_required :: bool
  vo_value :: "str option"

record pkg_opt =
  pko_pkg :: str
  pko_components :: "component btree_set"
  pko_default :: str
  pko_prerelease_policy :: "prerelease_policy option"
  pko_required_compat :: "compat_rule option"
  pko_value :: "str option"

datatype opt = PkgOption pkg_opt | VarOption var_opt

datatype option_error =
    InvalidChoice str str "str list"
  | InvalidPackageValue str str
  | MissingInResolved str
  | DefaultGivenTwice
  | OptPkgAndVar
  | OptNeitherPkgNorVar
  | OptionRequest request_error
  | OptNameInvalid name_error

type_synonym 'a option_result = "(option_error, 'a) outcome"

fun opt_full_name :: "opt \<Rightarrow> str" where
  "opt_full_name (PkgOption o1) = pko_pkg o1"
| "opt_full_name (VarOption o1) = vo_var o1"

fun opt_base_name :: "opt \<Rightarrow> str" where
  "opt_base_name (PkgOption o1) = pko_pkg o1"
| "opt_base_name (VarOption o1) = base_name (vo_var o1)"

fun opt_namespace :: "opt \<Rightarrow> str option" where
  "opt_namespace (PkgOption o1) = Some (pko_pkg o1)"
| "opt_namespace (VarOption o1) = namespace (vo_var o1)"

section \<open>Variable options\<close>

definition var_opt_new :: "str \<Rightarrow> var_opt name_result" where
  "var_opt_new var =
     and_then (validate_opt_name var) (\<lambda>_.
       Ok \<lparr>vo_var = var, vo_default = [], vo_choices = [], vo_inheritance = Weak, vo_description = None, vo_compat = None,
           vo_required = False, vo_value = None\<rparr>)"

definition effective_inheritance :: "var_opt \<Rightarrow> inheritance" where
  "effective_inheritance self = (if vo_required self then Strong else vo_inheritance self)"

definition var_opt_with_default_namespace :: "var_opt \<Rightarrow> str \<Rightarrow> var_opt" where
  "var_opt_with_default_namespace self ns = self\<lparr>vo_var := with_default_namespace (vo_var self) ns\<rparr>"

definition var_opt_get_value :: "var_opt \<Rightarrow> str option \<Rightarrow> str option" where
  "var_opt_get_value self given =
     (case vo_value self of
        Some v \<Rightarrow> if v \<noteq> [] then Some v else
          (case given of Some v \<Rightarrow> Some v | None \<Rightarrow> if vo_default self \<noteq> [] then Some (vo_default self) else None)
      | None \<Rightarrow> (case given of Some v \<Rightarrow> Some v | None \<Rightarrow> if vo_default self \<noteq> [] then Some (vo_default self) else None))"

definition pin_with_default :: "var_opt \<Rightarrow> var_opt" where
  "pin_with_default self =
     (if vo_value self \<noteq> None \<or> vo_default self = [] then self else self\<lparr>vo_value := Some (vo_default self)\<rparr>)"

definition var_opt_set_value :: "var_opt \<Rightarrow> str \<Rightarrow> var_opt option_result" where
  "var_opt_set_value self v =
     (if vo_choices self \<noteq> [] \<and> v \<noteq> [] \<and> v \<notin> set (vo_choices self) then Err (InvalidChoice v (vo_var self) (vo_choices self))
      else Ok (self\<lparr>vo_value := Some v\<rparr>))"

text \<open>The checks for a value that was given, and the whole check: without a value, the one that is assigned is checked.\<close>

definition var_opt_validate_given :: "var_opt \<Rightarrow> str \<Rightarrow> compatibility" where
  "var_opt_validate_given self v =
     (case vo_value self of
        Some assigned \<Rightarrow> if v = assigned then Compatible else Incompatible (VarOptionMismatch (IncompatibleValue assigned v))
      | None \<Rightarrow>
          if vo_choices self \<noteq> [] \<and> v \<notin> set (vo_choices self) then Incompatible (VarOptionIllegalChoice v (vo_choices self))
          else Compatible)"

definition var_opt_validate :: "var_opt \<Rightarrow> str option \<Rightarrow> compatibility" where
  "var_opt_validate self v =
     (case v of
        None \<Rightarrow>
          if vo_required self then Incompatible (VarOptionMismatch (RequiredButMissing (vo_var self)))
          else (case vo_value self of Some assigned \<Rightarrow> var_opt_validate_given self assigned | None \<Rightarrow> Compatible)
      | Some v \<Rightarrow> var_opt_validate_given self v)"

definition var_opt_to_request :: "var_opt \<Rightarrow> str option \<Rightarrow> str var_request" where
  "var_opt_to_request self given_value =
     \<lparr>vr_var = vo_var self, vr_value = or_default [] (var_opt_get_value self given_value), vr_description = vo_description self\<rparr>"

section \<open>Package options\<close>

definition pkg_opt_new :: "str \<Rightarrow> pkg_opt" where
  "pkg_opt_new name =
     \<lparr>pko_pkg = name, pko_components = [], pko_default = [], pko_prerelease_policy = None, pko_required_compat = None, pko_value = None\<rparr>"

definition pkg_opt_get_value :: "pkg_opt \<Rightarrow> str option \<Rightarrow> str option" where
  "pkg_opt_get_value self given =
     (case pko_value self of
        Some v \<Rightarrow> Some v
      | None \<Rightarrow> (case given of Some v \<Rightarrow> Some v | None \<Rightarrow> Some (pko_default self)))"

text \<open>\<open>parses\<close> decides whether a value is a version filter with an optional build.\<close>

definition pkg_opt_set_value :: "(str \<Rightarrow> bool) \<Rightarrow> pkg_opt \<Rightarrow> str \<Rightarrow> pkg_opt option_result" where
  "pkg_opt_set_value parses self v =
     (if v \<noteq> [] \<and> \<not> parses v then Err (InvalidPackageValue v (pko_pkg self)) else Ok (self\<lparr>pko_value := Some v\<rparr>))"

definition pkg_opt_validate :: "(str \<Rightarrow> (str, version_range) outcome) \<Rightarrow> pkg_opt \<Rightarrow> str option \<Rightarrow> (unit, compatibility) outcome" where
  "pkg_opt_validate parse_range self v =
     (case pko_value self of
        None \<Rightarrow> Ok Compatible
      | Some assigned \<Rightarrow>
          (case parse_range assigned of
             Panic \<Rightarrow> Panic
           | Err err \<Rightarrow> Ok (Incompatible (VersionRangeInvalid assigned (pko_pkg self) err))
           | Ok base_range \<Rightarrow>
               (case parse_range (or_default [] v) of
                  Panic \<Rightarrow> Panic
                | Err err \<Rightarrow> Ok (Incompatible (VersionRangeInvalid (or_default [] v) (pko_pkg self) err))
                | Ok value_range \<Rightarrow> Ok (intersects value_range base_range))))"

text \<open>\<open>parse_ident\<close> is the parser of range identifiers.\<close>

definition pkg_opt_to_request ::
  "(str \<Rightarrow> range_ident request_result) \<Rightarrow> pkg_opt \<Rightarrow> str option \<Rightarrow> requested_by \<Rightarrow> pkg_request request_result" where
  "pkg_opt_to_request parse_ident self given_value requester =
     (let v = or_default [] (pkg_opt_get_value self given_value);
          ident_range = (if v = [] then pko_pkg self else pko_pkg self @ CHR ''/'' # v) in
      and_then (parse_ident ident_range) (\<lambda>pkg.
        Ok ((pkg_request_new (pkg\<lparr>ri_components := pko_components self\<rparr>) requester)
              \<lparr>pr_prerelease_policy := pko_prerelease_policy self, pr_inclusion_policy := Always, pr_pin := None,
               pr_required_compat := pko_required_compat self\<rparr>)))"

section \<open>Options of either kind\<close>

text \<open>The package that was resolved for an option is represented by its compatibility rules and version.\<close>

fun opt_render_all_pins ::
  "(str \<Rightarrow> bool) \<Rightarrow> opt \<Rightarrow> option_map \<Rightarrow> (str, compat \<times> version) hash_map \<Rightarrow> bool \<Rightarrow> opt option_result" where
  "opt_render_all_pins parses (VarOption o1) options resolved_by_name require_pkg_in_resolved =
     and_then (var_opt_set_value o1
       (case bt_get options (vo_var o1) of
          Some v \<Rightarrow> v
        | None \<Rightarrow>
            (case bt_get options (without_namespace (vo_var o1)) of
               Some v \<Rightarrow> v
             | None \<Rightarrow> or_default [] (var_opt_get_value o1 None)))) (\<lambda>o1. Ok (VarOption o1))"
| "opt_render_all_pins parses (PkgOption o1) options resolved_by_name require_pkg_in_resolved =
     (case hm_get resolved_by_name (pko_pkg o1) of
        None \<Rightarrow> if require_pkg_in_resolved then Err (MissingInResolved (pko_pkg o1)) else Ok (PkgOption o1)
      | Some (rules, version) \<Rightarrow> and_then (pkg_opt_set_value parses o1 (compat_render rules version)) (\<lambda>o1. Ok (PkgOption o1)))"

fun opt_validate :: "(str \<Rightarrow> (str, version_range) outcome) \<Rightarrow> opt \<Rightarrow> str option \<Rightarrow> (unit, compatibility) outcome" where
  "opt_validate parse_range (PkgOption o1) v = pkg_opt_validate parse_range o1 v"
| "opt_validate parse_range (VarOption o1) v = Ok (var_opt_validate o1 v)"

fun opt_set_value :: "(str \<Rightarrow> bool) \<Rightarrow> opt \<Rightarrow> str \<Rightarrow> opt option_result" where
  "opt_set_value parses (PkgOption o1) v = and_then (pkg_opt_set_value parses o1 v) (\<lambda>o1. Ok (PkgOption o1))"
| "opt_set_value parses (VarOption o1) v = and_then (var_opt_set_value o1 v) (\<lambda>o1. Ok (VarOption o1))"

definition opt_get_value :: "opt \<Rightarrow> str option \<Rightarrow> str" where
  "opt_get_value self given =
     (case ((case self of PkgOption o1 \<Rightarrow> pkg_opt_get_value o1 given | VarOption o1 \<Rightarrow> var_opt_get_value o1 given), given) of
        (Some v, _) \<Rightarrow> v
      | (None, Some v) \<Rightarrow> v
      | (None, None) \<Rightarrow> [])"

fun opt_of_request :: "request_with_options \<Rightarrow> opt" where
  "opt_of_request (OptPkg r) =
     PkgOption
       \<lparr>pko_pkg = ri_name (pr_pkg (po_pkg_request r)), pko_components = ri_components (pr_pkg (po_pkg_request r)),
        pko_default = to_version_and_build_string (pr_pkg (po_pkg_request r)),
        pko_prerelease_policy = pr_prerelease_policy (po_pkg_request r),
        pko_required_compat = pr_required_compat (po_pkg_request r), pko_value = None\<rparr>"
| "opt_of_request (OptVar r) =
     VarOption
       \<lparr>vo_var = vr_var r, vo_default = vr_value r, vo_choices = [], vo_inheritance = Weak, vo_description = vr_description r,
        vo_compat = None, vo_required = False, vo_value = None\<rparr>"

text \<open>\<open>AsOptNameAndValue\<close>: the options that are in scope for requirements.\<close>

fun as_opt_name_and_value :: "opt \<Rightarrow> (str \<times> str) option" where
  "as_opt_name_and_value (VarOption o1) = map_option (Pair (vo_var o1)) (var_opt_get_value o1 None)"
| "as_opt_name_and_value (PkgOption _) = None"

section \<open>Reading options\<close>

text \<open>The fields of an option in a specification, in the order in which they are met; an unknown field is skipped.\<close>

datatype opt_field =
    PkgField str "component btree_set" "str option"
  | PrereleaseField prerelease_policy
  | VarField str
  | ChoicesField "str list"
  | InheritanceField inheritance
  | DefaultField str
  | StaticField str
  | DescriptionField str
  | CompatField compat
  | RequiredField bool
  | UnknownField

text \<open>An \<open>IndexSet\<close> keeps the first occurrence of every element.\<close>

definition index_set_from :: "'a list \<Rightarrow> 'a list" where
  "index_set_from xs = rev (remdups (rev xs))"

definition name_and_value_from_str :: "str \<Rightarrow> (str \<times> str option) name_result" where
  "name_and_value_from_str s =
     (case split_once CHR ''/'' s of
        None \<Rightarrow> and_then (validate_opt_name s) (\<lambda>_. Ok (s, None))
      | Some (name, v) \<Rightarrow> and_then (validate_opt_name name) (\<lambda>_. Ok (name, Some v)))"

record opt_visitor =
  ov_pkg :: "(str \<times> component btree_set) option"
  ov_prerelease_policy :: "prerelease_policy option"
  ov_var :: "str option"
  ov_choices :: "str list option"
  ov_inheritance :: "inheritance option"
  ov_compat :: "compat option"
  ov_required :: bool
  ov_default :: "str option"
  ov_static :: "str option"
  ov_description :: "str option"

definition empty_visitor :: opt_visitor where
  "empty_visitor =
     \<lparr>ov_pkg = None, ov_prerelease_policy = None, ov_var = None, ov_choices = None, ov_inheritance = None, ov_compat = None,
      ov_required = False, ov_default = None, ov_static = None, ov_description = None\<rparr>"

definition check_existing_default :: "opt_visitor \<Rightarrow> unit option_result" where
  "check_existing_default v = (if ov_default v \<noteq> None then Err DefaultGivenTwice else Ok ())"

fun visit_field :: "opt_visitor \<Rightarrow> opt_field \<Rightarrow> opt_visitor option_result" where
  "visit_field self (PkgField name components dflt) =
     (if dflt \<noteq> None
      then and_then (check_existing_default self) (\<lambda>_. Ok (self\<lparr>ov_default := dflt, ov_pkg := Some (name, components)\<rparr>))
      else Ok (self\<lparr>ov_pkg := Some (name, components)\<rparr>))"
| "visit_field self (PrereleaseField p) = Ok (self\<lparr>ov_prerelease_policy := Some p\<rparr>)"
| "visit_field self (VarField s) =
     and_then (map_err OptNameInvalid (name_and_value_from_str s)) (\<lambda>(name, v).
     and_then (if v \<noteq> None then check_existing_default self else Ok ()) (\<lambda>_.
       Ok (self\<lparr>ov_var := Some name, ov_default := v\<rparr>)))"
| "visit_field self (ChoicesField cs) = Ok (self\<lparr>ov_choices := Some (index_set_from cs)\<rparr>)"
| "visit_field self (InheritanceField i) = Ok (self\<lparr>ov_inheritance := Some i\<rparr>)"
| "visit_field self (DefaultField d) = and_then (check_existing_default self) (\<lambda>_. Ok (self\<lparr>ov_default := Some d\<rparr>))"
| "visit_field self (StaticField v) = Ok (self\<lparr>ov_static := Some v\<rparr>)"
| "visit_field self (DescriptionField d) = Ok (self\<lparr>ov_description := Some d\<rparr>)"
| "visit_field self (CompatField c) = Ok (self\<lparr>ov_compat := Some c\<rparr>)"
| "visit_field self (RequiredField r) = Ok (self\<lparr>ov_required := r\<rparr>)"
| "visit_field self UnknownField = Ok self"

fun visit_fields :: "opt_visitor \<Rightarrow> opt_field list \<Rightarrow> opt_visitor option_result" where
  "visit_fields self [] = Ok self"
| "visit_fields self (f # fs) = and_then (visit_field self f) (\<lambda>self. visit_fields self fs)"

definition opt_of_visitor :: "opt_visitor \<Rightarrow> opt option_result" where
  "opt_of_visitor self =
     (case (ov_pkg self, ov_var self) of
        (Some (name, components), None) \<Rightarrow>
          Ok (PkgOption \<lparr>pko_pkg = name, pko_components = components, pko_default = or_default [] (ov_default self),
            pko_prerelease_policy = ov_prerelease_policy self, pko_required_compat = None, pko_value = ov_static self\<rparr>)
      | (None, Some var) \<Rightarrow>
          Ok (VarOption \<lparr>vo_var = var, vo_default = or_default [] (ov_default self), vo_choices = or_default [] (ov_choices self),
            vo_inheritance = or_default Weak (ov_inheritance self), vo_description = ov_description self, vo_compat = ov_compat self,
            vo_required = ov_required self, vo_value = ov_static self\<rparr>)
      | (Some _, Some _) \<Rightarrow> Err OptPkgAndVar
      | (None, None) \<Rightarrow> Err OptNeitherPkgNorVar)"

definition opt_visit_map :: "opt_field list \<Rightarrow> opt option_result" where
  "opt_visit_map entries = and_then (visit_fields empty_visitor entries) opt_of_visitor"

text \<open>What is written of a variable option: the fields of its schema that are not skipped.\<close>

definition var_opt_serialize :: "var_opt \<Rightarrow> opt_field list" where
  "var_opt_serialize self =
     [VarField (vo_var self @ (if vo_default self \<noteq> [] then CHR ''/'' # vo_default self else []))]
     @ (if vo_choices self \<noteq> [] then [ChoicesField (vo_choices self)] else [])
     @ (if vo_inheritance self \<noteq> Weak then [InheritanceField (vo_inheritance self)] else [])
     @ (if or_default [] (vo_description self) \<noteq> [] then [DescriptionField (or_default [] (vo_description self))] else [])
     @ (case vo_compat self of Some c \<Rightarrow> [CompatField c] | None \<Rightarrow> [])
     @ (if vo_required self then [RequiredField True] else [])
     @ (if or_default [] (vo_value self) \<noteq> [] then [StaticField (or_default [] (vo_value self))] else [])"

section \<open>Properties\<close>

definition example_var_opt :: var_opt where
  "example_var_opt =
     \<lparr>vo_var = ''python.abi'', vo_default = ''cp37/m'', vo_choices = [''cp37/m'', ''cp39''], vo_inheritance = Strong, vo_description = None,
      vo_compat = None, vo_required = True, vo_value = Some ''cp39''\<rparr>"

text \<open>
  A value that a variable option accepts is the value that is read back, whatever value is given later, and the only one that
  validates; a value outside the choices is refused and the option is unchanged. Checking an option with its own value succeeds.
\<close>

theorem var_opt_set_get:
  "(case var_opt_set_value self v of
      Ok self' \<Rightarrow>
        (v \<noteq> [] \<longrightarrow> var_opt_get_value self' given = Some v)
        \<and> (var_opt_validate self' (Some w) = Compatible \<longleftrightarrow> w = v)
        \<and> (\<not> vo_required self \<longrightarrow> var_opt_validate self' None = Compatible)
    | Err e \<Rightarrow> v \<noteq> [] \<and> vo_choices self \<noteq> [] \<and> v \<notin> set (vo_choices self)
    | Panic \<Rightarrow> False)"
  by (simp add: var_opt_set_value_def var_opt_get_value_def var_opt_validate_def var_opt_validate_given_def)

theorem var_opt_set_get_witness:
  "var_opt_get_value (example_var_opt\<lparr>vo_value := Some ''cp37/m''\<rparr>) None = Some ''cp37/m''"
proof -
  have "var_opt_set_value example_var_opt ''cp37/m'' = Ok (example_var_opt\<lparr>vo_value := Some ''cp37/m''\<rparr>)" by code_simp
  then show ?thesis using var_opt_set_get [where self = example_var_opt and v = "''cp37/m''" and given = None] by simp
qed

text \<open>Names of options do not have the separator of values.\<close>

lemma opt_name_no_slash: "validate_opt_name n = Ok () \<Longrightarrow> CHR ''/'' \<notin> set n"
proof -
  have chars: "\<not> is_valid_opt_name_char CHR ''/''" "\<not> is_valid_pkg_name_char CHR ''/''" by code_simp+
  assume "validate_opt_name n = Ok ()"
  then show ?thesis
    using chars
    by (auto simp: validate_opt_name_def split_once_Some_iff validate_pkg_name_Ok_iff validate_opt_base_name_Ok_iff list_all_iff
        split: option.splits)
qed

lemma index_set_from_distinct: "distinct xs \<Longrightarrow> index_set_from xs = xs"
  by (simp add: index_set_from_def distinct_remdups_id)

lemma visit_fields_append: "visit_fields self (fs @ gs) = and_then (visit_fields self fs) (\<lambda>self. visit_fields self gs)"
proof (induction fs arbitrary: self)
  case (Cons f fs)
  then show ?case by (cases "visit_field self f") auto
qed simp

text \<open>The effect of a field that is only there when it is needed.\<close>

lemma visit_optional_field:
  "visit_fields self (if b then [ChoicesField cs] else []) = Ok (self\<lparr>ov_choices := if b then Some (index_set_from cs) else ov_choices self\<rparr>)"
  "visit_fields self (if b then [InheritanceField i] else []) = Ok (self\<lparr>ov_inheritance := if b then Some i else ov_inheritance self\<rparr>)"
  "visit_fields self (if b then [DescriptionField d] else []) = Ok (self\<lparr>ov_description := if b then Some d else ov_description self\<rparr>)"
  "visit_fields self (if b then [RequiredField True] else []) = Ok (self\<lparr>ov_required := b \<or> ov_required self\<rparr>)"
  "visit_fields self (if b then [StaticField v] else []) = Ok (self\<lparr>ov_static := if b then Some v else ov_static self\<rparr>)"
  "visit_fields self (case c of Some c \<Rightarrow> [CompatField c] | None \<Rightarrow> []) = Ok (self\<lparr>ov_compat := if c = None then ov_compat self else c\<rparr>)"
  by (auto split: option.splits)

text \<open>
  A variable option that is written and read again is the same option, provided that its choices have no repetitions and that a
  description or an assigned value is not empty.
\<close>

theorem var_opt_roundtrip:
  assumes "validate_opt_name (vo_var self) = Ok ()" "distinct (vo_choices self)"
    and "vo_description self \<noteq> Some []" "vo_value self \<noteq> Some []"
  shows "opt_visit_map (var_opt_serialize self) = Ok (VarOption self)"
proof -
  have name: "name_and_value_from_str (vo_var self @ (if vo_default self \<noteq> [] then CHR ''/'' # vo_default self else []))
      = Ok (vo_var self, if vo_default self \<noteq> [] then Some (vo_default self) else None)"
    using opt_name_no_slash [OF assms(1)] assms(1) by (simp add: name_and_value_from_str_def)
  have head: "visit_fields empty_visitor [VarField (vo_var self @ (if vo_default self \<noteq> [] then CHR ''/'' # vo_default self else []))]
      = Ok (empty_visitor\<lparr>ov_var := Some (vo_var self), ov_default := (if vo_default self \<noteq> [] then Some (vo_default self) else None)\<rparr>)"
    unfolding visit_fields.simps visit_field.simps name by (simp add: check_existing_default_def empty_visitor_def)
  have "opt_visit_map (var_opt_serialize self) = opt_of_visitor
      \<lparr>ov_pkg = None, ov_prerelease_policy = None, ov_var = Some (vo_var self),
       ov_choices = (if vo_choices self \<noteq> [] then Some (vo_choices self) else None),
       ov_inheritance = (if vo_inheritance self \<noteq> Weak then Some (vo_inheritance self) else None), ov_compat = vo_compat self,
       ov_required = vo_required self, ov_default = (if vo_default self \<noteq> [] then Some (vo_default self) else None),
       ov_static = vo_value self, ov_description = vo_description self\<rparr>"
    unfolding opt_visit_map_def var_opt_serialize_def visit_fields_append visit_optional_field head and_then.simps
    using assms(2-4)
    by (cases "vo_description self"; cases "vo_value self"; cases "vo_compat self")
      (auto simp: empty_visitor_def index_set_from_distinct)
  also have "\<dots> = Ok (VarOption self)" by (simp add: opt_of_visitor_def)
  finally show ?thesis .
qed

theorem var_opt_roundtrip_witness: "opt_visit_map (var_opt_serialize example_var_opt) = Ok (VarOption example_var_opt)"
proof -
  have "validate_opt_name (vo_var example_var_opt) = Ok ()" "distinct (vo_choices example_var_opt)"
    "vo_description example_var_opt \<noteq> Some []" "vo_value example_var_opt \<noteq> Some []"
    by code_simp+
  then show ?thesis by (rule var_opt_roundtrip)
qed

text \<open>
  The default of a variable option depends on the order of its fields: a \<open>default\<close> field that stands before the field \<open>var\<close> is lost
  when the name has no default of its own, and it is kept behind it.
\<close>

theorem default_before_var_is_lost:
  assumes "validate_opt_name n = Ok ()"
  shows "\<exists>o1 o2. opt_visit_map [DefaultField d, VarField n] = Ok (VarOption o1) \<and> vo_default o1 = []
    \<and> opt_visit_map [VarField n, DefaultField d] = Ok (VarOption o2) \<and> vo_default o2 = d"
  using assms opt_name_no_slash [OF assms]
  by (simp add: opt_visit_map_def name_and_value_from_str_def check_existing_default_def empty_visitor_def opt_of_visitor_def)

theorem default_before_var_is_lost_witness:
  "\<exists>o1 o2. opt_visit_map [DefaultField ''on'', VarField ''debug''] = Ok (VarOption o1) \<and> vo_default o1 = []
    \<and> opt_visit_map [VarField ''debug'', DefaultField ''on''] = Ok (VarOption o2) \<and> vo_default o2 = ''on''"
proof -
  have "validate_opt_name ''debug'' = Ok ()" by code_simp
  then show ?thesis by (rule default_before_var_is_lost)
qed

end
