(* ===== verification/Package_Specs.thy ===== *)
theory Package_Specs
  imports Component_Specs Package_Options
begin

text \<open>
  Built packages (\<^verbatim>\<open>build_spec.rs\<close>, \<^verbatim>\<open>install_spec.rs\<close>, \<^verbatim>\<open>embedded_packages_list.rs\<close>, \<^verbatim>\<open>v0/package_spec.rs\<close> and
  \<^verbatim>\<open>v0/embedded_package_spec.rs\<close> under \<^verbatim>\<open>crates/spk-schema/src\<close>): the options of a build and how a variant resolves them, the packages
  that a package embeds, the requirements that a package has at runtime and hands to packages that depend on it, and whether a package
  satisfies a request. The metadata, sources, tests and environment operations of a package are left out; no operation here reads
  them. The fields of the nested build and install sections are fields of the package.
\<close>

section \<open>Builds\<close>

type_synonym build_spec = "opt list"

datatype package_error =
    PackageOption option_error
  | PackageRequirements requirements_error
  | OptionGivenTwice str
  | OptionInvalid compatibility
  | PackageComponents component_error

text \<open>\<open>known_pkg_options_with_index\<close> and the injection of the requirements of a variant.\<close>

definition pkg_option_index :: "opt list \<Rightarrow> (str, nat) hash_map" where
  "pkg_option_index opts =
     fold (\<lambda>(i, o1) m. case o1 of PkgOption p \<Rightarrow> hm_insert (pko_pkg p) i m | VarOption _ \<Rightarrow> m) (List.enumerate 0 opts) []"

definition merge_pkg_option :: "opt list \<Rightarrow> nat \<Rightarrow> pkg_opt \<Rightarrow> opt list" where
  "merge_pkg_option opts idx pkg =
     (case opts ! idx of
        PkgOption existing \<Rightarrow>
          opts[idx := PkgOption (existing\<lparr>pko_components := fold bs_insert (pko_components pkg) (pko_components existing),
                                          pko_default := pko_default pkg\<rparr>)]
      | VarOption _ \<Rightarrow> opts)"

fun inject_requirements :: "str list \<Rightarrow> (str, nat) hash_map \<Rightarrow> opt list \<Rightarrow> request_with_options list \<Rightarrow> opt list" where
  "inject_requirements known index opts [] = opts"
| "inject_requirements known index opts (req # reqs) =
     (let o1 = opt_of_request req in
      if opt_full_name o1 \<notin> set known
      then inject_requirements (opt_full_name o1 # known)
             (case o1 of PkgOption _ \<Rightarrow> hm_insert (opt_full_name o1) (length opts) index | VarOption _ \<Rightarrow> index) (opts @ [o1]) reqs
      else inject_requirements known index
             (case o1 of
                PkgOption pkg \<Rightarrow> (case hm_get index (pko_pkg pkg) of Some idx \<Rightarrow> merge_pkg_option opts idx pkg | None \<Rightarrow> opts)
              | VarOption _ \<Rightarrow> opts) reqs)"

definition opts_for_variant :: "build_spec \<Rightarrow> request_with_options list \<Rightarrow> opt list" where
  "opts_for_variant self additional_requirements =
     inject_requirements (map opt_full_name self) (pkg_option_index self) self additional_requirements"

text \<open>The value that a variant gives to an option: with its namespace, or without one as a fallback.\<close>

definition given_value :: "str \<Rightarrow> option_map \<Rightarrow> opt \<Rightarrow> str option" where
  "given_value pkg_name given o1 =
     (case namespace (opt_full_name o1) of
        Some _ \<Rightarrow>
          (case bt_get given (opt_full_name o1) of
             Some v \<Rightarrow> Some v
           | None \<Rightarrow> bt_get given (without_namespace (opt_full_name o1)))
      | None \<Rightarrow>
          (case bt_get given (with_namespace (opt_full_name o1) pkg_name) of
             Some v \<Rightarrow> Some v
           | None \<Rightarrow> bt_get given (opt_full_name o1)))"

fun resolve_options_loop ::
  "(str \<Rightarrow> (str, version_range) outcome) \<Rightarrow> str \<Rightarrow> option_map \<Rightarrow> option_map \<Rightarrow> opt list \<Rightarrow> (package_error, option_map) outcome" where
  "resolve_options_loop parse_range pkg_name given resolved [] = Ok resolved"
| "resolve_options_loop parse_range pkg_name given resolved (o1 # opts) =
     (let v = opt_get_value o1 (given_value pkg_name given o1) in
      case opt_validate parse_range o1 (Some v) of
        Ok Compatible \<Rightarrow> resolve_options_loop parse_range pkg_name given (bt_insert (opt_full_name o1) v resolved) opts
      | Ok c \<Rightarrow> Err (OptionInvalid c)
      | _ \<Rightarrow> Panic)"

definition resolve_options_for_pkg_name ::
  "(str \<Rightarrow> (str, version_range) outcome) \<Rightarrow> build_spec \<Rightarrow> str \<Rightarrow> option_map \<Rightarrow> request_with_options list
    \<Rightarrow> (package_error, option_map \<times> opt list) outcome" where
  "resolve_options_for_pkg_name parse_range self pkg_name given additional_requirements =
     (let opts = opts_for_variant self additional_requirements in
      and_then (resolve_options_loop parse_range pkg_name given [] opts) (\<lambda>resolved. Ok (resolved, opts)))"

text \<open>The bytes that the digest of a build is computed from; the SHA-1 function and the base 32 encoding are parameters.\<close>

definition digest_options :: "option_map \<Rightarrow> str" where
  "digest_options options = concat (map (\<lambda>(name, v). name @ ''='' @ v @ [CHR 0x00]) options)"

definition digest_requirement :: "pkg_opt \<Rightarrow> str" where
  "digest_requirement o1 =
     (if pko_components o1 = [] then []
      else pko_pkg o1 @ ''='' @ concat (map (\<lambda>c. component_as_str c @ '','') (pko_components o1)) @ [CHR 0x01])"

definition pkg_options :: "opt list \<Rightarrow> pkg_opt list" where
  "pkg_options opts = List.map_filter (\<lambda>o1. case o1 of PkgOption p \<Rightarrow> Some p | VarOption _ \<Rightarrow> None) opts"

definition build_digest_id ::
  "(str \<Rightarrow> str) \<Rightarrow> (str \<Rightarrow> str) \<Rightarrow> (str \<Rightarrow> (str, version_range) outcome) \<Rightarrow> build_spec \<Rightarrow> str \<Rightarrow> option_map \<Rightarrow> request_with_options list
    \<Rightarrow> (package_error, str) outcome" where
  "build_digest_id sha1 base32_encode parse_range self pkg_name given additional_requirements =
     and_then (resolve_options_for_pkg_name parse_range self pkg_name given additional_requirements) (\<lambda>(options, opts).
       Ok (build_id_new_from_bytes base32_encode
             (sha1 (digest_options options @ concat (map digest_requirement (sort_key pko_pkg (pkg_options opts)))))))"

text \<open>Reading the options of a build refuses a name that is there twice.\<close>

fun unique_options :: "str list \<Rightarrow> opt list \<Rightarrow> (package_error, unit) outcome" where
  "unique_options seen [] = Ok ()"
| "unique_options seen (o1 # opts) =
     (if opt_full_name o1 \<in> set seen then Err (OptionGivenTwice (opt_full_name o1))
      else unique_options (opt_full_name o1 # seen) opts)"

section \<open>Embedded packages\<close>

record embedded_package_spec =
  eps_pkg :: build_ident
  eps_compat :: compat
  eps_deprecated :: bool
  eps_options :: build_spec
  eps_requirements :: "pinned_request list"
  eps_components :: "component_spec list"
  eps_install_requirements_with_options :: "request_with_options list"

definition calculate_install_requirements_with_options ::
  "build_spec \<Rightarrow> pinned_request list \<Rightarrow> (requirements_error, request_with_options list) outcome" where
  "calculate_install_requirements_with_options options requirements =
     convert_requests_to_requests_with_options (List.map_filter as_opt_name_and_value options) requirements"

definition embedded_new :: "build_ident \<Rightarrow> embedded_package_spec" where
  "embedded_new ident =
     \<lparr>eps_pkg = ident, eps_compat = default_compat, eps_deprecated = False, eps_options = [], eps_requirements = [],
      eps_components = default_components, eps_install_requirements_with_options = []\<rparr>"

definition embedded_build_mut ::
  "embedded_package_spec \<Rightarrow> (build_spec \<Rightarrow> build_spec) \<Rightarrow> (requirements_error, embedded_package_spec) outcome" where
  "embedded_build_mut self f =
     (let self = self\<lparr>eps_options := f (eps_options self)\<rparr> in
      and_then (calculate_install_requirements_with_options (eps_options self) (eps_requirements self)) (\<lambda>reqs.
        Ok (self\<lparr>eps_install_requirements_with_options := reqs\<rparr>)))"

text \<open>Loading an embedded package: the derived deserialisation fills the fields that are stored, and gives a field that is skipped its
  default.\<close>

definition embedded_load :: "build_ident \<Rightarrow> compat \<Rightarrow> bool \<Rightarrow> build_spec \<Rightarrow> pinned_request list \<Rightarrow> component_spec list \<Rightarrow> embedded_package_spec" where
  "embedded_load pkg rules deprecated options requirements components =
     \<lparr>eps_pkg = pkg, eps_compat = rules, eps_deprecated = deprecated, eps_options = options, eps_requirements = requirements,
      eps_components = components, eps_install_requirements_with_options = []\<rparr>"

definition packages_matching_embedded_package ::
  "embedded_package_spec list \<Rightarrow> component_embedded_package \<Rightarrow> embedded_package_spec list" where
  "packages_matching_embedded_package self embedded_package =
     filter (\<lambda>embedded. ident_name (eps_pkg embedded) = fst (cep_pkg embedded_package)
       \<and> (case snd (cep_pkg embedded_package) of
            None \<Rightarrow> True
          | Some v \<Rightarrow> version_eq (ident_version (eps_pkg embedded)) v)) self"

text \<open>Loading the install section: \<open>all\<close> in the embedded components is expanded where it is clear what it stands for, and components
  without embedded packages get those that have a component of their name.\<close>

definition expand_all :: "embedded_package_spec list \<Rightarrow> component_embedded_package \<Rightarrow> (component_error, component_embedded_package) outcome" where
  "expand_all embedded ep =
     (if All \<notin> set (cep_components ep) then Ok ep
      else case packages_matching_embedded_package embedded ep of
             [] \<Rightarrow> Ok ep
           | package # others \<Rightarrow>
               let names = component_names (eps_components package) in
               if list_ex (\<lambda>other. component_names (eps_components other) \<noteq> names) others then Ok ep
               else if names = [] then Ok ep
               else case replace_all ep names of Ok ep \<Rightarrow> Ok ep | _ \<Rightarrow> Panic)"

definition expand_component :: "embedded_package_spec list \<Rightarrow> component_spec \<Rightarrow> (component_error, component_spec) outcome" where
  "expand_component embedded c =
     and_then (filter_map_collect (\<lambda>ep. Some (expand_all embedded ep)) (cel_components (cs_embedded c))) (\<lambda>eps.
       Ok (c\<lparr>cs_embedded := (cs_embedded c)\<lparr>cel_components := eps\<rparr>\<rparr>))"

definition default_embedded :: "embedded_package_spec list \<Rightarrow> component_spec \<Rightarrow> component_spec" where
  "default_embedded embedded c =
     (if cel_components (cs_embedded c) \<noteq> [] then c
      else c\<lparr>cs_embedded := set_fabricated (embedded_list_from
             (map (\<lambda>e. component_embedded_package_new (ident_name (eps_pkg e), None) (cs_name c))
               (filter (\<lambda>e. cs_name c \<in> set (component_names (eps_components e))) embedded)))\<rparr>)"

definition install_components ::
  "embedded_package_spec list \<Rightarrow> component_spec list \<Rightarrow> (component_error, component_spec list) outcome" where
  "install_components embedded components =
     (if embedded = [] then Ok components
      else and_then (filter_map_collect (\<lambda>c. Some (expand_component embedded c)) components) (\<lambda>components.
        if distinct (map (\<lambda>e. ident_name (eps_pkg e)) embedded) then Ok (map (default_embedded embedded) components)
        else Ok components))"

section \<open>Packages\<close>

record package_spec =
  ps_pkg :: build_ident
  ps_compat :: compat
  ps_deprecated :: bool
  ps_options :: build_spec
  ps_requirements :: "pinned_request list"
  ps_embedded :: "embedded_package_spec list"
  ps_components :: "component_spec list"
  ps_install_requirements_with_options :: "request_with_options list"

definition package_new :: "build_ident \<Rightarrow> package_spec" where
  "package_new ident =
     \<lparr>ps_pkg = ident, ps_compat = default_compat, ps_deprecated = False, ps_options = [], ps_requirements = [], ps_embedded = [],
      ps_components = default_components, ps_install_requirements_with_options = []\<rparr>"

definition package_new_from_parts ::
  "build_ident \<Rightarrow> compat \<Rightarrow> bool \<Rightarrow> build_spec \<Rightarrow> pinned_request list \<Rightarrow> embedded_package_spec list \<Rightarrow> component_spec list
    \<Rightarrow> (requirements_error, package_spec) outcome" where
  "package_new_from_parts pkg rules deprecated options requirements embedded components =
     and_then (calculate_install_requirements_with_options options requirements) (\<lambda>reqs.
       Ok \<lparr>ps_pkg = pkg, ps_compat = rules, ps_deprecated = deprecated, ps_options = options, ps_requirements = requirements,
           ps_embedded = embedded, ps_components = components, ps_install_requirements_with_options = reqs\<rparr>)"

definition package_recalculate :: "package_spec \<Rightarrow> (requirements_error, package_spec) outcome" where
  "package_recalculate self =
     and_then (calculate_install_requirements_with_options (ps_options self) (ps_requirements self)) (\<lambda>reqs.
       Ok (self\<lparr>ps_install_requirements_with_options := reqs\<rparr>))"

definition build_mut :: "package_spec \<Rightarrow> (build_spec \<Rightarrow> build_spec) \<Rightarrow> (requirements_error, package_spec) outcome" where
  "build_mut self f = package_recalculate (self\<lparr>ps_options := f (ps_options self)\<rparr>)"

text \<open>The install section as it can be changed: the requirements, the embedded packages and the components.\<close>

definition install_mut ::
  "package_spec \<Rightarrow> (pinned_request list \<times> embedded_package_spec list \<times> component_spec list
      \<Rightarrow> pinned_request list \<times> embedded_package_spec list \<times> component_spec list)
    \<Rightarrow> (requirements_error, package_spec) outcome" where
  "install_mut self f =
     (case f (ps_requirements self, ps_embedded self, ps_components self) of (requirements, embedded, components) \<Rightarrow>
        package_recalculate (self\<lparr>ps_requirements := requirements, ps_embedded := embedded, ps_components := components\<rparr>))"

definition prune_for_source_build :: "package_spec \<Rightarrow> package_spec" where
  "prune_for_source_build self = self\<lparr>ps_requirements := [], ps_options := [], ps_components := [default_source]\<rparr>"

text \<open>Loading a package from its stored parts.\<close>

definition package_load ::
  "build_ident \<Rightarrow> compat \<Rightarrow> bool \<Rightarrow> build_spec \<Rightarrow> pinned_request list \<Rightarrow> embedded_package_spec list \<Rightarrow> component_spec list
    \<Rightarrow> (requirements_error, package_spec) outcome" where
  "package_load pkg rules deprecated options requirements embedded components =
     and_then (package_new_from_parts pkg rules deprecated options requirements embedded components) (\<lambda>spec.
       Ok (if is_source (target (ps_pkg spec)) then prune_for_source_build spec else spec))"

definition package_of_embedded :: "embedded_package_spec \<Rightarrow> package_spec" where
  "package_of_embedded stub =
     \<lparr>ps_pkg = eps_pkg stub, ps_compat = eps_compat stub, ps_deprecated = eps_deprecated stub, ps_options = eps_options stub,
      ps_requirements = eps_requirements stub, ps_embedded = [], ps_components = eps_components stub,
      ps_install_requirements_with_options = eps_install_requirements_with_options stub\<rparr>"

definition runtime_requirements :: "package_spec \<Rightarrow> request_with_options list" where
  "runtime_requirements self = ps_install_requirements_with_options self"

definition deprecate :: "package_spec \<Rightarrow> package_spec" where "deprecate self = self\<lparr>ps_deprecated := True\<rparr>"
definition undeprecate :: "package_spec \<Rightarrow> package_spec" where "undeprecate self = self\<lparr>ps_deprecated := False\<rparr>"

definition option_values_of :: "build_spec \<Rightarrow> option_map" where
  "option_values_of options = fold (\<lambda>o1. bt_insert (opt_full_name o1) (opt_get_value o1 None)) options []"

definition option_values :: "package_spec \<Rightarrow> option_map" where
  "option_values self = option_values_of (ps_options self)"

definition set_build :: "package_spec \<Rightarrow> build \<Rightarrow> package_spec" where
  "set_build self b = self\<lparr>ps_pkg := (ps_pkg self)\<lparr>target := b\<rparr>\<rparr>"

definition insert_or_merge_install_requirement ::
  "pair_order \<Rightarrow> package_spec \<Rightarrow> pinned_request \<Rightarrow> (requirements_error, unit requirements_result \<times> package_spec) outcome" where
  "insert_or_merge_install_requirement perms self req =
     (case insert_or_merge_pinned perms (ps_requirements self) req of (result, requirements) \<Rightarrow>
        and_then (package_recalculate (self\<lparr>ps_requirements := requirements\<rparr>)) (\<lambda>self. Ok (result, self)))"

section \<open>Requirements for other packages\<close>

definition namespaced_vars :: "str \<Rightarrow> build_spec \<Rightarrow> var_opt list" where
  "namespaced_vars name options =
     List.map_filter (\<lambda>o1. case o1 of VarOption v \<Rightarrow> Some (var_opt_with_default_namespace v name) | PkgOption _ \<Rightarrow> None) options"

definition downstream_requirements ::
  "pair_order \<Rightarrow> package_spec \<Rightarrow> (var_opt \<Rightarrow> bool) \<Rightarrow> (requirements_error, request_with_options list) outcome" where
  "downstream_requirements perms self keep =
     (let vars = namespaced_vars (ident_name (ps_pkg self)) (ps_options self)
            @ concat (map (\<lambda>stub. namespaced_vars (ident_name (eps_pkg stub)) (eps_options stub)) (ps_embedded self));
          requests = map (\<lambda>v. OptVar \<lparr>vr_var = vo_var v, vr_value = or_default [] (var_opt_get_value v None),
            vr_description = vo_description v\<rparr>) (filter keep vars) in
      case try_from_iter_with_options perms requests of Ok reqs \<Rightarrow> Ok reqs | _ \<Rightarrow> Panic)"

definition downstream_build_requirements :: "pair_order \<Rightarrow> package_spec \<Rightarrow> (requirements_error, request_with_options list) outcome" where
  "downstream_build_requirements perms self = downstream_requirements perms self (\<lambda>o1. effective_inheritance o1 \<noteq> Weak)"

definition downstream_runtime_requirements :: "pair_order \<Rightarrow> package_spec \<Rightarrow> (requirements_error, request_with_options list) outcome" where
  "downstream_runtime_requirements perms self =
     downstream_requirements perms self (\<lambda>o1. effective_inheritance o1 = Strong \<or> vo_required o1)"

fun build_requirements_loop ::
  "pair_order \<Rightarrow> (str \<Rightarrow> range_ident request_result) \<Rightarrow> build_ident \<Rightarrow> pinned_request list \<Rightarrow> opt list \<Rightarrow> pinned_request list requirements_result" where
  "build_requirements_loop perms parse_ident ident requests [] = Ok requests"
| "build_requirements_loop perms parse_ident ident requests (PkgOption o1 # opts) =
     and_then (map_err RequestFailed (pkg_opt_to_request parse_ident o1 None (RequestedByBinaryBuild ident))) (\<lambda>req.
       let req = (if ri_components (pr_pkg req) = [] then req\<lparr>pr_pkg := (pr_pkg req)\<lparr>ri_components := [Build]\<rparr>\<rparr> else req) in
       case insert_or_merge_pinned perms requests (PinnedPkg req) of (result, requests) \<Rightarrow>
         and_then result (\<lambda>_. build_requirements_loop perms parse_ident ident requests opts))"
| "build_requirements_loop perms parse_ident ident requests (VarOption o1 # opts) =
     (case var_opt_get_value o1 None of
        Some v \<Rightarrow>
          if v \<noteq> [] then
            (case insert_or_merge_pinned perms requests (PinnedVar (var_opt_to_request o1 (Some v))) of (result, requests) \<Rightarrow>
               and_then result (\<lambda>_. build_requirements_loop perms parse_ident ident requests opts))
          else build_requirements_loop perms parse_ident ident requests opts
      | None \<Rightarrow> build_requirements_loop perms parse_ident ident requests opts)"

definition build_requirements_from_build_options ::
  "pair_order \<Rightarrow> (str \<Rightarrow> range_ident request_result) \<Rightarrow> build_ident \<Rightarrow> opt list \<Rightarrow> pinned_request list requirements_result" where
  "build_requirements_from_build_options perms parse_ident ident build_options =
     build_requirements_loop perms parse_ident ident [] build_options"

section \<open>Satisfying requests\<close>

definition versioned_of :: "package_spec \<Rightarrow> versioned" where
  "versioned_of spec = \<lparr>vs_version = ident_version (ps_pkg spec), vs_compat = ps_compat spec\<rparr>"

text \<open>The last loop of the check: what the required options of a package ask of the options of the request.\<close>

fun check_required_options :: "str \<Rightarrow> request_options \<Rightarrow> opt list \<Rightarrow> compatibility" where
  "check_required_options name options [] = Compatible"
| "check_required_options name options (PkgOption _ # opts) = check_required_options name options opts"
| "check_required_options name options (VarOption o1 # opts) =
     (if \<not> vo_required o1 then check_required_options name options opts
      else
        let namespaced_var = with_namespace (vo_var o1) name in
        case bt_get options namespaced_var of
          Some (CompleteOption v) \<Rightarrow>
            (case var_opt_get_value o1 None of
               Some expected \<Rightarrow>
                 if v \<noteq> expected then Incompatible (VarOptionMismatch (IncompatibleBuildOption (vo_var o1) expected v))
                 else check_required_options name options opts
             | None \<Rightarrow> check_required_options name options opts)
        | _ \<Rightarrow> Incompatible (VarOptionMismatch (RequiredButMissing namespaced_var)))"

definition missing_components :: "package_spec \<Rightarrow> component list \<Rightarrow> component list" where
  "missing_components spec requested =
     filter (\<lambda>c. c \<notin> cs_name ` set (ps_components spec)) (resolve_uses (ps_components spec) requested)"

definition check_package_spec_satisfies_pkg_request :: "package_spec \<Rightarrow> pkg_request_with_options \<Rightarrow> compatibility" where
  "check_package_spec_satisfies_pkg_request spec request =
     (let pkg_request = po_pkg_request request; pkg = pr_pkg pkg_request; spec_build = target (ps_pkg spec) in
      if ri_name pkg \<noteq> ident_name (ps_pkg spec)
      then Incompatible (PackageNameMismatch (PkgRequestName (ident_name (ps_pkg spec)) (ri_name pkg)))
      else if ps_deprecated spec \<and> \<not> build_opt_eq (ri_build pkg) (Some spec_build) then Incompatible BuildDeprecated
      else if (pr_prerelease_policy pkg_request = None \<or> pr_prerelease_policy pkg_request = Some ExcludeAll)
              \<and> v_pre (ident_version (ps_pkg spec)) \<noteq> []
      then Incompatible PrereleasesNotAllowed
      else
        let source_package_requested = build_opt_eq (ri_build pkg) (Some SourceBuild);
            is_source_build = (is_source spec_build \<and> \<not> source_package_requested);
            missing = missing_components spec (ri_components pkg) in
        if ri_components pkg \<noteq> [] \<and> \<not> is_source_build \<and> missing \<noteq> []
        then Incompatible (ComponentsMissing (ComponentsNotDefined (bs_from_list (map component_as_str missing))
               (bs_from_list (map (\<lambda>c. component_as_str (cs_name c)) (ps_components spec)))))
        else
          case is_satisfied_by (Filter (ri_version pkg)) (versioned_of spec) Binary of
            Incompatible reason \<Rightarrow> Incompatible reason
          | Compatible \<Rightarrow>
              if \<not> (ri_build pkg = None \<or> build_opt_eq (ri_build pkg) (Some spec_build))
              then Incompatible (BuildIdMismatch (PkgRequestBuild spec_build (ri_build pkg)))
              else check_required_options (ident_name (ps_pkg spec)) (po_options request) (ps_options spec))"

definition requested_option :: "package_spec \<Rightarrow> str \<Rightarrow> opt option" where
  "requested_option self request_name =
     find (\<lambda>o1. request_name = opt_full_name o1 \<or> request_name = with_namespace (opt_full_name o1) (ident_name (ps_pkg self)))
       (ps_options self)"

definition check_var_value :: "var_opt \<Rightarrow> str var_request \<Rightarrow> (unit, compatibility) outcome" where
  "check_var_value o1 request =
     (let exact = var_opt_get_value o1 (Some (vr_value request)) in
      if exact = Some (vr_value request) then Ok Compatible
      else case vo_compat o1 of
             Some rules \<Rightarrow>
               (case (parse_version (or_default [] exact), parse_version (vr_value request)) of
                  (Panic, _) \<Rightarrow> Panic
                | (Err _, _) \<Rightarrow>
                    Ok (Incompatible (VarOptionMismatch
                      (IncompatibleBuildOptionInvalidVersion (vr_var request) (or_default [] exact) (vr_value request))))
                | (Ok _, Panic) \<Rightarrow> Panic
                | (Ok _, Err _) \<Rightarrow>
                    Ok (Incompatible (VarOptionMismatch
                      (IncompatibleBuildOptionInvalidVersion (vr_var request) (or_default [] exact) (vr_value request))))
                | (Ok base_version, Ok request_version) \<Rightarrow>
                    (case is_binary_compatible rules base_version request_version of
                       Incompatible incompatible \<Rightarrow>
                         Ok (Incompatible (VarOptionMismatch (IncompatibleBuildOptionWithContext (vr_var request)
                           (or_default ''None'' exact) (vr_value request) incompatible)))
                     | Compatible \<Rightarrow> Ok Compatible))
           | None \<Rightarrow>
               Ok (Incompatible (VarOptionMismatch
                 (IncompatibleBuildOption (vr_var request) (or_default ''None'' exact) (vr_value request)))))"

definition check_satisfies_var_request ::
  "(str \<Rightarrow> (str, version_range) outcome) \<Rightarrow> package_spec \<Rightarrow> str var_request \<Rightarrow> (unit, compatibility) outcome" where
  "check_satisfies_var_request parse_range self request =
     (case requested_option self (vr_var request) of
        None \<Rightarrow>
          Ok (if namespace (vr_var request) = Some (ident_name (ps_pkg self))
              then Incompatible (VarOptionMissing (vr_var request)) else Compatible)
      | Some (PkgOption o1) \<Rightarrow> pkg_opt_validate parse_range o1 (Some (vr_value request))
      | Some (VarOption o1) \<Rightarrow> check_var_value o1 request)"

fun matches_all_filters ::
  "(str \<Rightarrow> (str, version_range) outcome) \<Rightarrow> package_spec \<Rightarrow> (str \<times> str) list \<Rightarrow> (unit, bool) outcome" where
  "matches_all_filters parse_range self [] = Ok True"
| "matches_all_filters parse_range self ((name, v) # filters) =
     (if bt_get (option_values self) name = None then matches_all_filters parse_range self filters
      else and_then (check_satisfies_var_request parse_range self (var_request_new_with_value name v)) (\<lambda>c.
        if is_ok c then matches_all_filters parse_range self filters else Ok False))"

section \<open>When a package satisfies a request\<close>

text \<open>What a required option asks: that every request behind the merged one gave it a value, and the one that the package has.\<close>

fun required_option_given :: "str \<Rightarrow> request_options \<Rightarrow> opt \<Rightarrow> bool" where
  "required_option_given name options (PkgOption _) \<longleftrightarrow> True"
| "required_option_given name options (VarOption o1) \<longleftrightarrow>
     (vo_required o1 \<longrightarrow>
        (\<exists>v. bt_get options (with_namespace (vo_var o1) name) = Some (CompleteOption v)
           \<and> (var_opt_get_value o1 None = None \<or> var_opt_get_value o1 None = Some v)))"

lemma check_required_options_iff:
  "check_required_options name options opts = Compatible \<longleftrightarrow> list_all (required_option_given name options) opts"
  by (induction name options opts rule: check_required_options.induct)
    (auto simp: Let_def split: option.splits option_value.splits)

lemma package_satisfies_iff:
  "check_package_spec_satisfies_pkg_request spec request = Compatible \<longleftrightarrow>
     (let pkg_request = po_pkg_request request; pkg = pr_pkg pkg_request in
      ri_name pkg = ident_name (ps_pkg spec)
      \<and> (ps_deprecated spec \<longrightarrow> build_opt_eq (ri_build pkg) (Some (target (ps_pkg spec))))
      \<and> prerelease_allowed (pr_prerelease_policy pkg_request) (ident_version (ps_pkg spec))
      \<and> (is_source (target (ps_pkg spec)) \<and> \<not> build_opt_eq (ri_build pkg) (Some SourceBuild)
         \<or> (uses_step (ps_components spec))\<^sup>* `` set (ri_components pkg) \<subseteq> insert All (cs_name ` set (ps_components spec)))
      \<and> is_satisfied_by (Filter (ri_version pkg)) (versioned_of spec) Binary = Compatible
      \<and> (ri_build pkg = None \<or> build_opt_eq (ri_build pkg) (Some (target (ps_pkg spec))))
      \<and> list_all (required_option_given (ident_name (ps_pkg spec)) (po_options request)) (ps_options spec))"
proof -
  let ?policy = "pr_prerelease_policy (po_pkg_request request)"
  have policy: "prerelease_allowed ?policy v \<longleftrightarrow> \<not> ((?policy = None \<or> ?policy = Some ExcludeAll) \<and> v_pre v \<noteq> [])" for v
    by (cases ?policy; cases "the ?policy") (auto simp: prerelease_allowed_def)
  have missing: "missing_components spec cs = [] \<longleftrightarrow>
      (uses_step (ps_components spec))\<^sup>* `` set cs \<subseteq> insert All (cs_name ` set (ps_components spec))" for cs
    unfolding missing_components_def filter_empty_conv resolve_uses_reach [THEN conjunct2] by blast
  have none: "missing_components spec [] = []" unfolding missing by simp
  show ?thesis
    unfolding check_package_spec_satisfies_pkg_request_def Let_def check_required_options_iff [symmetric] policy missing [symmetric]
    using none
    by (auto simp del: is_satisfied_by.simps split: compatibility.splits if_splits)
qed

text \<open>
  C15: A package satisfies a request exactly when the name is right, a deprecated build was asked for by its build, a pre-release is
  allowed, every component that is reached from the requested ones by declared uses is a component of the package (unless a source
  build answers a request that is not for one), the version filter is satisfied, the build is the one that was asked for, and every
  required option was given its value by all the requests that were merged.
\<close>

theorem package_satisfies_request_iff:
  "check_package_spec_satisfies_pkg_request spec request = Compatible \<longleftrightarrow>
     (let pkg_request = po_pkg_request request; pkg = pr_pkg pkg_request in
      ri_name pkg = ident_name (ps_pkg spec)
      \<and> (ps_deprecated spec \<longrightarrow> build_opt_eq (ri_build pkg) (Some (target (ps_pkg spec))))
      \<and> prerelease_allowed (pr_prerelease_policy pkg_request) (ident_version (ps_pkg spec))
      \<and> (is_source (target (ps_pkg spec)) \<and> \<not> build_opt_eq (ri_build pkg) (Some SourceBuild)
         \<or> (uses_step (ps_components spec))\<^sup>* `` set (ri_components pkg) \<subseteq> insert All (cs_name ` set (ps_components spec)))
      \<and> is_satisfied_by (Filter (ri_version pkg)) (versioned_of spec) Binary = Compatible
      \<and> (ri_build pkg = None \<or> build_opt_eq (ri_build pkg) (Some (target (ps_pkg spec))))
      \<and> list_all (required_option_given (ident_name (ps_pkg spec)) (po_options request)) (ps_options spec))"
  by (rule package_satisfies_iff)

definition example_package :: "opt list \<Rightarrow> package_spec" where
  "example_package options =
     (package_new (ident_new (ident_new ''python'' (from_parts [3, 7])) (BuildId ''3I42H3S6'')))\<lparr>ps_options := options\<rparr>"

definition required_abi :: opt where
  "required_abi = VarOption (example_var_opt\<lparr>vo_var := ''abi'', vo_value := Some ''cp39''\<rparr>)"

definition request_with_abi :: "request_options \<Rightarrow> pkg_request_with_options" where
  "request_with_abi options = \<lparr>po_pkg_request = request_python [] None [Run], po_options = options\<rparr>"

theorem package_satisfies_request_witness:
  "check_package_spec_satisfies_pkg_request (example_package [required_abi]) (request_with_abi [(''python.abi'', CompleteOption ''cp39'')])
     = Compatible"
proof -
  let ?spec = "example_package [required_abi]" and ?request = "request_with_abi [(''python.abi'', CompleteOption ''cp39'')]"
  have names: "insert All (cs_name ` set (ps_components ?spec)) = {All, Build, Run}"
    by (auto simp: example_package_def package_new_def default_components_def default_build_def default_run_def default_component_def)
  have "missing_components ?spec [Run] = []" by code_simp
  then have uses: "(uses_step (ps_components ?spec))\<^sup>* `` set [Run] \<subseteq> insert All (cs_name ` set (ps_components ?spec))"
    unfolding missing_components_def filter_empty_conv resolve_uses_reach [THEN conjunct2] by blast
  have "ri_name (pr_pkg (po_pkg_request ?request)) = ident_name (ps_pkg ?spec)" "\<not> ps_deprecated ?spec"
    "prerelease_allowed (pr_prerelease_policy (po_pkg_request ?request)) (ident_version (ps_pkg ?spec))"
    "ri_components (pr_pkg (po_pkg_request ?request)) = [Run]"
    "is_satisfied_by (Filter (ri_version (pr_pkg (po_pkg_request ?request)))) (versioned_of ?spec) Binary = Compatible"
    "ri_build (pr_pkg (po_pkg_request ?request)) = None"
    by code_simp+
  moreover have "list_all (required_option_given (ident_name (ps_pkg ?spec)) (po_options ?request)) (ps_options ?spec)"
    unfolding check_required_options_iff [symmetric] by code_simp
  ultimately show ?thesis
    unfolding package_satisfies_request_iff Let_def using uses by (simp only:) simp
qed

text \<open>
  A package with a required option does not satisfy a merged request when one of the two requests behind it left the option out,
  whatever the other one says: the option is only partial after merging.
\<close>

theorem required_option_survives_merging:
  assumes "bt_wf (po_options self)" "bt_wf (po_options other)"
    and "with_options_restrict perms self other = (Compatible, merged)"
    and "VarOption o1 \<in> set (ps_options spec)" "vo_required o1"
    and "bt_get (po_options self) n = None \<or> bt_get (po_options other) n = None" "n = with_namespace (vo_var o1) (ident_name (ps_pkg spec))"
  shows "check_package_spec_satisfies_pkg_request spec merged \<noteq> Compatible"
proof -
  have "fst (pkg_request_restrict perms (po_pkg_request self) (po_pkg_request other)) = Compatible"
    using assms(3) by (auto simp: with_options_restrict_def Let_def split: prod.splits if_splits)
  from with_options_restrict_facts [OF assms(1,2) this assms(3)]
  have "bt_get (po_options merged) n = merged_option (bt_get (po_options self) n) (bt_get (po_options other) n)" by blast
  with assms(6) have "bt_get (po_options merged) n \<noteq> Some (CompleteOption v)" for v
    by (cases "bt_get (po_options self) n"; cases "bt_get (po_options other) n") auto
  with assms(4,5,7) have "\<not> list_all (required_option_given (ident_name (ps_pkg spec)) (po_options merged)) (ps_options spec)"
    by (force simp: list_all_iff)
  then show ?thesis unfolding package_satisfies_iff Let_def by blast
qed

theorem required_option_survives_merging_witness:
  "check_package_spec_satisfies_pkg_request (example_package [required_abi])
     (snd (with_options_restrict lexicographic_pairs (request_with_abi [(''python.abi'', CompleteOption ''cp39'')]) (request_with_abi [])))
     \<noteq> Compatible"
proof -
  let ?self = "request_with_abi [(''python.abi'', CompleteOption ''cp39'')]" and ?other = "request_with_abi []"
  obtain result merged where run: "with_options_restrict lexicographic_pairs ?self ?other = (result, merged)" by fastforce
  moreover have "fst (with_options_restrict lexicographic_pairs ?self ?other) = Compatible" by code_simp
  ultimately have ok: "with_options_restrict lexicographic_pairs ?self ?other = (Compatible, merged)" by simp
  have wf: "bt_wf (po_options ?self)" "bt_wf (po_options ?other)" by (simp_all add: request_with_abi_def)
  have opt: "VarOption (example_var_opt\<lparr>vo_var := ''abi'', vo_value := Some ''cp39''\<rparr>) \<in> set (ps_options (example_package [required_abi]))"
    "vo_required (example_var_opt\<lparr>vo_var := ''abi'', vo_value := Some ''cp39''\<rparr>)"
    by (simp_all add: example_package_def required_abi_def example_var_opt_def)
  have n: "bt_get (po_options ?self) n = None \<or> bt_get (po_options ?other) n = None" for n by (simp add: request_with_abi_def)
  show ?thesis using required_option_survives_merging [OF wf ok opt n refl] ok by simp
qed

section \<open>Requirements of loaded packages\<close>

lemma calculate_requirements_kept:
  "calculate_install_requirements_with_options options requirements = Ok out \<Longrightarrow> map pinned_of_with_options out = requirements"
  unfolding calculate_install_requirements_with_options_def by (rule convert_requests_kept)

text \<open>
  The requirements with options of a package follow its requirements: they name the same requests in the same order after a package
  is made from its parts, and after its build or install section was changed.
\<close>

theorem package_requirements_follow:
  "(package_new_from_parts pkg rules deprecated options requirements embedded components = Ok spec \<longrightarrow>
      map pinned_of_with_options (runtime_requirements spec) = ps_requirements spec)
   \<and> (build_mut self f = Ok spec \<longrightarrow> map pinned_of_with_options (runtime_requirements spec) = ps_requirements spec)
   \<and> (install_mut self g = Ok spec \<longrightarrow> map pinned_of_with_options (runtime_requirements spec) = ps_requirements spec)
   \<and> (insert_or_merge_install_requirement perms self req = Ok (result, spec) \<longrightarrow>
      map pinned_of_with_options (runtime_requirements spec) = ps_requirements spec)"
  using calculate_requirements_kept
  by (auto simp: package_new_from_parts_def build_mut_def install_mut_def insert_or_merge_install_requirement_def
      package_recalculate_def runtime_requirements_def split: prod.splits)

theorem package_requirements_follow_witness:
  "\<exists>spec. package_new_from_parts (ident_new (ident_new ''maya'' (from_parts [1])) (BuildId ''3I42H3S6'')) default_compat False []
       example_requests [] default_components = Ok spec
     \<and> map pinned_of_with_options (runtime_requirements spec) = ps_requirements spec"
proof -
  let ?new = "package_new_from_parts (ident_new (ident_new ''maya'' (from_parts [1])) (BuildId ''3I42H3S6'')) default_compat False []
       example_requests [] default_components"
  have "is_ok_result ?new" by code_simp
  then obtain spec where spec: "?new = Ok spec" unfolding is_ok_result_iff by blast
  with package_requirements_follow [THEN conjunct1, rule_format, OF spec] show ?thesis by blast
qed

text \<open>
  A source package that is loaded with requirements loses them from its install section, and its runtime requirements still name
  all of them: pruning does not update the list that they are taken from.
\<close>

theorem source_package_keeps_runtime_requirements:
  assumes "package_load pkg rules deprecated options requirements embedded components = Ok spec" "is_source (target pkg)"
  shows "ps_requirements spec = [] \<and> map pinned_of_with_options (runtime_requirements spec) = requirements"
  using assms calculate_requirements_kept
  by (auto simp: package_load_def package_new_from_parts_def prune_for_source_build_def runtime_requirements_def)

theorem source_package_keeps_runtime_requirements_witness:
  "\<exists>spec. package_load (ident_new (ident_new ''maya'' (from_parts [1])) SourceBuild) default_compat False [] example_requests []
       default_components = Ok spec
     \<and> ps_requirements spec = [] \<and> map pinned_of_with_options (runtime_requirements spec) = example_requests"
proof -
  let ?load = "package_load (ident_new (ident_new ''maya'' (from_parts [1])) SourceBuild) default_compat False [] example_requests []
       default_components"
  have "is_ok_result ?load" by code_simp
  then obtain spec where spec: "?load = Ok spec" unfolding is_ok_result_iff by blast
  have "is_source (target (ident_new (ident_new ''maya'' (from_parts [1])) SourceBuild))" by code_simp
  from source_package_keeps_runtime_requirements [OF spec this] spec show ?thesis by blast
qed

text \<open>
  An embedded package that is loaded has no runtime requirements, whatever requirements it is stored with, and neither has the
  package that the solver makes from it; the same package that is changed after loading has them.
\<close>

theorem embedded_package_loses_runtime_requirements:
  "runtime_requirements (package_of_embedded (embedded_load pkg rules deprecated options requirements components)) = []
   \<and> (embedded_build_mut (embedded_load pkg rules deprecated options requirements components) (\<lambda>options. options) = Ok embedded \<longrightarrow>
        map pinned_of_with_options (runtime_requirements (package_of_embedded embedded)) = requirements)"
  using calculate_requirements_kept
  by (auto simp: embedded_load_def package_of_embedded_def runtime_requirements_def embedded_build_mut_def)

theorem embedded_package_loses_runtime_requirements_witness:
  "\<exists>embedded. embedded_build_mut (embedded_load (ident_new (ident_new ''python'' (from_parts [3, 7])) SourceBuild)
       default_compat False [] example_requests default_components) (\<lambda>options. options) = Ok embedded
     \<and> map pinned_of_with_options (runtime_requirements (package_of_embedded embedded)) = example_requests"
proof -
  let ?change = "embedded_build_mut (embedded_load (ident_new (ident_new ''python'' (from_parts [3, 7])) SourceBuild)
       default_compat False [] example_requests default_components) (\<lambda>options. options)"
  have "is_ok_result ?change" by code_simp
  then obtain embedded where e: "?change = Ok embedded" unfolding is_ok_result_iff by blast
  from embedded_package_loses_runtime_requirements [THEN conjunct2, rule_format, OF e] e show ?thesis by blast
qed

section \<open>Digests of builds\<close>

definition digestible :: "option_map \<Rightarrow> bool" where
  "digestible m \<longleftrightarrow> list_all (\<lambda>(n, v). CHR ''='' \<notin> set n \<and> CHR 0x00 \<notin> set v) m"

text \<open>
  The bytes that a build is identified by determine its options: two option maps whose names have no \<open>=\<close> and whose values have no
  zero byte contribute the same bytes only when they are the same.
\<close>

theorem digest_options_injective:
  "digestible a \<Longrightarrow> digestible b \<Longrightarrow> digest_options a = digest_options b \<Longrightarrow> a = b"
proof (induction a arbitrary: b)
  case Nil
  then show ?case by (cases b) (auto simp: digest_options_def)
next
  case (Cons x a)
  obtain n v where x: "x = (n, v)" by fastforce
  obtain m w b' where b: "b = (m, w) # b'" using Cons.prems(3) by (cases b) (auto simp: digest_options_def x)
  have eq: "n @ CHR ''='' # (v @ CHR 0x00 # digest_options a) = m @ CHR ''='' # (w @ CHR 0x00 # digest_options b')"
    using Cons.prems(3) by (simp add: digest_options_def x b)
  have names: "CHR ''='' \<notin> set n" "CHR ''='' \<notin> set m" and zeros: "CHR 0x00 \<notin> set v" "CHR 0x00 \<notin> set w"
    using Cons.prems(1,2) by (auto simp: digestible_def x b)
  from arg_cong [OF eq, of "split_once CHR ''=''"] names have "n = m" and rest: "v @ CHR 0x00 # digest_options a = w @ CHR 0x00 # digest_options b'"
    by simp_all
  from arg_cong [OF rest, of "split_once CHR 0x00"] zeros have "v = w" "digest_options a = digest_options b'" by simp_all
  with Cons.IH [of b'] Cons.prems(1,2) \<open>n = m\<close> show ?case by (simp add: digestible_def x b)
qed

theorem digest_options_injective_witness:
  "digest_options [(''abi'', ''cp37''), (''debug'', ''on'')] = digest_options [(''abi'', ''cp37''), (''debug'', ''on'')]
   \<and> [(''abi'', ''cp37''), (''debug'', ''on'')] = [(''abi'', ''cp37''), (''debug'', ''on'')]"
proof -
  have d: "digestible [(''abi'', ''cp37''), (''debug'', ''on'')]" by code_simp
  show ?thesis using digest_options_injective [OF d d refl] by blast
qed

section \<open>Requirements for downstream packages\<close>

definition downstream_vars :: "package_spec \<Rightarrow> var_opt list" where
  "downstream_vars self =
     namespaced_vars (ident_name (ps_pkg self)) (ps_options self)
     @ concat (map (\<lambda>stub. namespaced_vars (ident_name (eps_pkg stub)) (eps_options stub)) (ps_embedded self))"

definition downstream_request :: "var_opt \<Rightarrow> request_with_options" where
  "downstream_request v = OptVar \<lparr>vr_var = vo_var v, vr_value = or_default [] (var_opt_get_value v None), vr_description = vo_description v\<rparr>"

lemma insert_var_requests:
  assumes "list_all (\<lambda>r. \<exists>v. r = OptVar v) self"
  shows "insert_or_merge request_with_options_name (merge_with_options perms) self (OptVar v) =
    (if vr_var v \<in> request_with_options_name ` set self then (Err OnlyPackagesMerge, self) else (Ok (), self @ [OptVar v]))"
  using assms by (induction self) auto

lemma try_from_var_requests:
  assumes "list_all (\<lambda>r. \<exists>v. r = OptVar v) out" "list_all (\<lambda>r. \<exists>v. r = OptVar v) items" "distinct (map request_with_options_name out)"
  shows "try_from_loop (insert_or_merge_with_options perms) out items =
    (if distinct (map request_with_options_name (out @ items)) then Ok (out @ items) else Err OnlyPackagesMerge)"
  using assms
proof (induction items arbitrary: out)
  case (Cons item items)
  then obtain v where v: "item = OptVar v" by auto
  show ?case
  proof (cases "vr_var v \<in> request_with_options_name ` set out")
    case True
    then show ?thesis using Cons.prems insert_var_requests [of out perms v]
      by (auto simp: v insert_or_merge_with_options_def)
  next
    case False
    then show ?thesis using Cons.IH [of "out @ [OptVar v]"] Cons.prems insert_var_requests [of out perms v]
      by (auto simp: v insert_or_merge_with_options_def)
  qed
qed simp

lemma downstream_requirements_eq:
  "downstream_requirements perms self keep =
     (if distinct (map vo_var (filter keep (downstream_vars self)))
      then Ok (map downstream_request (filter keep (downstream_vars self))) else Panic)"
proof -
  let ?requests = "map downstream_request (filter keep (downstream_vars self))"
  have names: "map request_with_options_name ?requests = map vo_var (filter keep (downstream_vars self))"
    by (simp add: downstream_request_def)
  have vars: "list_all (\<lambda>r. \<exists>v. r = OptVar v) ?requests" by (auto simp: downstream_request_def list_all_iff)
  have "downstream_requirements perms self keep = (case try_from_loop (insert_or_merge_with_options perms) [] ?requests of
      Ok reqs \<Rightarrow> Ok reqs | _ \<Rightarrow> Panic)"
    by (simp add: downstream_requirements_def Let_def downstream_vars_def try_from_iter_with_options_def downstream_request_def [abs_def])
  moreover have "try_from_loop (insert_or_merge_with_options perms) [] ?requests =
      (if distinct (map vo_var (filter keep (downstream_vars self))) then Ok ?requests else Err OnlyPackagesMerge)"
    using try_from_var_requests [OF _ vars, of "[]" perms] unfolding append_Nil names by simp
  ultimately show ?thesis by simp
qed


definition maya_embeds_python :: package_spec where
  "maya_embeds_python =
     (package_new (ident_new (ident_new ''maya'' (from_parts [1])) (BuildId ''3I42H3S6'')))
       \<lparr>ps_options := [VarOption (example_var_opt\<lparr>vo_var := ''python.abi''\<rparr>)],
        ps_embedded := [(embedded_new (ident_new (ident_new ''python'' (from_parts [3, 7])) (EmbeddedBuild EmbeddedUnknown)))
          \<lparr>eps_options := [VarOption (example_var_opt\<lparr>vo_var := ''abi''\<rparr>)]\<rparr>]\<rparr>"

text \<open>
  A package whose own option and an option of a package that it embeds get the same name panics, although neither list of options
  has a name twice.
\<close>

theorem downstream_panics_on_embedded_option:
  "unique_options [] (ps_options maya_embeds_python) = Ok ()
   \<and> list_all (\<lambda>stub. unique_options [] (eps_options stub) = Ok ()) (ps_embedded maya_embeds_python)
   \<and> downstream_build_requirements perms maya_embeds_python = Panic"
proof -
  have "\<not> distinct (map vo_var (filter (\<lambda>o1. effective_inheritance o1 \<noteq> Weak) (downstream_vars maya_embeds_python)))" by code_simp
  moreover have "unique_options [] (ps_options maya_embeds_python) = Ok ()"
    "list_all (\<lambda>stub. unique_options [] (eps_options stub) = Ok ()) (ps_embedded maya_embeds_python)"
    by code_simp+
  ultimately show ?thesis by (simp add: downstream_build_requirements_def downstream_requirements_eq)
qed

end
