(* ===== verification/Solver_State.thy ===== *)
theory Solver_State
  imports Package_Specs
begin

text \<open>
  The states of the package solver (\<^verbatim>\<open>crates/spk-solve/crates/graph/src/graph.rs\<close>, \<^verbatim>\<open>crates/spk-solve/crates/solution/src/solution.rs\<close> and
  \<^verbatim>\<open>crates/spk-solve/crates/package-iterator/src/promotion_patterns.rs\<close>): the requests, packages and options of a state, its identifier,
  the changes that lead from one state to another, merging the requests for a package, and the solution of a state. The hash function of
  the standard library is a parameter, and so are the glob patterns that promote requests and the order in which the rules of a
  version filter are compared. The caches of a state are its derived values, and the counters for statistics are left out.
\<close>

section \<open>Sources of packages\<close>

record repository_handle =
  rh_name :: str
  rh_address :: str

text \<open>A recipe is represented by its identifier.\<close>

datatype package_source =
    FromRepository repository_handle "(component, str) hash_map"
  | BuildFromSource version_ident
  | EmbeddedSourceOf build_ident "component list"
  | SpkInternalTestSource

fun is_build_from_source :: "package_source \<Rightarrow> bool" where
  "is_build_from_source (BuildFromSource _) = True"
| "is_build_from_source _ = False"

text \<open>The order of sources. The comparison of two repositories calls itself with the same arguments.\<close>

partial_function (option) source_cmp :: "(version_ident \<Rightarrow> version_ident \<Rightarrow> ordering) \<Rightarrow> package_source \<Rightarrow> package_source \<Rightarrow> ordering option" where
  [code]: "source_cmp ident_cmp self other =
     (case (self, other) of
        (FromRepository _ _, FromRepository _ _) \<Rightarrow> source_cmp ident_cmp self other
      | (FromRepository _ _, _) \<Rightarrow> Some Less
      | (_, FromRepository _ _) \<Rightarrow> Some Greater
      | (EmbeddedSourceOf _ _, EmbeddedSourceOf _ _) \<Rightarrow> Some Equal
      | (EmbeddedSourceOf _ _, SpkInternalTestSource) \<Rightarrow> Some Greater
      | (SpkInternalTestSource, EmbeddedSourceOf _ _) \<Rightarrow> Some Less
      | (EmbeddedSourceOf _ _, BuildFromSource _) \<Rightarrow> Some Less
      | (SpkInternalTestSource, BuildFromSource _) \<Rightarrow> Some Less
      | (BuildFromSource this, BuildFromSource that) \<Rightarrow> Some (ident_cmp this that)
      | (BuildFromSource _, _) \<Rightarrow> Some Greater
      | (SpkInternalTestSource, SpkInternalTestSource) \<Rightarrow> Some Equal)"

section \<open>Identifiers of states\<close>

type_synonym u64 = "64 word"

text \<open>What is fed to a hasher. A request or a package is cached with its own hash, and lists of them are hashed by these hashes.\<close>

datatype hash_input =
    HashPkgRequest pkg_request_with_options
  | HashVarRequest "str \<times> str \<times> str option"
  | HashSpec package_spec
  | HashOptions option_map
  | HashValues "u64 list"

type_synonym hasher = "hash_input \<Rightarrow> u64"

record state_id =
  sid_pkg_requests_hash :: u64
  sid_var_requests_hash :: u64
  sid_var_requests_membership :: "u64 set"
  sid_packages_hash :: u64
  sid_options_hash :: u64
  sid_full_hash :: u64

type_synonym state_packages = "(str, package_spec \<times> package_source \<times> state_id) btree_map"

text \<open>A variable request in the set of a state, in the order of its fields.\<close>

type_synonym var_key = "str \<times> str \<times> str option"

definition var_key :: "str var_request \<Rightarrow> var_key" where
  "var_key r = (vr_var r, vr_value r, vr_description r)"

definition state_id_new :: "hasher \<Rightarrow> u64 \<Rightarrow> u64 \<Rightarrow> u64 set \<Rightarrow> u64 \<Rightarrow> u64 \<Rightarrow> state_id" where
  "state_id_new hasher pkg_requests_hash var_requests_hash membership packages_hash options_hash =
     \<lparr>sid_pkg_requests_hash = pkg_requests_hash, sid_var_requests_hash = var_requests_hash,
      sid_var_requests_membership = membership, sid_packages_hash = packages_hash, sid_options_hash = options_hash,
      sid_full_hash = hasher (HashValues [pkg_requests_hash, var_requests_hash, packages_hash, options_hash])\<rparr>"

definition options_hash :: "hasher \<Rightarrow> option_map \<Rightarrow> u64" where
  "options_hash hasher options = hasher (HashOptions options)"

definition pkg_requests_hash :: "hasher \<Rightarrow> pkg_request_with_options list \<Rightarrow> u64" where
  "pkg_requests_hash hasher pkg_requests = hasher (HashValues (map (\<lambda>r. hasher (HashPkgRequest r)) pkg_requests))"

definition packages_hash :: "hasher \<Rightarrow> state_packages \<Rightarrow> u64" where
  "packages_hash hasher packages = hasher (HashValues (map (\<lambda>(_, spec, _). hasher (HashSpec spec)) packages))"

definition var_requests_hash :: "hasher \<Rightarrow> var_key btree_set \<Rightarrow> u64 \<times> u64 set" where
  "var_requests_hash hasher var_requests =
     (let hashes = map (\<lambda>r. hasher (HashVarRequest r)) var_requests in (hasher (HashValues hashes), set hashes))"

definition id_with_options :: "hasher \<Rightarrow> state_id \<Rightarrow> option_map \<Rightarrow> state_id" where
  "id_with_options hasher self options =
     state_id_new hasher (sid_pkg_requests_hash self) (sid_var_requests_hash self) (sid_var_requests_membership self)
       (sid_packages_hash self) (options_hash hasher options)"

definition id_with_pkg_requests :: "hasher \<Rightarrow> state_id \<Rightarrow> pkg_request_with_options list \<Rightarrow> state_id" where
  "id_with_pkg_requests hasher self pkg_requests =
     state_id_new hasher (pkg_requests_hash hasher pkg_requests) (sid_var_requests_hash self) (sid_var_requests_membership self)
       (sid_packages_hash self) (sid_options_hash self)"

definition id_with_packages :: "hasher \<Rightarrow> state_id \<Rightarrow> state_packages \<Rightarrow> state_id" where
  "id_with_packages hasher self packages =
     state_id_new hasher (sid_pkg_requests_hash self) (sid_var_requests_hash self) (sid_var_requests_membership self)
       (packages_hash hasher packages) (sid_options_hash self)"

definition id_with_var_requests_and_options :: "hasher \<Rightarrow> state_id \<Rightarrow> var_key btree_set \<Rightarrow> option_map \<Rightarrow> state_id" where
  "id_with_var_requests_and_options hasher self var_requests options =
     (case var_requests_hash hasher var_requests of (h, membership) \<Rightarrow>
        state_id_new hasher (sid_pkg_requests_hash self) h membership (sid_packages_hash self) (options_hash hasher options))"

section \<open>States\<close>

record solver_state =
  st_pkg_requests :: "pkg_request_with_options list"
  st_var_requests :: "var_key btree_set"
  st_packages :: state_packages
  st_packages_in_solve_order :: "package_spec list"
  st_options :: option_map
  st_state_id :: state_id
  st_state_depth :: u64

definition spec_name :: "package_spec \<Rightarrow> str" where
  "spec_name spec = ident_name (ps_pkg spec)"

definition req_name :: "pkg_request_with_options \<Rightarrow> str" where
  "req_name r = ri_name (pr_pkg (po_pkg_request r))"

definition append_package :: "hasher \<Rightarrow> solver_state option \<Rightarrow> solver_state \<Rightarrow> package_spec \<Rightarrow> package_source \<Rightarrow> solver_state" where
  "append_package hasher parent self spec source =
     (let packages = bt_insert (spec_name spec) (spec, source, st_state_id self) (st_packages self) in
      self\<lparr>st_packages := packages, st_packages_in_solve_order := st_packages_in_solve_order self @ [spec],
           st_state_id := id_with_packages hasher (st_state_id self) packages,
           st_state_depth := (case parent of Some p \<Rightarrow> st_state_depth p + 1 | None \<Rightarrow> 0)\<rparr>)"

definition with_options :: "hasher \<Rightarrow> solver_state \<Rightarrow> solver_state \<Rightarrow> option_map \<Rightarrow> solver_state" where
  "with_options hasher self parent options =
     self\<lparr>st_options := options, st_state_id := id_with_options hasher (st_state_id self) options,
          st_state_depth := st_state_depth parent + 1\<rparr>"

definition with_pkg_requests :: "hasher \<Rightarrow> solver_state \<Rightarrow> solver_state \<Rightarrow> pkg_request_with_options list \<Rightarrow> solver_state" where
  "with_pkg_requests hasher self parent pkg_requests =
     self\<lparr>st_pkg_requests := pkg_requests, st_state_id := id_with_pkg_requests hasher (st_state_id self) pkg_requests,
          st_state_depth := st_state_depth parent + 1\<rparr>"

definition with_var_requests_and_options ::
  "hasher \<Rightarrow> solver_state \<Rightarrow> solver_state \<Rightarrow> var_key btree_set \<Rightarrow> option_map \<Rightarrow> solver_state" where
  "with_var_requests_and_options hasher self parent var_requests options =
     self\<lparr>st_var_requests := var_requests, st_options := options,
          st_state_id := id_with_var_requests_and_options hasher (st_state_id self) var_requests options,
          st_state_depth := st_state_depth parent + 1\<rparr>"

definition state_new ::
  "hasher \<Rightarrow> pkg_request_with_options list \<Rightarrow> str var_request list \<Rightarrow> (package_spec \<times> package_source) list \<Rightarrow> (str \<times> str) list
    \<Rightarrow> solver_state" where
  "state_new hasher pkg_requests var_requests packages options =
     (let vars = bs_from_list (map var_key var_requests); opts = bt_from_list options in
      case var_requests_hash hasher vars of (var_hash, membership) \<Rightarrow>
        fold (\<lambda>(package, source) s. append_package hasher None s package source) packages
          \<lparr>st_pkg_requests = pkg_requests, st_var_requests = vars, st_packages = [], st_packages_in_solve_order = [],
           st_options = opts,
           st_state_id = state_id_new hasher (pkg_requests_hash hasher pkg_requests) var_hash membership 0 (options_hash hasher opts),
           st_state_depth = 0\<rparr>)"

definition default_state :: "hasher \<Rightarrow> solver_state" where
  "default_state hasher = state_new hasher [] [] [] []"

definition contains_var_request :: "hasher \<Rightarrow> solver_state \<Rightarrow> str var_request \<Rightarrow> bool" where
  "contains_var_request hasher self r \<longleftrightarrow> hasher (HashVarRequest (var_key r)) \<in> sid_var_requests_membership (st_state_id self)"

definition get_current_resolve :: "solver_state \<Rightarrow> str \<Rightarrow> (package_spec \<times> package_source \<times> state_id) option" where
  "get_current_resolve self name = bt_get (st_packages self) name"

section \<open>Merging the requests for a package\<close>

datatype merged_error = NoRequestFor str | MergeConflict pkg_request incompatible_reason

text \<open>\<open>entry(key).or_default().extend(requesters)\<close>.\<close>

definition extend_requesters ::
  "(str, requested_by list) btree_map \<Rightarrow> (str, requested_by list) btree_map \<Rightarrow> (str, requested_by list) btree_map" where
  "extend_requesters ours theirs =
     fold (\<lambda>(key, rs) m. bt_insert key (or_default [] (bt_get m key) @ rs) m) theirs ours"

fun merged_request_loop ::
  "pair_order \<Rightarrow> pkg_request_with_options \<Rightarrow> pkg_request_with_options list \<Rightarrow> (merged_error, pkg_request_with_options) outcome" where
  "merged_request_loop perms merged [] = Ok merged"
| "merged_request_loop perms merged (request # requests) =
     (if req_name request \<noteq> req_name merged then merged_request_loop perms merged requests
      else case with_options_restrict perms merged request of
             (Compatible, merged) \<Rightarrow> merged_request_loop perms merged requests
           | (Incompatible incompatible, merged) \<Rightarrow>
               Err (MergeConflict
                 ((po_pkg_request merged)\<lparr>pr_requested_by := extend_requesters (pr_requested_by (po_pkg_request merged))
                    (pr_requested_by (po_pkg_request request))\<rparr>) incompatible))"

fun get_merged_request ::
  "pair_order \<Rightarrow> pkg_request_with_options list \<Rightarrow> str \<Rightarrow> (merged_error, pkg_request_with_options) outcome" where
  "get_merged_request perms [] name = Err (NoRequestFor name)"
| "get_merged_request perms (request # requests) name =
     (if req_name request \<noteq> name then get_merged_request perms requests name else merged_request_loop perms request requests)"

definition conflicting_request_for_package :: "solver_state \<Rightarrow> str \<Rightarrow> pkg_request option" where
  "conflicting_request_for_package self name =
     (case filter (\<lambda>r. req_name r = name) (st_pkg_requests self) of
        [] \<Rightarrow> None
      | first # requests \<Rightarrow>
          Some (fold (\<lambda>request combined.
              combined\<lparr>pr_requested_by := extend_requesters (pr_requested_by combined) (pr_requested_by (po_pkg_request request))\<rparr>)
            requests (po_pkg_request first)))"

datatype next_request = NextRequest pkg_request_with_options | NextConflict pkg_request merged_error

fun next_request_loop :: "pair_order \<Rightarrow> solver_state \<Rightarrow> pkg_request_with_options list \<Rightarrow> (unit, next_request option) outcome" where
  "next_request_loop perms self [] = Ok None"
| "next_request_loop perms self (request # requests) =
     (if bt_contains_key (st_packages self) (req_name request) then next_request_loop perms self requests
      else if pr_inclusion_policy (po_pkg_request request) = IfAlreadyPresent then next_request_loop perms self requests
      else case get_merged_request perms (st_pkg_requests self) (req_name request) of
             Ok merged \<Rightarrow> Ok (Some (NextRequest merged))
           | Err (MergeConflict conflict cause) \<Rightarrow> Ok (Some (NextConflict conflict (MergeConflict conflict cause)))
           | Err err \<Rightarrow>
               (case conflicting_request_for_package self (req_name request) of
                  Some r \<Rightarrow> Ok (Some (NextConflict r err))
                | None \<Rightarrow> Panic)
           | Panic \<Rightarrow> Panic)"

definition get_next_request :: "pair_order \<Rightarrow> solver_state \<Rightarrow> (unit, next_request option) outcome" where
  "get_next_request perms self = next_request_loop perms self (st_pkg_requests self)"

fun unresolved_loop ::
  "pair_order \<Rightarrow> solver_state \<Rightarrow> (str, pkg_request_with_options) hash_map \<Rightarrow> pkg_request_with_options list
    \<Rightarrow> (merged_error, (str, pkg_request_with_options) hash_map) outcome" where
  "unresolved_loop perms self unresolved [] = Ok unresolved"
| "unresolved_loop perms self unresolved (req # reqs) =
     (if hm_get unresolved (req_name req) \<noteq> None then unresolved_loop perms self unresolved reqs
      else if get_current_resolve self (req_name req) = None
      then and_then (get_merged_request perms (st_pkg_requests self) (req_name req)) (\<lambda>merged.
             unresolved_loop perms self (hm_insert (req_name req) merged unresolved) reqs)
      else unresolved_loop perms self unresolved reqs)"

definition get_unresolved_requests ::
  "pair_order \<Rightarrow> solver_state \<Rightarrow> (merged_error, (str, pkg_request_with_options) hash_map) outcome" where
  "get_unresolved_requests perms self = unresolved_loop perms self [] (st_pkg_requests self)"

section \<open>Changes\<close>

definition promotion_key :: "(str \<Rightarrow> bool) list \<Rightarrow> str \<Rightarrow> nat" where
  "promotion_key patterns name =
     (case position (\<lambda>pattern. pattern name) patterns of Some index \<Rightarrow> index | None \<Rightarrow> 2 ^ 64 - 1)"

definition promote_names :: "(str \<Rightarrow> bool) list \<Rightarrow> ('a \<Rightarrow> str) \<Rightarrow> 'a list \<Rightarrow> 'a list" where
  "promote_names patterns f names = sort_key (\<lambda>x. promotion_key patterns (f x)) names"

text \<open>The pass over the requests of a state with the request that is still to be merged: what is left of a request after a merge that
  failed goes on.\<close>

fun merge_into ::
  "pair_order \<Rightarrow> str \<Rightarrow> pkg_request_with_options option \<Rightarrow> pkg_request_with_options list
    \<Rightarrow> pkg_request_with_options option \<times> pkg_request_with_options list" where
  "merge_into perms name cloned [] = (cloned, [])"
| "merge_into perms name cloned (existing # requests) =
     (case cloned of
        None \<Rightarrow> map_prod id (Cons existing) (merge_into perms name None requests)
      | Some request \<Rightarrow>
          if req_name existing \<noteq> name then map_prod id (Cons existing) (merge_into perms name cloned requests)
          else case with_options_restrict perms request existing of
                 (Compatible, request) \<Rightarrow> map_prod id (Cons request) (merge_into perms name None requests)
               | (Incompatible _, request) \<Rightarrow> map_prod id (Cons existing) (merge_into perms name (Some request) requests))"

definition request_package_requests ::
  "pair_order \<Rightarrow> (str \<Rightarrow> bool) list \<Rightarrow> pkg_request_with_options \<Rightarrow> bool \<Rightarrow> pkg_request_with_options list \<Rightarrow> pkg_request_with_options list" where
  "request_package_requests perms patterns request prioritize requests =
     (case merge_into perms (req_name request) (Some request) requests of
        (cloned, new_requests) \<Rightarrow>
          let new_requests =
            (if cloned = None then new_requests
             else promote_names patterns req_name
                    (sort_key (\<lambda>req. if req_name req = req_name request then (0::int) else 1) new_requests @ [request])) in
          if prioritize then sort_key (\<lambda>req. if req_name req \<noteq> req_name request then (1::int) else 0) new_requests
          else new_requests)"

fun compute_new_options :: "option_map \<Rightarrow> (str \<times> str) list \<Rightarrow> bool \<Rightarrow> option_map" where
  "compute_new_options options [] update_existing = options"
| "compute_new_options options ((k, v) # new_options) update_existing =
     (if bt_get options k \<noteq> None \<and> v = [] \<and> \<not> update_existing then compute_new_options options new_options update_existing
      else compute_new_options (bt_insert k v options) new_options update_existing)"

datatype change =
    RequestPackage pkg_request_with_options bool
  | RequestVar "str var_request"
  | SetOptions option_map
  | SetPackage package_spec package_source
  | SetPackageBuild package_spec package_source
  | StepBack str solver_state

fun change_apply :: "pair_order \<Rightarrow> (str \<Rightarrow> bool) list \<Rightarrow> hasher \<Rightarrow> change \<Rightarrow> solver_state \<Rightarrow> solver_state \<Rightarrow> solver_state" where
  "change_apply perms patterns hasher (RequestPackage request prioritize) parent state =
     with_pkg_requests hasher state parent (request_package_requests perms patterns request prioritize (st_pkg_requests state))"
| "change_apply perms patterns hasher (RequestVar request) parent state =
     with_var_requests_and_options hasher state parent
       (if contains_var_request hasher state request then st_var_requests state else bs_insert (var_key request) (st_var_requests state))
       (compute_new_options (st_options state) [(vr_var request, vr_value request)] True)"
| "change_apply perms patterns hasher (SetOptions options) parent state =
     with_options hasher state parent (compute_new_options (st_options state) options False)"
| "change_apply perms patterns hasher (SetPackage spec source) parent state = append_package hasher (Some parent) state spec source"
| "change_apply perms patterns hasher (SetPackageBuild spec source) parent state = append_package hasher (Some parent) state spec source"
| "change_apply perms patterns hasher (StepBack cause destination) parent state = destination"

fun decision_loop :: "pair_order \<Rightarrow> (str \<Rightarrow> bool) list \<Rightarrow> hasher \<Rightarrow> solver_state \<Rightarrow> solver_state \<Rightarrow> change list \<Rightarrow> solver_state" where
  "decision_loop perms patterns hasher parent state [] = state"
| "decision_loop perms patterns hasher parent state (c # changes) =
     decision_loop perms patterns hasher parent (change_apply perms patterns hasher c parent state) changes"

definition decision_apply :: "pair_order \<Rightarrow> (str \<Rightarrow> bool) list \<Rightarrow> hasher \<Rightarrow> change list \<Rightarrow> solver_state \<Rightarrow> solver_state" where
  "decision_apply perms patterns hasher changes parent = decision_loop perms patterns hasher parent parent changes"

section \<open>Solutions\<close>

record solved_request =
  sr_request :: pkg_request_with_options
  sr_spec :: package_spec
  sr_source :: package_source

record solution =
  so_options :: option_map
  so_resolved :: "solved_request list"

text \<open>\<open>add\<close> replaces the entry of an equal request. The derived equality of requests is a parameter \<open>eq\<close>: it follows the equalities of versions
  and builds, which are coarser than the equality of their representations.\<close>

fun replace_solved :: "(pkg_request_with_options \<Rightarrow> pkg_request_with_options \<Rightarrow> bool) \<Rightarrow> solved_request list \<Rightarrow> solved_request \<Rightarrow> solved_request list" where
  "replace_solved eq [] new = [new]"
| "replace_solved eq (r # rs) new = (if eq (sr_request r) (sr_request new) then new # rs else r # replace_solved eq rs new)"

definition solution_add ::
  "(pkg_request_with_options \<Rightarrow> pkg_request_with_options \<Rightarrow> bool) \<Rightarrow> solution \<Rightarrow> pkg_request_with_options \<Rightarrow> package_spec \<Rightarrow> package_source \<Rightarrow> solution" where
  "solution_add eq self request spec source =
     self\<lparr>so_resolved := replace_solved eq (so_resolved self) \<lparr>sr_request = request, sr_spec = spec, sr_source = source\<rparr>\<rparr>"

definition solution_get :: "solution \<Rightarrow> str \<Rightarrow> solved_request option" where
  "solution_get self name = find (\<lambda>r. req_name (sr_request r) = name) (so_resolved self)"

fun as_solution_loop :: "(pkg_request_with_options \<Rightarrow> pkg_request_with_options \<Rightarrow> bool) \<Rightarrow> pair_order \<Rightarrow> solver_state \<Rightarrow> solution \<Rightarrow> package_spec list \<Rightarrow> (merged_error, solution) outcome" where
  "as_solution_loop eq perms self solution [] = Ok solution"
| "as_solution_loop eq perms self solution (package # packages) =
     (case bt_get (st_packages self) (spec_name package) of
        None \<Rightarrow> as_solution_loop eq perms self solution packages
      | Some (spec, source, _) \<Rightarrow>
          and_then (get_merged_request perms (st_pkg_requests self) (spec_name spec)) (\<lambda>req.
            as_solution_loop eq perms self (solution_add eq solution req spec source) packages))"

definition as_solution :: "(pkg_request_with_options \<Rightarrow> pkg_request_with_options \<Rightarrow> bool) \<Rightarrow> pair_order \<Rightarrow> solver_state \<Rightarrow> (merged_error, solution) outcome" where
  "as_solution eq perms self = as_solution_loop eq perms self \<lparr>so_options = st_options self, so_resolved = []\<rparr> (st_packages_in_solve_order self)"

section \<open>The order of sources\<close>

text \<open>
  Comparing the sources of two packages that come from repositories does not return; every other comparison does.
\<close>

theorem source_cmp_returns_iff:
  "(\<exists>o1. source_cmp ident_cmp self other = Some o1) \<longleftrightarrow> \<not> ((\<exists>r c. self = FromRepository r c) \<and> (\<exists>r c. other = FromRepository r c))"
proof
  assume "\<exists>o1. source_cmp ident_cmp self other = Some o1"
  then obtain o1 where "source_cmp ident_cmp self other = Some o1" ..
  then show "\<not> ((\<exists>r c. self = FromRepository r c) \<and> (\<exists>r c. other = FromRepository r c))"
    by (rule source_cmp.raw_induct [where P = "\<lambda>ident_cmp self other o1.
        \<not> ((\<exists>r c. self = FromRepository r c) \<and> (\<exists>r c. other = FromRepository r c))", rotated])
      (auto split: package_source.splits, blast)
next
  assume "\<not> ((\<exists>r c. self = FromRepository r c) \<and> (\<exists>r c. other = FromRepository r c))"
  then show "\<exists>o1. source_cmp ident_cmp self other = Some o1"
    by (subst source_cmp.simps) (cases self; cases other; simp)
qed

section \<open>The identifier of a state\<close>

text \<open>The identifier that the contents of a state have. A state without packages has no hash of them.\<close>

definition state_id_of :: "hasher \<Rightarrow> solver_state \<Rightarrow> state_id" where
  "state_id_of hasher s =
     state_id_new hasher (pkg_requests_hash hasher (st_pkg_requests s)) (fst (var_requests_hash hasher (st_var_requests s)))
       (snd (var_requests_hash hasher (st_var_requests s)))
       (if st_packages s = [] then 0 else packages_hash hasher (st_packages s)) (options_hash hasher (st_options s))"

text \<open>What holds of every state: its collections are in order, the resolved packages are those of the solve order, the last one for
  every name, and the identifier is that of the contents.\<close>

definition state_ok :: "hasher \<Rightarrow> solver_state \<Rightarrow> bool" where
  "state_ok hasher s \<longleftrightarrow>
     bt_wf (st_packages s) \<and> bt_wf (st_options s) \<and> bs_wf (st_var_requests s)
     \<and> (\<forall>n. map_option fst (bt_get (st_packages s) n) = map_of (rev (map (\<lambda>p. (spec_name p, p)) (st_packages_in_solve_order s))) n)
     \<and> st_state_id s = state_id_of hasher s"

lemma bt_insert_not_Nil [simp]: "bt_insert k v m \<noteq> []"
  by (cases m) (auto split: if_splits)

lemma append_package_ok: "state_ok hasher s \<Longrightarrow> state_ok hasher (append_package hasher parent s spec source)"
  by (auto simp: state_ok_def append_package_def Let_def state_id_of_def id_with_packages_def state_id_new_def)

lemma compute_new_options_wf: "bt_wf options \<Longrightarrow> bt_wf (compute_new_options options new update)"
  by (induction options new update rule: compute_new_options.induct) auto

lemma change_apply_ok:
  assumes "state_ok hasher s" "\<And>cause d. c = StepBack cause d \<Longrightarrow> state_ok hasher d"
  shows "state_ok hasher (change_apply perms patterns hasher c parent s)"
  using assms append_package_ok compute_new_options_wf
  by (cases c) (auto simp: state_ok_def with_pkg_requests_def with_var_requests_and_options_def with_options_def state_id_of_def
      id_with_pkg_requests_def id_with_var_requests_and_options_def id_with_options_def state_id_new_def split: prod.splits)

lemma decision_loop_ok:
  assumes "state_ok hasher s" "\<And>cause d. StepBack cause d \<in> set changes \<Longrightarrow> state_ok hasher d"
  shows "state_ok hasher (decision_loop perms patterns hasher parent s changes)"
  using assms
proof (induction changes arbitrary: s)
  case (Cons c changes)
  have "state_ok hasher (change_apply perms patterns hasher c parent s)"
    using Cons.prems by (intro change_apply_ok) auto
  then have "state_ok hasher (decision_loop perms patterns hasher parent (change_apply perms patterns hasher c parent s) changes)"
    by (rule Cons.IH) (use Cons.prems(2) in auto)
  then show ?case by simp
qed simp

lemma state_new_ok: "state_ok hasher (state_new hasher pkg_requests var_requests packages options)"
proof -
  have "state_ok hasher s \<Longrightarrow> state_ok hasher (fold (\<lambda>(package, source) s. append_package hasher None s package source) packages s)" for s
    by (induction packages arbitrary: s) (auto intro: append_package_ok)
  then show ?thesis
    unfolding state_new_def Let_def by (auto simp: state_ok_def state_id_of_def split: prod.splits)
qed

text \<open>The states that decisions lead to. A step back goes to a state that was reached before.\<close>

inductive reachable :: "pair_order \<Rightarrow> (str \<Rightarrow> bool) list \<Rightarrow> hasher \<Rightarrow> solver_state \<Rightarrow> bool" for perms patterns hasher where
  reachable_new: "reachable perms patterns hasher (state_new hasher pkg_requests var_requests packages options)"
| reachable_decision:
    "reachable perms patterns hasher s \<Longrightarrow> (\<And>cause d. StepBack cause d \<in> set changes \<Longrightarrow> reachable perms patterns hasher d) \<Longrightarrow>
     reachable perms patterns hasher (decision_apply perms patterns hasher changes s)"

lemma reachable_ok: "reachable perms patterns hasher s \<Longrightarrow> state_ok hasher s"
  by (induction rule: reachable.induct) (auto intro: state_new_ok decision_loop_ok simp: decision_apply_def)

text \<open>
  C22: In every state that decisions lead to, the identifier that was kept up to date step by step is the identifier of the contents of the
  state, so states with the same requests, packages and options have the same identifier, however they were reached; and the
  resolved packages are the packages of the solve order, the last one for every name.
\<close>

theorem reachable_state_id:
  assumes "reachable perms patterns hasher s"
  shows "st_state_id s = state_id_of hasher s
    \<and> map_option fst (bt_get (st_packages s) n) = map_of (rev (map (\<lambda>p. (spec_name p, p)) (st_packages_in_solve_order s))) n
    \<and> (contains_var_request hasher s r \<longleftrightarrow> hasher (HashVarRequest (var_key r)) \<in> (\<lambda>k. hasher (HashVarRequest k)) ` set (st_var_requests s))"
  using reachable_ok [OF assms]
  by (auto simp: state_ok_def contains_var_request_def state_id_of_def state_id_new_def var_requests_hash_def Let_def)

theorem reachable_state_id_witness:
  "st_state_id (state_new (\<lambda>_. 0) [] [] [] [(''arch'', ''x86'')]) = state_id_of (\<lambda>_. 0) (state_new (\<lambda>_. 0) [] [] [] [(''arch'', ''x86'')])"
  using reachable_state_id [OF reachable_new [of lexicographic_pairs "[]" "\<lambda>_. 0" "[]" "[]" "[]" "[(''arch'', ''x86'')]"]] by blast

section \<open>What the requests of a state admit\<close>

definition applicable :: "pkg_request_with_options \<Rightarrow> any_ident \<Rightarrow> bool" where
  "applicable r pkg = ri_is_applicable (pr_pkg (po_pkg_request r)) pkg"

definition simple_request :: "pkg_request_with_options \<Rightarrow> bool" where
  "simple_request r = simple_rules (ri_version (pr_pkg (po_pkg_request r)))"

text \<open>Every request for the package of a name accepts it.\<close>

definition admitted :: "pkg_request_with_options list \<Rightarrow> any_ident \<Rightarrow> bool" where
  "admitted requests pkg \<longleftrightarrow> list_all (\<lambda>r. req_name r = ident_name pkg \<longrightarrow> applicable r pkg) requests"

lemma with_options_restrict_range:
  "pr_pkg (po_pkg_request (snd (with_options_restrict perms self other))) =
     snd (ri_restrict perms (pr_pkg (po_pkg_request self)) (pr_pkg (po_pkg_request other))
       (if min (pr_inclusion_policy (po_pkg_request self)) (pr_inclusion_policy (po_pkg_request other)) = IfAlreadyPresent
        then AllowNonIntersectingRanges else RequireIntersectingRanges))"
  by (auto simp: with_options_restrict_def pkg_request_restrict_def Let_def split: prod.splits)

lemma with_options_restrict_ok:
  "fst (with_options_restrict perms self other) = Compatible \<Longrightarrow>
     fst (ri_restrict perms (pr_pkg (po_pkg_request self)) (pr_pkg (po_pkg_request other))
       (if min (pr_inclusion_policy (po_pkg_request self)) (pr_inclusion_policy (po_pkg_request other)) = IfAlreadyPresent
        then AllowNonIntersectingRanges else RequireIntersectingRanges)) = Compatible"
  by (auto simp: with_options_restrict_def pkg_request_restrict_def Let_def split: prod.splits if_splits)

text \<open>Whatever becomes of a merge, together with the other request the receiver admits what it did before.\<close>

lemma ri_restrict_meet:
  assumes "all_pairs perms" "simple_rules (ri_version self)" "simple_rules (ri_version other)" "ri_name self = ri_name other"
    and "ri_restrict perms self other mode = (result, out)"
  shows "simple_rules (ri_version out) \<and> ri_name out = ri_name self
    \<and> (ri_is_applicable out pkg \<and> ri_is_applicable other pkg \<longleftrightarrow> ri_is_applicable self pkg \<and> ri_is_applicable other pkg)"
proof (cases "result = Compatible")
  case True
  with ri_restrict_applicable [OF assms(1-3,5,4), of pkg] ri_restrict_name [of perms self other mode] assms(5) show ?thesis by auto
next
  case False
  obtain r version where r: "restrict perms (ri_version self) (Filter (ri_version other)) mode = (r, version)" by fastforce
  have rules: "rules_wf (ri_version self)" "list_all simple_range (ri_version self)" "list_all simple_range (rules_of (Filter (ri_version other)))"
    using assms(2,3) by (simp_all add: simple_rules_def)
  note filter = restrict_filter [OF assms(1) rules r, of "ident_version pkg"]
  have out: "ri_name out = ri_name self \<and> ri_build out = ri_build self
      \<and> (ri_version out = ri_version self \<or> ri_version out = version \<and> r = Compatible)"
  proof (cases "repository_conflict self other")
    case None
    have same: "r \<noteq> Compatible \<Longrightarrow> version = ri_version self" using filter by presburger
    show ?thesis
    proof (cases r)
      case Compatible
      with assms(5) False None r show ?thesis
        by (cases "ri_repository_name self") (auto simp: ri_restrict_def Let_def split: if_splits)
    next
      case (Incompatible reason)
      with same have "version = ri_version self" by simp
      with Incompatible assms(5) None r show ?thesis by (cases "ri_repository_name self") (auto simp: ri_restrict_def Let_def)
    qed
  qed (use assms(5) in \<open>auto simp: ri_restrict_def\<close>)
  have version: "is_applicable (Filter (ri_version out)) (ident_version pkg) = Compatible
      \<and> is_applicable (Filter (ri_version other)) (ident_version pkg) = Compatible
      \<longleftrightarrow> is_applicable (Filter (ri_version self)) (ident_version pkg) = Compatible
      \<and> is_applicable (Filter (ri_version other)) (ident_version pkg) = Compatible"
    using out filter by (auto simp del: is_applicable.simps)
  have "simple_rules (ri_version out)"
    using ri_restrict_applicable [OF assms(1-3,5,4), of pkg] by blast
  with out version show ?thesis unfolding ri_is_applicable_iff by (auto simp del: is_applicable.simps)
qed

lemma with_options_restrict_meet:
  assumes "all_pairs perms" "simple_request self" "simple_request other" "req_name self = req_name other"
    and "with_options_restrict perms self other = (result, out)"
  shows "simple_request out \<and> req_name out = req_name self
    \<and> (applicable out pkg \<and> applicable other pkg \<longleftrightarrow> applicable self pkg \<and> applicable other pkg)
    \<and> (result = Compatible \<longrightarrow> (applicable out pkg \<longleftrightarrow> applicable self pkg \<and> applicable other pkg))"
proof -
  let ?mode = "if min (pr_inclusion_policy (po_pkg_request self)) (pr_inclusion_policy (po_pkg_request other)) = IfAlreadyPresent
        then AllowNonIntersectingRanges else RequireIntersectingRanges"
  obtain r ri where run: "ri_restrict perms (pr_pkg (po_pkg_request self)) (pr_pkg (po_pkg_request other)) ?mode = (r, ri)" by fastforce
  have pkg: "pr_pkg (po_pkg_request out) = ri" "result = Compatible \<Longrightarrow> r = Compatible"
    using with_options_restrict_range [of perms self other] with_options_restrict_ok [of perms self other] assms(5) run by auto
  have rules: "simple_rules (ri_version (pr_pkg (po_pkg_request self)))" "simple_rules (ri_version (pr_pkg (po_pkg_request other)))"
    "ri_name (pr_pkg (po_pkg_request self)) = ri_name (pr_pkg (po_pkg_request other))"
    using assms(2-4) by (simp_all add: simple_request_def req_name_def)
  show ?thesis
    using ri_restrict_meet [OF assms(1) rules run, of pkg] ri_restrict_applicable [OF assms(1) rules(1,2) run rules(3), of pkg] pkg
    by (auto simp: simple_request_def req_name_def applicable_def)
qed

lemma merge_into_None [simp]: "merge_into perms name None requests = (None, requests)"
  by (induction requests) (auto simp: map_prod_def)

lemma merge_into_kept: "merge_into perms name cloned requests = (Some c, new) \<Longrightarrow> new = requests"
  by (induction requests arbitrary: cloned new)
    (auto simp: map_prod_def split: option.splits if_splits prod.splits compatibility.splits)

lemma merge_into_admitted:
  assumes "all_pairs perms" "list_all simple_request requests" "simple_request request" "req_name request = name"
    and "merge_into perms name (Some request) requests = (None, new)"
  shows "list_all simple_request new \<and> map req_name new = map req_name requests
    \<and> (admitted new pkg \<longleftrightarrow> admitted requests pkg \<and> (name = ident_name pkg \<longrightarrow> applicable request pkg))"
  using assms(2-)
proof (induction requests arbitrary: request new)
  case (Cons existing requests)
  show ?case
  proof (cases "req_name existing = name")
    case False
    with Cons.prems obtain rest where "merge_into perms name (Some request) requests = (None, rest)" "new = existing # rest"
      by (auto simp: map_prod_def split: prod.splits)
    with Cons.IH [of request rest] Cons.prems show ?thesis by (auto simp: admitted_def)
  next
    case True
    obtain result out where run: "with_options_restrict perms request existing = (result, out)" by fastforce
    have meet: "simple_request out" "req_name out = name"
      "applicable out pkg \<and> applicable existing pkg \<longleftrightarrow> applicable request pkg \<and> applicable existing pkg"
      "result = Compatible \<Longrightarrow> applicable out pkg \<longleftrightarrow> applicable request pkg \<and> applicable existing pkg"
      using with_options_restrict_meet [OF assms(1) _ _ _ run, of pkg] Cons.prems True by auto
    show ?thesis
    proof (cases result)
      case Compatible
      with Cons.prems run True have "new = out # requests" by (auto simp: map_prod_def)
      with meet Compatible Cons.prems True show ?thesis by (auto simp: admitted_def)
    next
      case (Incompatible reason)
      with Cons.prems run True obtain rest where "merge_into perms name (Some out) requests = (None, rest)" "new = existing # rest"
        by (auto simp: map_prod_def split: prod.splits)
      with Cons.IH [of out rest] Cons.prems meet True show ?thesis by (auto simp: admitted_def)
    qed
  qed
qed simp

lemma request_package_facts:
  assumes "all_pairs perms" "list_all simple_request requests" "simple_request request"
  shows "list_all simple_request (request_package_requests perms patterns request prioritize requests)
    \<and> (admitted (request_package_requests perms patterns request prioritize requests) pkg \<longleftrightarrow>
         admitted requests pkg \<and> (req_name request = ident_name pkg \<longrightarrow> applicable request pkg))"
proof -
  obtain cloned new where run: "merge_into perms (req_name request) (Some request) requests = (cloned, new)" by fastforce
  have sorted: "set (sort_key f xs) = set xs" "set (promote_names patterns g xs) = set xs" for f :: "_ \<Rightarrow> int" and g and xs :: "pkg_request_with_options list"
    by (simp_all add: promote_names_def)
  show ?thesis
  proof (cases cloned)
    case None
    with merge_into_admitted [OF assms refl, of new pkg] run show ?thesis
      by (auto simp: request_package_requests_def admitted_def list_all_iff Let_def)
  next
    case (Some c)
    with run have "new = requests" by (auto dest: merge_into_kept)
    with Some run assms(2,3) show ?thesis
      by (auto simp: request_package_requests_def admitted_def list_all_iff sorted Let_def)
  qed
qed


definition example_request :: "version_range list \<Rightarrow> pkg_request_with_options" where
  "example_request rules = \<lparr>po_pkg_request = request_python rules None [Run], po_options = []\<rparr>"


section \<open>Merged requests\<close>

lemma merged_request_loop_facts:
  assumes "all_pairs perms" "list_all simple_request requests" "simple_request merged"
    and "merged_request_loop perms merged requests = Ok out"
  shows "simple_request out \<and> req_name out = req_name merged
    \<and> (req_name merged = ident_name pkg \<longrightarrow> (applicable out pkg \<longleftrightarrow> applicable merged pkg \<and> admitted requests pkg))"
  using assms(2-)
proof (induction requests arbitrary: merged)
  case (Cons request requests)
  show ?case
  proof (cases "req_name request = req_name merged")
    case False
    with Cons show ?thesis by (auto simp: admitted_def)
  next
    case True
    obtain result next_merged where run: "with_options_restrict perms merged request = (result, next_merged)" by fastforce
    with Cons.prems True have ok: "result = Compatible" "merged_request_loop perms next_merged requests = Ok out"
      by (auto split: compatibility.splits)
    note meet = with_options_restrict_meet [OF assms(1) _ _ True [symmetric] run, of pkg]
    show ?thesis using Cons.IH [OF _ _ ok(2)] meet ok(1) Cons.prems True by (auto simp: admitted_def)
  qed
qed (simp add: admitted_def)

lemma get_merged_request_facts:
  assumes "all_pairs perms" "list_all simple_request requests" "get_merged_request perms requests name = Ok merged"
  shows "simple_request merged \<and> req_name merged = name
    \<and> (name = ident_name pkg \<longrightarrow> (applicable merged pkg \<longleftrightarrow> admitted requests pkg))"
  using assms(2-)
proof (induction requests)
  case (Cons request requests)
  show ?case
  proof (cases "req_name request = name")
    case True
    with Cons.prems merged_request_loop_facts [OF assms(1), of requests request merged pkg] show ?thesis
      by (auto simp: admitted_def)
  qed (use Cons in \<open>auto simp: admitted_def\<close>)
qed simp

lemma merged_request_loop_name: "merged_request_loop perms merged requests = Ok out \<Longrightarrow> req_name out = req_name merged"
proof (induction requests arbitrary: merged)
  case (Cons request requests)
  obtain result next_merged where run: "with_options_restrict perms merged request = (result, next_merged)" by fastforce
  then have "req_name next_merged = req_name merged" using with_options_restrict_name [of perms merged request] by (simp add: req_name_def)
  with Cons run show ?case by (auto split: if_splits compatibility.splits)
qed simp

lemma get_merged_request_name: "get_merged_request perms requests name = Ok merged \<Longrightarrow> req_name merged = name"
  by (induction requests) (auto split: if_splits dest: merged_request_loop_name)

lemma merged_request_loop_returns: "merged_request_loop perms merged requests \<noteq> Panic \<and> merged_request_loop perms merged requests \<noteq> Err (NoRequestFor n)"
  by (induction requests arbitrary: merged) (auto split: compatibility.splits prod.splits)

lemma get_merged_request_returns:
  "get_merged_request perms requests name \<noteq> Panic
   \<and> (get_merged_request perms requests name = Err (NoRequestFor n) \<longleftrightarrow> name = n \<and> name \<notin> req_name ` set requests)"
  using merged_request_loop_returns by (induction requests) auto


section \<open>The next request\<close>

definition pending :: "solver_state \<Rightarrow> pkg_request_with_options \<Rightarrow> bool" where
  "pending s r \<longleftrightarrow> \<not> bt_contains_key (st_packages s) (req_name r) \<and> pr_inclusion_policy (po_pkg_request r) \<noteq> IfAlreadyPresent"

lemma next_request_loop_find:
  assumes "set requests \<subseteq> set (st_pkg_requests s)"
  shows "next_request_loop perms s requests =
    (case find (pending s) requests of
       None \<Rightarrow> Ok None
     | Some r \<Rightarrow>
         (case get_merged_request perms (st_pkg_requests s) (req_name r) of
            Ok merged \<Rightarrow> Ok (Some (NextRequest merged))
          | Err (MergeConflict conflict cause) \<Rightarrow> Ok (Some (NextConflict conflict (MergeConflict conflict cause)))
          | _ \<Rightarrow> Panic))"
  using assms
proof (induction requests)
  case (Cons r requests)
  have "get_merged_request perms (st_pkg_requests s) (req_name r) \<noteq> Err (NoRequestFor n)" for n
    using get_merged_request_returns [of perms "st_pkg_requests s" "req_name r" n] Cons.prems by auto
  with Cons get_merged_request_returns [of perms "st_pkg_requests s" "req_name r"] show ?case
    by (auto simp: pending_def split: outcome.splits merged_error.splits)
qed simp

text \<open>
  C23: The next request of a state is the merged request for the first package that is asked for, not only if it is already present, and not
  resolved yet; a conflict among its requests is reported as such, and there is no next request exactly when no request is pending.
  The search never panics.
\<close>

theorem get_next_request_first_pending:
  "get_next_request perms s \<noteq> Panic
   \<and> (get_next_request perms s = Ok None \<longleftrightarrow> list_all (\<lambda>r. \<not> pending s r) (st_pkg_requests s))
   \<and> (get_next_request perms s = Ok (Some (NextRequest merged)) \<longleftrightarrow>
        (\<exists>r. find (pending s) (st_pkg_requests s) = Some r
           \<and> get_merged_request perms (st_pkg_requests s) (req_name r) = Ok merged))"
proof -
  let ?next = "find (pending s) (st_pkg_requests s)"
  have "\<exists>r. ?next = Some r \<and> (get_merged_request perms (st_pkg_requests s) (req_name r) = Panic
      \<or> (\<exists>n. get_merged_request perms (st_pkg_requests s) (req_name r) = Err (NoRequestFor n))) \<Longrightarrow> False"
    using get_merged_request_returns [of perms "st_pkg_requests s"] by (fastforce simp: find_Some_iff)
  moreover have none: "list_all (\<lambda>r. \<not> pending s r) (st_pkg_requests s) \<longleftrightarrow> ?next = None" by (auto simp: find_None_iff list_all_iff)
  ultimately show ?thesis
    unfolding get_next_request_def next_request_loop_find [OF subset_refl] none
    by (auto split: option.splits outcome.splits merged_error.splits)
qed


section \<open>Shared caches\<close>

lemma unresolved_loop_cong:
  assumes "st_pkg_requests s = st_pkg_requests t" "map_option fst \<circ> bt_get (st_packages s) = map_option fst \<circ> bt_get (st_packages t)"
  shows "unresolved_loop perms s unresolved reqs = unresolved_loop perms t unresolved reqs"
proof -
  have "get_current_resolve s n = None \<longleftrightarrow> get_current_resolve t n = None" for n
    using fun_cong [OF assms(2), of n] by (auto simp: get_current_resolve_def)
  with assms(1) show ?thesis by (induction reqs arbitrary: unresolved) (auto intro!: arg_cong2 [of _ _ _ _ and_then])
qed

text \<open>
  The changes that leave the requests and packages of a state alone keep its unresolved requests, and those that leave its options alone
  keep its options, so the caches that the new state shares with the old one hold the right values.
\<close>

theorem shared_caches_sound:
  "get_unresolved_requests perms (with_options hasher s parent options) = get_unresolved_requests perms s
   \<and> get_unresolved_requests perms (with_var_requests_and_options hasher s parent vars options) = get_unresolved_requests perms s
   \<and> st_options (with_pkg_requests hasher s parent requests) = st_options s
   \<and> st_options (append_package hasher parent' s spec source) = st_options s"
proof -
  have "unresolved_loop perms (with_options hasher s parent options) [] = unresolved_loop perms s []"
    "unresolved_loop perms (with_var_requests_and_options hasher s parent vars options) [] = unresolved_loop perms s []"
    by (rule ext, rule unresolved_loop_cong, simp_all add: with_options_def with_var_requests_and_options_def)+
  then show ?thesis
    by (simp add: get_unresolved_requests_def with_options_def with_var_requests_and_options_def with_pkg_requests_def append_package_def Let_def)
qed

section \<open>The solution of a state\<close>

lemma replace_solved_facts:
  assumes "\<And>r. eq r r" "\<And>a b. eq a b \<Longrightarrow> req_name a = req_name b"
    and "distinct (map (\<lambda>r. req_name (sr_request r)) rs)"
    and "\<And>r. r \<in> set rs \<Longrightarrow> req_name (sr_request r) = req_name (sr_request new) \<Longrightarrow> sr_request r = sr_request new"
  shows "map_of (map (\<lambda>r. (req_name (sr_request r), r)) (replace_solved eq rs new))
      = (map_of (map (\<lambda>r. (req_name (sr_request r), r)) rs))(req_name (sr_request new) \<mapsto> new)
    \<and> distinct (map (\<lambda>r. req_name (sr_request r)) (replace_solved eq rs new))
    \<and> set (replace_solved eq rs new) \<subseteq> insert new (set rs)
    \<and> (\<lambda>r. req_name (sr_request r)) ` set (replace_solved eq rs new) = insert (req_name (sr_request new)) ((\<lambda>r. req_name (sr_request r)) ` set rs)"
  using assms(3,4)
proof (induction rs)
  case (Cons r rs)
  show ?case
  proof (cases "eq (sr_request r) (sr_request new)")
    case True
    with assms(2) have "req_name (sr_request r) = req_name (sr_request new)" by blast
    with True Cons.prems show ?thesis by auto
  next
    case False
    with assms(1) Cons.prems(2) [of r] have "req_name (sr_request r) \<noteq> req_name (sr_request new)" by fastforce
    with False Cons show ?thesis by (auto simp: fun_upd_twist)
  qed
qed simp

text \<open>The entries that belong to a state: for every package of the state that was visited, what is resolved for it, with its merged request.\<close>

definition solved_for :: "pair_order \<Rightarrow> solver_state \<Rightarrow> str set \<Rightarrow> solution \<Rightarrow> bool" where
  "solved_for perms s names sol \<longleftrightarrow>
     distinct (map (\<lambda>r. req_name (sr_request r)) (so_resolved sol))
     \<and> (\<lambda>r. req_name (sr_request r)) ` set (so_resolved sol) = names
     \<and> (\<forall>r \<in> set (so_resolved sol).
          get_merged_request perms (st_pkg_requests s) (req_name (sr_request r)) = Ok (sr_request r)
          \<and> (\<exists>id. bt_get (st_packages s) (req_name (sr_request r)) = Some (sr_spec r, sr_source r, id)))"

lemma as_solution_loop_facts:
  assumes "\<And>r. eq r r" "\<And>a b. eq a b \<Longrightarrow> req_name a = req_name b"
    and "\<And>n spec source id. bt_get (st_packages s) n = Some (spec, source, id) \<Longrightarrow> spec_name spec = n"
    and "solved_for perms s names sol" "as_solution_loop eq perms s sol packages = Ok out"
  shows "solved_for perms s (names \<union> (spec_name ` set packages \<inter> dom (bt_get (st_packages s)))) out"
  using assms(4,5)
proof (induction packages arbitrary: names sol)
  case (Cons package packages)
  show ?case
  proof (cases "bt_get (st_packages s) (spec_name package)")
    case None
    with Cons show ?thesis by (auto simp: Int_insert_left domIff)
  next
    case (Some p)
    then obtain spec source id where p: "bt_get (st_packages s) (spec_name package) = Some (spec, source, id)" by (cases p) auto
    with Cons.prems(2) obtain req where req: "get_merged_request perms (st_pkg_requests s) (spec_name spec) = Ok req"
      "as_solution_loop eq perms s (solution_add eq sol req spec source) packages = Ok out" by auto
    have name: "spec_name spec = spec_name package" "req_name req = spec_name package"
      using assms(3) [OF p] get_merged_request_name [OF req(1)] by simp_all
    let ?new = "\<lparr>sr_request = req, sr_spec = spec, sr_source = source\<rparr>"
    have "r \<in> set (so_resolved sol) \<Longrightarrow> req_name (sr_request r) = req_name (sr_request ?new) \<Longrightarrow> sr_request r = sr_request ?new" for r
      using Cons.prems(1) req(1) name by (auto simp: solved_for_def)
    then have "solved_for perms s (insert (spec_name package) names) (solution_add eq sol req spec source)"
      using replace_solved_facts [of eq "so_resolved sol" ?new] assms(1,2) Cons.prems(1) p req(1) name
      by (auto simp: solved_for_def solution_add_def)
    moreover have "insert (spec_name package) names \<union> (spec_name ` set packages \<inter> dom (bt_get (st_packages s)))
        = names \<union> (spec_name ` set (package # packages) \<inter> dom (bt_get (st_packages s)))" using p by auto
    ultimately show ?thesis using Cons.IH req(2) by metis
  qed
qed simp

lemma as_solution_facts:
  assumes "state_ok hasher s" "\<And>r. eq r r" "\<And>a b. eq a b \<Longrightarrow> req_name a = req_name b"
    and "as_solution eq perms s = Ok sol"
  shows "solved_for perms s (dom (bt_get (st_packages s))) sol \<and> so_options sol = st_options s"
proof -
  have order: "map_option fst (bt_get (st_packages s) n) = map_of (rev (map (\<lambda>p. (spec_name p, p)) (st_packages_in_solve_order s))) n" for n
    using assms(1) by (simp add: state_ok_def)
  have last: "map_of (rev (map (\<lambda>p. (spec_name p, p)) ps)) n = Some spec \<Longrightarrow> spec_name spec = n \<and> spec \<in> set ps" for ps n spec
    by (drule map_of_SomeD) auto
  have names: "spec_name spec = n \<and> spec \<in> set (st_packages_in_solve_order s)"
    if "bt_get (st_packages s) n = Some (spec, source, id)" for n spec source id
    by (rule last) (use order [of n] that in \<open>simp only: option.map fst_conv\<close>)
  have "solved_for perms s {} \<lparr>so_options = st_options s, so_resolved = []\<rparr>" by (simp add: solved_for_def)
  from as_solution_loop_facts [OF assms(2,3) names [THEN conjunct1] this assms(4) [unfolded as_solution_def]]
  have "solved_for perms s (spec_name ` set (st_packages_in_solve_order s) \<inter> dom (bt_get (st_packages s))) sol" by simp
  moreover have "dom (bt_get (st_packages s)) \<subseteq> spec_name ` set (st_packages_in_solve_order s)"
  proof
    fix n assume "n \<in> dom (bt_get (st_packages s))"
    then obtain spec source id where "bt_get (st_packages s) n = Some (spec, source, id)" by (auto simp: dom_def)
    from names [OF this] show "n \<in> spec_name ` set (st_packages_in_solve_order s)" by force
  qed
  moreover have "as_solution_loop eq perms s sol0 ps = Ok sol1 \<Longrightarrow> so_options sol1 = so_options sol0" for sol0 sol1 ps
    by (induction ps arbitrary: sol0) (auto simp: solution_add_def split: option.splits)
  from this [OF assms(4) [unfolded as_solution_def]] have "so_options sol = st_options s" by simp
  ultimately show ?thesis by (simp add: Int_absorb1)
qed

text \<open>
  C19: The solution of a state that decisions lead to has exactly one entry for every resolved package, with the package and source that
  were resolved for it and the merged request of the state for it. The equality that the solution looks entries up with may be any
  reflexive relation between requests for the same package.
\<close>

theorem as_solution_complete:
  assumes "reachable perms patterns hasher s" "\<And>r. eq r r" "\<And>a b. eq a b \<Longrightarrow> req_name a = req_name b"
    and "as_solution eq perms s = Ok sol"
  shows "solved_for perms s (dom (bt_get (st_packages s))) sol \<and> so_options sol = st_options s"
  by (rule as_solution_facts [OF reachable_ok [OF assms(1)] assms(2-)])

definition example_state :: solver_state where
  "example_state = state_new (\<lambda>_. 0) [example_request [GreaterThan (from_parts [2])], example_request [LessThan (from_parts [4])]] []
     [(example_package [], SpkInternalTestSource)] [(''arch'', ''x86'')]"

theorem as_solution_complete_witness:
  "\<exists>sol. as_solution (=) lexicographic_pairs example_state = Ok sol
     \<and> solved_for lexicographic_pairs example_state {''python''} sol \<and> so_options sol = [(''arch'', ''x86'')]"
proof -
  have "is_ok_result (as_solution (=) lexicographic_pairs example_state)" by code_simp
  then obtain sol where sol: "as_solution (=) lexicographic_pairs example_state = Ok sol" unfolding is_ok_result_iff by blast
  have "reachable lexicographic_pairs [] (\<lambda>_. 0) example_state" unfolding example_state_def by (rule reachable_new)
  note complete = as_solution_complete [OF this _ _ sol]
  have facts: "map fst (st_packages example_state) = [''python'']" "st_options example_state = [(''arch'', ''x86'')]" by code_simp+
  have "dom (bt_get (st_packages example_state)) = {''python''}" using facts(1) by (simp add: dom_map_of_conv_image_fst flip: set_map)
  with complete facts(2) sol show ?thesis by auto
qed

end
