(* ===== verification/Solver_Decisions.thy ===== *)
theory Solver_Decisions
  imports Solver_State
begin

text \<open>
  The decisions of the package solver (\<open>DecisionBuilder\<close> in \<^verbatim>\<open>crates/spk-solve/crates/graph/src/graph.rs\<close>): the changes that resolving
  or building a package makes to a state, its requirements, components, embedded packages and options included, and the decisions to
  reconsider a package. The calls of \<open>pkg_request_to_changes\<close> and \<open>requirements_to_changes\<close> nest without a bound, so the model counts the
  depth of nested calls down and ends with \<open>StillRunning\<close> when it is used up; theorems say when some depth is enough. Outside of the
  repository are parsing a build (nom), the derived equality of embedded packages and the order in which a hash map is walked.
\<close>

section \<open>Building decisions\<close>

datatype decision_error =
    StillRunning
  | ParentWithoutVersion
  | ParentWithoutBuild
  | ParentName name_error
  | ParentVersion version_error
  | ParentBuild str

record decision_env =
  de_perms :: pair_order
  de_parse_build :: "str \<Rightarrow> (str, build) outcome"
  de_same :: "embedded_package_spec \<Rightarrow> embedded_package_spec \<Rightarrow> bool"
  de_order :: "(embedded_package_spec \<times> component list) list \<Rightarrow> (embedded_package_spec \<times> component list) list"

record decision_builder =
  db_base :: solver_state
  db_components :: "component list"

definition builder_new :: "solver_state \<Rightarrow> decision_builder" where
  "builder_new base_state = \<lparr>db_base = base_state, db_components = []\<rparr>"

definition with_components :: "decision_builder \<Rightarrow> component list \<Rightarrow> decision_builder" where
  "with_components self components = self\<lparr>db_components := components\<rparr>"

definition to_pkg_request ::
  "(str \<Rightarrow> (str, build) outcome) \<Rightarrow> embedded_source_package \<Rightarrow> requested_by \<Rightarrow> (decision_error, pkg_request) outcome" where
  "to_pkg_request parse_build self requester =
     (case ib_version_str (esp_ident self) of
        None \<Rightarrow> Err ParentWithoutVersion
      | Some version_str \<Rightarrow>
          (case ib_build_str (esp_ident self) of
             None \<Rightarrow> Err ParentWithoutBuild
           | Some build_str \<Rightarrow>
               and_then (map_err ParentName (validate_pkg_name (ib_pkg_name (esp_ident self)))) (\<lambda>_.
               and_then (map_err ParentVersion (parse_version version_str)) (\<lambda>version.
               and_then (map_err ParentBuild (parse_build build_str)) (\<lambda>build.
                 Ok (pkg_request_new
                   \<lparr>ri_repository_name = None, ri_name = ib_pkg_name (esp_ident self), ri_components = esp_components self,
                    ri_version = filter_single (double_equals_version_range version), ri_build = Some build\<rparr> requester))))))"

fun concat_results :: "('e, 'a list) outcome list \<Rightarrow> ('e, 'a list) outcome" where
  "concat_results [] = Ok []"
| "concat_results (r # rs) = and_then r (\<lambda>xs. and_then (concat_results rs) (\<lambda>ys. Ok (xs @ ys)))"

definition with_requester :: "pkg_request_with_options \<Rightarrow> requested_by \<Rightarrow> pkg_request_with_options" where
  "with_requester r by = r\<lparr>po_pkg_request := add_requester (po_pkg_request r) by\<rparr>"

definition request_components :: "pkg_request_with_options \<Rightarrow> component list" where
  "request_components r = ri_components (pr_pkg (po_pkg_request r))"

definition set_request_components :: "pkg_request_with_options \<Rightarrow> component list \<Rightarrow> pkg_request_with_options" where
  "set_request_components r components =
     r\<lparr>po_pkg_request := (po_pkg_request r)\<lparr>pr_pkg := (pr_pkg (po_pkg_request r))\<lparr>ri_components := components\<rparr>\<rparr>\<rparr>"

definition with_default_component :: "component \<Rightarrow> pkg_request_with_options \<Rightarrow> pkg_request_with_options" where
  "with_default_component c r = (if request_components r = [] then set_request_components r [c] else r)"

text \<open>\<open>requirements_to_changes\<close>, with the call for a package request as an argument.\<close>

definition requirements_to_changes ::
  "(pkg_request_with_options \<Rightarrow> (decision_error, change list) outcome) \<Rightarrow> request_with_options list \<Rightarrow> requested_by
    \<Rightarrow> (decision_error, change list) outcome" where
  "requirements_to_changes to_changes requirements by =
     concat_results (map (\<lambda>req.
       case req of
         OptPkg req \<Rightarrow> to_changes (with_requester req by)
       | OptVar req \<Rightarrow> Ok [RequestVar req]) requirements)"

text \<open>The components of a package that is already resolved that a new request adds to it.\<close>

definition added_components :: "package_spec \<Rightarrow> pkg_request_with_options \<Rightarrow> pkg_request_with_options \<Rightarrow> component list" where
  "added_components spec req existing =
     filter (\<lambda>c. c \<notin> set (resolve_uses (ps_components spec) (request_components existing)))
       (resolve_uses (ps_components spec) (request_components req))"

fun pkg_request_to_changes ::
  "decision_env \<Rightarrow> nat \<Rightarrow> decision_builder \<Rightarrow> pkg_request_with_options \<Rightarrow> (decision_error, change list) outcome" where
  "pkg_request_to_changes env 0 self req = Err StillRunning"
| "pkg_request_to_changes env (Suc depth) self req =
     (let req = with_default_component Run req; changes = [RequestPackage req False] in
      case get_current_resolve (db_base self) (req_name req) of
        None \<Rightarrow> Ok changes
      | Some (spec, _, _) \<Rightarrow>
          (case get_merged_request (de_perms env) (st_pkg_requests (db_base self)) (req_name req) of
             Ok existing \<Rightarrow>
               let added = added_components spec req existing in
               if added = [] then Ok changes
               else and_then
                      (concat_results (map (\<lambda>c.
                          requirements_to_changes (\<lambda>r. pkg_request_to_changes env depth self r)
                            (cs_requirements_with_options c) (PackageBuild (ps_pkg spec)))
                        (filter (\<lambda>c. cs_name c \<in> set added) (ps_components spec))))
                      (\<lambda>more. Ok (changes @ more))
           | Err _ \<Rightarrow> Ok changes
           | Panic \<Rightarrow> Panic))"

definition components_to_changes ::
  "decision_env \<Rightarrow> nat \<Rightarrow> decision_builder \<Rightarrow> component_spec list \<Rightarrow> build_ident \<Rightarrow> (decision_error, change list) outcome" where
  "components_to_changes env depth self components requester =
     (let required = resolve_uses components (db_components self) in
      concat_results (map (\<lambda>c.
          requirements_to_changes (\<lambda>req.
              pkg_request_to_changes env depth self
                (if cs_name c = Build \<and> \<not> ri_is_source (pr_pkg (po_pkg_request req)) then with_default_component Build req else req))
            (cs_requirements_with_options c) (PackageBuild requester))
        (filter (\<lambda>c. cs_name c \<in> set required) components)))"

definition options_to_change :: "package_spec \<Rightarrow> change" where
  "options_to_change spec =
     SetOptions (fold (\<lambda>(name, v) opts.
         if v \<noteq> [] then bt_insert (with_default_namespace name (spec_name spec)) v opts else opts)
       (option_values spec)
       (bt_insert (spec_name spec) (compat_render (ps_compat spec) (ident_version (ps_pkg spec))) []))"

definition options_in_namespace :: "str \<Rightarrow> (str \<times> str) list \<Rightarrow> request_options" where
  "options_in_namespace name options =
     bt_from_list (map (\<lambda>(opt, v). (opt, CompleteOption v)) (filter (\<lambda>(opt, _). namespace opt = Some name) options))"

text \<open>The request for the package that an embedded stub belongs to.\<close>

definition parent_to_changes ::
  "decision_env \<Rightarrow> nat \<Rightarrow> decision_builder \<Rightarrow> package_spec \<Rightarrow> (decision_error, change list) outcome" where
  "parent_to_changes env depth self spec =
     (case target (ps_pkg spec) of
        EmbeddedBuild (EmbeddedPackage parent) \<Rightarrow>
          and_then (to_pkg_request (de_parse_build env) parent (EmbeddedIn (ps_pkg spec))) (\<lambda>pkg_request.
            pkg_request_to_changes env depth self
              \<lparr>po_pkg_request = pkg_request,
               po_options = options_in_namespace (ri_name (pr_pkg pkg_request))
                 (List.map_filter (\<lambda>req. case req of OptVar v \<Rightarrow> Some (vr_var v, vr_value v) | _ \<Rightarrow> None) (runtime_requirements spec))\<rparr>)
      | _ \<Rightarrow> Ok [])"

text \<open>The request for an embedded package, with its own options.\<close>

definition embedded_request :: "embedded_package_spec \<Rightarrow> build_ident \<Rightarrow> pkg_request_with_options" where
  "embedded_request embedded parent =
     (let pkg_request = pkg_request_from_ident (build_into_any_ident (eps_pkg embedded)) (EmbeddedIn parent) in
      \<lparr>po_pkg_request = pkg_request, po_options = options_in_namespace (ri_name (pr_pkg pkg_request)) (option_values_of (eps_options embedded))\<rparr>)"

text \<open>\<open>entry(embedded).or_insert(BTreeSet::new()).extend(components)\<close>.\<close>

fun merge_embedded ::
  "(embedded_package_spec \<Rightarrow> embedded_package_spec \<Rightarrow> bool) \<Rightarrow> embedded_package_spec \<Rightarrow> component list
    \<Rightarrow> (embedded_package_spec \<times> component list) list \<Rightarrow> (embedded_package_spec \<times> component list) list" where
  "merge_embedded same e components [] = [(e, bs_from_list components)]"
| "merge_embedded same e components ((e', cs) # m) =
     (if same e' e then (e', fold bs_insert components cs) # m else (e', cs) # merge_embedded same e components m)"

text \<open>The packages that the required components of a package embed, with the components of them.\<close>

definition embedded_by_components ::
  "decision_env \<Rightarrow> embedded_package_spec list \<Rightarrow> component_spec list \<Rightarrow> component list \<Rightarrow> (embedded_package_spec \<times> component list) list" where
  "embedded_by_components env embedded components required =
     fold (\<lambda>(e, cs). merge_embedded (de_same env) e cs)
       (concat (map (\<lambda>c. concat (map (\<lambda>ep. map (\<lambda>e. (e, cep_components ep)) (packages_matching_embedded_package embedded ep))
           (cel_components (cs_embedded c))))
         (filter (\<lambda>c. cs_name c \<in> set required) components)))
       []"

text \<open>\<open>embedded_to_changes\<close>, with the call of \<open>set_package\<close> as an argument.\<close>

definition embedded_to_changes ::
  "decision_env \<Rightarrow> (package_spec \<Rightarrow> package_source \<Rightarrow> (decision_error, change list) outcome) \<Rightarrow> decision_builder
    \<Rightarrow> embedded_package_spec list \<Rightarrow> component_spec list \<Rightarrow> build_ident \<Rightarrow> (decision_error, change list) outcome" where
  "embedded_to_changes env set_package self embedded components parent =
     (let required = resolve_uses components (db_components self);
          merged = (if required = [] then [] else embedded_by_components env embedded components required) in
      if merged \<noteq> []
      then concat_results (map (\<lambda>(spec, cs).
             and_then (set_package (package_of_embedded spec) (EmbeddedSourceOf parent cs)) (\<lambda>changes.
               Ok (RequestPackage (set_request_components (embedded_request spec parent) cs) False # changes))) (de_order env merged))
      else concat_results (map (\<lambda>spec.
             and_then (set_package (package_of_embedded spec) (EmbeddedSourceOf parent [])) (\<lambda>changes.
               Ok (RequestPackage (embedded_request spec parent) False # changes))) embedded))"

definition package_changes ::
  "decision_env \<Rightarrow> nat \<Rightarrow> (package_spec \<Rightarrow> package_source \<Rightarrow> (decision_error, change list) outcome) \<Rightarrow> decision_builder \<Rightarrow> package_spec
    \<Rightarrow> (decision_error, change list) outcome" where
  "package_changes env depth set_package self spec =
     and_then (requirements_to_changes (pkg_request_to_changes env depth self) (runtime_requirements spec) (PackageBuild (ps_pkg spec))) (\<lambda>reqs.
     and_then (components_to_changes env depth self (ps_components spec) (ps_pkg spec)) (\<lambda>comps.
     and_then (embedded_to_changes env set_package self (ps_embedded spec) (ps_components spec) (ps_pkg spec)) (\<lambda>embeds.
       Ok (reqs @ comps @ embeds @ [options_to_change spec]))))"

fun set_package ::
  "decision_env \<Rightarrow> nat \<Rightarrow> decision_builder \<Rightarrow> package_spec \<Rightarrow> package_source \<Rightarrow> (decision_error, change list) outcome" where
  "set_package env 0 self spec source = Err StillRunning"
| "set_package env (Suc depth) self spec source =
     and_then (parent_to_changes env depth self spec) (\<lambda>parent.
     and_then (package_changes env depth (\<lambda>spec source. set_package env depth self spec source) self spec) (\<lambda>changes.
       Ok (SetPackage spec source # parent @ changes)))"

definition resolve_package ::
  "decision_env \<Rightarrow> nat \<Rightarrow> decision_builder \<Rightarrow> package_spec \<Rightarrow> package_source \<Rightarrow> (decision_error, change list) outcome" where
  "resolve_package env depth self spec source = set_package env depth self spec source"

definition build_package ::
  "decision_env \<Rightarrow> nat \<Rightarrow> decision_builder \<Rightarrow> version_ident \<Rightarrow> package_spec \<Rightarrow> (decision_error, change list) outcome" where
  "build_package env depth self recipe spec =
     and_then (package_changes env depth (set_package env depth self) self spec) (\<lambda>changes.
       Ok (SetPackageBuild spec (BuildFromSource recipe) # changes))"

definition reconsider_package :: "decision_builder \<Rightarrow> pkg_request_with_options \<Rightarrow> str \<Rightarrow> change list" where
  "reconsider_package self request conflicting_package_name =
     [StepBack (''Package '' @ req_name request @ '' embeds package already resolved: '' @ conflicting_package_name) (db_base self),
      RequestPackage request True]"

definition reconsider_package_with_additional_components :: "decision_builder \<Rightarrow> pkg_request_with_options \<Rightarrow> str \<Rightarrow> change list" where
  "reconsider_package_with_additional_components self request package_with_unsatisfied_components =
     [StepBack (''Package '' @ package_with_unsatisfied_components @ '' needs additional components from '' @ req_name request) (db_base self),
      RequestPackage request True]"

section \<open>Nested requests\<close>

lemma concat_results_is_ok: "is_ok_result (concat_results rs) \<longleftrightarrow> list_all is_ok_result rs"
proof (induction rs)
  case (Cons r rs)
  show ?case
  proof (cases r)
    case (Ok xs)
    with Cons show ?thesis by (cases "concat_results rs") auto
  qed auto
qed simp

lemma concat_results_member:
  "concat_results (map f xs) = Ok ys \<Longrightarrow> y \<in> set ys \<longleftrightarrow> (\<exists>x \<in> set xs. \<exists>zs. f x = Ok zs \<and> y \<in> set zs)"
proof (induction xs arbitrary: ys)
  case (Cons x xs)
  then obtain zs ws where "f x = Ok zs" "concat_results (map f xs) = Ok ws" "ys = zs @ ws" by auto
  with Cons.IH show ?case by auto
qed simp

lemma concat_results_each: "concat_results (map f xs) = Ok ys \<Longrightarrow> x \<in> set xs \<Longrightarrow> \<exists>zs. f x = Ok zs \<and> set zs \<subseteq> set ys"
proof (induction xs arbitrary: ys)
  case (Cons x' xs)
  then obtain zs ws where "f x' = Ok zs" "concat_results (map f xs) = Ok ws" "ys = zs @ ws" by auto
  with Cons show ?case by fastforce
qed simp

lemma concat_results_mono:
  assumes "concat_results (map f xs) = Ok ys" "\<And>x zs. x \<in> set xs \<Longrightarrow> f x = Ok zs \<Longrightarrow> g x = Ok zs"
  shows "concat_results (map g xs) = Ok ys"
  using assms
proof (induction xs arbitrary: ys)
  case (Cons x xs)
  then obtain zs ws where "f x = Ok zs" "concat_results (map f xs) = Ok ws" "ys = zs @ ws" by auto
  with Cons show ?case by auto
qed simp

lemma req_name_with_requester [simp]: "req_name (with_requester r by) = req_name r"
  by (simp add: req_name_def with_requester_def add_requester_def)

lemma req_name_set_components [simp]: "req_name (set_request_components r cs) = req_name r"
  by (simp add: req_name_def set_request_components_def)

lemma req_name_default_component [simp]: "req_name (with_default_component c r) = req_name r"
  by (simp add: with_default_component_def)

text \<open>The requests that a request for a package that is already resolved brings along: those of the components it adds.\<close>

definition pulled_in :: "decision_env \<Rightarrow> decision_builder \<Rightarrow> pkg_request_with_options \<Rightarrow> pkg_request_with_options list" where
  "pulled_in env self req =
     (case (get_current_resolve (db_base self) (req_name req), get_merged_request (de_perms env) (st_pkg_requests (db_base self)) (req_name req)) of
        (Some (spec, _, _), Ok existing) \<Rightarrow>
          concat (map (\<lambda>c. List.map_filter (\<lambda>r. case r of OptPkg r \<Rightarrow> Some (with_requester r (PackageBuild (ps_pkg spec))) | OptVar _ \<Rightarrow> None)
              (cs_requirements_with_options c))
            (filter (\<lambda>c. cs_name c \<in> set (added_components spec (with_default_component Run req) existing)) (ps_components spec)))
      | _ \<Rightarrow> [])"

lemma requirements_to_changes_is_ok:
  "is_ok_result (requirements_to_changes f reqs by) \<longleftrightarrow> (\<forall>r. OptPkg r \<in> set reqs \<longrightarrow> is_ok_result (f (with_requester r by)))"
  by (fastforce simp: requirements_to_changes_def concat_results_is_ok list_all_iff split: request_with_options.splits)

lemma is_ok_append: "is_ok_result (and_then r (\<lambda>x. Ok (f x))) \<longleftrightarrow> is_ok_result r"
  by (cases r) auto

lemma pkg_request_step:
  "is_ok_result (pkg_request_to_changes env (Suc depth) self req) \<longleftrightarrow>
     (\<forall>r \<in> set (pulled_in env self req). is_ok_result (pkg_request_to_changes env depth self r))"
proof (cases "get_current_resolve (db_base self) (req_name req)")
  case None
  then show ?thesis by (simp add: pulled_in_def)
next
  case (Some p)
  then obtain spec source id where p: "get_current_resolve (db_base self) (req_name req) = Some (spec, source, id)" by (cases p) auto
  have no_panic: "get_merged_request (de_perms env) (st_pkg_requests (db_base self)) (req_name req) \<noteq> Panic"
    using get_merged_request_returns by blast
  show ?thesis
  proof (cases "get_merged_request (de_perms env) (st_pkg_requests (db_base self)) (req_name req)")
    case (Ok existing)
    let ?added = "added_components spec (with_default_component Run req) existing"
    have "is_ok_result (pkg_request_to_changes env (Suc depth) self req) \<longleftrightarrow>
        (\<forall>c \<in> set (ps_components spec). cs_name c \<in> set ?added \<longrightarrow>
           is_ok_result (requirements_to_changes (pkg_request_to_changes env depth self) (cs_requirements_with_options c) (PackageBuild (ps_pkg spec))))"
      using p Ok by (auto simp: Let_def is_ok_append concat_results_is_ok list_all_iff)
    with p Ok show ?thesis
      by (fastforce simp: pulled_in_def requirements_to_changes_is_ok List.map_filter_def split: request_with_options.splits)
  qed (use p no_panic in \<open>auto simp: pulled_in_def\<close>)
qed

lemma pkg_request_depth:
  "pkg_request_to_changes env depth self req = Ok changes \<Longrightarrow> depth \<le> depth' \<Longrightarrow> pkg_request_to_changes env depth' self req = Ok changes"
proof (induction depth arbitrary: depth' req changes)
  case (Suc depth)
  then obtain d where d: "depth' = Suc d" "depth \<le> d" by (cases depth') auto
  have step: "requirements_to_changes (pkg_request_to_changes env depth self) reqs b = Ok cs \<Longrightarrow>
      requirements_to_changes (pkg_request_to_changes env d self) reqs b = Ok cs" for reqs b cs
    unfolding requirements_to_changes_def
    by (erule concat_results_mono) (auto split: request_with_options.splits intro: Suc.IH [OF _ d(2)])
  have "concat_results (map (\<lambda>c. requirements_to_changes (pkg_request_to_changes env depth self) (reqs c) b) cs) = Ok out \<Longrightarrow>
      concat_results (map (\<lambda>c. requirements_to_changes (pkg_request_to_changes env d self) (reqs c) b) cs) = Ok out"
    for reqs :: "component_spec \<Rightarrow> request_with_options list" and b cs out
    by (erule concat_results_mono) (rule step)
  then show ?case
    using Suc.prems(1) unfolding d(1) by (auto simp: Let_def split: option.splits outcome.splits if_splits)
qed simp

lemma pkg_request_enough_depth:
  assumes "\<And>r. r \<in> set reqs \<Longrightarrow> \<exists>depth. is_ok_result (pkg_request_to_changes env depth self r)"
  shows "\<exists>depth. \<forall>r \<in> set reqs. is_ok_result (pkg_request_to_changes env depth self r)"
  using assms
proof (induction reqs)
  case (Cons r reqs)
  then obtain d1 d2 where d: "is_ok_result (pkg_request_to_changes env d1 self r)" "\<forall>r \<in> set reqs. is_ok_result (pkg_request_to_changes env d2 self r)"
    by (meson list.set_intros)
  have "is_ok_result (pkg_request_to_changes env d self r') \<Longrightarrow> d \<le> max d1 d2 \<Longrightarrow> is_ok_result (pkg_request_to_changes env (max d1 d2) self r')" for d r'
    unfolding is_ok_result_iff by (blast intro: pkg_request_depth)
  with d show ?case by (intro exI [of _ "max d1 d2"]) auto
qed simp

lemma pkg_request_returns_acc:
  "(\<exists>depth. is_ok_result (pkg_request_to_changes env depth self req)) \<longleftrightarrow> Wellfounded.accp (\<lambda>r' r. r' \<in> set (pulled_in env self r)) req"
proof
  assume "\<exists>depth. is_ok_result (pkg_request_to_changes env depth self req)"
  then obtain depth where "is_ok_result (pkg_request_to_changes env depth self req)" ..
  then show "Wellfounded.accp (\<lambda>r' r. r' \<in> set (pulled_in env self r)) req"
  proof (induction depth arbitrary: req)
    case (Suc depth)
    then show ?case by - (rule accp.accI, simp add: pkg_request_step del: pkg_request_to_changes.simps)
  qed simp
next
  assume "Wellfounded.accp (\<lambda>r' r. r' \<in> set (pulled_in env self r)) req"
  then show "\<exists>depth. is_ok_result (pkg_request_to_changes env depth self req)"
  proof (induction rule: accp.induct)
    case (accI req)
    from pkg_request_enough_depth [OF accI.IH] obtain depth
      where "\<forall>r \<in> set (pulled_in env self req). is_ok_result (pkg_request_to_changes env depth self r)" by blast
    then show ?case by (intro exI [of _ "Suc depth"]) (simp add: pkg_request_step del: pkg_request_to_changes.simps)
  qed
qed


text \<open>Two packages that were resolved without the components that need each other.\<close>

definition needing :: "str \<Rightarrow> str \<Rightarrow> package_spec" where
  "needing name other =
     (package_new (ident_new (ident_new name (from_parts [1])) (BuildId ''3I42H3S6'')))
     \<lparr>ps_components := [default_run, (default_component (Named ''gui''))
        \<lparr>cs_requirements_with_options := [OptPkg \<lparr>po_pkg_request = pkg_request_new
           \<lparr>ri_repository_name = None, ri_name = other, ri_components = [Named ''gui''], ri_version = [], ri_build = None\<rparr> UnknownRequester, po_options = []\<rparr>]\<rparr>]\<rparr>"

definition gui_request :: "str \<Rightarrow> component \<Rightarrow> pkg_request_with_options" where
  "gui_request name c =
     \<lparr>po_pkg_request = pkg_request_new
        \<lparr>ri_repository_name = None, ri_name = name, ri_components = [c], ri_version = [], ri_build = None\<rparr> UnknownRequester, po_options = []\<rparr>"

definition example_env :: decision_env where
  "example_env = \<lparr>de_perms = lexicographic_pairs, de_parse_build = (\<lambda>s. Ok (BuildId s)), de_same = (=), de_order = id\<rparr>"

definition mutual_state :: solver_state where
  "mutual_state = state_new (\<lambda>_. 0) [gui_request ''maya'' Run, gui_request ''nuke'' Run] []
     [(needing ''maya'' ''nuke'', SpkInternalTestSource), (needing ''nuke'' ''maya'', SpkInternalTestSource)] []"

lemma mutual_pulled_in:
  "pulled_in example_env (builder_new mutual_state) (with_requester (gui_request ''maya'' (Named ''gui'')) (PackageBuild (ps_pkg (needing ''nuke'' ''maya''))))
     = [with_requester (gui_request ''nuke'' (Named ''gui'')) (PackageBuild (ps_pkg (needing ''maya'' ''nuke'')))]"
  "pulled_in example_env (builder_new mutual_state) (with_requester (gui_request ''nuke'' (Named ''gui'')) (PackageBuild (ps_pkg (needing ''maya'' ''nuke''))))
     = [with_requester (gui_request ''maya'' (Named ''gui'')) (PackageBuild (ps_pkg (needing ''nuke'' ''maya'')))]"
  "pulled_in example_env (builder_new mutual_state) (gui_request ''maya'' (Named ''gui''))
     = [with_requester (gui_request ''nuke'' (Named ''gui'')) (PackageBuild (ps_pkg (needing ''maya'' ''nuke'')))]"
  by code_simp+

definition ok_or_running :: "(decision_error, 'a) outcome \<Rightarrow> bool" where
  "ok_or_running r \<longleftrightarrow> is_ok_result r \<or> r = Err StillRunning"

lemma ok_or_running_simps [simp]: "ok_or_running (Ok x)" "ok_or_running (Err e) \<longleftrightarrow> e = StillRunning" "\<not> ok_or_running Panic"
  by (simp_all add: ok_or_running_def)

lemma ok_or_running_and_then: "ok_or_running r \<Longrightarrow> (\<And>x. ok_or_running (f x)) \<Longrightarrow> ok_or_running (and_then r f)"
  by (cases r) auto

lemma ok_or_running_concat: "(\<And>r. r \<in> set rs \<Longrightarrow> ok_or_running r) \<Longrightarrow> ok_or_running (concat_results rs)"
  by (induction rs) (auto intro!: ok_or_running_and_then)

lemma ok_or_running_requirements: "(\<And>r. ok_or_running (f r)) \<Longrightarrow> ok_or_running (requirements_to_changes f reqs b)"
  unfolding requirements_to_changes_def by (rule ok_or_running_concat) (auto split: request_with_options.splits)

lemma pkg_request_ok_or_running: "ok_or_running (pkg_request_to_changes env depth self req)"
proof (induction depth arbitrary: req)
  case (Suc depth)
  have "ok_or_running (and_then (concat_results (map (\<lambda>c. requirements_to_changes (pkg_request_to_changes env depth self) (reqs c) b) cs)) (\<lambda>more. Ok (out # more)))"
    for reqs :: "component_spec \<Rightarrow> request_with_options list" and b cs out
    by (auto intro!: ok_or_running_and_then ok_or_running_concat ok_or_running_requirements Suc.IH)
  moreover have "get_merged_request (de_perms env) (st_pkg_requests (db_base self)) (req_name req) \<noteq> Panic"
    using get_merged_request_returns by blast
  ultimately show ?case by (auto simp: Let_def split: option.splits outcome.splits)
qed simp

lemma not_accp_cycle:
  assumes "\<And>r. P r \<Longrightarrow> \<exists>r'. R r' r \<and> P r'"
  shows "Wellfounded.accp R r \<Longrightarrow> \<not> P r"
  by (induction rule: accp.induct) (use assms in blast)

text \<open>
  When two packages were resolved without components that need each other, a request for one of these components never gets its changes:
  the calls nest for ever.
\<close>

theorem mutual_components_never_return:
  "pkg_request_to_changes example_env depth (builder_new mutual_state) (gui_request ''maya'' (Named ''gui'')) = Err StillRunning"
proof -
  let ?maya = "with_requester (gui_request ''maya'' (Named ''gui'')) (PackageBuild (ps_pkg (needing ''nuke'' ''maya'')))"
    and ?nuke = "with_requester (gui_request ''nuke'' (Named ''gui'')) (PackageBuild (ps_pkg (needing ''maya'' ''nuke'')))"
    and ?first = "gui_request ''maya'' (Named ''gui'')"
  have step: "\<exists>r'. r' \<in> set (pulled_in example_env (builder_new mutual_state) r) \<and> r' \<in> {?first, ?maya, ?nuke}"
    if "r \<in> {?first, ?maya, ?nuke}" for r
    using that by (auto simp: mutual_pulled_in)
  have "\<not> Wellfounded.accp (\<lambda>r' r. r' \<in> set (pulled_in example_env (builder_new mutual_state) r)) ?first"
  proof
    assume acc: "Wellfounded.accp (\<lambda>r' r. r' \<in> set (pulled_in example_env (builder_new mutual_state) r)) ?first"
    have "?first \<notin> {?first, ?maya, ?nuke}"
      by (rule not_accp_cycle [where P = "\<lambda>r. r \<in> {?first, ?maya, ?nuke}", OF step acc])
    then show False by simp
  qed
  then have "\<not> is_ok_result (pkg_request_to_changes example_env depth (builder_new mutual_state) ?first)"
    using pkg_request_returns_acc by blast
  then show ?thesis using pkg_request_ok_or_running by (auto simp: ok_or_running_def)
qed

section \<open>What a decision does to a state\<close>

fun requested :: "change \<Rightarrow> pkg_request_with_options option" where
  "requested (RequestPackage r _) = Some r"
| "requested _ = None"

fun goes_back :: "change \<Rightarrow> bool" where
  "goes_back (StepBack _ _) = True"
| "goes_back _ = False"

lemma change_apply_requests:
  "\<not> goes_back c \<Longrightarrow> st_pkg_requests (change_apply perms patterns hasher c parent s) =
     (case c of RequestPackage r prioritize \<Rightarrow> request_package_requests perms patterns r prioritize (st_pkg_requests s) | _ \<Rightarrow> st_pkg_requests s)"
  by (cases c) (auto simp: with_pkg_requests_def with_var_requests_and_options_def with_options_def append_package_def Let_def)

lemma decision_loop_admits:
  assumes "all_pairs perms" "list_all simple_request (st_pkg_requests s)" "list_all (\<lambda>c. \<not> goes_back c) changes"
    and "list_all (\<lambda>c. case requested c of Some r \<Rightarrow> simple_request r | None \<Rightarrow> True) changes"
  shows "admitted (st_pkg_requests (decision_loop perms patterns hasher parent s changes)) pkg \<longleftrightarrow>
    admitted (st_pkg_requests s) pkg \<and> (\<forall>c r. c \<in> set changes \<and> requested c = Some r \<and> req_name r = ident_name pkg \<longrightarrow> applicable r pkg)"
  using assms(2-)
proof (induction changes arbitrary: s)
  case (Cons c changes)
  let ?s = "change_apply perms patterns hasher c parent s"
  have "list_all simple_request (st_pkg_requests ?s)
      \<and> (admitted (st_pkg_requests ?s) pkg \<longleftrightarrow> admitted (st_pkg_requests s) pkg
           \<and> (\<forall>r. requested c = Some r \<and> req_name r = ident_name pkg \<longrightarrow> applicable r pkg))"
  proof (cases c)
    case (RequestPackage r prioritize)
    with Cons.prems request_package_facts [OF assms(1), of "st_pkg_requests s" r patterns prioritize pkg] show ?thesis
      by (simp add: change_apply_requests del: change_apply.simps)
  qed (use Cons.prems in \<open>auto simp: change_apply_requests simp del: change_apply.simps\<close>)
  with Cons.IH [of ?s] Cons.prems show ?case by auto
qed simp

fun resolved_by :: "change \<Rightarrow> str option" where
  "resolved_by (SetPackage spec _) = Some (spec_name spec)"
| "resolved_by (SetPackageBuild spec _) = Some (spec_name spec)"
| "resolved_by _ = None"

lemma decision_loop_packages:
  assumes "list_all (\<lambda>c. \<not> goes_back c) changes" "bt_wf (st_packages s)"
  shows "dom (bt_get (st_packages (decision_loop perms patterns hasher parent s changes))) =
      dom (bt_get (st_packages s)) \<union> {n. \<exists>c \<in> set changes. resolved_by c = Some n}"
  using assms
proof (induction changes arbitrary: s)
  case (Cons c changes)
  have "bt_wf (st_packages (change_apply perms patterns hasher c parent s))
    \<and> dom (bt_get (st_packages (change_apply perms patterns hasher c parent s))) = dom (bt_get (st_packages s)) \<union> set_option (resolved_by c)"
    using Cons.prems by (cases c) (simp_all add: with_pkg_requests_def with_var_requests_and_options_def with_options_def append_package_def Let_def)
  with Cons.IH [of "change_apply perms patterns hasher c parent s"] Cons.prems show ?case by auto
qed simp

lemma applicable_kept [simp]:
  "applicable (with_requester r b) = applicable r" "applicable (set_request_components r cs) = applicable r"
  "applicable (with_default_component c r) = applicable r"
  by (auto simp: fun_eq_iff applicable_def ri_is_applicable_def with_requester_def add_requester_def set_request_components_def with_default_component_def)

abbreviation forward :: "change list \<Rightarrow> bool" where
  "forward changes \<equiv> list_all (\<lambda>c. \<not> goes_back c) changes"

lemma concat_results_forward:
  assumes "concat_results (map f xs) = Ok ys" "\<And>x zs. x \<in> set xs \<Longrightarrow> f x = Ok zs \<Longrightarrow> forward zs"
  shows "forward ys"
  using concat_results_member [OF assms(1)] assms(2) by (fastforce simp: list_all_iff)

lemma requirements_to_changes_forward:
  assumes "requirements_to_changes f reqs b = Ok ys" "\<And>r zs. f r = Ok zs \<Longrightarrow> forward zs"
  shows "forward ys"
  using assms(1) unfolding requirements_to_changes_def
  by (rule concat_results_forward) (auto split: request_with_options.splits dest: assms(2))

lemma pkg_request_forward: "pkg_request_to_changes env depth self req = Ok changes \<Longrightarrow> forward changes"
proof (induction depth arbitrary: req changes)
  case (Suc depth)
  have "concat_results (map (\<lambda>c. requirements_to_changes (pkg_request_to_changes env depth self) (reqs c) b) cs) = Ok ys \<Longrightarrow> forward ys"
    for reqs :: "component_spec \<Rightarrow> request_with_options list" and b cs ys
    by (erule concat_results_forward) (erule requirements_to_changes_forward, erule Suc.IH)
  with Suc.prems show ?case by (auto simp: Let_def split: option.splits outcome.splits if_splits)
qed simp

lemma options_to_change_forward [simp]: "\<not> goes_back (options_to_change spec)"
  by (simp add: options_to_change_def)

lemma set_package_forward: "set_package env depth self spec source = Ok changes \<Longrightarrow> forward changes"
proof (induction depth arbitrary: spec source changes)
  case (Suc depth)
  then obtain parent reqs comps embeds where ok:
    "parent_to_changes env depth self spec = Ok parent"
    "requirements_to_changes (pkg_request_to_changes env depth self) (runtime_requirements spec) (PackageBuild (ps_pkg spec)) = Ok reqs"
    "components_to_changes env depth self (ps_components spec) (ps_pkg spec) = Ok comps"
    "embedded_to_changes env (set_package env depth self) self (ps_embedded spec) (ps_components spec) (ps_pkg spec) = Ok embeds"
    and changes: "changes = SetPackage spec source # parent @ reqs @ comps @ embeds @ [options_to_change spec]"
    by (auto simp: package_changes_def)
  have "forward parent"
    using ok(1) by (auto simp: parent_to_changes_def dest: pkg_request_forward split: build.splits embedded_source.splits)
  moreover have "forward reqs" using ok(2) by (rule requirements_to_changes_forward) (rule pkg_request_forward)
  moreover have "forward comps"
    using ok(3) unfolding components_to_changes_def Let_def
    by (elim concat_results_forward) (erule requirements_to_changes_forward, erule pkg_request_forward)
  moreover have "forward embeds"
    using ok(4) unfolding embedded_to_changes_def Let_def
    by (auto split: if_splits elim!: concat_results_forward) (erule Suc.IH)+
  ultimately show ?case unfolding changes by simp
qed simp

text \<open>A requirement of a package that comes with the components that are asked for.\<close>

definition requirement_of :: "decision_builder \<Rightarrow> package_spec \<Rightarrow> pkg_request_with_options \<Rightarrow> bool" where
  "requirement_of self spec r \<longleftrightarrow>
     OptPkg r \<in> set (runtime_requirements spec)
     \<or> (\<exists>c \<in> set (ps_components spec). cs_name c \<in> set (resolve_uses (ps_components spec) (db_components self))
          \<and> OptPkg r \<in> set (cs_requirements_with_options c))"

lemma pkg_request_first:
  "pkg_request_to_changes env depth self req = Ok changes \<Longrightarrow> RequestPackage (with_default_component Run req) False \<in> set changes"
  by (cases depth) (auto simp: Let_def split: option.splits outcome.splits if_splits)

lemma requirements_to_changes_requests:
  assumes "requirements_to_changes f reqs b = Ok changes" "OptPkg r \<in> set reqs" "\<And>zs. f (with_requester r b) = Ok zs \<Longrightarrow> x \<in> set zs"
  shows "x \<in> set changes"
proof -
  let ?f = "\<lambda>req. case req of OptPkg req \<Rightarrow> f (with_requester req b) | OptVar req \<Rightarrow> Ok [RequestVar req]"
  have run: "concat_results (map ?f reqs) = Ok changes" using assms(1) unfolding requirements_to_changes_def .
  then have "list_all is_ok_result (map ?f reqs)" using concat_results_is_ok [of "map ?f reqs"] by simp
  with assms(2) obtain zs where "f (with_requester r b) = Ok zs" by (force simp: list_all_iff is_ok_result_iff)
  with assms(2,3) show ?thesis unfolding concat_results_member [OF run] by force
qed

lemma requested_member:
  "RequestPackage r' prioritize \<in> set changes \<Longrightarrow> req_name r' = req_name r \<Longrightarrow> applicable r' = applicable r \<Longrightarrow>
   \<exists>c r'. c \<in> set changes \<and> requested c = Some r' \<and> req_name r' = req_name r \<and> applicable r' = applicable r"
  by force

lemma package_changes_request:
  assumes "package_changes env depth f self spec = Ok changes" "requirement_of self spec r"
  shows "\<exists>c r'. c \<in> set changes \<and> requested c = Some r' \<and> req_name r' = req_name r \<and> applicable r' = applicable r"
proof -
  from assms(1) obtain reqs comps embeds where ok:
    "requirements_to_changes (pkg_request_to_changes env depth self) (runtime_requirements spec) (PackageBuild (ps_pkg spec)) = Ok reqs"
    "components_to_changes env depth self (ps_components spec) (ps_pkg spec) = Ok comps" "changes = reqs @ comps @ embeds @ [options_to_change spec]"
    by (auto simp: package_changes_def)
  consider (runtime) "OptPkg r \<in> set (runtime_requirements spec)"
    | (component) c where "c \<in> set (ps_components spec)" "cs_name c \<in> set (resolve_uses (ps_components spec) (db_components self))"
        "OptPkg r \<in> set (cs_requirements_with_options c)"
    using assms(2) unfolding requirement_of_def by blast
  then show ?thesis
  proof cases
    case runtime
    have "RequestPackage (with_default_component Run (with_requester r (PackageBuild (ps_pkg spec)))) False \<in> set reqs"
      using ok(1) runtime by (rule requirements_to_changes_requests) (rule pkg_request_first)
    with ok(3) show ?thesis by fastforce
  next
    case component
    let ?to = "\<lambda>c req. pkg_request_to_changes env depth self
      (if cs_name c = Build \<and> \<not> ri_is_source (pr_pkg (po_pkg_request req)) then with_default_component Build req else req)"
    let ?req = "\<lambda>req. if cs_name c = Build \<and> \<not> ri_is_source (pr_pkg (po_pkg_request req)) then with_default_component Build req else req"
    have run: "concat_results (map (\<lambda>c. requirements_to_changes (?to c) (cs_requirements_with_options c) (PackageBuild (ps_pkg spec)))
        (filter (\<lambda>c. cs_name c \<in> set (resolve_uses (ps_components spec) (db_components self))) (ps_components spec))) = Ok comps"
      using ok(2) by (simp add: components_to_changes_def Let_def)
    obtain out where out: "requirements_to_changes (?to c) (cs_requirements_with_options c) (PackageBuild (ps_pkg spec)) = Ok out" "set out \<subseteq> set comps"
      using concat_results_each [OF run, of c] component(1,2) by auto
    have "RequestPackage (with_default_component Run (?req (with_requester r (PackageBuild (ps_pkg spec))))) False \<in> set out"
      using out(1) component(3) by (rule requirements_to_changes_requests) (rule pkg_request_first)
    then have "RequestPackage (with_default_component Run (?req (with_requester r (PackageBuild (ps_pkg spec))))) False \<in> set changes"
      using out(2) unfolding ok(3) by auto
    then show ?thesis by (rule requested_member) simp_all
  qed
qed


definition example_builder :: decision_builder where
  "example_builder = with_components (builder_new example_state) [Run]"

definition example_resolved :: package_spec where
  "example_resolved =
     (package_new (ident_new (ident_new ''maya'' (from_parts [2020])) (BuildId ''3I42H3S6'')))
     \<lparr>ps_install_requirements_with_options := [OptPkg (example_request [LessThan (from_parts [3])])]\<rparr>"


section \<open>The options of a resolved package\<close>

lemma compute_new_options_get:
  assumes "bt_wf options" "distinct (map fst new)"
  shows "bt_get (compute_new_options options new False) k =
    (case map_of new k of
       Some v \<Rightarrow> if v = [] \<and> bt_get options k \<noteq> None then bt_get options k else Some v
     | None \<Rightarrow> bt_get options k)"
  using assms
proof (induction options new False rule: compute_new_options.induct)
  case (2 options k' v new)
  have fresh: "map_of new k' = None" "distinct (map fst new)" using 2(4) by (simp_all add: map_of_eq_None_iff)
  show ?case
  proof (cases "bt_get options k' \<noteq> None \<and> v = []")
    case True
    with 2(1) [OF _ 2(3) fresh(2)] fresh(1) show ?thesis by (cases "k = k'") simp_all
  next
    case False
    have "bt_get (compute_new_options (bt_insert k' v options) new False) k =
        (case map_of new k of
           Some v2 \<Rightarrow> if v2 = [] \<and> bt_get (bt_insert k' v options) k \<noteq> None then bt_get (bt_insert k' v options) k else Some v2
         | None \<Rightarrow> bt_get (bt_insert k' v options) k)" using 2(2) [OF _ _ fresh(2)] False 2(3) by simp
    moreover have "compute_new_options options ((k', v) # new) False = compute_new_options (bt_insert k' v options) new False" using False by auto
    ultimately show ?thesis using 2(3) fresh(1) False by (cases "k = k'"; cases "map_of new k") auto
  qed
qed simp

lemma decision_loop_append:
  "decision_loop perms patterns hasher parent s (xs @ ys) = decision_loop perms patterns hasher parent (decision_loop perms patterns hasher parent s xs) ys"
  by (induction xs arbitrary: s) auto

lemma decision_loop_options_wf:
  "forward changes \<Longrightarrow> bt_wf (st_options s) \<Longrightarrow> bt_wf (st_options (decision_loop perms patterns hasher parent s changes))"
proof (induction changes arbitrary: s)
  case (Cons c changes)
  have "bt_wf (st_options (change_apply perms patterns hasher c parent s))"
    using Cons.prems by (cases c)
      (simp_all add: with_pkg_requests_def with_var_requests_and_options_def with_options_def append_package_def Let_def compute_new_options_wf
        del: compute_new_options.simps)
  with Cons show ?case by simp
qed simp

lemma option_fold_facts:
  assumes "bt_wf opts"
  shows "bt_wf (fold (\<lambda>(name, v) opts. if v \<noteq> [] then bt_insert (f name) v opts else opts) xs opts)"
    and "(\<And>n v. (n, v) \<in> set xs \<Longrightarrow> f n \<noteq> k) \<Longrightarrow>
      bt_get (fold (\<lambda>(name, v) opts. if v \<noteq> [] then bt_insert (f name) v opts else opts) xs opts) k = bt_get opts k"
    and "distinct (map fst xs) \<Longrightarrow> inj_on f (fst ` set xs) \<Longrightarrow> (n, v) \<in> set xs \<Longrightarrow> v \<noteq> [] \<Longrightarrow>
      bt_get (fold (\<lambda>(name, v) opts. if v \<noteq> [] then bt_insert (f name) v opts else opts) xs opts) (f n) = Some v"
proof -
  let ?fold = "fold (\<lambda>(name, v) opts. if v \<noteq> [] then bt_insert (f name) v opts else opts)"
  show "bt_wf (?fold xs opts)" using assms by (induction xs arbitrary: opts) auto
  have keep: "bt_get (?fold xs opts) k = bt_get opts k" if "bt_wf opts" "\<And>n v. (n, v) \<in> set xs \<Longrightarrow> f n \<noteq> k" for xs opts k
    using that
  proof (induction xs arbitrary: opts)
    case (Cons x xs)
    obtain n' v' where x: "x = (n', v')" by fastforce
    with Cons.prems(2) have "f n' \<noteq> k" by auto
    moreover have "bt_get (?fold xs m) k = bt_get m k" if "bt_wf m" for m
      using Cons.IH [OF that] Cons.prems(2) by (meson list.set_intros(2))
    ultimately show ?case using Cons.prems(1) x by simp
  qed simp
  then show "bt_get (?fold xs opts) k = bt_get opts k" if "\<And>n v. (n, v) \<in> set xs \<Longrightarrow> f n \<noteq> k" using that assms by blast
  show "bt_get (?fold xs opts) (f n) = Some v"
    if "distinct (map fst xs)" "inj_on f (fst ` set xs)" "(n, v) \<in> set xs" "v \<noteq> []"
    using that assms
  proof (induction xs arbitrary: opts)
    case (Cons x xs)
    obtain n' v' where x: "x = (n', v')" by fastforce
    show ?case
    proof (cases "x = (n, v)")
      case True
      have "f n2 \<noteq> f n" if "(n2, v2) \<in> set xs" for n2 v2
        using that Cons.prems(1,2) True by (force simp: inj_on_def)
      with keep [of "bt_insert (f n) v opts" xs "f n"] True Cons.prems(4,5) show ?thesis by auto
    next
      case False
      with Cons.prems x have mem: "(n, v) \<in> set xs" "distinct (map fst xs)" "inj_on f (fst ` set xs)" by auto
      then show ?thesis using Cons.IH [OF mem(2,3,1) Cons.prems(4)] Cons.prems(5) x by auto
    qed
  qed simp
qed

lemma option_values_wf: "bt_wf (option_values spec)"
proof -
  have "bt_wf m \<Longrightarrow> bt_wf (fold (\<lambda>o1. bt_insert (opt_full_name o1) (opt_get_value o1 None)) options m)" for options m
    by (induction options arbitrary: m) auto
  then show ?thesis by (simp add: option_values_def option_values_of_def bt_wf_def)
qed

text \<open>
  After a decision to resolve a package, the options of the state give the compatible version of the package under its name, and
  every option of it that has a value under the name of the package and the option.
\<close>

theorem resolve_package_options:
  assumes "resolve_package env depth self spec source = Ok changes" "bt_wf (st_options (db_base self))" "CHR ''.'' \<notin> set (spec_name spec)"
    and "inj_on (\<lambda>n. with_default_namespace n (spec_name spec)) (fst ` set (option_values spec))"
    and "options = st_options (decision_apply perms patterns hasher changes (db_base self))"
  shows "bt_get options (spec_name spec) = Some (compat_render (ps_compat spec) (ident_version (ps_pkg spec)))
    \<and> (\<forall>n v. (n, v) \<in> set (option_values spec) \<and> v \<noteq> [] \<longrightarrow> bt_get options (with_default_namespace n (spec_name spec)) = Some v)"
proof -
  obtain rest where run: "changes = rest @ [options_to_change spec]"
    using assms(1) unfolding resolve_package_def by (cases depth) (auto simp: package_changes_def)
  have forward: "forward changes" using assms(1) unfolding resolve_package_def by (rule set_package_forward)
  let ?f = "\<lambda>n. with_default_namespace n (spec_name spec)"
  let ?first = "bt_insert (spec_name spec) (compat_render (ps_compat spec) (ident_version (ps_pkg spec))) []"
  let ?new = "fold (\<lambda>(name, v) opts. if v \<noteq> [] then bt_insert (?f name) v opts else opts) (option_values spec) ?first"
  let ?s = "decision_loop perms patterns hasher (db_base self) (db_base self) rest"
  have wf: "bt_wf (st_options ?s)" using forward assms(2) run by (intro decision_loop_options_wf) auto
  have first: "bt_wf ?first" by (simp add: bt_wf_def)
  have new: "bt_wf ?new" by (rule option_fold_facts(1) [OF first])
  have options: "options = compute_new_options (st_options ?s) ?new False"
    unfolding assms(5) decision_apply_def run decision_loop_append by (simp add: options_to_change_def with_options_def)
  have get: "map_of ?new k = Some v \<Longrightarrow> v \<noteq> [] \<Longrightarrow> bt_get options k = Some v" for k v
    unfolding options using compute_new_options_get [OF wf bt_wf_distinct [OF new]] by simp
  have "?f n \<noteq> spec_name spec" for n using assms(3) by (metis in_set_conv_decomp with_default_namespace_def)
  then have "map_of ?new (spec_name spec) = Some (compat_render (ps_compat spec) (ident_version (ps_pkg spec)))"
    using option_fold_facts(2) [OF first, of "option_values spec" ?f "spec_name spec"] by simp
  moreover have "compat_render (ps_compat spec) (ident_version (ps_pkg spec)) \<noteq> []" by (simp add: compat_render_def)
  moreover have "map_of ?new (?f n) = Some v" if "(n, v) \<in> set (option_values spec)" "v \<noteq> []" for n v
    using option_fold_facts(3) [OF first bt_wf_distinct [OF option_values_wf] assms(4) that] .
  ultimately show ?thesis using get by blast
qed

theorem resolve_package_options_witness:
  "\<exists>changes. resolve_package example_env 5 example_builder example_resolved SpkInternalTestSource = Ok changes
     \<and> bt_get (st_options (decision_apply lexicographic_pairs [] (\<lambda>_. 0) changes example_state)) ''maya'' = Some ''~2020.0.0''"
proof -
  have "is_ok_result (resolve_package example_env 5 example_builder example_resolved SpkInternalTestSource)" by code_simp
  then obtain changes where changes: "resolve_package example_env 5 example_builder example_resolved SpkInternalTestSource = Ok changes"
    unfolding is_ok_result_iff by blast
  have facts: "bt_wf (st_options (db_base example_builder))" "CHR ''.'' \<notin> set (spec_name example_resolved)" "option_values example_resolved = []"
    "spec_name example_resolved = ''maya''" "compat_render (ps_compat example_resolved) (ident_version (ps_pkg example_resolved)) = ''~2020.0.0''"
    by code_simp+
  have base: "db_base example_builder = example_state" by (simp add: example_builder_def with_components_def builder_new_def)
  have "inj_on (\<lambda>n. with_default_namespace n (spec_name example_resolved)) (fst ` set (option_values example_resolved))" by (simp add: facts(3))
  from resolve_package_options [OF changes facts(1,2) this refl, of lexicographic_pairs "[]" "\<lambda>_. 0"] changes show ?thesis
    unfolding facts(4,5) base by blast
qed

section \<open>Reconsidering a package\<close>

abbreviation policy_of :: "pkg_request_with_options \<Rightarrow> inclusion_policy" where
  "policy_of r \<equiv> pr_inclusion_policy (po_pkg_request r)"

lemma pkg_request_restrict_policy:
  "pr_inclusion_policy (snd (pkg_request_restrict perms a b)) = min (pr_inclusion_policy a) (pr_inclusion_policy b)"
  unfolding pkg_request_restrict_def Let_def by (split prod.split) simp

lemma with_options_restrict_policy: "policy_of (snd (with_options_restrict perms a b)) = min (policy_of a) (policy_of b)"
proof -
  obtain result pr where run: "pkg_request_restrict perms (po_pkg_request a) (po_pkg_request b) = (result, pr)" by fastforce
  have "po_pkg_request (snd (with_options_restrict perms a b)) = pr"
    unfolding with_options_restrict_def run prod.case Let_def by (auto simp: case_prod_beta)
  moreover have "pr_inclusion_policy pr = min (policy_of a) (policy_of b)"
    using pkg_request_restrict_policy [of perms "po_pkg_request a" "po_pkg_request b"] unfolding run snd_conv .
  ultimately show ?thesis by (rule ssubst)
qed

lemma merge_into_always:
  assumes "\<And>r. r \<in> set requests \<Longrightarrow> req_name r = name \<Longrightarrow> policy_of r = Always" "policy_of request = Always" "req_name request = name"
    and "merge_into perms name (Some request) requests = (cloned, new)"
  shows "(\<forall>r \<in> set new. req_name r = name \<longrightarrow> policy_of r = Always) \<and> (cloned = None \<longrightarrow> name \<in> req_name ` set new)"
  using assms
proof (induction requests arbitrary: request new)
  case (Cons existing requests)
  show ?case
  proof (cases "req_name existing = name")
    case False
    with Cons.prems obtain rest where "merge_into perms name (Some request) requests = (cloned, rest)" "new = existing # rest"
      by (auto simp: map_prod_def split: prod.splits)
    with Cons.IH [OF _ Cons.prems(2,3)] Cons.prems(1) False show ?thesis by simp
  next
    case True
    obtain result out where run: "with_options_restrict perms request existing = (result, out)" by fastforce
    have out: "policy_of out = Always" "req_name out = name"
      using with_options_restrict_policy [of perms request existing] with_options_restrict_name [of perms request existing] run Cons.prems True
      by (auto simp: req_name_def)
    show ?thesis
    proof (cases result)
      case Compatible
      with Cons.prems run True have "new = out # requests" "cloned = None" by (auto simp: map_prod_def)
      with Cons.prems out show ?thesis by auto
    next
      case (Incompatible reason)
      with Cons.prems run True obtain rest where "merge_into perms name (Some out) requests = (cloned, rest)" "new = existing # rest"
        by (auto simp: map_prod_def split: prod.splits)
      with Cons.IH [OF _ out] Cons.prems(1) True show ?thesis by simp
    qed
  qed
qed auto

lemma sort_key_hd:
  assumes "x \<in> set xs" "key x = (0::int)" "\<And>x. x \<in> set xs \<Longrightarrow> 0 \<le> key x"
  shows "\<exists>h t. sort_key key xs = h # t \<and> h \<in> set xs \<and> key h = 0"
proof (cases "sort_key key xs")
  case Nil
  with assms(1) have False by (metis empty_iff list.set(1) set_sort)
  then show ?thesis ..
next
  case (Cons h t)
  have "sorted (map key (h # t))" unfolding Cons [symmetric] by simp
  moreover have "x \<in> set (h # t)" "set (h # t) = set xs" unfolding Cons [symmetric] using assms(1) by simp_all
  ultimately have "h \<in> set xs" "key h \<le> key x" by auto
  with assms Cons show ?thesis by force
qed

lemma prioritized_head:
  assumes "\<And>r. r \<in> set requests \<Longrightarrow> req_name r = req_name request \<Longrightarrow> policy_of r = Always" "policy_of request = Always"
  shows "\<exists>h t. request_package_requests perms patterns request True requests = h # t \<and> req_name h = req_name request \<and> policy_of h = Always"
proof -
  obtain cloned new where run: "merge_into perms (req_name request) (Some request) requests = (cloned, new)" by fastforce
  let ?new = "if cloned = None then new
    else promote_names patterns req_name (sort_key (\<lambda>req. if req_name req = req_name request then (0::int) else 1) new @ [request])"
  have merged: "\<forall>r \<in> set new. req_name r = req_name request \<longrightarrow> policy_of r = Always" "cloned = None \<longrightarrow> req_name request \<in> req_name ` set new"
    using merge_into_always [OF assms(1,2) refl run] by blast+
  have set_new: "set ?new = (if cloned = None then set new else insert request (set new))" by (auto simp: promote_names_def)
  with merged(2) obtain x where x: "x \<in> set ?new" "req_name x = req_name request" by (cases "cloned = None") auto
  have "\<exists>h t. sort_key (\<lambda>req. if req_name req \<noteq> req_name request then (1::int) else 0) ?new = h # t \<and> h \<in> set ?new
      \<and> (if req_name h \<noteq> req_name request then (1::int) else 0) = 0"
    by (rule sort_key_hd [OF x(1)]) (use x(2) in auto)
  moreover have "request_package_requests perms patterns request True requests
      = sort_key (\<lambda>req. if req_name req \<noteq> req_name request then (1::int) else 0) ?new"
    using run by (simp add: request_package_requests_def Let_def)
  ultimately obtain h t where h: "request_package_requests perms patterns request True requests = h # t" "h \<in> set ?new" "req_name h = req_name request"
    by (auto split: if_splits)
  moreover have "policy_of h = Always" using h(2,3) merged(1) assms(2) set_new by (auto split: if_splits)
  ultimately show ?thesis by blast
qed

fun next_name :: "next_request \<Rightarrow> str" where
  "next_name (NextRequest r) = req_name r"
| "next_name (NextConflict r _) = ri_name (pr_pkg r)"

lemma merged_loop_conflict_name:
  "merged_request_loop perms merged requests = Err (MergeConflict conflict reason) \<Longrightarrow> ri_name (pr_pkg conflict) = req_name merged"
proof (induction requests arbitrary: merged)
  case (Cons request requests)
  obtain result out where run: "with_options_restrict perms merged request = (result, out)" by fastforce
  then have "req_name out = req_name merged" using with_options_restrict_name [of perms merged request] by (simp add: req_name_def)
  with Cons run show ?case by (auto simp: req_name_def split: if_splits compatibility.splits)
qed simp

lemma merged_conflict_name:
  "get_merged_request perms requests name = Err (MergeConflict conflict reason) \<Longrightarrow> ri_name (pr_pkg conflict) = name"
  by (induction requests) (auto split: if_splits dest: merged_loop_conflict_name)

text \<open>
  C24: Reconsidering a package that is not resolved goes back to the state of the builder, whatever was decided since, and makes the package
  the next one to be looked at, as long as it is not only wanted if already present.
\<close>

theorem reconsider_package_next:
  assumes "bt_get (st_packages (db_base self)) (req_name request) = None" "policy_of request = Always"
    and "\<And>r. r \<in> set (st_pkg_requests (db_base self)) \<Longrightarrow> req_name r = req_name request \<Longrightarrow> policy_of r = Always"
    and "s = decision_apply perms patterns hasher (reconsider_package self request name) parent"
  shows "st_packages s = st_packages (db_base self) \<and> st_options s = st_options (db_base self)
    \<and> (\<exists>n. get_next_request perms s = Ok (Some n) \<and> next_name n = req_name request)"
proof -
  obtain h t where h: "request_package_requests perms patterns request True (st_pkg_requests (db_base self)) = h # t"
    "req_name h = req_name request" "policy_of h = Always"
    using prioritized_head [OF assms(3,2)] by blast
  have s: "st_pkg_requests s = h # t" "st_packages s = st_packages (db_base self)" "st_options s = st_options (db_base self)"
    using h(1) assms(4) by (simp_all add: decision_apply_def reconsider_package_def with_pkg_requests_def)
  have "pending s h" using h s(2) assms(1) by (simp add: pending_def bt_contains_key_def map_of_eq_None_iff)
  then have find: "find (pending s) (st_pkg_requests s) = Some h" using s(1) by simp
  have "req_name h \<in> req_name ` set (st_pkg_requests s)" using s(1) by simp
  with get_merged_request_returns [of perms "st_pkg_requests s" "req_name h"]
  have "(\<exists>merged. get_merged_request perms (st_pkg_requests s) (req_name h) = Ok merged)
      \<or> (\<exists>c e. get_merged_request perms (st_pkg_requests s) (req_name h) = Err (MergeConflict c e))"
    by (metis merged_error.exhaust outcome.exhaust)
  then have "\<exists>n. get_next_request perms s = Ok (Some n) \<and> next_name n = req_name h"
    using get_merged_request_name merged_conflict_name
    by (fastforce simp: get_next_request_def next_request_loop_find [OF subset_refl] find)
  with s h(2) show ?thesis by simp
qed

theorem reconsider_package_next_witness:
  "\<exists>n. get_next_request lexicographic_pairs
       (decision_apply lexicographic_pairs [] (\<lambda>_. 0) (reconsider_package (builder_new mutual_state) (example_request []) ''maya'') example_state) = Ok (Some n)
     \<and> next_name n = ''python''"
proof -
  let ?base = "db_base (builder_new mutual_state)" and ?request = "example_request []"
  have facts: "bt_get (st_packages ?base) (req_name ?request) = None" "policy_of ?request = Always"
    "list_all (\<lambda>r. req_name r \<noteq> req_name ?request) (st_pkg_requests ?base)" "req_name ?request = ''python''"
    by code_simp+
  have "policy_of r = Always" if "r \<in> set (st_pkg_requests ?base)" "req_name r = req_name ?request" for r
    using facts(3) that by (simp add: list_all_iff)
  from reconsider_package_next [OF facts(1,2) this refl, of lexicographic_pairs "[]" "\<lambda>_. 0" "''maya''" example_state]
  show ?thesis unfolding facts(4) by blast
qed

end
