(* ===== verification/Solver_Graph.thy ===== *)
theory Solver_Graph
  imports Solver_Decisions
begin

text \<open>
  The graph of decisions of the package solver (\<open>Graph\<close>, \<open>Node\<close> and \<open>GraphIter\<close> in \<^verbatim>\<open>crates/spk-solve/crates/graph/src/graph.rs\<close>). A node
  is shared by reference in the program; here it is named by the identifier of its state, under which the graph keeps it. The iterators
  over packages that a node keeps are values of an arbitrary type with a function that copies them. A decision is the list of its changes;
  its notes are left out, and so are debug assertions.
\<close>

section \<open>Nodes and graphs\<close>

type_synonym decision = "change list"

record 'it node =
  nd_inputs :: "u64 set"
  nd_inputs_decisions :: "decision list"
  nd_outputs :: "u64 set"
  nd_outputs_decisions :: "decision list"
  nd_state :: solver_state
  nd_iterators :: "(str, 'it) hash_map"

record 'it graph =
  gr_root :: u64
  gr_nodes :: "(u64, 'it node) hash_map"

datatype graph_error = RecursionError | Deadlock

definition state_key :: "solver_state \<Rightarrow> u64" where
  "state_key s = sid_full_hash (st_state_id s)"

definition node_new :: "solver_state \<Rightarrow> 'it node" where
  "node_new s =
     \<lparr>nd_inputs = {}, nd_inputs_decisions = [], nd_outputs = {}, nd_outputs_decisions = [], nd_state = s, nd_iterators = []\<rparr>"

definition node_key :: "'it node \<Rightarrow> u64" where
  "node_key n = state_key (nd_state n)"

definition add_input :: "'it node \<Rightarrow> solver_state \<Rightarrow> decision \<Rightarrow> 'it node" where
  "add_input self state decision =
     self\<lparr>nd_inputs := insert (state_key state) (nd_inputs self), nd_inputs_decisions := nd_inputs_decisions self @ [decision]\<rparr>"

definition add_output :: "'it node \<Rightarrow> decision \<Rightarrow> solver_state \<Rightarrow> (graph_error, 'it node) outcome" where
  "add_output self decision state =
     (if state_key state \<in> nd_outputs self then Err RecursionError
      else Ok (self\<lparr>nd_outputs := insert (state_key state) (nd_outputs self),
                    nd_outputs_decisions := nd_outputs_decisions self @ [decision]\<rparr>))"

definition get_iterator :: "'it node \<Rightarrow> str \<Rightarrow> 'it option" where
  "get_iterator self package_name = hm_get (nd_iterators self) package_name"

definition set_iterator :: "('it \<Rightarrow> 'it) \<Rightarrow> str \<Rightarrow> 'it \<Rightarrow> 'it node \<Rightarrow> 'it node" where
  "set_iterator clone package_name iterator self = self\<lparr>nd_iterators := hm_insert package_name (clone iterator) (nd_iterators self)\<rparr>"

definition graph_new :: "hasher \<Rightarrow> 'it graph" where
  "graph_new hasher =
     (let dead_state = default_state hasher in
      \<lparr>gr_root = state_key dead_state, gr_nodes = [(state_key dead_state, node_new dead_state)]\<rparr>)"

definition update_node :: "u64 \<Rightarrow> 'it node \<Rightarrow> 'it graph \<Rightarrow> 'it graph" where
  "update_node k n self = self\<lparr>gr_nodes := hm_insert k n (gr_nodes self)\<rparr>"

text \<open>The node whose iterators a new node takes over. The new node is locked at this point.\<close>

definition iterator_source :: "'it graph \<Rightarrow> 'it node \<Rightarrow> u64 \<Rightarrow> decision \<Rightarrow> (graph_error, 'it node) outcome" where
  "iterator_source self old_node new_key decision =
     (case decision of
        [StepBack _ destination, _] \<Rightarrow>
          (case hm_get (gr_nodes self) (state_key destination) of
             None \<Rightarrow> Panic
           | Some n \<Rightarrow> if state_key destination = new_key then Err Deadlock else Ok n)
      | _ \<Rightarrow> Ok old_node)"

definition is_step_back_only :: "decision \<Rightarrow> bool" where
  "is_step_back_only decision = (case decision of [StepBack _ _] \<Rightarrow> True | _ \<Rightarrow> False)"

text \<open>Recording a decision at both of its ends, which may be the same node.\<close>

definition record_decision :: "'it graph \<Rightarrow> u64 \<Rightarrow> u64 \<Rightarrow> decision \<Rightarrow> 'it graph \<times> (graph_error, u64) outcome" where
  "record_decision self source_id new_key decision =
     (case (hm_get (gr_nodes self) source_id, hm_get (gr_nodes self) new_key) of
        (Some old_node, Some new_node) \<Rightarrow>
          (case add_output old_node decision (nd_state new_node) of
             Ok old_node' \<Rightarrow>
               let self = update_node source_id old_node' self in
               (case hm_get (gr_nodes self) new_key of
                  Some new_node \<Rightarrow> (update_node new_key (add_input new_node (nd_state old_node') decision) self, Ok new_key)
                | None \<Rightarrow> (self, Panic))
           | Err e \<Rightarrow> (self, Err e)
           | Panic \<Rightarrow> (self, Panic))
      | _ \<Rightarrow> (self, Panic))"

definition add_branch ::
  "('it \<Rightarrow> 'it) \<Rightarrow> pair_order \<Rightarrow> (str \<Rightarrow> bool) list \<Rightarrow> hasher \<Rightarrow> 'it graph \<Rightarrow> u64 \<Rightarrow> decision \<Rightarrow> 'it graph \<times> (graph_error, u64) outcome" where
  "add_branch clone perms patterns hasher self source_id decision =
     (case hm_get (gr_nodes self) source_id of
        None \<Rightarrow> (self, Panic)
      | Some old_node \<Rightarrow>
          let new_state = decision_apply perms patterns hasher decision (nd_state old_node);
              new_key = state_key new_state;
              (self, added) =
                (case hm_get (gr_nodes self) new_key of
                   Some _ \<Rightarrow> (self, Ok ())
                 | None \<Rightarrow>
                     let self = update_node new_key (node_new new_state) self in
                     case iterator_source self old_node new_key decision of
                       Ok n \<Rightarrow> (update_node new_key (fold (\<lambda>(name, it). set_iterator clone name it) (nd_iterators n) (node_new new_state)) self, Ok ())
                     | Err e \<Rightarrow> (self, Err e)
                     | Panic \<Rightarrow> (self, Panic)) in
          case added of
            Ok _ \<Rightarrow> if is_step_back_only decision then (self, Ok new_key) else record_decision self source_id new_key decision
          | Err e \<Rightarrow> (self, Err e)
          | Panic \<Rightarrow> (self, Panic))"

section \<open>Walking a graph\<close>

datatype walk_state = ToProcessNonEmpty | YieldOuts | YieldNextNode decision

record graph_iter =
  gi_node_outputs :: "(u64, decision list) hash_map"
  gi_to_process :: "u64 list"
  gi_outs :: "u64 option"
  gi_iter_node :: u64
  gi_walk_state :: walk_state

definition graph_iter_new :: "'it graph \<Rightarrow> graph_iter" where
  "graph_iter_new graph =
     \<lparr>gi_node_outputs = [], gi_to_process = [gr_root graph], gi_outs = None, gi_iter_node = gr_root graph,
      gi_walk_state = ToProcessNonEmpty\<rparr>"

datatype 'it walk_result = WalkDone | WalkPanic | WalkOn graph_iter | WalkYield graph_iter "'it node" decision

definition destination :: "pair_order \<Rightarrow> (str \<Rightarrow> bool) list \<Rightarrow> hasher \<Rightarrow> 'it node \<Rightarrow> decision \<Rightarrow> u64" where
  "destination perms patterns hasher n decision = state_key (decision_apply perms patterns hasher decision (nd_state n))"

definition serve_node :: "graph_iter \<Rightarrow> u64 \<Rightarrow> 'it node \<Rightarrow> 'it walk_result" where
  "serve_node self k n =
     (case hm_get (gi_node_outputs self) k of
        None \<Rightarrow> WalkPanic
      | Some [] \<Rightarrow> WalkOn self
      | Some (d # outs) \<Rightarrow>
          WalkYield (self\<lparr>gi_to_process := gi_to_process self @ [k], gi_node_outputs := hm_insert k outs (gi_node_outputs self)\<rparr>) n d)"

definition process_step :: "pair_order \<Rightarrow> (str \<Rightarrow> bool) list \<Rightarrow> hasher \<Rightarrow> 'it graph \<Rightarrow> graph_iter \<Rightarrow> 'it walk_result" where
  "process_step perms patterns hasher graph self =
     (case gi_to_process self of
        [] \<Rightarrow> WalkOn (self\<lparr>gi_walk_state := YieldOuts\<rparr>)
      | k # to_process \<Rightarrow>
          (case hm_get (gr_nodes graph) k of
             None \<Rightarrow> WalkPanic
           | Some n \<Rightarrow>
               let self = self\<lparr>gi_to_process := to_process\<rparr>;
                   fresh = hm_get (gi_node_outputs self) k = None;
                   targets = map (destination perms patterns hasher n) (nd_outputs_decisions n);
                   self = (if fresh
                           then self\<lparr>gi_node_outputs := hm_insert k (nd_outputs_decisions n) (gi_node_outputs self),
                                     gi_to_process := targets @ to_process\<rparr>
                           else self);
                   self = self\<lparr>gi_outs := Some k\<rparr> in
               if fresh \<and> \<not> list_all (\<lambda>t. hm_get (gr_nodes graph) t \<noteq> None) targets then WalkPanic
               else serve_node self k n))"

definition walk_step :: "pair_order \<Rightarrow> (str \<Rightarrow> bool) list \<Rightarrow> hasher \<Rightarrow> 'it graph \<Rightarrow> graph_iter \<Rightarrow> 'it walk_result" where
  "walk_step perms patterns hasher graph self =
     (case gi_walk_state self of
        ToProcessNonEmpty \<Rightarrow> process_step perms patterns hasher graph self
      | YieldOuts \<Rightarrow>
          (case gi_outs self of
             None \<Rightarrow> WalkPanic
           | Some k \<Rightarrow>
               (case hm_get (gi_node_outputs self) k of
                  None \<Rightarrow> WalkPanic
                | Some [] \<Rightarrow> WalkDone
                | Some (d # outs) \<Rightarrow>
                    (case hm_get (gr_nodes graph) (gi_iter_node self) of
                       None \<Rightarrow> WalkPanic
                     | Some n \<Rightarrow>
                         WalkYield (self\<lparr>gi_node_outputs := hm_insert k outs (gi_node_outputs self), gi_walk_state := YieldNextNode d\<rparr>) n d)))
      | YieldNextNode d \<Rightarrow>
          (case hm_get (gr_nodes graph) (gi_iter_node self) of
             None \<Rightarrow> WalkPanic
           | Some n \<Rightarrow>
               (case hm_get (gr_nodes graph) (destination perms patterns hasher n d) of
                  None \<Rightarrow> WalkPanic
                | Some _ \<Rightarrow> WalkOn (self\<lparr>gi_iter_node := destination perms patterns hasher n d, gi_walk_state := YieldOuts\<rparr>))))"

text \<open>How far a walk has come: the nodes it has not seen, the decisions it still has to yield, the nodes that wait.\<close>

definition unseen :: "'it graph \<Rightarrow> graph_iter \<Rightarrow> nat" where
  "unseen graph self = card (fst ` set (gr_nodes graph) - fst ` set (gi_node_outputs self))"

definition unyielded :: "graph_iter \<Rightarrow> nat" where
  "unyielded self = sum_list (map (length \<circ> snd) (gi_node_outputs self))"

fun walk_rank :: "walk_state \<Rightarrow> nat" where
  "walk_rank ToProcessNonEmpty = 2"
| "walk_rank (YieldNextNode _) = 1"
| "walk_rank YieldOuts = 0"

definition walk_order :: "'it graph \<Rightarrow> (graph_iter \<times> graph_iter) set" where
  "walk_order graph = measures [unseen graph, unyielded, \<lambda>it. length (gi_to_process it), \<lambda>it. walk_rank (gi_walk_state it)]"

lemma unyielded_insert:
  assumes "hm_get m k = Some outs"
  shows "sum_list (map (length \<circ> snd) (hm_insert k outs' m)) + length outs = sum_list (map (length \<circ> snd) m) + length outs'"
  using assms by (induction m) (auto split: if_splits)

lemma unseen_insert:
  assumes "hm_get (gr_nodes graph) k = Some n" "hm_get m k = None"
  shows "card (fst ` set (gr_nodes graph) - insert k (fst ` set m)) < card (fst ` set (gr_nodes graph) - fst ` set m)"
proof (rule psubset_card_mono)
  have "k \<in> fst ` set (gr_nodes graph)" "k \<notin> fst ` set m" using assms by (force simp: map_of_eq_None_iff dest: map_of_SomeD)+
  then show "fst ` set (gr_nodes graph) - insert k (fst ` set m) \<subset> fst ` set (gr_nodes graph) - fst ` set m" by auto
qed simp

lemma known_key: "hm_get m k = Some v \<Longrightarrow> insert k (fst ` set m) = fst ` set m"
  by (force dest: map_of_SomeD)

lemma process_step_order:
  assumes "gi_walk_state self = ToProcessNonEmpty"
  shows "process_step perms patterns hasher graph self = WalkOn it \<Longrightarrow> (it, self) \<in> walk_order graph"
    and "process_step perms patterns hasher graph self = WalkYield it n d \<Longrightarrow> (it, self) \<in> walk_order graph"
proof -
  have "(case process_step perms patterns hasher graph self of
      WalkOn it \<Rightarrow> (it, self) \<in> walk_order graph | WalkYield it n d \<Rightarrow> (it, self) \<in> walk_order graph | _ \<Rightarrow> True)"
  proof (cases "gi_to_process self")
    case Nil
    with assms show ?thesis by (simp add: process_step_def walk_order_def unseen_def unyielded_def)
  next
    case (Cons k to_process)
    show ?thesis
    proof (cases "hm_get (gr_nodes graph) k")
      case None
      with Cons show ?thesis by (simp add: process_step_def)
    next
      case (Some n)
      show ?thesis
      proof (cases "hm_get (gi_node_outputs self) k")
        case None
        note less = unseen_insert [OF Some None]
        with Some Cons None show ?thesis
          by (auto simp: process_step_def serve_node_def Let_def walk_order_def unseen_def split: list.splits)
      next
        case (Some outs)
        note same = known_key [OF Some] and fewer = unyielded_insert [OF Some]
        show ?thesis
        proof (cases outs)
          case Nil
          with Some \<open>hm_get (gr_nodes graph) k = Some n\<close> Cons assms show ?thesis
            by (simp add: process_step_def serve_node_def Let_def walk_order_def unseen_def unyielded_def)
        next
          case (Cons d rest)
          with Some \<open>hm_get (gr_nodes graph) k = Some n\<close> \<open>gi_to_process self = k # to_process\<close> same fewer [of rest] show ?thesis
            by (simp add: process_step_def serve_node_def Let_def walk_order_def unseen_def unyielded_def)
        qed
      qed
    qed
  qed
  then show "process_step perms patterns hasher graph self = WalkOn it \<Longrightarrow> (it, self) \<in> walk_order graph"
    "process_step perms patterns hasher graph self = WalkYield it n d \<Longrightarrow> (it, self) \<in> walk_order graph" by auto
qed

lemma walk_step_order:
  shows "walk_step perms patterns hasher graph self = WalkOn it \<Longrightarrow> (it, self) \<in> walk_order graph"
    and "walk_step perms patterns hasher graph self = WalkYield it n d \<Longrightarrow> (it, self) \<in> walk_order graph"
proof -
  show "(it, self) \<in> walk_order graph" if on: "walk_step perms patterns hasher graph self = WalkOn it"
  proof (cases "gi_walk_state self")
    case ToProcessNonEmpty
    with on process_step_order(1) show ?thesis by (auto simp: walk_step_def)
  qed (use on in \<open>auto simp: walk_step_def walk_order_def unseen_def unyielded_def split: option.splits list.splits\<close>)
  assume yield: "walk_step perms patterns hasher graph self = WalkYield it n d"
  show "(it, self) \<in> walk_order graph"
  proof (cases "gi_walk_state self")
    case ToProcessNonEmpty
    with yield process_step_order(2) show ?thesis by (auto simp: walk_step_def)
  next
    case YieldOuts
    with yield obtain k d' outs where k: "gi_outs self = Some k" "hm_get (gi_node_outputs self) k = Some (d' # outs)"
      "it = self\<lparr>gi_node_outputs := hm_insert k outs (gi_node_outputs self), gi_walk_state := YieldNextNode d'\<rparr>"
      by (auto simp: walk_step_def split: option.splits list.splits)
    with known_key [OF k(2)] unyielded_insert [OF k(2), of outs] show ?thesis
      by (simp add: walk_order_def unseen_def unyielded_def)
  next
    case YieldNextNode
    with yield show ?thesis by (auto simp: walk_step_def split: option.splits)
  qed
qed

function walk_from ::
  "pair_order \<Rightarrow> (str \<Rightarrow> bool) list \<Rightarrow> hasher \<Rightarrow> 'it graph \<Rightarrow> graph_iter \<Rightarrow> (unit, ('it node \<times> decision) list) outcome" where
  "walk_from perms patterns hasher graph self =
     (case walk_step perms patterns hasher graph self of
        WalkDone \<Rightarrow> Ok []
      | WalkPanic \<Rightarrow> Panic
      | WalkOn it \<Rightarrow> walk_from perms patterns hasher graph it
      | WalkYield it n d \<Rightarrow> and_then (walk_from perms patterns hasher graph it) (\<lambda>rest. Ok ((n, d) # rest)))"
  by pat_completeness auto
termination
  by (relation "measures [\<lambda>(_, _, _, g, it). unseen g it, \<lambda>(_, _, _, g, it). unyielded it, \<lambda>(_, _, _, g, it). length (gi_to_process it),
        \<lambda>(_, _, _, g, it). walk_rank (gi_walk_state it)]")
    (auto dest!: walk_step_order simp: walk_order_def)

definition graph_walk :: "pair_order \<Rightarrow> (str \<Rightarrow> bool) list \<Rightarrow> hasher \<Rightarrow> 'it graph \<Rightarrow> (unit, ('it node \<times> decision) list) outcome" where
  "graph_walk perms patterns hasher graph = walk_from perms patterns hasher graph (graph_iter_new graph)"

declare walk_from.simps [simp del]

section \<open>The invariant of a graph\<close>

text \<open>A node is kept under the identifier of its state, and its decisions lead to different nodes of the graph.\<close>

definition node_ok ::
  "pair_order \<Rightarrow> (str \<Rightarrow> bool) list \<Rightarrow> hasher \<Rightarrow> (u64, 'it node) hash_map \<Rightarrow> u64 \<Rightarrow> 'it node \<Rightarrow> bool" where
  "node_ok perms patterns hasher nodes k n \<longleftrightarrow>
     node_key n = k
     \<and> distinct (map (destination perms patterns hasher n) (nd_outputs_decisions n))
     \<and> nd_outputs n = destination perms patterns hasher n ` set (nd_outputs_decisions n)
     \<and> nd_outputs n \<subseteq> fst ` set nodes"

definition graph_ok :: "pair_order \<Rightarrow> (str \<Rightarrow> bool) list \<Rightarrow> hasher \<Rightarrow> 'it graph \<Rightarrow> bool" where
  "graph_ok perms patterns hasher graph \<longleftrightarrow>
     gr_root graph \<in> fst ` set (gr_nodes graph)
     \<and> (\<forall>k n. hm_get (gr_nodes graph) k = Some n \<longrightarrow> node_ok perms patterns hasher (gr_nodes graph) k n)"

lemma node_ok_mono:
  "node_ok perms patterns hasher nodes k n \<Longrightarrow> fst ` set nodes \<subseteq> fst ` set nodes' \<Longrightarrow> node_ok perms patterns hasher nodes' k n"
  unfolding node_ok_def by blast

lemma graph_ok_update:
  assumes "graph_ok perms patterns hasher graph" "node_ok perms patterns hasher (hm_insert k n (gr_nodes graph)) k n"
  shows "graph_ok perms patterns hasher (update_node k n graph)"
  using assms unfolding graph_ok_def update_node_def
  by (auto simp: node_ok_def split: if_splits)

lemma node_new_ok: "node_ok perms patterns hasher nodes (state_key s) (node_new s)"
  by (simp add: node_ok_def node_new_def node_key_def)

lemma set_iterators_only:
  "\<exists>its. fold (\<lambda>(name, it). set_iterator clone name it) xs n = n\<lparr>nd_iterators := its\<rparr>"
proof (induction xs arbitrary: n)
  case Nil
  show ?case by (intro exI [of _ "nd_iterators n"]) simp
next
  case (Cons x xs)
  obtain name it where x: "x = (name, it)" by fastforce
  obtain its where "fold (\<lambda>(name, it). set_iterator clone name it) xs (set_iterator clone name it n) = (set_iterator clone name it n)\<lparr>nd_iterators := its\<rparr>"
    using Cons by blast
  moreover have "(set_iterator clone name it n)\<lparr>nd_iterators := its\<rparr> = n\<lparr>nd_iterators := its\<rparr>" by (simp add: set_iterator_def)
  ultimately show ?case unfolding x by auto
qed

lemma destination_simps [simp]:
  "destination perms patterns hasher (n\<lparr>nd_iterators := its\<rparr>) = destination perms patterns hasher n"
  "destination perms patterns hasher (add_input n s d) = destination perms patterns hasher n"
  "destination perms patterns hasher (n\<lparr>nd_outputs := os, nd_outputs_decisions := ds\<rparr>) = destination perms patterns hasher n"
  by (auto simp: fun_eq_iff destination_def add_input_def)

lemma add_input_ok:
  "node_ok perms patterns hasher nodes k n \<Longrightarrow> node_ok perms patterns hasher nodes k (add_input n s d)"
proof -
  have eqs: "nd_outputs (add_input n s d) = nd_outputs n" "nd_outputs_decisions (add_input n s d) = nd_outputs_decisions n" "node_key (add_input n s d) = node_key n"
    by (simp_all add: add_input_def node_key_def)
  show "node_ok perms patterns hasher nodes k n \<Longrightarrow> ?thesis" unfolding node_ok_def destination_simps eqs .
qed

lemma add_output_ok:
  assumes "node_ok perms patterns hasher nodes k n" "add_output n d s = Ok n'"
    and "state_key s = destination perms patterns hasher n d" "state_key s \<in> fst ` set nodes"
  shows "node_ok perms patterns hasher nodes k n'"
proof -
  have n': "n' = n\<lparr>nd_outputs := insert (state_key s) (nd_outputs n), nd_outputs_decisions := nd_outputs_decisions n @ [d]\<rparr>"
    "state_key s \<notin> nd_outputs n" using assms(2) by (auto simp: add_output_def split: if_splits)
  have key: "node_key (n\<lparr>nd_outputs := os, nd_outputs_decisions := ds\<rparr>) = node_key n" for os ds by (simp add: node_key_def)
  from n' assms(1,3,4) show ?thesis by (auto simp: node_ok_def key)
qed

lemma record_decision_ok:
  assumes "graph_ok perms patterns hasher graph" "hm_get (gr_nodes graph) source_id = Some old" "hm_get (gr_nodes graph) new_key = Some new"
    and "new_key = destination perms patterns hasher old decision"
    and "record_decision graph source_id new_key decision = (graph', r)"
  shows "graph_ok perms patterns hasher graph' \<and> fst ` set (gr_nodes graph') = fst ` set (gr_nodes graph) \<and> gr_root graph' = gr_root graph
    \<and> (case r of Ok k \<Rightarrow> k = new_key | Err e \<Rightarrow> e = RecursionError \<and> new_key \<in> nd_outputs old | Panic \<Rightarrow> False)"
proof -
  have ok: "node_ok perms patterns hasher (gr_nodes graph) source_id old" "node_ok perms patterns hasher (gr_nodes graph) new_key new"
    using assms(1-3) by (auto simp: graph_ok_def)
  have new: "state_key (nd_state new) = new_key" using ok(2) by (simp add: node_ok_def node_key_def)
  have keys: "insert source_id (fst ` set (gr_nodes graph)) = fst ` set (gr_nodes graph)" "insert new_key (fst ` set (gr_nodes graph)) = fst ` set (gr_nodes graph)"
    by (rule known_key [OF assms(2)], rule known_key [OF assms(3)])
  show ?thesis
  proof (cases "add_output old decision (nd_state new)")
    case (Ok old')
    let ?graph = "update_node source_id old' graph"
    have "node_ok perms patterns hasher (gr_nodes graph) source_id old'"
      by (rule add_output_ok [OF ok(1) Ok]) (use new assms(4) keys in auto)
    then have graph: "graph_ok perms patterns hasher ?graph"
      by (intro graph_ok_update [OF assms(1)]) (rule node_ok_mono, auto)
    obtain new' where new': "hm_get (gr_nodes ?graph) new_key = Some new'" using assms(3) by (cases "new_key = source_id") (auto simp: update_node_def)
    have "node_ok perms patterns hasher (gr_nodes ?graph) new_key new'" using graph new' by (simp add: graph_ok_def)
    then have "graph_ok perms patterns hasher (update_node new_key (add_input new' (nd_state old') decision) ?graph)" (is "graph_ok _ _ _ ?graph'")
      by (intro graph_ok_update [OF graph]) (rule node_ok_mono [OF add_input_ok], auto)
    moreover have "graph' = ?graph'" "r = Ok new_key" using assms(2,3,5) Ok new' by (simp_all add: record_decision_def Let_def)
    ultimately show ?thesis using keys by (simp add: update_node_def)
  next
    case (Err e)
    then show ?thesis using assms new by (auto simp: record_decision_def add_output_def split: if_splits)
  qed (auto simp: add_output_def split: if_splits)
qed

lemma add_branch_facts:
  assumes "graph_ok perms patterns hasher graph" "hm_get (gr_nodes graph) source_id = Some old"
    and "\<forall>cause d c. decision = [StepBack cause d, c] \<longrightarrow> state_key d \<in> fst ` set (gr_nodes graph)"
    and "add_branch clone perms patterns hasher graph source_id decision = (graph', r)"
  shows "graph_ok perms patterns hasher graph' \<and> fst ` set (gr_nodes graph) \<subseteq> fst ` set (gr_nodes graph') \<and> gr_root graph' = gr_root graph
    \<and> destination perms patterns hasher old decision \<in> fst ` set (gr_nodes graph')
    \<and> (case r of Ok k \<Rightarrow> k = destination perms patterns hasher old decision
       | Err e \<Rightarrow> e = RecursionError \<and> destination perms patterns hasher old decision \<in> nd_outputs old | Panic \<Rightarrow> False)"
proof -
  let ?s = "decision_apply perms patterns hasher decision (nd_state old)"
  let ?key = "destination perms patterns hasher old decision"
  have key: "state_key ?s = ?key" by (simp add: destination_def)
  obtain g where g: "graph_ok perms patterns hasher g" "fst ` set (gr_nodes g) = insert ?key (fst ` set (gr_nodes graph))" "gr_root g = gr_root graph"
    "\<exists>n. hm_get (gr_nodes g) ?key = Some n" "hm_get (gr_nodes g) source_id = Some old"
    "(graph', r) = (if is_step_back_only decision then (g, Ok ?key) else record_decision g source_id ?key decision)"
  proof (cases "hm_get (gr_nodes graph) ?key")
    case (Some n)
    with assms(1,2,4) Some key known_key [OF Some] show ?thesis
      by (intro that [of graph]) (auto simp: add_branch_def Let_def)
  next
    case None
    let ?g = "update_node ?key (node_new ?s) graph"
    have source: "source_id \<noteq> ?key" using None assms(2) by auto
    obtain n where n: "iterator_source ?g old ?key decision = Ok n"
    proof (cases "\<exists>cause d c. decision = [StepBack cause d, c]")
      case True
      then obtain cause d c where d: "decision = [StepBack cause d, c]" by blast
      with assms(3) have mem: "state_key d \<in> fst ` set (gr_nodes graph)" by blast
      then have "state_key d \<noteq> ?key" using None by (metis map_of_eq_None_iff)
      with mem obtain n where "hm_get (gr_nodes ?g) (state_key d) = Some n" "state_key d \<noteq> ?key"
        by (auto simp: update_node_def map_of_eq_None_iff dest!: weak_map_of_SomeI)
      with d that show ?thesis by (simp add: iterator_source_def)
    next
      case False
      then have "iterator_source ?g old ?key decision = Ok old" by (auto simp: iterator_source_def split: list.splits change.splits)
      with that show ?thesis by blast
    qed
    obtain its where its: "fold (\<lambda>(name, it). set_iterator clone name it) (nd_iterators n) (node_new ?s) = (node_new ?s)\<lparr>nd_iterators := its\<rparr>"
      using set_iterators_only by blast
    let ?g' = "update_node ?key ((node_new ?s)\<lparr>nd_iterators := its\<rparr>) ?g"
    have "node_ok perms patterns hasher nodes ?key ((node_new ?s)\<lparr>nd_iterators := its\<rparr>)" for nodes
      using key by (simp add: node_ok_def node_key_def node_new_def)
    then have "graph_ok perms patterns hasher ?g'"
      using node_new_ok [of perms patterns hasher _ ?s] key by (intro graph_ok_update assms(1)) auto
    then show ?thesis
      using assms(2,4) None source n its key
      by (intro that [of ?g']) (auto simp: add_branch_def Let_def update_node_def)
  qed
  show ?thesis
  proof (cases "is_step_back_only decision")
    case True
    with g show ?thesis by auto
  next
    case False
    from g(4) obtain n where n: "hm_get (gr_nodes g) ?key = Some n" by blast
    have run: "record_decision g source_id ?key decision = (graph', r)" using g(6) False by simp
    from record_decision_ok [OF g(1,5) n refl run] g(2,3) show ?thesis by (auto split: outcome.splits)
  qed
qed

text \<open>
  C5: Adding a decision to a graph keeps it well formed: nodes are kept under the identifiers of their states, and decisions lead from a node
  to different nodes of the graph. The node it returns is the one that the decision leads to; it fails exactly because the decision
  leads to a state that was tried from this node before, and it neither panics nor waits for its own lock, if what a step back goes to
  is in the graph.
\<close>

theorem add_branch_ok:
  assumes "graph_ok perms patterns hasher graph" "hm_get (gr_nodes graph) source_id = Some old"
    and "\<forall>cause d c. decision = [StepBack cause d, c] \<longrightarrow> state_key d \<in> fst ` set (gr_nodes graph)"
    and "add_branch clone perms patterns hasher graph source_id decision = (graph', r)"
  shows "graph_ok perms patterns hasher graph'
    \<and> (case r of Ok k \<Rightarrow> k = destination perms patterns hasher old decision \<and> k \<in> fst ` set (gr_nodes graph')
       | Err e \<Rightarrow> e = RecursionError \<and> destination perms patterns hasher old decision \<in> nd_outputs old | Panic \<Rightarrow> False)"
  using add_branch_facts [OF assms] by (auto split: outcome.splits)

text \<open>A graph with one decision, made with a hash that counts.\<close>

definition counting_hasher :: hasher where
  "counting_hasher input =
     (case input of HashOptions options \<Rightarrow> of_nat (length options) | HashValues hashes \<Rightarrow> sum_list hashes | _ \<Rightarrow> 7)"

definition example_decision :: decision where
  "example_decision = [SetOptions [(''debug'', ''on'')]]"

definition example_graph :: "nat graph" where
  "example_graph = fst (add_branch id lexicographic_pairs [] counting_hasher (graph_new counting_hasher) 0 example_decision)"

lemma graph_new_ok: "graph_ok perms patterns hasher (graph_new hasher)"
  using node_new_ok [of perms patterns hasher _ "default_state hasher"] by (simp add: graph_ok_def graph_new_def Let_def)

section \<open>What a walk yields\<close>

definition graph_edges :: "pair_order \<Rightarrow> (str \<Rightarrow> bool) list \<Rightarrow> hasher \<Rightarrow> 'it graph \<Rightarrow> (u64 \<times> u64) set" where
  "graph_edges perms patterns hasher graph =
     {(k, destination perms patterns hasher n d) | k n d. hm_get (gr_nodes graph) k = Some n \<and> d \<in> set (nd_outputs_decisions n)}"

text \<open>The decisions that were yielded for the node of an identifier, in order.\<close>

definition yielded :: "u64 \<Rightarrow> ('it node \<times> decision) list \<Rightarrow> decision list" where
  "yielded k ys = map snd (filter (\<lambda>(n, _). node_key n = k) ys)"

lemma yielded_simps [simp]: "yielded k [] = []" "yielded k (xs @ ys) = yielded k xs @ yielded k ys"
  "yielded k ((n, d) # ys) = (if node_key n = k then d # yielded k ys else yielded k ys)"
  by (simp_all add: yielded_def)

locale walked_graph =
  fixes perms patterns hasher and graph :: "'it graph"
  assumes ok: "graph_ok perms patterns hasher graph"
begin

abbreviation reached :: "u64 set" where
  "reached \<equiv> {k. (gr_root graph, k) \<in> (graph_edges perms patterns hasher graph)\<^sup>*}"

abbreviation outs_of :: "'it node \<Rightarrow> decision list" where
  "outs_of n \<equiv> nd_outputs_decisions n"

lemma reached_node: "k \<in> reached \<Longrightarrow> \<exists>n. hm_get (gr_nodes graph) k = Some n \<and> node_key n = k"
proof -
  have known: "(\<exists>n. hm_get (gr_nodes graph) k = Some n) \<longleftrightarrow> k \<in> fst ` set (gr_nodes graph)" for k
    by (metis map_of_eq_None_iff option.distinct(1) option.exhaust)
  assume "k \<in> reached"
  then have "(gr_root graph, k) \<in> (graph_edges perms patterns hasher graph)\<^sup>*" by simp
  then have "k \<in> fst ` set (gr_nodes graph)"
    by (induction rule: rtrancl_induct) (use ok in \<open>auto simp: graph_ok_def graph_edges_def node_ok_def subset_iff\<close>)
  with known ok show ?thesis by (metis graph_ok_def node_ok_def)
qed

lemma reached_step:
  "k \<in> reached \<Longrightarrow> hm_get (gr_nodes graph) k = Some n \<Longrightarrow> d \<in> set (outs_of n) \<Longrightarrow> destination perms patterns hasher n d \<in> reached"
  by (auto simp: graph_edges_def intro: rtrancl_into_rtrancl)

text \<open>What holds of a walk that has yielded \<open>ys\<close>.\<close>

definition walk_inv :: "graph_iter \<Rightarrow> ('it node \<times> decision) list \<Rightarrow> bool" where
  "walk_inv it ys \<longleftrightarrow>
     gi_walk_state it = ToProcessNonEmpty
     \<and> set (gi_to_process it) \<subseteq> reached \<and> fst ` set (gi_node_outputs it) \<subseteq> reached
     \<and> gr_root graph \<in> fst ` set (gi_node_outputs it) \<union> set (gi_to_process it)
     \<and> (\<forall>k n d. k \<in> fst ` set (gi_node_outputs it) \<and> hm_get (gr_nodes graph) k = Some n \<and> d \<in> set (outs_of n)
          \<longrightarrow> destination perms patterns hasher n d \<in> fst ` set (gi_node_outputs it) \<union> set (gi_to_process it))
     \<and> (\<forall>k n outs. hm_get (gi_node_outputs it) k = Some outs \<and> hm_get (gr_nodes graph) k = Some n
          \<longrightarrow> outs_of n = yielded k ys @ outs \<and> (outs \<noteq> [] \<longrightarrow> k \<in> set (gi_to_process it)))
     \<and> (\<forall>k. hm_get (gi_node_outputs it) k = None \<longrightarrow> yielded k ys = [])
     \<and> (gi_to_process it = [] \<longrightarrow> (\<exists>k. gi_outs it = Some k \<and> k \<in> fst ` set (gi_node_outputs it)))"

definition walk_complete :: "('it node \<times> decision) list \<Rightarrow> bool" where
  "walk_complete ys \<longleftrightarrow>
     (\<forall>k. yielded k ys = (if k \<in> reached then (case hm_get (gr_nodes graph) k of Some n \<Rightarrow> outs_of n | None \<Rightarrow> []) else []))"

lemma in_keys: "k \<in> fst ` set m \<longleftrightarrow> (\<exists>v. hm_get m k = Some v)"
  by (metis map_of_eq_None_iff option.distinct(1) option.exhaust)

lemma walk_invD:
  assumes "walk_inv it ys"
  shows "gi_walk_state it = ToProcessNonEmpty" "set (gi_to_process it) \<subseteq> reached" "fst ` set (gi_node_outputs it) \<subseteq> reached"
    "gr_root graph \<in> fst ` set (gi_node_outputs it) \<union> set (gi_to_process it)"
    "k \<in> fst ` set (gi_node_outputs it) \<Longrightarrow> hm_get (gr_nodes graph) k = Some n \<Longrightarrow> d \<in> set (outs_of n) \<Longrightarrow>
       destination perms patterns hasher n d \<in> fst ` set (gi_node_outputs it) \<union> set (gi_to_process it)"
    "hm_get (gi_node_outputs it) k = Some outs \<Longrightarrow> hm_get (gr_nodes graph) k = Some n \<Longrightarrow> outs_of n = yielded k ys @ outs"
    "hm_get (gi_node_outputs it) k = Some outs \<Longrightarrow> hm_get (gr_nodes graph) k = Some n \<Longrightarrow> outs \<noteq> [] \<Longrightarrow> k \<in> set (gi_to_process it)"
    "hm_get (gi_node_outputs it) k = None \<Longrightarrow> yielded k ys = []"
    "gi_to_process it = [] \<Longrightarrow> \<exists>k. gi_outs it = Some k \<and> k \<in> fst ` set (gi_node_outputs it)"
  using assms unfolding walk_inv_def by blast+

lemma walk_inv_done:
  assumes "walk_inv it ys" "gi_to_process it = []"
  shows "walk_complete ys"
proof -
  have keys: "k \<in> fst ` set (gi_node_outputs it)" if "(gr_root graph, k) \<in> (graph_edges perms patterns hasher graph)\<^sup>*" for k
    using that
  proof (induction rule: rtrancl_induct)
    case base
    show ?case using walk_invD(4) [OF assms(1)] assms(2) by simp
  next
    case (step y z)
    then obtain n d where "hm_get (gr_nodes graph) y = Some n" "d \<in> set (outs_of n)" "z = destination perms patterns hasher n d"
      by (auto simp: graph_edges_def)
    with walk_invD(5) [OF assms(1) step.IH] assms(2) show ?case by simp
  qed
  show ?thesis unfolding walk_complete_def
  proof
    fix k
    show "yielded k ys = (if k \<in> reached then (case hm_get (gr_nodes graph) k of Some n \<Rightarrow> outs_of n | None \<Rightarrow> []) else [])"
    proof (cases "k \<in> reached")
      case True
      with keys obtain outs where outs: "hm_get (gi_node_outputs it) k = Some outs" by (auto simp: in_keys)
      obtain n where n: "hm_get (gr_nodes graph) k = Some n" using reached_node [OF True] by blast
      have "outs_of n = yielded k ys @ outs" "outs = []" using walk_invD(6,7) [OF assms(1) outs n] assms(2) by auto
      with True n show ?thesis by simp
    next
      case False
      have "hm_get (gi_node_outputs it) k = None"
      proof (rule ccontr)
        assume "hm_get (gi_node_outputs it) k \<noteq> None"
        then have "k \<in> fst ` set (gi_node_outputs it)" by (auto simp: in_keys)
        with walk_invD(3) [OF assms(1)] False show False by blast
      qed
      from walk_invD(8) [OF assms(1) this] False show ?thesis by simp
    qed
  qed
qed

text \<open>The same while the node \<open>k\<close> is being processed.\<close>

definition walk_pre :: "graph_iter \<Rightarrow> ('it node \<times> decision) list \<Rightarrow> u64 \<Rightarrow> bool" where
  "walk_pre it ys k \<longleftrightarrow>
     gi_walk_state it = ToProcessNonEmpty
     \<and> set (gi_to_process it) \<subseteq> reached \<and> fst ` set (gi_node_outputs it) \<subseteq> reached
     \<and> gr_root graph \<in> fst ` set (gi_node_outputs it) \<union> set (gi_to_process it)
     \<and> (\<forall>k n d. k \<in> fst ` set (gi_node_outputs it) \<and> hm_get (gr_nodes graph) k = Some n \<and> d \<in> set (outs_of n)
          \<longrightarrow> destination perms patterns hasher n d \<in> fst ` set (gi_node_outputs it) \<union> set (gi_to_process it))
     \<and> (\<forall>k' n outs. hm_get (gi_node_outputs it) k' = Some outs \<and> hm_get (gr_nodes graph) k' = Some n
          \<longrightarrow> outs_of n = yielded k' ys @ outs \<and> (outs \<noteq> [] \<longrightarrow> k' = k \<or> k' \<in> set (gi_to_process it)))
     \<and> (\<forall>k'. hm_get (gi_node_outputs it) k' = None \<longrightarrow> yielded k' ys = [])
     \<and> gi_outs it = Some k \<and> k \<in> fst ` set (gi_node_outputs it)"

lemma walk_preD:
  assumes "walk_pre it ys k"
  shows "gi_walk_state it = ToProcessNonEmpty" "set (gi_to_process it) \<subseteq> reached" "fst ` set (gi_node_outputs it) \<subseteq> reached"
    "gr_root graph \<in> fst ` set (gi_node_outputs it) \<union> set (gi_to_process it)"
    "k' \<in> fst ` set (gi_node_outputs it) \<Longrightarrow> hm_get (gr_nodes graph) k' = Some n \<Longrightarrow> d \<in> set (outs_of n) \<Longrightarrow>
       destination perms patterns hasher n d \<in> fst ` set (gi_node_outputs it) \<union> set (gi_to_process it)"
    "hm_get (gi_node_outputs it) k' = Some outs \<Longrightarrow> hm_get (gr_nodes graph) k' = Some n \<Longrightarrow> outs_of n = yielded k' ys @ outs"
    "hm_get (gi_node_outputs it) k' = Some outs \<Longrightarrow> hm_get (gr_nodes graph) k' = Some n \<Longrightarrow> outs \<noteq> [] \<Longrightarrow> k' = k \<or> k' \<in> set (gi_to_process it)"
    "hm_get (gi_node_outputs it) k' = None \<Longrightarrow> yielded k' ys = []"
    "gi_outs it = Some k" "k \<in> fst ` set (gi_node_outputs it)"
  using assms unfolding walk_pre_def by blast+

lemma walk_invI:
  assumes "gi_walk_state it = ToProcessNonEmpty" "set (gi_to_process it) \<subseteq> reached" "fst ` set (gi_node_outputs it) \<subseteq> reached"
    "gr_root graph \<in> fst ` set (gi_node_outputs it) \<union> set (gi_to_process it)"
    "\<And>k n d. k \<in> fst ` set (gi_node_outputs it) \<Longrightarrow> hm_get (gr_nodes graph) k = Some n \<Longrightarrow> d \<in> set (outs_of n) \<Longrightarrow>
       destination perms patterns hasher n d \<in> fst ` set (gi_node_outputs it) \<union> set (gi_to_process it)"
    "\<And>k n outs. hm_get (gi_node_outputs it) k = Some outs \<Longrightarrow> hm_get (gr_nodes graph) k = Some n \<Longrightarrow> outs_of n = yielded k ys @ outs"
    "\<And>k n outs. hm_get (gi_node_outputs it) k = Some outs \<Longrightarrow> hm_get (gr_nodes graph) k = Some n \<Longrightarrow> outs \<noteq> [] \<Longrightarrow>
       k \<in> set (gi_to_process it)"
    "\<And>k. hm_get (gi_node_outputs it) k = None \<Longrightarrow> yielded k ys = []"
    "gi_to_process it = [] \<Longrightarrow> \<exists>k. gi_outs it = Some k \<and> k \<in> fst ` set (gi_node_outputs it)"
  shows "walk_inv it ys"
  unfolding walk_inv_def by (intro conjI allI impI; (elim conjE)?; (rule assms; assumption))

lemma walk_preI:
  assumes "gi_walk_state it = ToProcessNonEmpty" "set (gi_to_process it) \<subseteq> reached" "fst ` set (gi_node_outputs it) \<subseteq> reached"
    "gr_root graph \<in> fst ` set (gi_node_outputs it) \<union> set (gi_to_process it)"
    "\<And>k n d. k \<in> fst ` set (gi_node_outputs it) \<Longrightarrow> hm_get (gr_nodes graph) k = Some n \<Longrightarrow> d \<in> set (outs_of n) \<Longrightarrow>
       destination perms patterns hasher n d \<in> fst ` set (gi_node_outputs it) \<union> set (gi_to_process it)"
    "\<And>k' n outs. hm_get (gi_node_outputs it) k' = Some outs \<Longrightarrow> hm_get (gr_nodes graph) k' = Some n \<Longrightarrow> outs_of n = yielded k' ys @ outs"
    "\<And>k' n outs. hm_get (gi_node_outputs it) k' = Some outs \<Longrightarrow> hm_get (gr_nodes graph) k' = Some n \<Longrightarrow> outs \<noteq> [] \<Longrightarrow>
       k' = k \<or> k' \<in> set (gi_to_process it)"
    "\<And>k. hm_get (gi_node_outputs it) k = None \<Longrightarrow> yielded k ys = []"
    "gi_outs it = Some k" "k \<in> fst ` set (gi_node_outputs it)"
  shows "walk_pre it ys k"
  unfolding walk_pre_def by (intro conjI allI impI; (elim conjE)?; (rule assms; assumption))

lemma walk_pre_on:
  assumes "walk_pre it ys k" "hm_get (gi_node_outputs it) k = Some []"
  shows "walk_inv it ys"
proof (rule walk_invI)
  show "k' \<in> set (gi_to_process it)"
    if "hm_get (gi_node_outputs it) k' = Some outs" "hm_get (gr_nodes graph) k' = Some n" "outs \<noteq> []" for k' n outs
    using walk_preD(7) [OF assms(1) that] assms(2) that(1,3) by auto
  show "\<exists>k. gi_outs it = Some k \<and> k \<in> fst ` set (gi_node_outputs it)" using walk_preD(9,10) [OF assms(1)] by blast
qed (fact walk_preD [OF assms(1)] | (rule walk_preD [OF assms(1)]; assumption))+

lemma walk_pre_yield:
  assumes "walk_pre it ys k" "hm_get (gi_node_outputs it) k = Some (d # outs)" "hm_get (gr_nodes graph) k = Some n"
  shows "walk_inv (it\<lparr>gi_to_process := gi_to_process it @ [k], gi_node_outputs := hm_insert k outs (gi_node_outputs it)\<rparr>) (ys @ [(n, d)])"
    (is "walk_inv ?it _")
proof -
  have keys: "fst ` set (gi_node_outputs ?it) = fst ` set (gi_node_outputs it)" using known_key [OF assms(2)] by simp
  have k: "k \<in> reached" using walk_preD(3,10) [OF assms(1)] by blast
  then have key: "node_key n = k" using reached_node assms(3) by fastforce
  note outs = walk_preD(6) [OF assms(1) assms(2,3)]
  show ?thesis
  proof (rule walk_invI)
    show "outs_of n' = yielded k' (ys @ [(n, d)]) @ outs'"
      if get: "hm_get (gi_node_outputs ?it) k' = Some outs'" "hm_get (gr_nodes graph) k' = Some n'" for k' n' outs'
    proof (cases "k' = k")
      case True
      with get assms(3) outs key show ?thesis by simp
    next
      case False
      with get have "hm_get (gi_node_outputs it) k' = Some outs'" by simp
      from walk_preD(6) [OF assms(1) this get(2)] False key show ?thesis by simp
    qed
    show "k' \<in> set (gi_to_process ?it)"
      if get: "hm_get (gi_node_outputs ?it) k' = Some outs'" "hm_get (gr_nodes graph) k' = Some n'" "outs' \<noteq> []" for k' n' outs'
    proof (cases "k' = k")
      case False
      with get have "hm_get (gi_node_outputs it) k' = Some outs'" by simp
      from walk_preD(7) [OF assms(1) this get(2,3)] False show ?thesis by simp
    qed simp
    show "yielded k' (ys @ [(n, d)]) = []" if "hm_get (gi_node_outputs ?it) k' = None" for k'
      using that walk_preD(8) [OF assms(1), of k'] key by (cases "k' = k") auto
    show "destination perms patterns hasher n' d' \<in> fst ` set (gi_node_outputs ?it) \<union> set (gi_to_process ?it)"
      if "k' \<in> fst ` set (gi_node_outputs ?it)" "hm_get (gr_nodes graph) k' = Some n'" "d' \<in> set (outs_of n')" for k' n' d'
      using walk_preD(5) [OF assms(1) that(1) [unfolded keys] that(2,3)] unfolding keys by auto
    show "gr_root graph \<in> fst ` set (gi_node_outputs ?it) \<union> set (gi_to_process ?it)"
      using walk_preD(4) [OF assms(1)] unfolding keys by auto
    show "set (gi_to_process ?it) \<subseteq> reached" using walk_preD(2) [OF assms(1)] k by simp
    show "fst ` set (gi_node_outputs ?it) \<subseteq> reached" unfolding keys by (rule walk_preD(3) [OF assms(1)])
  qed (use walk_preD(1) [OF assms(1)] in simp_all)
qed

lemma walk_enter_known:
  assumes "walk_inv it ys" "gi_to_process it = k # to_process" "hm_get (gi_node_outputs it) k = Some outs"
  shows "walk_pre (it\<lparr>gi_to_process := to_process, gi_outs := Some k\<rparr>) ys k" (is "walk_pre ?it _ _")
proof (rule walk_preI)
  have k: "k \<in> fst ` set (gi_node_outputs it)" using assms(3) by (auto simp: in_keys)
  show "set (gi_to_process ?it) \<subseteq> reached" using walk_invD(2) [OF assms(1)] assms(2) by simp
  show "gr_root graph \<in> fst ` set (gi_node_outputs ?it) \<union> set (gi_to_process ?it)"
    using walk_invD(4) [OF assms(1)] assms(2) k by auto
  show "destination perms patterns hasher n d \<in> fst ` set (gi_node_outputs ?it) \<union> set (gi_to_process ?it)"
    if "k' \<in> fst ` set (gi_node_outputs ?it)" "hm_get (gr_nodes graph) k' = Some n" "d \<in> set (outs_of n)" for k' n d
    using walk_invD(5) [OF assms(1), of k' n d] that assms(2) k by auto
  show "k' = k \<or> k' \<in> set (gi_to_process ?it)"
    if "hm_get (gi_node_outputs ?it) k' = Some outs'" "hm_get (gr_nodes graph) k' = Some n" "outs' \<noteq> []" for k' n outs'
    using walk_invD(7) [OF assms(1), of k' outs' n] that assms(2) by simp
  show "outs_of n = yielded k' ys @ outs'"
    if "hm_get (gi_node_outputs ?it) k' = Some outs'" "hm_get (gr_nodes graph) k' = Some n" for k' n outs'
    using walk_invD(6) [OF assms(1), of k' outs' n] that by simp
  show "yielded k' ys = []" if "hm_get (gi_node_outputs ?it) k' = None" for k'
    using walk_invD(8) [OF assms(1), of k'] that by simp
qed (use walk_invD(1,3) [OF assms(1)] assms(3) in \<open>auto simp: in_keys\<close>)

lemma walk_enter_fresh:
  assumes "walk_inv it ys" "gi_to_process it = k # to_process" "hm_get (gi_node_outputs it) k = None" "hm_get (gr_nodes graph) k = Some n"
  shows "walk_pre (it\<lparr>gi_node_outputs := hm_insert k (outs_of n) (gi_node_outputs it),
                      gi_to_process := map (destination perms patterns hasher n) (outs_of n) @ to_process, gi_outs := Some k\<rparr>) ys k" (is "walk_pre ?it _ _")
proof -
  have k: "k \<in> reached" using walk_invD(2) [OF assms(1)] assms(2) by auto
  have keys: "fst ` set (gi_node_outputs ?it) = insert k (fst ` set (gi_node_outputs it))" by simp
  have targets: "set (gi_to_process ?it) = destination perms patterns hasher n ` set (outs_of n) \<union> set to_process" by simp
  show ?thesis
  proof (rule walk_preI)
    show "set (gi_to_process ?it) \<subseteq> reached"
      unfolding targets using walk_invD(2) [OF assms(1)] assms(2) reached_step [OF k assms(4)] by auto
    show "fst ` set (gi_node_outputs ?it) \<subseteq> reached" unfolding keys using walk_invD(3) [OF assms(1)] k by auto
    show "gr_root graph \<in> fst ` set (gi_node_outputs ?it) \<union> set (gi_to_process ?it)"
      unfolding keys targets using walk_invD(4) [OF assms(1)] assms(2) by auto
    show "destination perms patterns hasher n' d \<in> fst ` set (gi_node_outputs ?it) \<union> set (gi_to_process ?it)"
      if at: "k' \<in> fst ` set (gi_node_outputs ?it)" "hm_get (gr_nodes graph) k' = Some n'" "d \<in> set (outs_of n')" for k' n' d
    proof (cases "k' = k")
      case True
      with at(2,3) assms(4) show ?thesis unfolding targets by simp
    next
      case False
      with at(1) have "k' \<in> fst ` set (gi_node_outputs it)" unfolding keys by simp
      from walk_invD(5) [OF assms(1) this at(2,3)] assms(2) show ?thesis unfolding keys targets by auto
    qed
    show "outs_of n' = yielded k' ys @ outs"
      if at: "hm_get (gi_node_outputs ?it) k' = Some outs" "hm_get (gr_nodes graph) k' = Some n'" for k' n' outs
    proof (cases "k' = k")
      case True
      with at assms(4) walk_invD(8) [OF assms(1,3)] show ?thesis by simp
    next
      case False
      with at(1) have "hm_get (gi_node_outputs it) k' = Some outs" by simp
      from walk_invD(6) [OF assms(1) this at(2)] show ?thesis .
    qed
    show "k' = k \<or> k' \<in> set (gi_to_process ?it)"
      if at: "hm_get (gi_node_outputs ?it) k' = Some outs" "hm_get (gr_nodes graph) k' = Some n'" "outs \<noteq> []" for k' n' outs
    proof (cases "k' = k")
      case False
      with at(1) have "hm_get (gi_node_outputs it) k' = Some outs" by simp
      from walk_invD(7) [OF assms(1) this at(2,3)] assms(2) show ?thesis unfolding targets by auto
    qed simp
    show "yielded k' ys = []" if "hm_get (gi_node_outputs ?it) k' = None" for k'
      using walk_invD(8) [OF assms(1), of k'] that by (cases "k' = k") auto
  qed (use walk_invD(1) [OF assms(1)] in simp_all)
qed

lemma process_step_inv:
  assumes "walk_inv it ys" "gi_to_process it \<noteq> []"
  shows "case process_step perms patterns hasher graph it of
      WalkOn it' \<Rightarrow> walk_inv it' ys | WalkYield it' n d \<Rightarrow> walk_inv it' (ys @ [(n, d)]) | _ \<Rightarrow> False"
proof -
  obtain k to_process where queue: "gi_to_process it = k # to_process" using assms(2) by (cases "gi_to_process it") auto
  have k: "k \<in> reached" using walk_invD(2) [OF assms(1)] queue by auto
  obtain n where n: "hm_get (gr_nodes graph) k = Some n" using reached_node [OF k] by blast
  have finish: "case serve_node it' k n of WalkOn it' \<Rightarrow> walk_inv it' ys | WalkYield it' n d \<Rightarrow> walk_inv it' (ys @ [(n, d)]) | _ \<Rightarrow> False"
    if pre: "walk_pre it' ys k" for it'
  proof -
    obtain outs where outs: "hm_get (gi_node_outputs it') k = Some outs" using walk_preD(10) [OF pre] by (auto simp: in_keys)
    show ?thesis
    proof (cases outs)
      case Nil
      with walk_pre_on [OF pre] outs show ?thesis by (simp add: serve_node_def)
    next
      case (Cons d rest)
      with walk_pre_yield [OF pre _ n, of d rest] outs show ?thesis by (simp add: serve_node_def)
    qed
  qed
  show ?thesis
  proof (cases "hm_get (gi_node_outputs it) k")
    case (Some outs)
    from finish [OF walk_enter_known [OF assms(1) queue Some]] show ?thesis
      by (simp add: process_step_def queue n Some Let_def)
  next
    case None
    have "list_all (\<lambda>t. hm_get (gr_nodes graph) t \<noteq> None) (map (destination perms patterns hasher n) (outs_of n))"
      using reached_node [OF reached_step [OF k n]] by (fastforce simp: list_all_iff)
    with finish [OF walk_enter_fresh [OF assms(1) queue None n]] show ?thesis
      by (simp add: process_step_def queue n None Let_def)
  qed
qed

lemma walk_from_complete:
  "walk_inv it ys \<Longrightarrow> \<exists>rest. walk_from perms patterns hasher graph it = Ok rest \<and> walk_complete (ys @ rest)"
proof (induction it arbitrary: ys rule: wf_induct_rule [OF wf_measures [where fs =
    "[unseen graph, unyielded, \<lambda>it. length (gi_to_process it), \<lambda>it. walk_rank (gi_walk_state it)]"]])
  case (1 it)
  note IH = 1(1) [folded walk_order_def] and inv = 1(2)
  note state = walk_invD(1) [OF inv]
  show ?case
  proof (cases "gi_to_process it = []")
    case True
    obtain k where k: "gi_outs it = Some k" "k \<in> fst ` set (gi_node_outputs it)" using walk_invD(9) [OF inv True] by blast
    obtain outs where outs: "hm_get (gi_node_outputs it) k = Some outs" using k(2) by (auto simp: in_keys)
    have "k \<in> reached" using walk_invD(3) [OF inv] k(2) by blast
    then obtain n where "hm_get (gr_nodes graph) k = Some n" using reached_node by blast
    then have "outs = []" using walk_invD(7) [OF inv outs] True by auto
    then have "walk_from perms patterns hasher graph it = Ok []"
      using state True k(1) outs
      by (simp add: walk_from.simps [of _ _ _ _ it] walk_from.simps [of _ _ _ _ "it\<lparr>gi_walk_state := YieldOuts\<rparr>"] walk_step_def process_step_def)
    with walk_inv_done [OF inv True] show ?thesis by simp
  next
    case False
    have step: "walk_step perms patterns hasher graph it = process_step perms patterns hasher graph it" using state by (simp add: walk_step_def)
    show ?thesis
    proof (cases "process_step perms patterns hasher graph it")
      case (WalkOn it')
      with process_step_inv [OF inv False] have "walk_inv it' ys" by simp
      from IH [OF walk_step_order(1) [OF step [THEN trans, OF WalkOn]] this] WalkOn step show ?thesis
        by (simp add: walk_from.simps [of _ _ _ _ it])
    next
      case (WalkYield it' n d)
      with process_step_inv [OF inv False] have "walk_inv it' (ys @ [(n, d)])" by simp
      from IH [OF walk_step_order(2) [OF step [THEN trans, OF WalkYield]] this] WalkYield step show ?thesis
        by (auto simp: walk_from.simps [of _ _ _ _ it])
    qed (use process_step_inv [OF inv False] in simp_all)
  qed
qed

lemma walk_inv_start: "walk_inv (graph_iter_new graph) []"
  by (rule walk_invI) (auto simp: graph_iter_new_def)

lemma walk_facts:
  "\<exists>ys. graph_walk perms patterns hasher graph = Ok ys \<and> walk_complete ys"
  using walk_from_complete [OF walk_inv_start] by (simp add: graph_walk_def)

end

interpretation new_graph: walked_graph perms patterns hasher "graph_new hasher"
  by unfold_locales (rule graph_new_ok)

lemma example_decision_facts:
  "hm_get (gr_nodes (graph_new counting_hasher)) 0 = Some (node_new (default_state counting_hasher))"
  "destination lexicographic_pairs [] counting_hasher (node_new (default_state counting_hasher)) example_decision = 1"
proof -
  have "state_key (default_state counting_hasher) = 0" by code_simp
  then show "hm_get (gr_nodes (graph_new counting_hasher)) 0 = Some (node_new (default_state counting_hasher))"
    by (simp add: graph_new_def Let_def)
  show "destination lexicographic_pairs [] counting_hasher (node_new (default_state counting_hasher)) example_decision = 1" by code_simp
qed

theorem add_branch_ok_witness:
  "graph_ok lexicographic_pairs [] counting_hasher example_graph \<and> 1 \<in> fst ` set (gr_nodes example_graph)"
proof -
  obtain graph' r where run: "add_branch id lexicographic_pairs [] counting_hasher (graph_new counting_hasher :: nat graph) 0 example_decision = (graph', r)"
    by fastforce
  have "r = Ok 1"
  proof -
    have "snd (add_branch id lexicographic_pairs [] counting_hasher (graph_new counting_hasher :: nat graph) 0 example_decision) = Ok 1" by code_simp
    with run show ?thesis by simp
  qed
  with add_branch_ok [OF graph_new_ok example_decision_facts(1) _ run] run show ?thesis
    by (simp add: example_graph_def example_decision_def)
qed

lemma example_graph_ok: "graph_ok lexicographic_pairs [] counting_hasher example_graph"
proof -
  obtain graph' r where run: "add_branch id lexicographic_pairs [] counting_hasher (graph_new counting_hasher :: nat graph) 0 example_decision = (graph', r)"
    by fastforce
  with add_branch_facts [OF graph_new_ok example_decision_facts(1) _ run] show ?thesis
    by (simp add: example_graph_def example_decision_def)
qed

interpretation built_graph: walked_graph lexicographic_pairs "[]" counting_hasher example_graph
  by unfold_locales (rule example_graph_ok)

lemma walked_graph_facts:
  assumes "graph_ok perms patterns hasher graph"
  shows "\<exists>ys. graph_walk perms patterns hasher graph = Ok ys
    \<and> (\<forall>k. yielded k ys =
         (if (gr_root graph, k) \<in> (graph_edges perms patterns hasher graph)\<^sup>*
          then (case hm_get (gr_nodes graph) k of Some n \<Rightarrow> nd_outputs_decisions n | None \<Rightarrow> []) else []))"
proof -
  have graph: "walked_graph perms patterns hasher graph" using assms by (simp add: walked_graph_def)
  from walked_graph.walk_facts [OF this] show ?thesis by (simp add: walked_graph.walk_complete_def [OF graph])
qed

text \<open>
  C12: Walking a well formed graph ends, does not panic, and yields the decisions of every node that can be reached from the root exactly once each,
  in the order in which they were added to the node, and nothing else.
\<close>

theorem graph_walk_complete:
  assumes "graph_ok perms patterns hasher graph"
  shows "\<exists>ys. graph_walk perms patterns hasher graph = Ok ys
    \<and> (\<forall>k. yielded k ys =
         (if (gr_root graph, k) \<in> (graph_edges perms patterns hasher graph)\<^sup>*
          then (case hm_get (gr_nodes graph) k of Some n \<Rightarrow> nd_outputs_decisions n | None \<Rightarrow> []) else []))"
  by (rule walked_graph_facts [OF assms])

theorem graph_walk_complete_witness:
  "\<exists>ys. graph_walk lexicographic_pairs [] counting_hasher example_graph = Ok ys \<and> yielded 0 ys = [example_decision]"
proof -
  obtain ys where ys: "graph_walk lexicographic_pairs [] counting_hasher example_graph = Ok ys"
    "yielded 0 ys = (if (gr_root example_graph, 0) \<in> (graph_edges lexicographic_pairs [] counting_hasher example_graph)\<^sup>*
      then (case hm_get (gr_nodes example_graph) 0 of Some n \<Rightarrow> nd_outputs_decisions n | None \<Rightarrow> []) else [])"
    using graph_walk_complete [OF example_graph_ok] by blast
  moreover have "gr_root example_graph = 0" by code_simp
  moreover have "(case hm_get (gr_nodes example_graph) 0 of Some n \<Rightarrow> nd_outputs_decisions n | None \<Rightarrow> []) = [example_decision]" by code_simp
  ultimately show ?thesis by simp
qed

end
