(* ===== verification/Build_Keys.thy ===== *)
theory Build_Keys
  imports Solver_State
begin

text \<open>
  The order in which the solver tries the builds of a version (\<^verbatim>\<open>crates/spk-solve/crates/package-iterator/src/build_key.rs\<close> and the sorted
  iterator of \<^verbatim>\<open>package_iterator.rs\<close>): keys for builds, made from the values of the options that tell the builds apart, and sorting by them.
  The derived orders of the key types are lexicographic in the order of their variants and fields; here each type has a rank in a
  lexicographically ordered type. Outside of the repository are the parser of version ranges (nom) and the hash function of the standard library.
\<close>

section \<open>Keys\<close>

datatype version_number_piece = NumberPiece u32 | TextPiece str

record build_key_version_number =
  bv_digits :: "version_number_piece list"
  bv_epsilon :: epsilon
  bv_posttag :: "version_number_piece list option"
  bv_notags :: bool
  bv_pretag :: "version_number_piece list option"

record build_key_expanded_range =
  be_max :: build_key_version_number
  be_min :: build_key_version_number
  be_tie_breaker :: u64

datatype build_key_entry =
    PossibleRequests bool
  | NotSet
  | TextEntry str
  | ExpandedVersion build_key_expanded_range

datatype build_key =
    SrcKey
  | EmbedKey ident_parts_buf
  | BinaryKey "build_key_entry list"

fun piece_rank :: "version_number_piece \<Rightarrow> nat \<times> u32 \<times> str" where
  "piece_rank (NumberPiece n) = (0, n, [])"
| "piece_rank (TextPiece s) = (1, 0, s)"

definition tag_rank :: "version_number_piece list option \<Rightarrow> (nat \<times> u32 \<times> str) list option" where
  "tag_rank = map_option (map piece_rank)"

definition version_number_rank ::
  "build_key_version_number \<Rightarrow> (nat \<times> u32 \<times> str) list \<times> epsilon \<times> (nat \<times> u32 \<times> str) list option \<times> bool \<times> (nat \<times> u32 \<times> str) list option" where
  "version_number_rank v = (map piece_rank (bv_digits v), bv_epsilon v, tag_rank (bv_posttag v), bv_notags v, tag_rank (bv_pretag v))"

definition range_rank where
  "range_rank r = (version_number_rank (be_max r), version_number_rank (be_min r), be_tie_breaker r)"

fun entry_rank where
  "entry_rank (PossibleRequests b) = (0 :: nat, b, [] :: str, None)"
| "entry_rank NotSet = (1, False, [], None)"
| "entry_rank (TextEntry s) = (2, False, s, None)"
| "entry_rank (ExpandedVersion r) = (3, False, [], Some (range_rank r))"

fun key_rank where
  "key_rank SrcKey = (0 :: nat, None, [])"
| "key_rank (EmbedKey parts) =
     (1, Some (ib_repository_name parts, ib_pkg_name parts, ib_version_str parts, ib_build_str parts), [])"
| "key_rank (BinaryKey entries) = (2, None, map entry_rank entries)"

section \<open>Making keys\<close>

definition tag_pieces :: "tag_set \<Rightarrow> version_number_piece list option" where
  "tag_pieces tags = (if tags = [] then None else Some (concat (map (\<lambda>(name, n). [TextPiece name, NumberPiece n]) tags)))"

definition version_number_new :: "version \<Rightarrow> build_key_version_number" where
  "version_number_new v =
     (let digits = map NumberPiece (parts_of v); posttag = tag_pieces (v_post v); pretag = tag_pieces (v_pre v);
          notags = (pretag = None \<and> posttag = None) in
      \<lparr>bv_digits = digits, bv_epsilon = epsilon_of v, bv_posttag = posttag, bv_notags = notags, bv_pretag = pretag\<rparr>)"

record key_env =
  ke_parse_range :: "str \<Rightarrow> (str, version_range) outcome"
  ke_hash :: "str \<Rightarrow> u64"
  ke_patterns :: "(str \<Rightarrow> bool) list"

definition u32_max :: u32 where "u32_max = -1"

definition parse_from_range_value :: "key_env \<Rightarrow> str \<Rightarrow> (str, build_key_expanded_range) outcome" where
  "parse_from_range_value env s =
     and_then (ke_parse_range env s) (\<lambda>filter.
       Ok \<lparr>be_max = version_number_new (case less_than_bound filter of Some v \<Rightarrow> v | None \<Rightarrow> from_parts [u32_max, u32_max, u32_max]),
           be_min = version_number_new (case greater_or_equal_to filter of Some v \<Rightarrow> v | None \<Rightarrow> from_parts [0, 0, 0]),
           be_tie_breaker = ke_hash env s\<rparr>)"

definition key_entry :: "key_env \<Rightarrow> option_map \<Rightarrow> str \<Rightarrow> (unit, build_key_entry) outcome" where
  "key_entry env name_values name =
     (case bt_get name_values name of
        Some v \<Rightarrow>
          (case parse_from_range_value env (takeWhile (\<lambda>c. c \<noteq> CHR ''/'') v) of
             Ok r \<Rightarrow> Ok (ExpandedVersion r)
           | Err _ \<Rightarrow> Ok (TextEntry v)
           | Panic \<Rightarrow> Panic)
      | None \<Rightarrow> Ok NotSet)"

fun key_entries :: "key_env \<Rightarrow> option_map \<Rightarrow> str list \<Rightarrow> (unit, build_key_entry list) outcome" where
  "key_entries env name_values [] = Ok []"
| "key_entries env name_values (name # names) =
     and_then (key_entry env name_values name) (\<lambda>e. and_then (key_entries env name_values names) (\<lambda>es. Ok (e # es)))"

definition build_key_new :: "key_env \<Rightarrow> build_ident \<Rightarrow> str list \<Rightarrow> option_map \<Rightarrow> bool \<Rightarrow> (unit, build_key) outcome" where
  "build_key_new env pkg names name_values makes_an_impossible_request =
     (case target pkg of
        SourceBuild \<Rightarrow> Ok SrcKey
      | EmbeddedBuild (EmbeddedPackage package) \<Rightarrow> Ok (EmbedKey (esp_ident package))
      | _ \<Rightarrow>
          and_then (key_entries env name_values names) (\<lambda>es.
            Ok (BinaryKey (PossibleRequests (\<not> makes_an_impossible_request) # es @ [TextEntry (build_digest (target pkg))]))))"

section \<open>Sorting builds\<close>

type_synonym build_with_repos = "(str, package_spec \<times> package_source) hash_map"

record change_counter =
  cc_last :: str
  cc_count :: nat
  cc_use_it :: bool

definition count_change :: "str \<times> str \<Rightarrow> (str, change_counter) hash_map \<Rightarrow> (str, change_counter) hash_map" where
  "count_change opt changes =
     (case opt of (name, v) \<Rightarrow>
        let counter = (case hm_get changes name of Some c \<Rightarrow> c | None \<Rightarrow> \<lparr>cc_last = v, cc_count = 0, cc_use_it = False\<rparr>);
            counter = counter\<lparr>cc_count := cc_count counter + 1\<rparr>;
            counter = (if \<not> cc_use_it counter \<and> cc_last counter \<noteq> v then counter\<lparr>cc_use_it := True\<rparr> else counter) in
        hm_insert name counter changes)"

fun count_builds ::
  "nat \<Rightarrow> (build_ident \<times> option_map) list \<Rightarrow> (str, change_counter) hash_map \<Rightarrow> package_spec list
    \<Rightarrow> nat \<times> (build_ident \<times> option_map) list \<times> (str, change_counter) hash_map" where
  "count_builds n name_values changes [] = (n, name_values, changes)"
| "count_builds n name_values changes (build # builds) =
     (if is_source (target (ps_pkg build)) then count_builds n name_values changes builds
      else count_builds (n + 1) ((ps_pkg build, option_values build) # name_values)
             (fold count_change (option_values build) changes) builds)"

definition sort_builds :: "key_env \<Rightarrow> package_spec list \<Rightarrow> str list \<times> (build_ident \<times> option_map) list" where
  "sort_builds env builds =
     (case count_builds 0 [] [] builds of (n, name_values, changes) \<Rightarrow>
        (promote_names (ke_patterns env) id
           (sort (map fst (filter (\<lambda>(_, cc). cc_use_it cc \<or> cc_count cc \<noteq> n) changes))), name_values))"

text \<open>Looking up the options of a build: identifiers are equal when their versions and builds are.\<close>

definition build_ident_eq :: "build_ident \<Rightarrow> build_ident \<Rightarrow> bool" where
  "build_ident_eq self other \<longleftrightarrow>
     ident_name self = ident_name other \<and> version_eq (ident_version self) (ident_version other) \<and> build_eq (target self) (target other)"

definition make_option_values_build_key ::
  "key_env \<Rightarrow> package_spec \<Rightarrow> str list \<Rightarrow> (build_ident \<times> option_map) list \<Rightarrow> bool \<Rightarrow> (unit, build_key) outcome" where
  "make_option_values_build_key env spec ordered_names build_name_values makes_an_impossible_request =
     build_key_new env (ps_pkg spec) ordered_names
       (case find (\<lambda>(i, _). build_ident_eq i (ps_pkg spec)) build_name_values of Some (_, nv) \<Rightarrow> nv | None \<Rightarrow> [])
       makes_an_impossible_request"

text \<open>A stable sort with the greatest key first.\<close>

definition sort_reverse :: "('a \<Rightarrow> 'k::linorder) \<Rightarrow> 'a list \<Rightarrow> 'a list" where
  "sort_reverse f xs = rev (sort_key f (rev xs))"

definition build_of_repos :: "build_with_repos \<Rightarrow> (unit, package_spec) outcome" where
  "build_of_repos hm = (case hm of [] \<Rightarrow> Panic | (_, spec, _) # _ \<Rightarrow> Ok spec)"

fun keyed_builds ::
  "key_env \<Rightarrow> str list \<Rightarrow> (build_ident \<times> option_map) list \<Rightarrow> build_ident list \<Rightarrow> build_with_repos list
    \<Rightarrow> (unit, (build_key \<times> build_with_repos) list) outcome" where
  "keyed_builds env names build_name_values impossible [] = Ok []"
| "keyed_builds env names build_name_values impossible (hm # hms) =
     and_then (build_of_repos hm) (\<lambda>spec.
     and_then (make_option_values_build_key env spec names build_name_values (list_ex (build_ident_eq (ps_pkg spec)) impossible)) (\<lambda>key.
     and_then (keyed_builds env names build_name_values impossible hms) (\<lambda>rest. Ok ((key, hm) # rest))))"

definition sort_by_build_option_values ::
  "key_env \<Rightarrow> build_ident list \<Rightarrow> build_with_repos list \<Rightarrow> (unit, build_with_repos list) outcome" where
  "sort_by_build_option_values env impossible builds =
     (case sort_builds env (concat (map (map (fst \<circ> snd)) builds)) of (names, build_name_values) \<Rightarrow>
        and_then (keyed_builds env names build_name_values impossible builds) (\<lambda>keyed.
          Ok (map snd (sort_reverse (key_rank \<circ> fst) keyed))))"

section \<open>The order of versions in keys\<close>

text \<open>The versions for which the comment on the order of keys makes sense: with at most one kind of tags.\<close>

definition one_kind_of_tags :: "version \<Rightarrow> bool" where
  "one_kind_of_tags v \<longleftrightarrow> v_pre v = [] \<or> v_post v = []"

lemma cmp_of_map:
  assumes "\<And>x y. f x < f y \<longleftrightarrow> x < y" "inj f"
  shows "cmp_of (map f xs) (map f ys) = cmp_of xs ys"
proof (induction xs ys rule: list_induct2')
  case (4 x xs y ys)
  have "cmp_of (f x) (f y) = cmp_of x y" using assms by (auto simp: cmp_of_def inj_eq)
  with 4 show ?case by (simp add: cmp_of_Cons del: cmp_of_iff split: ordering.splits)
qed simp_all

lemma cmp_of_Some [simp]: "cmp_of (Some x) (Some y) = cmp_of x y" "cmp_of None (Some y) = Less" "cmp_of (Some x) None = Greater"
  by (auto simp: cmp_of_def)

lemma cmp_digits: "cmp_of (map piece_rank (map NumberPiece ps)) (map piece_rank (map NumberPiece qs)) = cmp_of ps qs"
  using cmp_of_map [of "\<lambda>n. (0::nat, n, []::str)" ps qs] by (simp add: inj_def comp_def)

lemma cmp_parts_same_length: "length ps = length qs \<Longrightarrow> cmp_parts ps qs = cmp_of ps qs"
  by (induction ps qs rule: list_induct2) (simp_all add: cmp_of_Cons del: cmp_of_iff split: ordering.splits)

definition tag_ranks :: "tag_set \<Rightarrow> (nat \<times> u32 \<times> str) list" where
  "tag_ranks tags = concat (map (\<lambda>(name, n). [(1, 0, name), (0, n, [])]) tags)"

lemma tag_rank_pieces: "tag_rank (tag_pieces tags) = (if tags = [] then None else Some (tag_ranks tags))"
  by (auto simp: tag_rank_def tag_pieces_def tag_ranks_def map_concat comp_def split_def)

lemma cmp_tag_ranks: "cmp_of (tag_ranks a) (tag_ranks b) = cmp_of a b"
proof (induction a b rule: list_induct2')
  case (4 x a y b)
  obtain name n name' n' where "x = (name, n)" "y = (name', n')" by fastforce
  with 4 show ?case by (simp add: tag_ranks_def cmp_of_Cons cmp_of_pair split: ordering.splits)
qed (auto simp: tag_ranks_def)

lemma cmp_tags: "cmp_of (tag_rank (tag_pieces a)) (tag_rank (tag_pieces b)) = cmp_of a b"
  by (simp add: tag_rank_pieces cmp_tag_ranks)

lemma tag_pieces_None [simp]: "tag_pieces tags = None \<longleftrightarrow> tags = []"
  by (simp add: tag_pieces_def)

text \<open>
  C33: In the keys of builds, versions with equally many parts and with at most one kind of release tags have the order that versions have
  everywhere else.
\<close>

theorem build_key_version_order:
  assumes "version_wf v" "version_wf w" "length (parts_of v) = length (parts_of w)" "one_kind_of_tags v" "one_kind_of_tags w"
  shows "cmp_of (version_number_rank (version_number_new v)) (version_number_rank (version_number_new w)) = version_cmp v w"
proof -
  have sorted: "sort (v_pre v) = v_pre v" "sort (v_post v) = v_post v" "sort (v_pre w) = v_pre w" "sort (v_post w) = v_post w"
    using assms(1,2) by (auto simp: version_wf_def bt_wf_def sorted_sort_id)
  have digits: "cmp_of (map piece_rank (map NumberPiece (parts_of v))) (map piece_rank (map NumberPiece (parts_of w))) =
      cmp_of (strip_zeros (parts_of v)) (strip_zeros (parts_of w))"
    unfolding cmp_digits cmp_parts_strip [symmetric] by (rule cmp_parts_same_length [OF assms(3), symmetric])
  have tags: "(case cmp_of (v_post v) (v_post w) of
        Equal \<Rightarrow> (case cmp_of (v_pre v = [] \<and> v_post v = []) (v_pre w = [] \<and> v_post w = []) of Equal \<Rightarrow> cmp_of (v_pre v) (v_pre w) | r \<Rightarrow> r) | r \<Rightarrow> r)
      = (case cmp_of (v_pre v = [], v_pre v) (v_pre w = [], v_pre w) of Equal \<Rightarrow> cmp_of (v_post v) (v_post w) | r \<Rightarrow> r)"
    using assms(4,5) unfolding one_kind_of_tags_def
    by (cases "v_pre v"; cases "v_pre w"; cases "v_post v"; cases "v_post w")
      (auto simp: cmp_of_pair cmp_of_def [where 'a = bool] split: ordering.splits)
  have "cmp_of (version_number_rank (version_number_new v)) (version_number_rank (version_number_new w)) =
      (case cmp_of (strip_zeros (parts_of v)) (strip_zeros (parts_of w)) of Equal \<Rightarrow>
        (case cmp_of (epsilon_of v) (epsilon_of w) of Equal \<Rightarrow>
          (case cmp_of (v_post v) (v_post w) of
            Equal \<Rightarrow> (case cmp_of (v_pre v = [] \<and> v_post v = []) (v_pre w = [] \<and> v_post w = []) of Equal \<Rightarrow> cmp_of (v_pre v) (v_pre w) | r \<Rightarrow> r) | r \<Rightarrow> r)
         | r \<Rightarrow> r) | r \<Rightarrow> r)"
    unfolding version_number_rank_def version_number_new_def Let_def build_key_version_number.simps cmp_of_pair cmp_tags digits tag_pieces_None ..
  also have "\<dots> = version_cmp v w"
    unfolding tags version_cmp_key version_key_def cmp_of_pair [where a = "strip_zeros _"] cmp_of_pair [where a = "epsilon_of _"]
      cmp_of_pair [where a = "(_, _)"] sorted ..
  finally show ?thesis .
qed

theorem build_key_version_order_witness:
  "cmp_of (version_number_rank (version_number_new (from_parts [1, 2]))) (version_number_rank (version_number_new (from_parts [1, 3]))) = Less"
proof -
  have "version_wf (from_parts [1, 2])" "version_wf (from_parts [1, 3])" "one_kind_of_tags (from_parts [1, 2])" "one_kind_of_tags (from_parts [1, 3])"
    "version_cmp (from_parts [1, 2]) (from_parts [1, 3]) = Less" by code_simp+
  moreover have "length (parts_of (from_parts [1, 2])) = length (parts_of (from_parts [1, 3]))" by code_simp
  ultimately show ?thesis using build_key_version_order by metis
qed

text \<open>
  Without these conditions the orders differ: a pre-release that is written with more parts comes after the release in the keys, and so does
  a pre-release with a post-release tag.
\<close>

definition pre_release :: "u32 list \<Rightarrow> tag_set \<Rightarrow> version" where
  "pre_release parts post = (from_parts parts)\<lparr>v_pre := [(''beta'', 1)], v_post := post\<rparr>"

theorem build_key_version_order_differs:
  "version_cmp (pre_release [1, 0, 0] []) (from_parts [1, 0]) = Less
   \<and> cmp_of (version_number_rank (version_number_new (pre_release [1, 0, 0] []))) (version_number_rank (version_number_new (from_parts [1, 0]))) = Greater
   \<and> version_cmp (pre_release [1, 0] [(''r'', 1)]) (from_parts [1, 0]) = Less
   \<and> cmp_of (version_number_rank (version_number_new (pre_release [1, 0] [(''r'', 1)]))) (version_number_rank (version_number_new (from_parts [1, 0]))) = Greater"
  by (intro conjI; code_simp)

section \<open>The order of builds\<close>

text \<open>How much a build is preferred, whatever its options are.\<close>

definition preference :: "build_ident list \<Rightarrow> package_spec \<Rightarrow> nat" where
  "preference impossible spec =
     (if is_source (target (ps_pkg spec)) then 0 else if is_embed_stub (target (ps_pkg spec)) then 1
      else if list_ex (build_ident_eq (ps_pkg spec)) impossible then 2 else 3)"

fun key_preference :: "build_key \<Rightarrow> nat" where
  "key_preference SrcKey = 0"
| "key_preference (EmbedKey _) = 1"
| "key_preference (BinaryKey (PossibleRequests possible # _)) = (if possible then 3 else 2)"
| "key_preference (BinaryKey _) = 2"

lemma sort_reverse_facts: "mset (sort_reverse f xs) = mset xs" "sorted_wrt (\<lambda>a b. f b \<le> f a) (sort_reverse f xs)"
proof -
  show "mset (sort_reverse f xs) = mset xs" by (simp add: sort_reverse_def)
  have "sorted_wrt (\<lambda>a b. f a \<le> f b) (sort_key f (rev xs))" using sorted_sort_key [of f "rev xs"] by (simp add: sorted_map)
  then show "sorted_wrt (\<lambda>a b. f b \<le> f a) (sort_reverse f xs)" by (simp add: sort_reverse_def sorted_wrt_rev)
qed

lemma key_entries_ok:
  assumes "\<And>s. ke_parse_range env s \<noteq> Panic"
  shows "\<exists>es. key_entries env name_values names = Ok es"
proof (induction names)
  case (Cons name names)
  have "parse_from_range_value env s \<noteq> Panic" for s using assms by (simp add: parse_from_range_value_def)
  then have "\<exists>e. key_entry env name_values name = Ok e" by (auto simp: key_entry_def split: option.splits outcome.splits)
  with Cons show ?case by auto
qed simp

definition fits_preference :: "build_ident list \<Rightarrow> package_spec \<Rightarrow> build_key \<Rightarrow> bool" where
  "fits_preference impossible spec key \<longleftrightarrow>
     key_preference key = preference impossible spec
     \<and> (case key of BinaryKey es \<Rightarrow> \<exists>possible rest. es = PossibleRequests possible # rest | _ \<Rightarrow> True)"

lemma build_key_ok:
  assumes "\<And>s. ke_parse_range env s \<noteq> Panic"
  shows "\<exists>key. make_option_values_build_key env spec names nvs (list_ex (build_ident_eq (ps_pkg spec)) impossible) = Ok key
    \<and> fits_preference impossible spec key"
proof -
  obtain es where "key_entries env (case find (\<lambda>(i, _). build_ident_eq i (ps_pkg spec)) nvs of Some (_, nv) \<Rightarrow> nv | None \<Rightarrow> []) names = Ok es"
    using key_entries_ok [OF assms] by blast
  then show ?thesis
    by (cases "target (ps_pkg spec)" rule: is_embed_stub.cases)
      (auto simp: make_option_values_build_key_def build_key_new_def fits_preference_def preference_def)
qed

lemma key_rank_preference:
  assumes "fits_preference impossible a key" "fits_preference impossible b key'" "key_rank key \<le> key_rank key'"
  shows "preference impossible a \<le> preference impossible b"
proof -
  have "key_preference key \<le> key_preference key'"
    using assms by (cases key; cases key') (auto simp: fits_preference_def simp del: One_nat_def split: if_splits)
  with assms show ?thesis by (simp add: fits_preference_def)
qed

abbreviation first_spec :: "build_with_repos \<Rightarrow> package_spec" where
  "first_spec hm \<equiv> fst (snd (hd hm))"

lemma keyed_builds_ok:
  assumes "\<And>s. ke_parse_range env s \<noteq> Panic" "list_all (\<lambda>hm. hm \<noteq> []) builds"
  shows "\<exists>keyed. keyed_builds env names nvs impossible builds = Ok keyed \<and> map snd keyed = builds
    \<and> (\<forall>(key, hm) \<in> set keyed. fits_preference impossible (first_spec hm) key)"
  using assms(2)
proof (induction builds)
  case (Cons hm builds)
  then obtain name spec source rest where hm: "hm = (name, spec, source) # rest" by (cases hm) auto
  obtain key where "make_option_values_build_key env spec names nvs (list_ex (build_ident_eq (ps_pkg spec)) impossible) = Ok key"
    "fits_preference impossible spec key" using build_key_ok [OF assms(1)] by blast
  with Cons hm show ?case by (auto simp: build_of_repos_def)
qed simp

text \<open>
  C21: The builds of a version are tried in an order that is a permutation of them: first the binary builds that make no request that is known to be
  impossible, then the binary builds that do, then stubs for embedded packages, and source packages last; whatever the options of the builds are.
\<close>

theorem sorted_builds_order:
  assumes "\<forall>s. ke_parse_range env s \<noteq> Panic" "list_all (\<lambda>hm. hm \<noteq> []) builds"
  shows "\<exists>sorted. sort_by_build_option_values env impossible builds = Ok sorted \<and> mset sorted = mset builds
    \<and> sorted_wrt (\<lambda>a b. preference impossible (first_spec b) \<le> preference impossible (first_spec a)) sorted"
proof -
  obtain names nvs where names: "sort_builds env (concat (map (map (fst \<circ> snd)) builds)) = (names, nvs)" by fastforce
  obtain keyed where keyed: "keyed_builds env names nvs impossible builds = Ok keyed" "map snd keyed = builds"
    "\<forall>(key, hm) \<in> set keyed. fits_preference impossible (first_spec hm) key"
    using keyed_builds_ok assms by blast
  let ?sorted = "sort_reverse (key_rank \<circ> fst) keyed"
  have perm: "mset (map snd ?sorted) = mset builds" by (simp add: sort_reverse_facts(1) flip: keyed(2))
  have "set ?sorted = set keyed" by (rule mset_eq_setD [OF sort_reverse_facts(1)])
  have "sorted_wrt (\<lambda>a b. preference impossible (first_spec (snd b)) \<le> preference impossible (first_spec (snd a))) ?sorted"
  proof (rule sorted_wrt_mono_rel [OF _ sort_reverse_facts(2)])
    fix a b assume "a \<in> set ?sorted" "b \<in> set ?sorted" "(key_rank \<circ> fst) b \<le> (key_rank \<circ> fst) a"
    with \<open>set ?sorted = set keyed\<close> keyed(3) show "preference impossible (first_spec (snd b)) \<le> preference impossible (first_spec (snd a))"
      by (intro key_rank_preference [of _ _ "fst b" _ "fst a"]) (auto simp: case_prod_beta simp del: One_nat_def)
  qed
  then have "sorted_wrt (\<lambda>a b. preference impossible (first_spec b) \<le> preference impossible (first_spec a)) (map snd ?sorted)"
    by (simp add: sorted_wrt_map)
  with perm show ?thesis by (auto simp: sort_by_build_option_values_def names keyed(1))
qed

theorem sorted_builds_order_witness:
  "\<exists>sorted. sort_by_build_option_values \<lparr>ke_parse_range = (\<lambda>s. Err s), ke_hash = (\<lambda>_. 0), ke_patterns = []\<rparr> []
       [[(''origin'', set_build (example_package []) SourceBuild, SpkInternalTestSource)], [(''origin'', example_package [], SpkInternalTestSource)]] = Ok sorted
     \<and> first_spec (sorted ! 0) = example_package []"
proof -
  let ?src = "[(''origin'', set_build (example_package []) SourceBuild, SpkInternalTestSource)]"
  let ?bin = "[(''origin'', example_package [], SpkInternalTestSource)]"
  let ?env = "\<lparr>ke_parse_range = (\<lambda>s. Err s), ke_hash = (\<lambda>_. 0), ke_patterns = []\<rparr>"
  obtain sorted where sorted: "sort_by_build_option_values ?env [] [?src, ?bin] = Ok sorted" "mset sorted = mset [?src, ?bin]"
    "sorted_wrt (\<lambda>a b. preference [] (first_spec b) \<le> preference [] (first_spec a)) sorted"
    using sorted_builds_order [of ?env "[?src, ?bin]" "[]"] by auto
  have pref: "preference [] (first_spec ?src) = 0" "preference [] (first_spec ?bin) = 3" by code_simp+
  have "length sorted = 2" using sorted(2) by (metis One_nat_def Suc_1 length_Cons list.size(3) size_mset)
  then obtain a b where ab: "sorted = [a, b]" by (auto simp: length_Suc_conv numeral_2_eq_2)
  then have "a = ?src \<and> b = ?bin \<or> a = ?bin \<and> b = ?src" using sorted(2) by (auto simp: add_eq_conv_ex)
  with sorted(3) pref ab have "a = ?bin" by auto
  with ab sorted(1) show ?thesis by auto
qed

end
