(* ===== verification/Solver_Validation.thy ===== *)
theory Solver_Validation
  imports Solver_Decisions
begin

text \<open>
  The validators of the package solver (\<^verbatim>\<open>crates/spk-solve/crates/validation/src/validation.rs\<close> and \<open>validators/\<close>), which decide
  whether a package or a recipe fits the requests, options and resolved packages of a state. A recipe is given by what the validators ask of it.
  Outside of the repository is the parser of version ranges (nom); the text of an error that goes into a message for the user is a parameter
  too. Debug assertions are left out.
\<close>

section \<open>Validators\<close>

datatype validators =
    BinaryOnlyValidator
  | ComponentsValidator
  | DeprecationValidator
  | EmbeddedPackageValidator
  | OptionsValidator
  | PkgRequestValidator
  | PkgRequirementsValidator
  | VarRequirementsValidator

datatype validation_error =
    MergedRequestError merged_error
  | SolverError str

type_synonym validation_result = "(validation_error, compatibility) outcome"

record recipe =
  rc_name :: str
  rc_version :: version
  rc_deprecated :: bool
  rc_resolve_options :: "option_map \<Rightarrow> bool"

record validation_env =
  ve_perms :: pair_order
  ve_parse_range :: "str \<Rightarrow> (str, version_range) outcome"
  ve_show_error :: "merged_error \<Rightarrow> str"

definition merged_request :: "validation_env \<Rightarrow> solver_state \<Rightarrow> str \<Rightarrow> (validation_error, pkg_request_with_options) outcome" where
  "merged_request env state name = map_err MergedRequestError (get_merged_request (ve_perms env) (st_pkg_requests state) name)"

text \<open>The loops over what has to be checked: the first answer that is not \<open>Compatible\<close> is returned.\<close>

fun check_all :: "('a \<Rightarrow> validation_result) \<Rightarrow> 'a list \<Rightarrow> validation_result" where
  "check_all f [] = Ok Compatible"
| "check_all f (x # xs) = and_then (f x) (\<lambda>compat. if is_ok compat then check_all f xs else Ok compat)"

subsection \<open>Deprecation and binary packages\<close>

definition build_requested :: "pkg_request_with_options \<Rightarrow> package_spec \<Rightarrow> bool" where
  "build_requested request package = build_opt_eq (ri_build (pr_pkg (po_pkg_request request))) (Some (target (ps_pkg package)))"

definition deprecation_against_request :: "validation_env \<Rightarrow> solver_state \<Rightarrow> package_spec \<Rightarrow> validation_result" where
  "deprecation_against_request env state package =
     (if \<not> ps_deprecated package then Ok Compatible
      else and_then (merged_request env state (spec_name package)) (\<lambda>request.
        if build_requested request package then Ok Compatible else Ok (Incompatible BuildDeprecated)))"

definition binary_only_against_request :: "validation_env \<Rightarrow> solver_state \<Rightarrow> package_spec \<Rightarrow> validation_result" where
  "binary_only_against_request env state package =
     and_then (merged_request env state (spec_name package)) (\<lambda>request.
       if is_source (target (ps_pkg package)) \<and> \<not> build_requested request package then Ok (Incompatible BuildFromSourceDisabled)
       else Ok Compatible)"

subsection \<open>Requests for packages\<close>

definition source_from_repository :: "str \<Rightarrow> package_source \<Rightarrow> compatibility" where
  "source_from_repository rn source =
     (case source of
        FromRepository repo _ \<Rightarrow>
          if rh_name repo \<noteq> rn then Incompatible (PackageRepoMismatch (WrongSourceRepository rn (rh_name repo))) else Compatible
      | EmbeddedSourceOf parent _ \<Rightarrow> Incompatible (PackageRepoMismatch (EmbeddedInPackageFromWrongRepository (show_build_ident False parent)))
      | BuildFromSource _ \<Rightarrow> Incompatible (PackageRepoMismatch FromRecipeFromWrongRepository)
      | SpkInternalTestSource \<Rightarrow> Incompatible (PackageRepoMismatch InternalTest))"

definition no_request :: "validation_env \<Rightarrow> str \<Rightarrow> merged_error \<Rightarrow> compatibility" where
  "no_request env name err =
     (case err of
        NoRequestFor name \<Rightarrow> Incompatible (InternalError (''package '' @ [CHR 0x27] @ name @ [CHR 0x27] @ '' was not requested''))
      | _ \<Rightarrow> Incompatible (InternalError
          (''package '' @ [CHR 0x27] @ name @ [CHR 0x27] @ '' has an invalid request stack: '' @ ve_show_error env err)))"

definition pkg_request_against_request :: "validation_env \<Rightarrow> solver_state \<Rightarrow> package_spec \<Rightarrow> package_source \<Rightarrow> validation_result" where
  "pkg_request_against_request env state package source =
     (case get_merged_request (ve_perms env) (st_pkg_requests state) (spec_name package) of
        Err err \<Rightarrow> Ok (no_request env (spec_name package) err)
      | Panic \<Rightarrow> Panic
      | Ok request \<Rightarrow>
          let repository =
            (case ri_repository_name (pr_pkg (po_pkg_request request)) of
               Some rn \<Rightarrow> source_from_repository rn source
             | None \<Rightarrow> Compatible) in
          if \<not> is_ok repository then Ok repository
          else
            let compat = is_version_applicable (po_pkg_request request) (ident_version (ps_pkg package)) in
            Ok (if is_ok compat then check_package_spec_satisfies_pkg_request package request else compat))"

definition pkg_request_recipe :: "validation_env \<Rightarrow> solver_state \<Rightarrow> recipe \<Rightarrow> validation_result" where
  "pkg_request_recipe env state recipe =
     (case get_merged_request (ve_perms env) (st_pkg_requests state) (rc_name recipe) of
        Err err \<Rightarrow> Ok (no_request env (rc_name recipe) err)
      | Panic \<Rightarrow> Panic
      | Ok request \<Rightarrow> Ok (is_version_applicable (po_pkg_request request) (rc_version recipe)))"

subsection \<open>Embedded packages\<close>

definition is_stub_of :: "package_spec \<Rightarrow> package_spec \<Rightarrow> bool" where
  "is_stub_of existing spec =
     (case target (ps_pkg existing) of
        EmbeddedBuild (EmbeddedPackage package) \<Rightarrow> parts_eq_build_ident (esp_ident package) (ps_pkg spec)
      | _ \<Rightarrow> False)"

definition embedded_against_requests :: "validation_env \<Rightarrow> embedded_package_spec \<Rightarrow> solver_state \<Rightarrow> validation_result" where
  "embedded_against_requests env embedded state =
     (case get_merged_request (ve_perms env) (st_pkg_requests state) (ident_name (eps_pkg embedded)) of
        Ok existing \<Rightarrow>
          (case check_package_spec_satisfies_pkg_request (package_of_embedded embedded) existing of
             Incompatible incompatible \<Rightarrow> Ok (Incompatible (EmbeddedIncompatible (ident_name (eps_pkg embedded)) incompatible))
           | Compatible \<Rightarrow> Ok Compatible)
      | Err (NoRequestFor _) \<Rightarrow> Ok Compatible
      | Err err \<Rightarrow> Err (MergedRequestError err)
      | Panic \<Rightarrow> Panic)"

definition validate_embedded_package_against_state ::
  "validation_env \<Rightarrow> package_spec \<Rightarrow> embedded_package_spec \<Rightarrow> solver_state \<Rightarrow> validation_result" where
  "validate_embedded_package_against_state env spec embedded state =
     (case get_current_resolve state (ident_name (eps_pkg embedded)) of
        Some (existing, _, _) \<Rightarrow>
          if is_stub_of existing spec then embedded_against_requests env embedded state
          else Ok (embedded_conflict (spec_name existing))
      | None \<Rightarrow> embedded_against_requests env embedded state)"

text \<open>What the components of a package that pass a test embed, in the order of the loops.\<close>

definition embedded_where :: "package_spec \<Rightarrow> (component \<Rightarrow> bool) \<Rightarrow> (component \<times> embedded_package_spec) list" where
  "embedded_where spec active =
     concat (map (\<lambda>c. concat (map (\<lambda>ep. map (Pair (cs_name c)) (packages_matching_embedded_package (ps_embedded spec) ep))
         (cel_components (cs_embedded c))))
       (filter (\<lambda>c. active (cs_name c)) (ps_components spec)))"

definition required_of :: "package_spec \<Rightarrow> pkg_request_with_options \<Rightarrow> component list" where
  "required_of spec request = resolve_uses (ps_components spec) (ri_components (pr_pkg (po_pkg_request request)))"

definition validate_embedded_packages_in_required_components ::
  "validation_env \<Rightarrow> package_spec \<Rightarrow> pkg_request_with_options \<Rightarrow> solver_state \<Rightarrow> validation_result" where
  "validate_embedded_packages_in_required_components env spec request state =
     check_all (\<lambda>(_, embedded). validate_embedded_package_against_state env spec embedded state)
       (embedded_where spec (\<lambda>c. c \<in> set (required_of spec request)))"

definition embedded_package_package :: "validation_env \<Rightarrow> solver_state \<Rightarrow> package_spec \<Rightarrow> validation_result" where
  "embedded_package_package env state spec =
     and_then (merged_request env state (spec_name spec)) (\<lambda>request.
       validate_embedded_packages_in_required_components env spec request state)"

subsection \<open>Components\<close>

definition check_for_embedded_stub :: "package_spec \<Rightarrow> compatibility" where
  "check_for_embedded_stub package =
     (if is_embedded (target (ps_pkg package)) then Compatible else Incompatible PackageNotAnEmbeddedPackage)"

definition provided_components :: "package_spec \<Rightarrow> package_source \<Rightarrow> component list" where
  "provided_components package source =
     (case source of
        FromRepository _ components \<Rightarrow> map fst components
      | BuildFromSource _ \<Rightarrow> component_names (ps_components package)
      | EmbeddedSourceOf _ components \<Rightarrow> components
      | SpkInternalTestSource \<Rightarrow> component_names (ps_components package))"

definition missing_from :: "package_spec \<Rightarrow> pkg_request_with_options \<Rightarrow> component list \<Rightarrow> component list" where
  "missing_from package request available = filter (\<lambda>c. c \<notin> set available) (required_of package request)"

definition check_for_missing_components :: "pkg_request_with_options \<Rightarrow> package_spec \<Rightarrow> package_source \<Rightarrow> compatibility" where
  "check_for_missing_components request package source =
     (let available = provided_components package source; missing = missing_from package request available in
      if missing \<noteq> []
      then Incompatible (ComponentsMissing (ComponentsNotDefined (bs_from_list (map component_as_str missing))
             (bs_from_list (map component_as_str available))))
      else Compatible)"

definition components_package :: "validation_env \<Rightarrow> solver_state \<Rightarrow> package_spec \<Rightarrow> package_source \<Rightarrow> validation_result" where
  "components_package env state spec source =
     (if check_for_embedded_stub spec = Compatible then Ok Compatible
      else and_then (merged_request env state (spec_name spec)) (\<lambda>request.
        case check_for_missing_components request spec source of
          Incompatible reason \<Rightarrow> Ok (Incompatible reason)
        | Compatible \<Rightarrow> validate_embedded_packages_in_required_components env spec request state))"

definition components_against_request :: "validation_env \<Rightarrow> solver_state \<Rightarrow> package_spec \<Rightarrow> package_source \<Rightarrow> validation_result" where
  "components_against_request env state package source =
     (if check_for_embedded_stub package = Compatible then Ok Compatible
      else and_then (merged_request env state (spec_name package)) (\<lambda>request.
        Ok (check_for_missing_components request package source)))"

subsection \<open>Options and requirements for variables\<close>

definition key_request :: "var_key \<Rightarrow> str var_request" where
  "key_request k = (case k of (var, v, description) \<Rightarrow> \<lparr>vr_var = var, vr_value = v, vr_description = description\<rparr>)"

definition qualified_requests :: "solver_state \<Rightarrow> package_spec \<Rightarrow> str set" where
  "qualified_requests state spec =
     without_namespace ` set (filter (\<lambda>var. namespace var = Some (spec_name spec)) (map fst (st_var_requests state)))"

definition options_request :: "validation_env \<Rightarrow> solver_state \<Rightarrow> package_spec \<Rightarrow> str var_request \<Rightarrow> validation_result" where
  "options_request env state spec request =
     (if namespace (vr_var request) = None \<and> vr_var request \<in> qualified_requests state spec then Ok Compatible
      else case check_satisfies_var_request (ve_parse_range env) spec request of
             Ok (Incompatible incompatible) \<Rightarrow> Ok (Incompatible (OptionNotSatisfied incompatible))
           | Ok Compatible \<Rightarrow> Ok Compatible
           | _ \<Rightarrow> Panic)"

definition options_package :: "validation_env \<Rightarrow> solver_state \<Rightarrow> package_spec \<Rightarrow> validation_result" where
  "options_package env state spec = check_all (options_request env state spec) (map key_request (st_var_requests state))"

definition option_mismatch :: "str var_request \<Rightarrow> str \<times> str \<Rightarrow> validation_result" where
  "option_mismatch request opt =
     (case opt of (name, v) \<Rightarrow>
        let is_exact_match = (name = vr_var request);
            is_global_base_match = (namespace (vr_var request) = None \<and> base_name (vr_var request) = base_name name) in
        if \<not> is_exact_match \<and> \<not> is_global_base_match then Ok Compatible
        else if v = [] then Ok Compatible
        else if vr_value request \<noteq> v then Ok (Incompatible (VarRequirementMismatch (vr_var request) (vr_value request) name v))
        else Ok Compatible)"

definition var_requirements_package :: "solver_state \<Rightarrow> package_spec \<Rightarrow> validation_result" where
  "var_requirements_package state spec =
     check_all (\<lambda>request. case request of OptVar request \<Rightarrow> check_all (option_mismatch request) (st_options state) | OptPkg _ \<Rightarrow> Ok Compatible)
       (runtime_requirements spec)"

subsection \<open>Requirements for packages\<close>

definition validate_request_against_existing_resolve :: "pkg_request_with_options \<Rightarrow> package_spec \<Rightarrow> component list \<Rightarrow> compatibility" where
  "validate_request_against_existing_resolve request resolved provided =
     (case check_package_spec_satisfies_pkg_request resolved request of
        Incompatible incompatible \<Rightarrow> Incompatible (ConflictingRequirement (ExistingPackage (req_name request) incompatible))
      | Compatible \<Rightarrow>
          let missing = missing_from resolved request provided in
          if missing \<noteq> []
          then Incompatible (ComponentsMissing (ComponentsNotProvided (req_name request) (bs_from_list (map component_as_str missing))
                 (bs_from_list (map component_as_str provided))))
          else Compatible)"

definition in_embedder :: "package_source \<Rightarrow> incompatible_reason \<Rightarrow> incompatible_reason" where
  "in_embedder source reason =
     (case (reason, source) of
        (ComponentsMissing (ComponentsNotProvided package needed have), EmbeddedSourceOf parent _) \<Rightarrow>
          ComponentsMissing (EmbeddedComponentsNotProvided (ident_name parent) package needed have)
      | _ \<Rightarrow> reason)"

definition newly_embedded :: "validation_env \<Rightarrow> solver_state \<Rightarrow> package_spec \<Rightarrow> component \<times> embedded_package_spec \<Rightarrow> validation_result" where
  "newly_embedded env state resolved ce =
     (case ce of (component, embedded) \<Rightarrow>
        and_then (validate_embedded_package_against_state env resolved embedded state) (\<lambda>compat.
          case compat of
            Incompatible reason \<Rightarrow>
              Ok (Incompatible (ConflictingEmbeddedPackageRequirement (spec_name resolved) (component_as_str component)
                (ident_name (eps_pkg embedded)) reason))
          | Compatible \<Rightarrow> Ok Compatible))"

definition validate_against_resolve ::
  "validation_env \<Rightarrow> solver_state \<Rightarrow> pkg_request_with_options \<Rightarrow> pkg_request_with_options \<Rightarrow> package_spec \<Rightarrow> package_source
    \<Rightarrow> validation_result" where
  "validate_against_resolve env state existing request resolved source =
     (case validate_request_against_existing_resolve request resolved (provided_components resolved source) of
        Incompatible reason \<Rightarrow> Ok (Incompatible (in_embedder source reason))
      | Compatible \<Rightarrow>
          check_all (newly_embedded env state resolved)
            (embedded_where resolved (\<lambda>c. c \<notin> set (required_of resolved existing) \<and> c \<in> set (required_of resolved request))))"

definition validate_request_against_existing_state :: "validation_env \<Rightarrow> solver_state \<Rightarrow> request_with_options \<Rightarrow> validation_result" where
  "validate_request_against_existing_state env state request =
     (case request of
        OptVar _ \<Rightarrow> Ok Compatible
      | OptPkg request \<Rightarrow>
          (case get_merged_request (ve_perms env) (st_pkg_requests state) (req_name request) of
             Err (NoRequestFor _) \<Rightarrow> Ok Compatible
           | Err err \<Rightarrow> Err (MergedRequestError err)
           | Panic \<Rightarrow> Panic
           | Ok existing \<Rightarrow>
               (case with_options_restrict (ve_perms env) existing request of
                  (Incompatible incompatible, _) \<Rightarrow> Ok (Incompatible (ConflictingRequirement (PkgRequirement incompatible)))
                | (Compatible, restricted) \<Rightarrow>
                    (case get_current_resolve state (req_name restricted) of
                       None \<Rightarrow> Ok Compatible
                     | Some (resolved, source, _) \<Rightarrow> validate_against_resolve env state existing restricted resolved source))))"

definition pkg_requirements_package :: "validation_env \<Rightarrow> solver_state \<Rightarrow> package_spec \<Rightarrow> validation_result" where
  "pkg_requirements_package env state spec = check_all (validate_request_against_existing_state env state) (runtime_requirements spec)"

subsection \<open>The three questions that a validator answers\<close>

fun validator_package :: "validation_env \<Rightarrow> validators \<Rightarrow> solver_state \<Rightarrow> package_spec \<Rightarrow> package_source \<Rightarrow> validation_result" where
  "validator_package env BinaryOnlyValidator state spec source = Ok Compatible"
| "validator_package env ComponentsValidator state spec source = components_package env state spec source"
| "validator_package env DeprecationValidator state spec source = deprecation_against_request env state spec"
| "validator_package env EmbeddedPackageValidator state spec source = embedded_package_package env state spec"
| "validator_package env OptionsValidator state spec source = options_package env state spec"
| "validator_package env PkgRequestValidator state spec source = pkg_request_against_request env state spec source"
| "validator_package env PkgRequirementsValidator state spec source = pkg_requirements_package env state spec"
| "validator_package env VarRequirementsValidator state spec source = var_requirements_package state spec"

definition not_implemented :: validation_error where
  "not_implemented = SolverError ''validate_package_against_request() is not implemented for this Validator''"

fun validator_against_request ::
  "validation_env \<Rightarrow> validators \<Rightarrow> solver_state \<Rightarrow> package_spec \<Rightarrow> package_source \<Rightarrow> validation_result" where
  "validator_against_request env BinaryOnlyValidator state spec source = binary_only_against_request env state spec"
| "validator_against_request env ComponentsValidator state spec source = components_against_request env state spec source"
| "validator_against_request env DeprecationValidator state spec source = deprecation_against_request env state spec"
| "validator_against_request env PkgRequestValidator state spec source = pkg_request_against_request env state spec source"
| "validator_against_request env _ state spec source = Err not_implemented"

fun validator_recipe :: "validation_env \<Rightarrow> validators \<Rightarrow> solver_state \<Rightarrow> recipe \<Rightarrow> validation_result" where
  "validator_recipe env BinaryOnlyValidator state recipe = Ok (Incompatible BuildFromSourceDisabled)"
| "validator_recipe env DeprecationValidator state recipe = Ok (if rc_deprecated recipe then Incompatible RecipeDeprecated else Compatible)"
| "validator_recipe env OptionsValidator state recipe =
     Ok (if \<not> rc_resolve_options recipe (st_options state) then Incompatible OptionResolveError else Compatible)"
| "validator_recipe env PkgRequestValidator state recipe = pkg_request_recipe env state recipe"
| "validator_recipe env _ state recipe = Ok Compatible"

definition default_validators :: "validators list" where
  "default_validators =
     [DeprecationValidator, PkgRequestValidator, ComponentsValidator, OptionsValidator, VarRequirementsValidator,
      PkgRequirementsValidator, EmbeddedPackageValidator]"

text \<open>The solver asks its validators in their order.\<close>

definition validate_package ::
  "validation_env \<Rightarrow> validators list \<Rightarrow> solver_state \<Rightarrow> package_spec \<Rightarrow> package_source \<Rightarrow> validation_result" where
  "validate_package env validators state spec source = check_all (\<lambda>v. validator_package env v state spec source) validators"

definition validate_recipe :: "validation_env \<Rightarrow> validators list \<Rightarrow> solver_state \<Rightarrow> recipe \<Rightarrow> validation_result" where
  "validate_recipe env validators state recipe = check_all (\<lambda>v. validator_recipe env v state recipe) validators"

section \<open>What a package fulfils that is valid\<close>

lemma check_all_iff: "check_all f xs = Ok Compatible \<longleftrightarrow> (\<forall>x \<in> set xs. f x = Ok Compatible)"
  by (induction xs) (auto split: if_splits elim!: is_ok.elims)

lemma validate_package_each:
  assumes "validate_package env validators state spec source = Ok Compatible" "set default_validators \<subseteq> set validators"
  shows "deprecation_against_request env state spec = Ok Compatible" "pkg_request_against_request env state spec source = Ok Compatible"
    "components_package env state spec source = Ok Compatible" "options_package env state spec = Ok Compatible"
    "var_requirements_package state spec = Ok Compatible" "pkg_requirements_package env state spec = Ok Compatible"
    "embedded_package_package env state spec = Ok Compatible"
proof -
  have each: "validator_package env v state spec source = Ok Compatible" if "v \<in> set default_validators" for v
    using assms that by (auto simp: validate_package_def check_all_iff)
  show "deprecation_against_request env state spec = Ok Compatible" using each [of DeprecationValidator] by (simp add: default_validators_def)
  show "pkg_request_against_request env state spec source = Ok Compatible" using each [of PkgRequestValidator] by (simp add: default_validators_def)
  show "components_package env state spec source = Ok Compatible" using each [of ComponentsValidator] by (simp add: default_validators_def)
  show "options_package env state spec = Ok Compatible" using each [of OptionsValidator] by (simp add: default_validators_def)
  show "var_requirements_package state spec = Ok Compatible" using each [of VarRequirementsValidator] by (simp add: default_validators_def)
  show "pkg_requirements_package env state spec = Ok Compatible" using each [of PkgRequirementsValidator] by (simp add: default_validators_def)
  show "embedded_package_package env state spec = Ok Compatible" using each [of EmbeddedPackageValidator] by (simp add: default_validators_def)
qed

lemma source_from_repository_iff:
  "source_from_repository rn source = Compatible \<longleftrightarrow> (\<exists>repo components. source = FromRepository repo components \<and> rh_name repo = rn)"
  by (auto simp: source_from_repository_def split: package_source.splits)

lemma pkg_request_valid:
  assumes "pkg_request_against_request env state spec source = Ok Compatible"
  obtains merged where "get_merged_request (ve_perms env) (st_pkg_requests state) (spec_name spec) = Ok merged"
    "\<And>rn. ri_repository_name (pr_pkg (po_pkg_request merged)) = Some rn \<Longrightarrow>
       \<exists>repo components. source = FromRepository repo components \<and> rh_name repo = rn"
    "is_version_applicable (po_pkg_request merged) (ident_version (ps_pkg spec)) = Compatible"
    "check_package_spec_satisfies_pkg_request spec merged = Compatible"
proof (cases "get_merged_request (ve_perms env) (st_pkg_requests state) (spec_name spec)")
  case (Ok merged)
  with assms that show ?thesis
    by (auto simp: pkg_request_against_request_def Let_def source_from_repository_iff split: if_splits option.splits)
qed (use assms in \<open>auto simp: pkg_request_against_request_def no_request_def split: merged_error.splits\<close>)

lemma satisfies_applicable:
  assumes "check_package_spec_satisfies_pkg_request spec r = Compatible"
  shows "applicable r (build_into_any_ident (ps_pkg spec))"
proof -
  have "is_satisfied_by (Filter (ri_version (pr_pkg (po_pkg_request r)))) (versioned_of spec) Binary = Compatible"
    using assms unfolding package_satisfies_iff Let_def by blast
  from satisfied_is_applicable [OF this] assms show ?thesis
    unfolding package_satisfies_iff applicable_def ri_is_applicable_iff Let_def
    by (simp add: build_into_any_ident_def ident_new_def versioned_of_def del: is_applicable.simps is_satisfied_by.simps)
qed

lemma missing_from_none: "missing_from package request available = [] \<longleftrightarrow> set (required_of package request) \<subseteq> set available"
  by (auto simp: missing_from_def filter_empty_conv)

lemma components_valid:
  assumes "components_package env state spec source = Ok Compatible" "\<not> is_embedded (target (ps_pkg spec))"
    and "get_merged_request (ve_perms env) (st_pkg_requests state) (spec_name spec) = Ok merged"
  shows "set (required_of spec merged) \<subseteq> set (provided_components spec source)"
  using assms
  by (auto simp: components_package_def check_for_embedded_stub_def merged_request_def check_for_missing_components_def Let_def
      missing_from_none [symmetric] split: compatibility.splits if_splits)


lemma requirement_valid:
  assumes "validate_request_against_existing_state env state (OptPkg r) = Ok Compatible"
    and "get_merged_request (ve_perms env) (st_pkg_requests state) (req_name r) = Ok existing"
  obtains merged where "with_options_restrict (ve_perms env) existing r = (Compatible, merged)"
    "\<And>resolved source sid. get_current_resolve state (req_name r) = Some (resolved, source, sid) \<Longrightarrow>
       validate_request_against_existing_resolve merged resolved (provided_components resolved source) = Compatible"
proof -
  obtain result merged where run: "with_options_restrict (ve_perms env) existing r = (result, merged)" by fastforce
  have "req_name merged = req_name existing" using with_options_restrict_name [of "ve_perms env" existing r] run by (simp add: req_name_def)
  then have name: "req_name merged = req_name r" using get_merged_request_name [OF assms(2)] by simp
  have "result = Compatible" using assms run by (cases result) (simp_all add: validate_request_against_existing_state_def)
  with assms run name have valid: "(case get_current_resolve state (req_name r) of None \<Rightarrow> Ok Compatible
      | Some (resolved, source, _) \<Rightarrow> validate_against_resolve env state existing merged resolved source) = Ok Compatible"
    by (simp add: validate_request_against_existing_state_def)
  show thesis
  proof (rule that)
    show "with_options_restrict (ve_perms env) existing r = (Compatible, merged)" using run \<open>result = Compatible\<close> by simp
    show "validate_request_against_existing_resolve merged resolved (provided_components resolved source) = Compatible"
      if "get_current_resolve state (req_name r) = Some (resolved, source, sid)" for resolved source sid
      using valid that by (auto simp: validate_against_resolve_def split: compatibility.splits)
  qed
qed

lemma existing_resolve_iff:
  "validate_request_against_existing_resolve request resolved provided = Compatible \<longleftrightarrow>
     check_package_spec_satisfies_pkg_request resolved request = Compatible \<and> set (required_of resolved request) \<subseteq> set provided"
  by (auto simp: validate_request_against_existing_resolve_def Let_def missing_from_none [symmetric] split: compatibility.splits)


lemma embedded_requests_valid:
  assumes "embedded_against_requests env embedded state = Ok Compatible"
    and "ident_name (eps_pkg embedded) \<in> req_name ` set (st_pkg_requests state)"
  shows "\<exists>merged. get_merged_request (ve_perms env) (st_pkg_requests state) (ident_name (eps_pkg embedded)) = Ok merged
    \<and> check_package_spec_satisfies_pkg_request (package_of_embedded embedded) merged = Compatible"
proof (cases "get_merged_request (ve_perms env) (st_pkg_requests state) (ident_name (eps_pkg embedded))")
  case (Ok merged)
  with assms(1) show ?thesis by (auto simp: embedded_against_requests_def split: compatibility.splits)
next
  case (Err e)
  with assms get_merged_request_returns [of "ve_perms env" "st_pkg_requests state" "ident_name (eps_pkg embedded)"] show ?thesis
    by (cases e) (auto simp: embedded_against_requests_def)
qed (use assms in \<open>simp add: embedded_against_requests_def\<close>)

lemma embedded_state_valid:
  assumes "validate_embedded_package_against_state env spec embedded state = Ok Compatible"
  shows "embedded_against_requests env embedded state = Ok Compatible"
    "get_current_resolve state (ident_name (eps_pkg embedded)) = Some (existing, origin, sid) \<Longrightarrow> is_stub_of existing spec"
  using assms by (auto simp: validate_embedded_package_against_state_def embedded_conflict_def split: option.splits if_splits)

text \<open>
  A package that is accepted can embed what its requested components embed: a package of that name is only resolved already if it is the
  stub of this very package, and if there are requests for it, the embedded package satisfies what they merge to and they all admit it.
\<close>

theorem validated_embedded_fit:
  assumes "all_pairs (ve_perms env)" "list_all simple_request (st_pkg_requests state)" "set default_validators \<subseteq> set validators"
    and "validate_package env validators state spec source = Ok Compatible"
    and "get_merged_request (ve_perms env) (st_pkg_requests state) (spec_name spec) = Ok merged"
    and "(component, embedded) \<in> set (embedded_where spec (\<lambda>c. c \<in> set (required_of spec merged)))"
  shows "admitted (st_pkg_requests state) (build_into_any_ident (eps_pkg embedded))
    \<and> (\<forall>existing origin sid. get_current_resolve state (ident_name (eps_pkg embedded)) = Some (existing, origin, sid) \<longrightarrow> is_stub_of existing spec)
    \<and> (ident_name (eps_pkg embedded) \<in> req_name ` set (st_pkg_requests state) \<longrightarrow>
        (\<exists>asked. get_merged_request (ve_perms env) (st_pkg_requests state) (ident_name (eps_pkg embedded)) = Ok asked
          \<and> check_package_spec_satisfies_pkg_request (package_of_embedded embedded) asked = Compatible))"
proof -
  let ?name = "ident_name (eps_pkg embedded)" and ?pkg = "build_into_any_ident (eps_pkg embedded)"
  have "validate_embedded_packages_in_required_components env spec merged state = Ok Compatible"
    using validate_package_each(7) [OF assms(4,3)] assms(5) by (simp add: embedded_package_package_def merged_request_def)
  with assms(6) have valid: "validate_embedded_package_against_state env spec embedded state = Ok Compatible"
    unfolding validate_embedded_packages_in_required_components_def check_all_iff by fastforce
  note fits = embedded_requests_valid [OF embedded_state_valid(1) [OF valid]]
  have name: "ident_name ?pkg = ?name" by (simp add: build_into_any_ident_def ident_new_def)
  have "admitted (st_pkg_requests state) ?pkg"
  proof (cases "?name \<in> req_name ` set (st_pkg_requests state)")
    case True
    with fits obtain asked where asked: "get_merged_request (ve_perms env) (st_pkg_requests state) ?name = Ok asked"
      "check_package_spec_satisfies_pkg_request (package_of_embedded embedded) asked = Compatible" by blast
    have "applicable asked ?pkg" using satisfies_applicable [OF asked(2)] by (simp add: package_of_embedded_def)
    with get_merged_request_facts [OF assms(1,2) asked(1), of ?pkg] name show ?thesis by simp
  next
    case False
    then show ?thesis unfolding admitted_def name list_all_iff by (metis image_eqI)
  qed
  with fits embedded_state_valid(2) [OF valid] show ?thesis by blast
qed

section \<open>Requirements for variables\<close>

text \<open>The options that a requirement for a variable is about.\<close>

definition concerns :: "str var_request \<Rightarrow> str \<Rightarrow> bool" where
  "concerns request name \<longleftrightarrow> name = vr_var request \<or> namespace (vr_var request) = None \<and> base_name name = vr_var request"

text \<open>
  The requirements of a package for variables are accepted exactly when every option of the state that one of them is about, which is the
  variable itself or, for a variable without namespace, one with this name in any namespace, is empty or has the value that the requirement asks for.
\<close>

theorem var_requirements_valid_iff:
  "var_requirements_package state spec = Ok Compatible \<longleftrightarrow>
     (\<forall>request name v. OptVar request \<in> set (runtime_requirements spec) \<and> (name, v) \<in> set (st_options state) \<and> concerns request name \<and> v \<noteq> []
        \<longrightarrow> v = vr_value request)"
proof -
  have base: "base_name var = var" if "namespace var = None" for var
    using that by (auto simp: namespace_def base_name_def split: option.splits)
  have one: "option_mismatch request (name, v) = Ok Compatible \<longleftrightarrow> (concerns request name \<and> v \<noteq> [] \<longrightarrow> v = vr_value request)" for request name v
    using base [of "vr_var request"] by (auto simp: option_mismatch_def concerns_def Let_def)
  have "var_requirements_package state spec = Ok Compatible \<longleftrightarrow>
      (\<forall>request. OptVar request \<in> set (runtime_requirements spec) \<longrightarrow> (\<forall>(name, v) \<in> set (st_options state). option_mismatch request (name, v) = Ok Compatible))"
    unfolding var_requirements_package_def check_all_iff
    by (auto split: request_with_options.splits simp: check_all_iff)
  then show ?thesis unfolding one by blast
qed

section \<open>Examples\<close>

definition example_validation_env :: validation_env where
  "example_validation_env = \<lparr>ve_perms = lexicographic_pairs, ve_parse_range = (\<lambda>s. Err s), ve_show_error = (\<lambda>_. ''conflict'')\<rparr>"

text \<open>A state in which Python is resolved and Maya is asked for, one in which both are asked for, and builds of Maya.\<close>

definition python_resolved :: solver_state where
  "python_resolved = state_new (\<lambda>_. 0) [example_request [GreaterThan (from_parts [2])], gui_request ''maya'' Run] []
     [(example_package [], SpkInternalTestSource)] [(''arch'', ''x86'')]"

definition python_requested :: solver_state where
  "python_requested = state_new (\<lambda>_. 0) [gui_request ''maya'' Run, example_request [GreaterThan (from_parts [2])]] [] [] []"

definition maya_needs_python :: package_spec where
  "maya_needs_python =
     (package_new (ident_new (ident_new ''maya'' (from_parts [2020])) (BuildId ''3I42H3S6'')))
     \<lparr>ps_install_requirements_with_options :=
        [OptPkg (example_request [LessThan (from_parts [4])]),
         OptVar \<lparr>vr_var = ''arch'', vr_value = ''x86'', vr_description = None\<rparr>]\<rparr>"

definition embedded_python :: embedded_package_spec where
  "embedded_python = embedded_new (ident_new (ident_new ''python'' (from_parts [3, 7])) (EmbeddedBuild EmbeddedUnknown))"

definition maya_with_python :: package_spec where
  "maya_with_python =
     (package_new (ident_new (ident_new ''maya'' (from_parts [2020])) (BuildId ''3I42H3S6'')))
     \<lparr>ps_embedded := [embedded_python], ps_components := map (default_embedded [embedded_python]) default_components\<rparr>"

lemma default_validators_subset: "set default_validators \<subseteq> set default_validators" ..



theorem validated_embedded_fit_witness:
  "admitted (st_pkg_requests python_requested) (build_into_any_ident (eps_pkg embedded_python))"
proof -
  have valid: "validate_package example_validation_env default_validators python_requested maya_with_python SpkInternalTestSource = Ok Compatible"
    "list_all simple_request (st_pkg_requests python_requested)" by code_simp+
  have "get_merged_request lexicographic_pairs (st_pkg_requests python_requested) (spec_name maya_with_python) = Ok (gui_request ''maya'' Run)"
    by code_simp
  moreover have "(Run, embedded_python) \<in>
      set (embedded_where maya_with_python (\<lambda>c. c \<in> set (required_of maya_with_python (gui_request ''maya'' Run))))" by code_simp
  ultimately show ?thesis
    using validated_embedded_fit [of example_validation_env, OF _ valid(2) default_validators_subset valid(1)] all_pairs_lexicographic
    by (simp add: example_validation_env_def)
qed

theorem var_requirements_valid_iff_witness:
  "var_requirements_package python_resolved maya_needs_python = Ok Compatible
   \<and> (\<forall>v. (''arch'', v) \<in> set (st_options python_resolved) \<and> v \<noteq> [] \<longrightarrow> v = ''x86'')"
proof -
  let ?r = "\<lparr>vr_var = ''arch'', vr_value = ''x86'', vr_description = None\<rparr>"
  have valid: "var_requirements_package python_resolved maya_needs_python = Ok Compatible" by code_simp
  have "OptVar ?r \<in> set (runtime_requirements maya_needs_python)" "concerns ?r ''arch''"
    by (simp_all add: runtime_requirements_def maya_needs_python_def concerns_def)
  with valid var_requirements_valid_iff [of python_resolved maya_needs_python] show ?thesis by fastforce
qed

end
