(* ===== verification/Package_Iterators.thy ===== *)
theory Package_Iterators
  imports Build_Keys Solver_Validation
begin

text \<open>
  The iterators over the versions and builds of a package (\<^verbatim>\<open>crates/spk-solve/crates/package-iterator/src/package_iterator.rs\<close>). What the
  iterators ask of a repository is a record of functions; these read storage. The order in which a hash map is walked is a parameter.
\<close>

section \<open>Repositories\<close>

datatype storage_error = PackageNotFound | InvalidPackageSpec str | OtherStorageError str

record repository =
  rp_handle :: repository_handle
  rp_list_versions :: "str \<Rightarrow> (storage_error, version list) outcome"
  rp_list_builds :: "version_ident \<Rightarrow> (storage_error, build_ident list) outcome"
  rp_read_package :: "build_ident \<Rightarrow> (storage_error, package_spec) outcome"
  rp_read_components :: "build_ident \<Rightarrow> (storage_error, (component, str) hash_map) outcome"
  rp_read_recipe :: "version_ident \<Rightarrow> (storage_error, recipe) outcome"

datatype iterator_error = StorageError storage_error | VersionNotInMap | SortPanicked

type_synonym repos_by_name = "(str, repository) hash_map"

section \<open>Iterators over builds\<close>

datatype build_iterator =
    RepositoryBuilds "(build_ident \<times> repos_by_name) list"
  | EmptyBuilds
  | SortedBuilds "build_with_repos list"

fun builds_is_empty :: "build_iterator \<Rightarrow> bool" where
  "builds_is_empty (RepositoryBuilds builds) = (builds = [])"
| "builds_is_empty EmptyBuilds = True"
| "builds_is_empty (SortedBuilds builds) = (builds = [])"

fun is_sorted_build_iterator :: "build_iterator \<Rightarrow> bool" where
  "is_sorted_build_iterator (SortedBuilds _) = True"
| "is_sorted_build_iterator _ = False"

fun builds_len :: "build_iterator \<Rightarrow> nat" where
  "builds_len (RepositoryBuilds builds) = length builds"
| "builds_len EmptyBuilds = 0"
| "builds_len (SortedBuilds builds) = length builds"

text \<open>Reading a build from all repositories that have it; \<open>None\<close> when one of them does not know it after all.\<close>

fun read_build :: "build_ident \<Rightarrow> repos_by_name \<Rightarrow> (iterator_error, build_with_repos option) outcome" where
  "read_build build [] = Ok (Some [])"
| "read_build build ((repo_name, repo) # repos) =
     (case rp_read_package repo build of
        Err PackageNotFound \<Rightarrow> Ok None
      | Err err \<Rightarrow> Err (StorageError err)
      | Panic \<Rightarrow> Panic
      | Ok spec \<Rightarrow>
          and_then (case rp_read_components repo build of
                      Err PackageNotFound \<Rightarrow> Ok []
                    | Err err \<Rightarrow> Err (StorageError err)
                    | Panic \<Rightarrow> Panic
                    | Ok components \<Rightarrow> Ok components) (\<lambda>components.
          and_then (read_build build repos) (\<lambda>rest.
            Ok (map_option (Cons (repo_name, spec, FromRepository (rp_handle repo) components)) rest))))"

fun repository_builds_next ::
  "(build_ident \<times> repos_by_name) list \<Rightarrow> (iterator_error, build_with_repos option) outcome \<times> (build_ident \<times> repos_by_name) list" where
  "repository_builds_next [] = (Ok None, [])"
| "repository_builds_next ((build, repos) # builds) =
     (case read_build build repos of
        Ok (Some result) \<Rightarrow> (Ok (Some result), builds)
      | Ok None \<Rightarrow> repository_builds_next builds
      | Err e \<Rightarrow> (Err e, builds)
      | Panic \<Rightarrow> (Panic, builds))"

fun builds_next :: "build_iterator \<Rightarrow> (iterator_error, build_with_repos option) outcome \<times> build_iterator" where
  "builds_next (RepositoryBuilds builds) = map_prod id RepositoryBuilds (repository_builds_next builds)"
| "builds_next EmptyBuilds = (Ok None, EmptyBuilds)"
| "builds_next (SortedBuilds []) = (Ok None, SortedBuilds [])"
| "builds_next (SortedBuilds (build # builds)) = (Ok (Some build), SortedBuilds builds)"

lemma repository_builds_next_less:
  "repository_builds_next builds = (Ok (Some b), rest) \<Longrightarrow> length rest < length builds"
  by (induction builds) (auto split: outcome.splits option.splits)

lemma builds_next_less: "builds_next it = (Ok (Some b), it') \<Longrightarrow> builds_len it' < builds_len it"
  by (cases "(it)" rule: builds_next.cases) (auto simp: map_prod_def dest: repository_builds_next_less split: prod.splits)

function drain_builds :: "build_iterator \<Rightarrow> (iterator_error, build_with_repos list) outcome \<times> build_iterator" where
  "drain_builds source =
     (case builds_next source of
        (Ok (Some item), source) \<Rightarrow>
          (case drain_builds source of (r, source) \<Rightarrow> (and_then r (\<lambda>items. Ok (item # items)), source))
      | (Ok None, source) \<Rightarrow> (Ok [], source)
      | (Err e, source) \<Rightarrow> (Err e, source)
      | (Panic, source) \<Rightarrow> (Panic, source))"
  by pat_completeness auto
termination
  by (relation "measure builds_len") (auto dest: builds_next_less [OF sym])

declare drain_builds.simps [simp del]

definition sorted_build_iterator_new ::
  "key_env \<Rightarrow> build_iterator \<Rightarrow> build_ident list \<Rightarrow> (iterator_error, build_iterator) outcome \<times> build_iterator" where
  "sorted_build_iterator_new env source impossible =
     (case drain_builds source of (r, source) \<Rightarrow>
        (and_then r (\<lambda>builds.
           case sort_by_build_option_values env impossible builds of Ok builds \<Rightarrow> Ok (SortedBuilds builds) | _ \<Rightarrow> Panic), source))"

text \<open>The builds of a version in all repositories: stubs for embedded packages or the others.\<close>

definition add_build_repo :: "str \<Rightarrow> repository \<Rightarrow> build_ident \<Rightarrow> (build_ident \<times> repos_by_name) list \<Rightarrow> (build_ident \<times> repos_by_name) list" where
  "add_build_repo repo_name repo build builds_and_repos =
     (case find (\<lambda>(b, _). build_ident_eq b build) builds_and_repos of
        Some _ \<Rightarrow> map (\<lambda>(b, repos). if build_ident_eq b build then (b, hm_insert repo_name repo repos) else (b, repos)) builds_and_repos
      | None \<Rightarrow> builds_and_repos @ [(build, [(repo_name, repo)])])"

fun collect_builds ::
  "version_ident \<Rightarrow> bool \<Rightarrow> bool \<Rightarrow> repos_by_name \<Rightarrow> (build_ident \<times> repos_by_name) list
    \<Rightarrow> (iterator_error, (build_ident \<times> repos_by_name) list) outcome" where
  "collect_builds pkg embedded_stubs recipe [] acc = Ok acc"
| "collect_builds pkg embedded_stubs recipe ((repo_name, repo) # repos) acc =
     and_then (map_err StorageError (rp_list_builds repo pkg)) (\<lambda>builds.
       let wanted = filter (\<lambda>b. is_embedded (target b) = embedded_stubs) builds;
           acc = fold (add_build_repo repo_name repo) wanted acc in
       if recipe then collect_builds pkg embedded_stubs recipe repos acc
       else case rp_read_recipe repo pkg of
              Ok _ \<Rightarrow> collect_builds pkg embedded_stubs True repos acc
            | Err PackageNotFound \<Rightarrow> collect_builds pkg embedded_stubs False repos acc
            | Err err \<Rightarrow> Err (StorageError err)
            | Panic \<Rightarrow> Panic)"

definition repository_build_iterator_new ::
  "((build_ident \<times> repos_by_name) list \<Rightarrow> (build_ident \<times> repos_by_name) list) \<Rightarrow> version_ident \<Rightarrow> repos_by_name \<Rightarrow> bool
    \<Rightarrow> (iterator_error, build_iterator) outcome" where
  "repository_build_iterator_new order pkg repos embedded_stubs =
     and_then (collect_builds pkg embedded_stubs False repos []) (\<lambda>builds.
       Ok (RepositoryBuilds (sort_key (\<lambda>(b, _). \<not> is_source (target b)) (order builds))))"

section \<open>Iterators over versions\<close>

record package_iterator =
  pi_package_name :: str
  pi_repos :: "repository list"
  pi_versions :: "version list option"
  pi_version_map :: "(version \<times> repos_by_name) list"
  pi_builds_map :: "(version \<times> build_iterator) list"
  pi_active_version :: "version option"
  pi_embedded_stubs :: bool

definition package_iterator_new :: "str \<Rightarrow> repository list \<Rightarrow> package_iterator" where
  "package_iterator_new package_name repos =
     \<lparr>pi_package_name = package_name, pi_repos = repos, pi_versions = None, pi_version_map = [], pi_builds_map = [],
      pi_active_version = None, pi_embedded_stubs = False\<rparr>"

text \<open>Maps with versions as keys, where versions that are equal need not be identical.\<close>

fun vm_get :: "(version \<times> 'a) list \<Rightarrow> version \<Rightarrow> 'a option" where
  "vm_get [] v = None"
| "vm_get ((w, x) # m) v = (if version_eq w v then Some x else vm_get m v)"

fun vm_insert :: "version \<Rightarrow> 'a \<Rightarrow> (version \<times> 'a) list \<Rightarrow> (version \<times> 'a) list" where
  "vm_insert v x [] = [(v, x)]"
| "vm_insert v x ((w, y) # m) = (if version_eq w v then (w, x) # m else (w, y) # vm_insert v x m)"

definition add_version_repo :: "repository \<Rightarrow> version \<Rightarrow> (version \<times> repos_by_name) list \<Rightarrow> (version \<times> repos_by_name) list" where
  "add_version_repo repo v m =
     vm_insert v (hm_insert (rh_name (rp_handle repo)) repo (or_default [] (vm_get m v))) m"

fun version_map_loop ::
  "str \<Rightarrow> (version \<times> repos_by_name) list \<Rightarrow> repository list \<Rightarrow> (iterator_error, (version \<times> repos_by_name) list) outcome" where
  "version_map_loop name m [] = Ok m"
| "version_map_loop name m (repo # repos) =
     and_then (map_err StorageError (rp_list_versions repo name)) (\<lambda>versions.
       version_map_loop name (fold (add_version_repo repo) versions m) repos)"

definition build_version_map :: "package_iterator \<Rightarrow> (iterator_error, (version \<times> repos_by_name) list) outcome" where
  "build_version_map self =
     and_then (version_map_loop (pi_package_name self) [] (rev (pi_repos self))) (\<lambda>version_map.
       if version_map = [] then Err (StorageError PackageNotFound) else Ok version_map)"

text \<open>The order of versions is that of \<open>version_key\<close> (lemma \<open>version_cmp_key\<close>).\<close>

definition restart_version_iterator :: "package_iterator \<Rightarrow> package_iterator" where
  "restart_version_iterator self = self\<lparr>pi_versions := Some (rev (sort_key version_key (map fst (pi_version_map self))))\<rparr>"

definition iterator_start :: "package_iterator \<Rightarrow> (iterator_error, package_iterator) outcome" where
  "iterator_start self =
     and_then (build_version_map self) (\<lambda>version_map. Ok (restart_version_iterator (self\<lparr>pi_version_map := version_map\<rparr>)))"

definition set_builds :: "version \<Rightarrow> build_iterator \<Rightarrow> package_iterator \<Rightarrow> package_iterator" where
  "set_builds version builds self = self\<lparr>pi_builds_map := vm_insert version builds (pi_builds_map self)\<rparr>"

definition async_clone :: "package_iterator \<Rightarrow> (unit, package_iterator) outcome" where
  "async_clone self =
     (case (case pi_versions self of
              None \<Rightarrow> build_version_map self
            | Some _ \<Rightarrow> Ok (pi_version_map self)) of
        Err (StorageError PackageNotFound) \<Rightarrow> Ok (package_iterator_new (pi_package_name self) (pi_repos self))
      | Panic \<Rightarrow> Panic
      | result \<Rightarrow>
          Ok \<lparr>pi_package_name = pi_package_name self, pi_repos = pi_repos self, pi_versions = pi_versions self,
              pi_version_map = (case result of Ok version_map \<Rightarrow> version_map | _ \<Rightarrow> pi_version_map self),
              pi_builds_map = [], pi_active_version = None, pi_embedded_stubs = pi_embedded_stubs self\<rparr>)"

text \<open>Making an iterator for the builds of a version, if there is none yet; \<open>None\<close> when the version has to be skipped.\<close>

definition ensure_builds ::
  "((build_ident \<times> repos_by_name) list \<Rightarrow> (build_ident \<times> repos_by_name) list) \<Rightarrow> package_iterator \<Rightarrow> version \<Rightarrow> repos_by_name
    \<Rightarrow> (iterator_error, package_iterator option) outcome" where
  "ensure_builds order self version repos =
     (case vm_get (pi_builds_map self) version of
        Some _ \<Rightarrow> Ok (Some self)
      | None \<Rightarrow>
          (case repository_build_iterator_new order (ident_new (pi_package_name self) version) repos (pi_embedded_stubs self) of
             Ok iter \<Rightarrow> Ok (Some (set_builds version iter self))
           | Err (StorageError (InvalidPackageSpec _)) \<Rightarrow> Ok None
           | Err err \<Rightarrow> Err err
           | Panic \<Rightarrow> Panic))"

definition pending_versions :: "package_iterator \<Rightarrow> nat" where
  "pending_versions self = length (or_default [] (pi_versions self)) + (if pi_active_version self = None then 0 else 1)"

text \<open>The version that is walked: the active one, or the next one, which becomes active.\<close>

definition activate :: "package_iterator \<Rightarrow> package_iterator" where
  "activate self =
     (if pi_active_version self \<noteq> None then self
      else case or_default [] (pi_versions self) of
             [] \<Rightarrow> self
           | v # vs \<Rightarrow> self\<lparr>pi_versions := Some vs, pi_active_version := Some v\<rparr>)"

lemma activate_facts:
  "pending_versions (activate self) = pending_versions self" "pi_embedded_stubs (activate self) = pi_embedded_stubs self"
  by (auto simp: activate_def pending_versions_def split: list.splits)

lemma ensure_builds_facts:
  assumes "ensure_builds order self version repos = Ok (Some self')"
  shows "pi_versions self' = pi_versions self" "pi_active_version self' = pi_active_version self" "pi_embedded_stubs self' = pi_embedded_stubs self"
    "pi_version_map self' = pi_version_map self" "pi_package_name self' = pi_package_name self"
  using assms by (auto simp: ensure_builds_def set_builds_def split: option.splits outcome.splits iterator_error.splits storage_error.splits)

function next_loop ::
  "((build_ident \<times> repos_by_name) list \<Rightarrow> (build_ident \<times> repos_by_name) list) \<Rightarrow> package_iterator
    \<Rightarrow> (iterator_error, (any_ident \<times> build_iterator) option) outcome \<times> package_iterator" where
  "next_loop order start =
     (let self = activate start in
      case pi_active_version self of
        None \<Rightarrow>
          if \<not> pi_embedded_stubs self
          then next_loop order ((restart_version_iterator (self\<lparr>pi_embedded_stubs := True\<rparr>))\<lparr>pi_builds_map := []\<rparr>)
          else (Ok None, self)
      | Some version \<Rightarrow>
          (case vm_get (pi_version_map self) version of
             None \<Rightarrow> (Err VersionNotInMap, self)
           | Some repos \<Rightarrow>
               (case ensure_builds order self version repos of
                  Ok None \<Rightarrow> next_loop order (self\<lparr>pi_active_version := None\<rparr>)
                | Ok (Some self) \<Rightarrow>
                    (case vm_get (pi_builds_map self) version of
                       None \<Rightarrow> (Panic, self)
                     | Some builds \<Rightarrow>
                         if builds_is_empty builds then next_loop order (self\<lparr>pi_active_version := None\<rparr>)
                         else (Ok (Some (ident_new (ident_new (pi_package_name self) version) None, builds)), self))
                | Err e \<Rightarrow> (Err e, self)
                | Panic \<Rightarrow> (Panic, self))))"
  by pat_completeness auto
termination
proof (relation "measures [\<lambda>(_, self). if pi_embedded_stubs self then 0 else 1, \<lambda>(_, self). pending_versions self]", goal_cases)
  case (2 order start self)
  then show ?case by (simp add: activate_facts restart_version_iterator_def)
next
  case (3 order start self version repos x2)
  then show ?case using activate_facts [of start] by (auto simp: pending_versions_def split: if_splits)
next
  case (4 order start self version repos x2 self' builds)
  then show ?case
    using activate_facts [of start] ensure_builds_facts [of order self version repos self'] by (auto simp: pending_versions_def split: if_splits)
qed auto

declare next_loop.simps [simp del]

definition package_next ::
  "((build_ident \<times> repos_by_name) list \<Rightarrow> (build_ident \<times> repos_by_name) list) \<Rightarrow> package_iterator
    \<Rightarrow> (iterator_error, (any_ident \<times> build_iterator) option) outcome \<times> package_iterator" where
  "package_next order self =
     (case pi_versions self of
        Some _ \<Rightarrow> next_loop order self
      | None \<Rightarrow>
          (case iterator_start self of
             Ok self \<Rightarrow> next_loop order self
           | Err e \<Rightarrow> (Err e, self)
           | Panic \<Rightarrow> (Panic, self)))"

section \<open>What an iterator offers\<close>

text \<open>The versions that are left, where an active version without builds does not count.\<close>

definition versions_left :: "package_iterator \<Rightarrow> nat" where
  "versions_left self =
     length (or_default [] (pi_versions self))
     + (case pi_active_version self of
          None \<Rightarrow> 0
        | Some v \<Rightarrow> (case vm_get (pi_builds_map self) v of Some b \<Rightarrow> if builds_is_empty b then 0 else 1 | None \<Rightarrow> 1))"

definition offered :: "package_iterator \<Rightarrow> any_ident \<times> build_iterator \<Rightarrow> bool" where
  "offered self item \<longleftrightarrow>
     pi_active_version self = Some (ident_version (fst item)) \<and> vm_get (pi_builds_map self) (ident_version (fst item)) = Some (snd item)
     \<and> \<not> builds_is_empty (snd item)"

lemma next_loop_left:
  assumes "next_loop order start = (Ok (Some item), self)"
  shows "offered self item \<and> (pi_embedded_stubs start \<longrightarrow> pi_embedded_stubs self)
    \<and> (pi_embedded_stubs self = pi_embedded_stubs start \<longrightarrow> versions_left self \<le> versions_left start)"
  using assms
proof (induction order start rule: next_loop.induct)
  case (1 order start)
  let ?self = "activate start"
  note step = next_loop.simps [of order start] Let_def
  show ?case
  proof (cases "pi_active_version ?self")
    case None
    show ?thesis
    proof (cases "pi_embedded_stubs ?self")
      case False
      with None 1 show ?thesis by (auto simp: step activate_facts restart_version_iterator_def)
    qed (use None 1 in \<open>auto simp: step\<close>)
  next
    case (Some version)
    note active = Some
    have left: "length (or_default [] (pi_versions ?self)) \<le> versions_left start"
      "versions_left start \<noteq> length (or_default [] (pi_versions ?self)) \<or>
         pi_active_version start = Some version \<and> (\<exists>b. vm_get (pi_builds_map start) version = Some b \<and> builds_is_empty b)"
      using active by (auto simp: versions_left_def activate_def split: option.splits list.splits if_splits)
    have kept_map: "pi_builds_map ?self = pi_builds_map start" by (auto simp: activate_def split: list.splits)
    show ?thesis
    proof (cases "vm_get (pi_version_map ?self) version")
      case (Some repos)
      note found = Some
      show ?thesis
      proof (cases "ensure_builds order ?self version repos")
        case (Ok self')
        show ?thesis
        proof (cases self')
          case None
          with 1(2) [OF refl active found] Ok 1(4) active found left(1) activate_facts(2) [of start] show ?thesis
            by (auto simp: step versions_left_def)
        next
          case (Some self'')
          note kept = ensure_builds_facts [OF Ok [unfolded Some]]
          obtain builds where builds: "vm_get (pi_builds_map self'') version = Some builds"
            using 1(4) active found Ok Some by (cases "vm_get (pi_builds_map self'') version") (auto simp: step)
          show ?thesis
          proof (cases "builds_is_empty builds")
            case True
            with 1(3) [OF refl active found Ok [unfolded Some] refl builds] 1(4) active found Ok Some builds kept left(1) activate_facts(2) [of start]
            show ?thesis by (auto simp: step versions_left_def)
          next
            case False
            have same: "self = self''" "item = (ident_new (ident_new (pi_package_name self'') version) None, builds)"
              using False 1(4) active found Ok Some builds by (auto simp: step)
            have "versions_left self'' = Suc (length (or_default [] (pi_versions ?self)))"
              using kept active builds False by (simp add: versions_left_def)
            moreover have "versions_left start \<noteq> length (or_default [] (pi_versions ?self))"
            proof
              assume "versions_left start = length (or_default [] (pi_versions ?self))"
              with left(2) obtain b where "vm_get (pi_builds_map ?self) version = Some b" "builds_is_empty b" unfolding kept_map by auto
              then have "self'' = ?self" using Ok Some by (simp add: ensure_builds_def)
              with \<open>builds_is_empty b\<close> \<open>vm_get (pi_builds_map ?self) version = Some b\<close> builds False show False by simp
            qed
            ultimately have "versions_left self'' \<le> versions_left start" using left(1) by simp
            with kept active builds False activate_facts(2) [of start] show ?thesis
              unfolding same by (simp add: offered_def ident_new_def)
          qed
        qed
      qed (use 1 active found in \<open>auto simp: step\<close>)
    qed (use 1 active in \<open>auto simp: step\<close>)
  qed
qed

text \<open>What is offered in turn when the builds that are offered are always used up. An iterator whose active version has no builds left
  goes on as if it had no active version.\<close>

function offers ::
  "((build_ident \<times> repos_by_name) list \<Rightarrow> (build_ident \<times> repos_by_name) list) \<Rightarrow> package_iterator
    \<Rightarrow> (iterator_error, (version \<times> build_iterator) list) outcome" where
  "offers order start =
     (case next_loop order start of
        (Ok (Some (pkg, builds)), self) \<Rightarrow>
          and_then (offers order ((set_builds (ident_version pkg) EmptyBuilds self)\<lparr>pi_active_version := None\<rparr>)) (\<lambda>rest.
            Ok ((ident_version pkg, builds) # rest))
      | (Ok None, _) \<Rightarrow> Ok []
      | (Err e, _) \<Rightarrow> Err e
      | (Panic, _) \<Rightarrow> Panic)"
  by pat_completeness auto
termination
  by (relation "measures [\<lambda>(_, self). if pi_embedded_stubs self then 0 else 1, \<lambda>(_, self). versions_left self]")
    (auto simp: set_builds_def versions_left_def offered_def dest!: next_loop_left [OF sym])

declare offers.simps [simp del]

definition version_norm :: "version \<Rightarrow> u32 list \<times> epsilon \<times> tag_set \<times> tag_set" where
  "version_norm v = (strip_zeros (parts_of v), epsilon_of v, v_pre v, v_post v)"

lemma version_eq_iff: "version_eq v w \<longleftrightarrow> version_norm v = version_norm w"
  by (auto simp: version_eq_def version_parts_eq_strip version_norm_def)

lemma distinct_versions: "distinct (map version_norm vs) \<longleftrightarrow> sorted_wrt (\<lambda>v w. \<not> version_eq v w) vs"
  by (induction vs) (auto simp: version_eq_iff)

lemma version_eq_refl [simp]: "version_eq v v"
  by (simp add: version_eq_iff)

lemma vm_get_insert: "vm_get (vm_insert v x m) w = (if version_eq v w then Some x else vm_get m w)"
  by (induction m) (auto simp: version_eq_iff)

lemma exhausted_next:
  assumes "pi_active_version self = Some v" "vm_get (pi_version_map self) v \<noteq> None"
  shows "next_loop order (set_builds v EmptyBuilds self) = next_loop order ((set_builds v EmptyBuilds self)\<lparr>pi_active_version := None\<rparr>)"
  using assms
  by (subst next_loop.simps) (auto simp: activate_def set_builds_def ensure_builds_def vm_get_insert split: option.splits)

definition builds_of ::
  "((build_ident \<times> repos_by_name) list \<Rightarrow> (build_ident \<times> repos_by_name) list) \<Rightarrow> str \<Rightarrow> (version \<times> repos_by_name) list \<Rightarrow> bool \<Rightarrow> version
    \<Rightarrow> build_iterator" where
  "builds_of order name m stubs v =
     (case repository_build_iterator_new order (ident_new name v) (or_default [] (vm_get m v)) stubs of Ok it \<Rightarrow> it | _ \<Rightarrow> EmptyBuilds)"

definition pass_over ::
  "((build_ident \<times> repos_by_name) list \<Rightarrow> (build_ident \<times> repos_by_name) list) \<Rightarrow> str \<Rightarrow> (version \<times> repos_by_name) list \<Rightarrow> bool \<Rightarrow> version list
    \<Rightarrow> (version \<times> build_iterator) list" where
  "pass_over order name m stubs vs = filter (\<lambda>(_, it). \<not> builds_is_empty it) (map (\<lambda>v. (v, builds_of order name m stubs v)) vs)"

definition readable ::
  "((build_ident \<times> repos_by_name) list \<Rightarrow> (build_ident \<times> repos_by_name) list) \<Rightarrow> str \<Rightarrow> (version \<times> repos_by_name) list \<Rightarrow> bool \<Rightarrow> version \<Rightarrow> bool" where
  "readable order name m stubs v \<longleftrightarrow>
     vm_get m v \<noteq> None
     \<and> (case repository_build_iterator_new order (ident_new name v) (or_default [] (vm_get m v)) stubs of
          Ok _ \<Rightarrow> True | Err (StorageError (InvalidPackageSpec _)) \<Rightarrow> True | _ \<Rightarrow> False)"

lemma next_version_empty:
  assumes "readable order (pi_package_name self) (pi_version_map self) (pi_embedded_stubs self) v" "vm_get (pi_builds_map self) v = None"
    and "builds_is_empty (builds_of order (pi_package_name self) (pi_version_map self) (pi_embedded_stubs self) v)"
    and "pi_active_version self = None" "pi_versions self = Some (v # vs)"
  shows "\<exists>x. next_loop order self = next_loop order (self\<lparr>pi_versions := Some vs, pi_builds_map := x\<rparr>)
    \<and> (\<forall>w. \<not> version_eq v w \<longrightarrow> vm_get x w = vm_get (pi_builds_map self) w)"
proof -
  let ?self = "self\<lparr>pi_versions := Some vs, pi_active_version := Some v\<rparr>"
  have active: "activate self = ?self" using assms(4,5) by (simp add: activate_def)
  obtain repos where repos: "vm_get (pi_version_map self) v = Some repos" using assms(1) by (auto simp: readable_def)
  show ?thesis
  proof (cases "repository_build_iterator_new order (ident_new (pi_package_name self) v) repos (pi_embedded_stubs self)")
    case (Ok it)
    then have "next_loop order self = next_loop order ((set_builds v it ?self)\<lparr>pi_active_version := None\<rparr>)"
      using assms(2,3) repos
      by (subst next_loop.simps) (simp add: active ensure_builds_def set_builds_def vm_get_insert builds_of_def)
    also have "(set_builds v it ?self)\<lparr>pi_active_version := None\<rparr> = self\<lparr>pi_versions := Some vs, pi_builds_map := vm_insert v it (pi_builds_map self)\<rparr>"
      using assms(4) by (simp add: set_builds_def)
    finally show ?thesis by (auto simp: vm_get_insert)
  next
    case (Err e)
    with assms(1) repos obtain s where "e = StorageError (InvalidPackageSpec s)"
      by (auto simp: readable_def split: iterator_error.splits storage_error.splits)
    with Err have "next_loop order self = next_loop order (?self\<lparr>pi_active_version := None\<rparr>)"
      using assms(2) repos by (subst next_loop.simps) (simp add: active ensure_builds_def)
    also have "?self\<lparr>pi_active_version := None\<rparr> = self\<lparr>pi_versions := Some vs, pi_builds_map := pi_builds_map self\<rparr>" using assms(4) by simp
    finally show ?thesis by blast
  qed (use assms(1) repos in \<open>simp add: readable_def\<close>)
qed

lemma next_version_offer:
  assumes "readable order (pi_package_name self) (pi_version_map self) (pi_embedded_stubs self) v" "vm_get (pi_builds_map self) v = None"
    and "\<not> builds_is_empty (builds_of order (pi_package_name self) (pi_version_map self) (pi_embedded_stubs self) v)"
    and "pi_active_version self = None" "pi_versions self = Some (v # vs)"
  shows "\<exists>x. offers order self = and_then (offers order (self\<lparr>pi_versions := Some vs, pi_builds_map := x\<rparr>)) (\<lambda>rest.
      Ok ((v, builds_of order (pi_package_name self) (pi_version_map self) (pi_embedded_stubs self) v) # rest))
    \<and> (\<forall>w. \<not> version_eq v w \<longrightarrow> vm_get x w = vm_get (pi_builds_map self) w)"
proof -
  let ?self = "self\<lparr>pi_versions := Some vs, pi_active_version := Some v\<rparr>"
  have active: "activate self = ?self" using assms(4,5) by (simp add: activate_def)
  obtain repos where repos: "vm_get (pi_version_map self) v = Some repos" using assms(1) by (auto simp: readable_def)
  obtain it where it: "repository_build_iterator_new order (ident_new (pi_package_name self) v) repos (pi_embedded_stubs self) = Ok it"
    using assms(3) repos by (auto simp: builds_of_def split: outcome.splits)
  then have builds: "builds_of order (pi_package_name self) (pi_version_map self) (pi_embedded_stubs self) v = it" using repos by (simp add: builds_of_def)
  have run: "next_loop order self = (Ok (Some (ident_new (ident_new (pi_package_name self) v) None, it)), set_builds v it ?self)"
    using assms(2,3) repos it unfolding builds
    by (subst next_loop.simps) (simp add: active ensure_builds_def set_builds_def vm_get_insert)
  have "(set_builds v EmptyBuilds (set_builds v it ?self))\<lparr>pi_active_version := None\<rparr> =
      self\<lparr>pi_versions := Some vs, pi_builds_map := vm_insert v EmptyBuilds (vm_insert v it (pi_builds_map self))\<rparr>"
    using assms(4) by (simp add: set_builds_def)
  then have "offers order self = and_then (offers order (self\<lparr>pi_versions := Some vs, pi_builds_map := vm_insert v EmptyBuilds (vm_insert v it (pi_builds_map self))\<rparr>))
      (\<lambda>rest. Ok ((v, it) # rest))"
    by (subst offers.simps) (simp add: run ident_new_def)
  then show ?thesis unfolding builds by (auto simp: vm_get_insert)
qed

lemma offers_cong: "next_loop order a = next_loop order b \<Longrightarrow> offers order a = offers order b"
  by (simp add: offers.simps [of order a] offers.simps [of order b])

lemma and_then_assoc_Ok:
  "and_then (and_then r (\<lambda>rest. Ok (xs @ rest))) (\<lambda>rest. Ok (x # rest)) = and_then r (\<lambda>rest. Ok ((x # xs) @ rest))"
  by (cases r) auto

lemma and_then_Ok_id: "and_then r Ok = r"
  by (cases r) auto

lemma offers_pass:
  assumes "\<forall>v \<in> set vs. readable order (pi_package_name self) (pi_version_map self) (pi_embedded_stubs self) v"
    and "\<forall>v \<in> set vs. vm_get (pi_builds_map self) v = None" "sorted_wrt (\<lambda>v w. \<not> version_eq v w) vs"
    and "pi_active_version self = None" "pi_versions self = Some vs"
  shows "\<exists>x. offers order self = and_then (offers order (self\<lparr>pi_versions := Some [], pi_builds_map := x\<rparr>)) (\<lambda>rest.
      Ok (pass_over order (pi_package_name self) (pi_version_map self) (pi_embedded_stubs self) vs @ rest))"
  using assms
proof (induction vs arbitrary: self)
  case Nil
  then have "self\<lparr>pi_versions := Some [], pi_builds_map := pi_builds_map self\<rparr> = self" by simp
  then show ?case by (intro exI [of _ "pi_builds_map self"]) (simp add: pass_over_def and_then_Ok_id del: package_iterator.update_convs)
next
  case (Cons v vs)
  let ?it = "builds_of order (pi_package_name self) (pi_version_map self) (pi_embedded_stubs self) v"
  have v: "readable order (pi_package_name self) (pi_version_map self) (pi_embedded_stubs self) v" "vm_get (pi_builds_map self) v = None"
    using Cons.prems(1,2) by auto
  show ?case
  proof (cases "builds_is_empty ?it")
    case True
    obtain x where x: "next_loop order self = next_loop order (self\<lparr>pi_versions := Some vs, pi_builds_map := x\<rparr>)"
      "\<forall>w. \<not> version_eq v w \<longrightarrow> vm_get x w = vm_get (pi_builds_map self) w"
      using next_version_empty [OF v True Cons.prems(4,5)] by blast
    let ?self = "self\<lparr>pi_versions := Some vs, pi_builds_map := x\<rparr>"
    have "\<exists>y. offers order ?self = and_then (offers order (?self\<lparr>pi_versions := Some [], pi_builds_map := y\<rparr>)) (\<lambda>rest.
        Ok (pass_over order (pi_package_name ?self) (pi_version_map ?self) (pi_embedded_stubs ?self) vs @ rest))"
      by (rule Cons.IH) (use Cons.prems x(2) in auto)
    with True offers_cong [OF x(1)] show ?thesis by (auto simp: pass_over_def)
  next
    case False
    obtain x where x: "offers order self = and_then (offers order (self\<lparr>pi_versions := Some vs, pi_builds_map := x\<rparr>)) (\<lambda>rest. Ok ((v, ?it) # rest))"
      "\<forall>w. \<not> version_eq v w \<longrightarrow> vm_get x w = vm_get (pi_builds_map self) w"
      using next_version_offer [OF v False Cons.prems(4,5)] by blast
    let ?self = "self\<lparr>pi_versions := Some vs, pi_builds_map := x\<rparr>"
    have "\<exists>y. offers order ?self = and_then (offers order (?self\<lparr>pi_versions := Some [], pi_builds_map := y\<rparr>)) (\<lambda>rest.
        Ok (pass_over order (pi_package_name ?self) (pi_version_map ?self) (pi_embedded_stubs ?self) vs @ rest))"
      by (rule Cons.IH) (use Cons.prems x(2) in auto)
    then obtain y where "offers order ?self = and_then (offers order (self\<lparr>pi_versions := Some [], pi_builds_map := y\<rparr>)) (\<lambda>rest.
        Ok (pass_over order (pi_package_name self) (pi_version_map self) (pi_embedded_stubs self) vs @ rest))" by auto
    moreover have "pass_over order (pi_package_name self) (pi_version_map self) (pi_embedded_stubs self) (v # vs) =
        (v, ?it) # pass_over order (pi_package_name self) (pi_version_map self) (pi_embedded_stubs self) vs"
      using False by (simp add: pass_over_def)
    ultimately show ?thesis using x(1) and_then_assoc_Ok by metis
  qed
qed

lemma offers_end:
  "pi_active_version self = None \<Longrightarrow> pi_versions self = Some [] \<Longrightarrow> pi_embedded_stubs self \<Longrightarrow> offers order self = Ok []"
  "pi_active_version self = None \<Longrightarrow> pi_versions self = Some [] \<Longrightarrow> \<not> pi_embedded_stubs self \<Longrightarrow>
     offers order self = offers order ((restart_version_iterator (self\<lparr>pi_embedded_stubs := True\<rparr>))\<lparr>pi_builds_map := []\<rparr>)"
proof -
  assume self: "pi_active_version self = None" "pi_versions self = Some []"
  then have active: "activate self = self" by (simp add: activate_def)
  show "pi_embedded_stubs self \<Longrightarrow> offers order self = Ok []"
    using self by (simp add: offers.simps [of order self] next_loop.simps [of order self] active)
  show "\<not> pi_embedded_stubs self \<Longrightarrow>
     offers order self = offers order ((restart_version_iterator (self\<lparr>pi_embedded_stubs := True\<rparr>))\<lparr>pi_builds_map := []\<rparr>)"
    using self by (intro offers_cong) (simp add: next_loop.simps [of order self] active)
qed

definition vm_wf :: "(version \<times> 'a) list \<Rightarrow> bool" where
  "vm_wf m \<longleftrightarrow> distinct (map version_norm (map fst m))"

lemma vm_insert_keys: "version_norm ` fst ` set (vm_insert v x m) = insert (version_norm v) (version_norm ` fst ` set m)"
proof (induction m)
  case (Cons p m)
  then show ?case by (cases p; cases "version_eq (fst p) v") (simp_all add: version_eq_iff insert_commute)
qed simp

lemma vm_insert_wf: "vm_wf m \<Longrightarrow> vm_wf (vm_insert v x m)"
  unfolding vm_wf_def
proof (induction m)
  case (Cons p m)
  obtain w y where p: "p = (w, y)" by fastforce
  show ?case
  proof (cases "version_eq w v")
    case False
    with Cons vm_insert_keys [of v x m] show ?thesis unfolding p by (auto simp: version_eq_iff image_image)
  qed (use Cons.prems p in simp)
qed simp

lemma version_map_wf: "version_map_loop name m repos = Ok m' \<Longrightarrow> vm_wf m \<Longrightarrow> vm_wf m'"
proof (induction repos arbitrary: m)
  case (Cons repo repos)
  have "vm_wf m \<Longrightarrow> vm_wf (fold (add_version_repo repo) vs m)" for vs m
    by (induction vs arbitrary: m) (auto simp: add_version_repo_def intro: vm_insert_wf)
  with Cons show ?case by auto
qed simp


section \<open>Examples\<close>

definition example_repository :: repository where
  "example_repository =
     \<lparr>rp_handle = \<lparr>rh_name = ''origin'', rh_address = ''file:///spk''\<rparr>,
      rp_list_versions = (\<lambda>_. Ok [from_parts [1], from_parts [2]]),
      rp_list_builds = (\<lambda>pkg. Ok [ident_new pkg (BuildId ''3I42H3S6''), ident_new pkg SourceBuild]),
      rp_read_package = (\<lambda>b. Ok (package_new b)), rp_read_components = (\<lambda>_. Ok []), rp_read_recipe = (\<lambda>_. Err PackageNotFound)\<rparr>"


text \<open>
  The builds of a version come from the repositories with source packages at the front, although they are meant to come last. The solver
  sorts the builds again (theorem \<open>sorted_builds_order\<close>), which hides this.
\<close>

theorem repository_builds_source_first:
  assumes "repository_build_iterator_new order pkg repos stubs = Ok (RepositoryBuilds builds)"
  shows "sorted_wrt (\<lambda>a b. is_source (target (fst b)) \<longrightarrow> is_source (target (fst a))) builds"
proof -
  obtain xs where "builds = sort_key (\<lambda>(b, _). \<not> is_source (target b)) xs"
    using assms by (auto simp: repository_build_iterator_new_def)
  then have "sorted (map (\<lambda>(b, _). \<not> is_source (target b)) builds)" by (metis sorted_sort_key)
  then show ?thesis unfolding sorted_map by (rule sorted_wrt_mono_rel [rotated]) (auto simp: case_prod_beta)
qed

definition offered_version :: "(iterator_error, (any_ident \<times> build_iterator) option) outcome \<times> package_iterator \<Rightarrow> version option" where
  "offered_version result = (case fst result of Ok (Some (pkg, _)) \<Rightarrow> Some (ident_version pkg) | _ \<Rightarrow> None)"

text \<open>
  A copy of an iterator is not at the same point: an iterator that has offered version 2 goes on offering it as long as it has builds left, its copy
  goes on with version 1.
\<close>

theorem clone_skips_active_version:
  "let it = snd (package_next id (package_iterator_new ''python'' [example_repository])) in
     offered_version (package_next id it) = Some (from_parts [2])
     \<and> (case async_clone it of Ok copy \<Rightarrow> offered_version (package_next id copy) = Some (from_parts [1]) | _ \<Rightarrow> False)"
  by code_simp

end
