(* ===== verification/Solver_Step.thy ===== *)
theory Solver_Step
  imports Solver_Graph Package_Iterators
begin

text \<open>
  One step of the package solver (\<open>Solver::step_state\<close> and what it calls in \<^verbatim>\<open>crates/spk-solve/src/solvers/step/solver.rs\<close>): the next request of
  a state, the builds that can answer it in the order of the iterators, and the decision for the first build that fits. The checks for impossible
  requests, reading a recipe and resolving and generating a build from source (a solver of its own) are parameters, the nesting depth of
  decisions is that of \<open>Solver_Decisions\<close>. Notes for the user and the counters for statistics are left out. A node that is written while it is
  locked is an error of its own.
\<close>

section \<open>The solver\<close>

record solver =
  sv_repos :: "repository list"
  sv_initial_state_builders :: "change list"
  sv_validators :: "validators list"
  sv_new_builds_started :: "version_ident list"
  sv_number_of_steps :: nat

datatype step_error =
    OutOfOptions pkg_request
  | PackageNotFoundDuringSolve pkg_request
  | UnresolvedRequests merged_error
  | ValidationFailed validation_error
  | IteratorFailed iterator_error
  | DecisionFailed decision_error
  | RecipeFailed storage_error
  | BuildDependencyLoop version_ident
  | ProviderIdent ident_error
  | PackageNotInResolve
  | StateNotFound
  | NoExistingRequest merged_error
  | NodeLocked
  | OtherStepError str

record step_env =
  se_decisions :: decision_env
  se_depth :: nat
  se_validation :: validation_env
  se_keys :: key_env
  se_order :: "(build_ident \<times> repos_by_name) list \<Rightarrow> (build_ident \<times> repos_by_name) list"
  se_parse_build :: "str \<Rightarrow> (ident_error, build) outcome"
  se_use_in_build_keys :: bool
  se_check_before_resolving :: bool
  se_impossible_builds :: "(str, pkg_request_with_options) hash_map \<Rightarrow> build_iterator \<Rightarrow> (step_error, build_ident list) outcome"
  se_impossible :: "package_spec \<Rightarrow> (str, pkg_request_with_options) hash_map \<Rightarrow> (step_error, compatibility) outcome"
  se_read_recipe :: "package_source \<Rightarrow> version_ident \<Rightarrow> (storage_error, recipe) outcome"
  se_new_build :: "recipe \<Rightarrow> option_map \<Rightarrow> version_ident list \<Rightarrow> (step_error, package_spec) outcome"

abbreviation se_perms :: "step_env \<Rightarrow> pair_order" where
  "se_perms env \<equiv> de_perms (se_decisions env)"

type_synonym 'a step_result = "(step_error, 'a) outcome"

subsection \<open>Building from source\<close>

definition new_build_options :: "solver_state \<Rightarrow> option_map" where
  "new_build_options state =
     (let opts = fold (\<lambda>r opts. if bt_contains_key opts (req_name r) then opts
                         else bt_insert (req_name r) (show_range (Filter (ri_version (pr_pkg (po_pkg_request r))))) opts)
                   (st_pkg_requests state) (st_options state) in
      fold (\<lambda>(var, v, _) opts. if bt_contains_key opts var then opts else bt_insert var v opts) (st_var_requests state) opts)"

definition recipe_ident :: "recipe \<Rightarrow> version_ident" where
  "recipe_ident r = ident_new (rc_name r) (rc_version r)"

definition version_ident_eq :: "version_ident \<Rightarrow> version_ident \<Rightarrow> bool" where
  "version_ident_eq a b \<longleftrightarrow> base a = base b \<and> version_eq (target a) (target b)"

definition resolve_new_build :: "step_env \<Rightarrow> solver \<Rightarrow> recipe \<Rightarrow> solver_state \<Rightarrow> package_spec step_result \<times> solver" where
  "resolve_new_build env self recipe state =
     (if list_ex (version_ident_eq (recipe_ident recipe)) (sv_new_builds_started self)
      then (Err (BuildDependencyLoop (recipe_ident recipe)), self)
      else let self = self\<lparr>sv_new_builds_started := recipe_ident recipe # sv_new_builds_started self\<rparr> in
           (se_new_build env recipe (new_build_options state) (sv_new_builds_started self), self))"

subsection \<open>Going back\<close>

definition target_state :: "'it graph \<Rightarrow> u64 \<Rightarrow> state_id \<Rightarrow> solver_state step_result" where
  "target_state graph current sid =
     (case hm_get (gr_nodes graph) (sid_full_hash sid) of
        None \<Rightarrow> Err StateNotFound
      | Some n \<Rightarrow> if sid_full_hash sid = current then Err NodeLocked else Ok (nd_state n))"

definition reconsider_conflict ::
  "'it graph \<Rightarrow> u64 \<Rightarrow> solver_state \<Rightarrow> pkg_request_with_options \<Rightarrow> str \<Rightarrow> decision option step_result" where
  "reconsider_conflict graph current state request conflicting_package_name =
     (case get_current_resolve state conflicting_package_name of
        None \<Rightarrow> Err PackageNotInResolve
      | Some (conflicting_pkg, _, sid) \<Rightarrow>
          if is_embedded (target (ps_pkg conflicting_pkg)) then Ok None
          else and_then (target_state graph current sid) (\<lambda>dest.
            Ok (Some (reconsider_package (builder_new dest) request conflicting_package_name))))"

text \<open>The components of the embedding package that embed the missing components, and what no component embeds.\<close>

fun cover_missing ::
  "str \<Rightarrow> component list \<Rightarrow> component list \<Rightarrow> (component \<times> component_embedded_package) list \<Rightarrow> component list \<times> component list" where
  "cover_missing embedded remaining to_request [] = (remaining, to_request)"
| "cover_missing embedded remaining to_request ((c, ep) # rest) =
     (if fst (cep_pkg ep) \<noteq> embedded then cover_missing embedded remaining to_request rest
      else
        let overlapping = filter (\<lambda>m. m \<in> set (cep_components ep)) remaining in
        if overlapping = [] then cover_missing embedded remaining to_request rest
        else
          let to_request = bs_insert c to_request; remaining = filter (\<lambda>m. m \<notin> set overlapping) remaining in
          if remaining = [] then (remaining, to_request) else cover_missing embedded remaining to_request rest)"

fun parse_components :: "str list \<Rightarrow> component list step_result" where
  "parse_components [] = Ok []"
| "parse_components (s # ss) =
     (case component_parse s of
        Ok c \<Rightarrow> and_then (parse_components ss) (\<lambda>cs. Ok (bs_insert c cs))
      | _ \<Rightarrow> Panic)"

definition components_request :: "package_spec \<Rightarrow> package_spec \<Rightarrow> pkg_request_with_options \<Rightarrow> component list \<Rightarrow> pkg_request_with_options" where
  "components_request parent_spec spec existing to_request =
     \<lparr>po_pkg_request =
        (let r = pkg_request_new (range_of_any (build_into_any_ident (ps_pkg parent_spec))) (PackageBuild (ps_pkg spec)) in
         r\<lparr>pr_pkg := (pr_pkg r)\<lparr>ri_components := fold bs_insert to_request (request_components existing)\<rparr>\<rparr>),
      po_options = po_options existing\<rparr>"

definition reconsider_components ::
  "step_env \<Rightarrow> 'it graph \<Rightarrow> u64 \<Rightarrow> solver_state \<Rightarrow> package_spec \<Rightarrow> str \<Rightarrow> str \<Rightarrow> str list \<Rightarrow> decision option step_result" where
  "reconsider_components env graph current state spec embedder embedded needed =
     (case get_current_resolve state embedder of
        None \<Rightarrow> Ok None
      | Some (parent_spec, _, sid) \<Rightarrow>
          and_then (parse_components needed) (\<lambda>missing.
            case cover_missing embedded missing []
              (concat (map (\<lambda>c. map (Pair (cs_name c)) (cel_components (cs_embedded c))) (ps_components parent_spec))) of
              (remaining, to_request) \<Rightarrow>
                if remaining \<noteq> [] then Ok None
                else
                  and_then (target_state graph current sid) (\<lambda>dest.
                  and_then (map_err NoExistingRequest (get_merged_request (se_perms env) (st_pkg_requests state) (spec_name parent_spec))) (\<lambda>existing.
                    Ok (Some (reconsider_package_with_additional_components (builder_new dest)
                      (components_request parent_spec spec existing to_request) (spec_name spec)))))))"

subsection \<open>Considering a build\<close>

definition builder_for :: "solver_state \<Rightarrow> pkg_request_with_options \<Rightarrow> decision_builder" where
  "builder_for state request = with_components (builder_new state) (request_components request)"

definition resolve_checked ::
  "step_env \<Rightarrow> solver_state \<Rightarrow> pkg_request_with_options \<Rightarrow> package_spec \<Rightarrow> package_source \<Rightarrow> decision option step_result" where
  "resolve_checked env state request spec source =
     and_then (if se_check_before_resolving env
               then and_then (map_err UnresolvedRequests (get_unresolved_requests (se_perms env) state)) (\<lambda>unresolved. se_impossible env spec unresolved)
               else Ok Compatible) (\<lambda>compat.
       if \<not> is_ok compat then Ok None
       else and_then (map_err DecisionFailed (resolve_package (se_decisions env) (se_depth env) (builder_for state request) spec source)) (\<lambda>d. Ok (Some d)))"

definition consider_binary ::
  "step_env \<Rightarrow> 'it graph \<Rightarrow> u64 \<Rightarrow> solver \<Rightarrow> solver_state \<Rightarrow> pkg_request_with_options \<Rightarrow> package_spec \<Rightarrow> package_source \<Rightarrow> decision option step_result" where
  "consider_binary env graph current self state request spec source =
     and_then (map_err ValidationFailed (validate_package (se_validation env) (sv_validators self) state spec source)) (\<lambda>compat.
       case compat of
         Compatible \<Rightarrow> resolve_checked env state request spec source
       | Incompatible (ConflictingEmbeddedPackage name) \<Rightarrow> reconsider_conflict graph current state request name
       | Incompatible (ComponentsMissing (EmbeddedComponentsNotProvided embedder embedded needed _)) \<Rightarrow>
           reconsider_components env graph current state spec embedder embedded needed
       | Incompatible _ \<Rightarrow> Ok None)"

definition consider_source ::
  "step_env \<Rightarrow> solver \<Rightarrow> solver_state \<Rightarrow> pkg_request_with_options \<Rightarrow> package_spec \<Rightarrow> package_source \<Rightarrow> decision option step_result \<times> solver" where
  "consider_source env self state request spec source =
     (case source of
        EmbeddedSourceOf _ _ \<Rightarrow> (Ok None, self)
      | _ \<Rightarrow>
          (case se_read_recipe env source (base (ps_pkg spec)) of
             Err PackageNotFound \<Rightarrow> (Ok None, self)
           | Err err \<Rightarrow> (Err (RecipeFailed err), self)
           | Panic \<Rightarrow> (Panic, self)
           | Ok recipe \<Rightarrow>
               if rc_deprecated recipe then (Ok None, self)
               else
                 (case validate_recipe (se_validation env) (sv_validators self) state recipe of
                    Err e \<Rightarrow> (Err (ValidationFailed e), self)
                  | Panic \<Rightarrow> (Panic, self)
                  | Ok valid \<Rightarrow>
                      if \<not> is_ok valid then (Ok None, self)
                      else
                        (case resolve_new_build env self recipe state of
                           (Err _, self) \<Rightarrow> (Ok None, self)
                         | (Panic, self) \<Rightarrow> (Panic, self)
                         | (Ok new_spec, self) \<Rightarrow>
                             (and_then (map_err ValidationFailed
                                 (validate_package (se_validation env) (sv_validators self) state new_spec (BuildFromSource (recipe_ident recipe)))) (\<lambda>compat.
                                if \<not> is_ok compat then Ok None
                                else case build_package (se_decisions env) (se_depth env) (builder_for state request) (recipe_ident recipe) new_spec of
                                       Ok decision \<Rightarrow> Ok (Some decision)
                                     | Err _ \<Rightarrow> Ok None
                                     | Panic \<Rightarrow> Panic), self)))))"

definition is_build_from_source_of :: "pkg_request_with_options \<Rightarrow> package_spec \<Rightarrow> bool" where
  "is_build_from_source_of request spec \<longleftrightarrow>
     is_source (target (ps_pkg spec)) \<and> \<not> build_opt_eq (ri_build (pr_pkg (po_pkg_request request))) (Some SourceBuild)"

text \<open>What becomes of packages that are resolved when the requests of a decision are added.\<close>

fun reconsider_invalidated_resolve ::
  "pair_order \<Rightarrow> 'it graph \<Rightarrow> u64 \<Rightarrow> solver_state \<Rightarrow> change list \<Rightarrow> decision option step_result" where
  "reconsider_invalidated_resolve perms graph current state [] = Ok None"
| "reconsider_invalidated_resolve perms graph current state (RequestPackage request _ # changes) =
     (case get_current_resolve state (req_name request) of
        None \<Rightarrow> reconsider_invalidated_resolve perms graph current state changes
      | Some (resolved, _, sid) \<Rightarrow>
          (case get_merged_request perms (st_pkg_requests state) (req_name request) of
             Err _ \<Rightarrow> reconsider_invalidated_resolve perms graph current state changes
           | Panic \<Rightarrow> Panic
           | Ok merged \<Rightarrow>
               (case with_options_restrict perms merged request of
                  (Incompatible _, _) \<Rightarrow> Err (OutOfOptions (po_pkg_request request))
                | (Compatible, merged) \<Rightarrow>
                    if is_ok (is_version_applicable (po_pkg_request merged) (ident_version (ps_pkg resolved)))
                    then reconsider_invalidated_resolve perms graph current state changes
                    else if is_embedded (target (ps_pkg resolved)) then Err (OutOfOptions (po_pkg_request request))
                    else and_then (target_state graph current sid) (\<lambda>dest.
                      Ok (Some (reconsider_package (builder_new dest) request (req_name request)))))))"
| "reconsider_invalidated_resolve perms graph current state (_ # changes) = reconsider_invalidated_resolve perms graph current state changes"

definition consider_build ::
  "step_env \<Rightarrow> 'it graph \<Rightarrow> u64 \<Rightarrow> solver \<Rightarrow> solver_state \<Rightarrow> pkg_request_with_options \<Rightarrow> package_spec \<Rightarrow> package_source
    \<Rightarrow> decision option step_result \<times> solver" where
  "consider_build env graph current self state request spec source =
     (case (if \<not> is_build_from_source_of request spec then (consider_binary env graph current self state request spec source, self)
            else consider_source env self state request spec source) of
        (result, self) \<Rightarrow>
          (and_then result (\<lambda>d. case d of
             None \<Rightarrow> Ok None
           | Some decision \<Rightarrow>
               and_then (reconsider_invalidated_resolve (se_perms env) graph current state decision) (\<lambda>reconsider.
                 Ok (Some (case reconsider of Some r \<Rightarrow> r | None \<Rightarrow> decision)))), self))"

fun consider_repos ::
  "step_env \<Rightarrow> 'it graph \<Rightarrow> u64 \<Rightarrow> solver \<Rightarrow> solver_state \<Rightarrow> pkg_request_with_options \<Rightarrow> build_with_repos \<Rightarrow> decision option step_result \<times> solver" where
  "consider_repos env graph current self state request [] = (Ok None, self)"
| "consider_repos env graph current self state request ((_, spec, source) # rest) =
     (case consider_build env graph current self state request spec source of
        (Ok None, self) \<Rightarrow> consider_repos env graph current self state request rest
      | result \<Rightarrow> result)"

function consider_builds ::
  "step_env \<Rightarrow> 'it graph \<Rightarrow> u64 \<Rightarrow> solver \<Rightarrow> solver_state \<Rightarrow> pkg_request_with_options \<Rightarrow> build_iterator
    \<Rightarrow> decision option step_result \<times> solver \<times> build_iterator" where
  "consider_builds env graph current self state request builds =
     (case builds_next builds of
        (Ok None, builds) \<Rightarrow> (Ok None, self, builds)
      | (Err e, builds) \<Rightarrow> (Err (IteratorFailed e), self, builds)
      | (Panic, builds) \<Rightarrow> (Panic, self, builds)
      | (Ok (Some hm), builds) \<Rightarrow>
          (case consider_repos env graph current self state request hm of
             (Ok None, self) \<Rightarrow> consider_builds env graph current self state request builds
           | (result, self) \<Rightarrow> (result, self, builds)))"
  by pat_completeness auto
termination
  by (relation "measure (\<lambda>(_, _, _, _, _, _, builds). builds_len builds)") (auto dest: builds_next_less [OF sym])

declare consider_builds.simps [simp del]

subsection \<open>A step\<close>

text \<open>The builds of a version in sorted order, which replace the ones that come from the repositories.\<close>

definition sorted_builds ::
  "step_env \<Rightarrow> solver_state \<Rightarrow> version \<Rightarrow> build_iterator \<Rightarrow> package_iterator \<Rightarrow> build_iterator step_result \<times> package_iterator" where
  "sorted_builds env state version builds it =
     (if is_sorted_build_iterator builds then (Ok builds, it)
      else case (if se_use_in_build_keys env
                 then and_then (map_err UnresolvedRequests (get_unresolved_requests (se_perms env) state)) (\<lambda>unresolved.
                        se_impossible_builds env unresolved builds)
                 else Ok []) of
             Err e \<Rightarrow> (Err e, it)
           | Panic \<Rightarrow> (Panic, it)
           | Ok impossible \<Rightarrow>
               (case sorted_build_iterator_new (se_keys env) builds impossible of
                  (Ok ordered, _) \<Rightarrow> (Ok ordered, set_builds version ordered it)
                | (Err e, drained) \<Rightarrow> (Err (IteratorFailed e), set_builds version drained it)
                | (Panic, drained) \<Rightarrow> (Panic, set_builds version drained it)))"

lemma repository_builds_next_none: "repository_builds_next builds = (Ok None, rest) \<Longrightarrow> rest = []"
  by (induction builds) (auto split: outcome.splits option.splits)

lemma builds_next_none: "builds_next it = (Ok None, it') \<Longrightarrow> builds_is_empty it'"
  by (cases "(it)" rule: builds_next.cases) (auto simp: map_prod_def dest: repository_builds_next_none split: prod.splits)

lemma consider_builds_none:
  "consider_builds env graph current self state request builds = (Ok None, self', builds') \<Longrightarrow> builds_is_empty builds'"
  by (induction env graph current self state request builds rule: consider_builds.induct)
    (subst (asm) consider_builds.simps, auto split: prod.splits outcome.splits option.splits dest: builds_next_none)

lemma next_loop_started: "pi_versions start \<noteq> None \<Longrightarrow> pi_versions (snd (next_loop order start)) \<noteq> None"
proof (induction order start rule: next_loop.induct)
  case (1 order start)
  have "pi_versions (activate start) \<noteq> None" using 1(4) by (auto simp: activate_def split: list.splits)
  then show ?case
    using 1(1-3) ensure_builds_facts(1)
    by (subst next_loop.simps) (auto simp: Let_def restart_version_iterator_def split: option.splits outcome.splits)
qed

lemma package_next_left:
  assumes "package_next order start = (Ok (Some item), self)"
  shows "offered self item \<and> pi_versions self \<noteq> None \<and> (pi_versions start \<noteq> None \<longrightarrow>
      (pi_embedded_stubs start \<longrightarrow> pi_embedded_stubs self) \<and> (pi_embedded_stubs self = pi_embedded_stubs start \<longrightarrow> versions_left self \<le> versions_left start))"
proof (cases "pi_versions start")
  case None
  then obtain mid where mid: "iterator_start start = Ok mid" "next_loop order mid = (Ok (Some item), self)"
    using assms by (auto simp: package_next_def split: outcome.splits)
  then have "pi_versions mid \<noteq> None" by (auto simp: iterator_start_def restart_version_iterator_def)
  with mid next_loop_left [OF mid(2)] next_loop_started [of mid order] None show ?thesis by simp
next
  case (Some vs)
  then have run: "next_loop order start = (Ok (Some item), self)" using assms by (simp add: package_next_def)
  with next_loop_left [OF run] next_loop_started [of start order] Some show ?thesis by simp
qed

text \<open>How far an iterator has come.\<close>

definition iterator_progress :: "(package_iterator \<times> package_iterator) set" where
  "iterator_progress =
     measures [\<lambda>it. if pi_versions it = None then 1 else 0, \<lambda>it. if pi_embedded_stubs it then 0 else 1, versions_left]"

lemma set_builds_progress:
  assumes "package_next order start = (Ok (Some (pkg, builds)), self)" "builds_is_empty builds'"
    and "pi_versions it = pi_versions self" "pi_active_version it = pi_active_version self" "pi_embedded_stubs it = pi_embedded_stubs self"
  shows "(set_builds (ident_version pkg) builds' it, start) \<in> iterator_progress"
proof -
  have off: "offered self (pkg, builds)" "pi_versions self \<noteq> None" and rest: "pi_versions start \<noteq> None \<Longrightarrow>
      (pi_embedded_stubs start \<longrightarrow> pi_embedded_stubs self) \<and> (pi_embedded_stubs self = pi_embedded_stubs start \<longrightarrow> versions_left self \<le> versions_left start)"
    using package_next_left [OF assms(1)] by auto
  have "versions_left (set_builds (ident_version pkg) builds' it) < versions_left self"
    using off(1) assms(2-4) by (auto simp: versions_left_def offered_def set_builds_def vm_get_insert)
  with off(2) rest assms(3-5) show ?thesis
    by (cases "pi_versions start") (auto simp: iterator_progress_def set_builds_def)
qed

lemma sorted_builds_facts:
  assumes "sorted_builds env state version builds it = (r, it')"
  shows "pi_versions it' = pi_versions it" "pi_active_version it' = pi_active_version it" "pi_embedded_stubs it' = pi_embedded_stubs it"
  using assms by (auto simp: sorted_builds_def set_builds_def split: if_splits outcome.splits prod.splits)

function step_versions ::
  "step_env \<Rightarrow> 'it graph \<Rightarrow> u64 \<Rightarrow> solver_state \<Rightarrow> pkg_request_with_options \<Rightarrow> solver \<Rightarrow> package_iterator
    \<Rightarrow> decision option step_result \<times> solver \<times> package_iterator" where
  "step_versions env graph current state request self start =
     (case package_next (se_order env) start of
        (Ok None, it) \<Rightarrow> (Err (OutOfOptions (po_pkg_request request)), self, it)
      | (Err e, it) \<Rightarrow>
          (Err (if e = StorageError PackageNotFound then PackageNotFoundDuringSolve (po_pkg_request request) else IteratorFailed e), self, it)
      | (Panic, it) \<Rightarrow> (Panic, self, it)
      | (Ok (Some (pkg, builds)), it) \<Rightarrow>
          if \<not> is_ok (is_version_applicable (po_pkg_request request) (ident_version pkg))
          then step_versions env graph current state request self (set_builds (ident_version pkg) EmptyBuilds it)
          else
            (case sorted_builds env state (ident_version pkg) builds it of
               (Err e, it) \<Rightarrow> (Err e, self, it)
             | (Panic, it) \<Rightarrow> (Panic, self, it)
             | (Ok ordered, it) \<Rightarrow>
                 (case consider_builds env graph current self state request ordered of
                    (Ok None, self, left) \<Rightarrow> step_versions env graph current state request self (set_builds (ident_version pkg) left it)
                  | (result, self, left) \<Rightarrow> (result, self, set_builds (ident_version pkg) left it))))"
  by pat_completeness auto
termination
proof (relation "inv_image iterator_progress (\<lambda>(_, _, _, _, _, _, it). it)", goal_cases)
  case 1
  show ?case by (simp add: iterator_progress_def wf_measures)
next
  case (2 env graph current state request self start r it item x2 pkg builds)
  then have run: "package_next (se_order env) start = (Ok (Some (pkg, builds)), it)" by simp
  show ?case using set_builds_progress [OF run, of EmptyBuilds it] by simp
next
  case (3 env graph current state request self start r it item x2 pkg builds rs it' ordered result rest d self' left')
  then have run: "package_next (se_order env) start = (Ok (Some (pkg, builds)), it)"
    "sorted_builds env state (ident_version pkg) builds it = (Ok ordered, it')"
    "consider_builds env graph current self state request ordered = (Ok None, self', left')" by simp_all
  show ?case using set_builds_progress [OF run(1) consider_builds_none [OF run(3)] sorted_builds_facts [OF run(2)]] by simp
qed

declare step_versions.simps [simp del]

definition clone_iterator :: "package_iterator \<Rightarrow> package_iterator" where
  "clone_iterator it = (case async_clone it of Ok copy \<Rightarrow> copy | _ \<Rightarrow> it)"

text \<open>The iterator for a package at a node, and whether the node keeps this very iterator: what is made anew is put into the node as a copy.\<close>

definition get_package_iterator ::
  "solver \<Rightarrow> package_iterator node \<Rightarrow> str \<Rightarrow> package_iterator \<times> bool \<times> package_iterator node" where
  "get_package_iterator self node package_name =
     (case get_iterator node package_name of
        Some iterator \<Rightarrow> (iterator, True, node)
      | None \<Rightarrow>
          let iterator = package_iterator_new package_name (sv_repos self) in
          (iterator, False, set_iterator clone_iterator package_name iterator node))"

text \<open>The packages that have to be there for the embedded ones, each with an embedded one, and the packages that are not embedded.\<close>

fun collect_providers ::
  "step_env \<Rightarrow> package_spec list \<Rightarrow> ((build_ident \<times> build_ident) list \<times> build_ident list) step_result" where
  "collect_providers env [] = Ok ([], [])"
| "collect_providers env (spec # specs) =
     (case target (ps_pkg spec) of
        EmbeddedBuild (EmbeddedPackage package) \<Rightarrow>
          and_then (map_err ProviderIdent (build_ident_of_parts (se_parse_build env) (esp_ident package))) (\<lambda>provider.
          and_then (collect_providers env specs) (\<lambda>(embeds, non_embeds). Ok ((provider, ps_pkg spec) # embeds, non_embeds)))
      | _ \<Rightarrow> and_then (collect_providers env specs) (\<lambda>(embeds, non_embeds). Ok (embeds, ps_pkg spec # non_embeds)))"

definition check_providers :: "step_env \<Rightarrow> solver_state \<Rightarrow> decision option step_result" where
  "check_providers env state =
     and_then (collect_providers env (map (\<lambda>(_, spec, _). spec) (st_packages state))) (\<lambda>(embeds, non_embeds).
       case find (\<lambda>(provider, _). \<not> list_ex (build_ident_eq provider) non_embeds) embeds of
         Some (missing, unprovided) \<Rightarrow> Err (OutOfOptions (pkg_request_new (range_of_build missing) (PackageBuild unprovided)))
       | None \<Rightarrow> Ok None)"

definition step_state ::
  "step_env \<Rightarrow> package_iterator graph \<Rightarrow> solver \<Rightarrow> package_iterator node \<Rightarrow> decision option step_result \<times> solver \<times> package_iterator node" where
  "step_state env graph self node =
     (case get_next_request (se_perms env) (nd_state node) of
        Ok None \<Rightarrow> (check_providers env (nd_state node), self, node)
      | Ok (Some (NextConflict request _)) \<Rightarrow> (Err (OutOfOptions request), self, node)
      | Ok (Some (NextRequest request)) \<Rightarrow>
          let self = self\<lparr>sv_number_of_steps := sv_number_of_steps self + 1\<rparr> in
          (case get_package_iterator self node (req_name request) of (iterator, kept, node) \<Rightarrow>
             case step_versions env graph (node_key node) (nd_state node) request self iterator of (result, self, iterator) \<Rightarrow>
               (result, self, if kept then node\<lparr>nd_iterators := hm_insert (req_name request) iterator (nd_iterators node)\<rparr> else node))
      | _ \<Rightarrow> (Panic, self, node))"

section \<open>What a decision of a step is\<close>

text \<open>A decision that goes back to a state of the graph, in which some package that is resolved was not resolved yet, and asks for a package again.\<close>

definition goes_back_to :: "'it graph \<Rightarrow> solver_state \<Rightarrow> decision \<Rightarrow> bool" where
  "goes_back_to graph state d \<longleftrightarrow>
     (\<exists>cause dest request. d = [StepBack cause dest, RequestPackage request True]
        \<and> (\<exists>name spec source sid n. get_current_resolve state name = Some (spec, source, sid)
              \<and> hm_get (gr_nodes graph) (sid_full_hash sid) = Some n \<and> nd_state n = dest))"

text \<open>A decision for a package that the validators accept and that no resolved package has to be given up for.\<close>

definition resolves_with :: "step_env \<Rightarrow> 'it graph \<Rightarrow> u64 \<Rightarrow> validators list \<Rightarrow> solver_state \<Rightarrow> pkg_request_with_options \<Rightarrow> decision \<Rightarrow> bool" where
  "resolves_with env graph current validators state request d \<longleftrightarrow>
     (\<exists>spec source. validate_package (se_validation env) validators state spec source = Ok Compatible
        \<and> (resolve_package (se_decisions env) (se_depth env) (builder_for state request) spec source = Ok d
           \<or> (\<exists>recipe. source = BuildFromSource recipe \<and> build_package (se_decisions env) (se_depth env) (builder_for state request) recipe spec = Ok d))
        \<and> reconsider_invalidated_resolve (se_perms env) graph current state d = Ok None)"

lemma back_to:
  assumes "target_state graph current sid = Ok dest" "get_current_resolve state package = Some (spec, source, sid)"
  shows "goes_back_to graph state (reconsider_package (builder_new dest) request name)"
    "goes_back_to graph state (reconsider_package_with_additional_components (builder_new dest) request name)"
proof -
  obtain n where "hm_get (gr_nodes graph) (sid_full_hash sid) = Some n" "nd_state n = dest"
    using assms(1) by (auto simp: target_state_def split: option.splits if_splits)
  with assms(2) have "\<exists>name spec source sid n. get_current_resolve state name = Some (spec, source, sid)
      \<and> hm_get (gr_nodes graph) (sid_full_hash sid) = Some n \<and> nd_state n = dest" by blast
  then show "goes_back_to graph state (reconsider_package (builder_new dest) request name)"
    "goes_back_to graph state (reconsider_package_with_additional_components (builder_new dest) request name)"
    by (auto simp: goes_back_to_def reconsider_package_def reconsider_package_with_additional_components_def builder_new_def)
qed

lemma reconsider_conflict_back: "reconsider_conflict graph current state request name = Ok (Some d) \<Longrightarrow> goes_back_to graph state d"
  by (auto simp: reconsider_conflict_def split: option.splits if_splits prod.splits intro: back_to(1))

lemma reconsider_components_back:
  assumes "reconsider_components env graph current state spec embedder embedded needed = Ok (Some d)"
  shows "goes_back_to graph state d"
proof -
  obtain parent origin sid where parent: "get_current_resolve state embedder = Some (parent, origin, sid)"
    using assms by (auto simp: reconsider_components_def split: option.splits)
  obtain missing where missing: "parse_components needed = Ok missing" using assms parent by (auto simp: reconsider_components_def)
  obtain remaining to_request where "cover_missing embedded missing []
      (concat (map (\<lambda>c. map (Pair (cs_name c)) (cel_components (cs_embedded c))) (ps_components parent))) = (remaining, to_request)" by fastforce
  with assms parent missing back_to(2) [OF _ parent] show ?thesis by (auto simp: reconsider_components_def split: if_splits)
qed

lemma reconsider_invalidated_back: "reconsider_invalidated_resolve perms graph current state changes = Ok (Some d) \<Longrightarrow> goes_back_to graph state d"
proof (induction perms graph current state changes rule: reconsider_invalidated_resolve.induct)
  case (2 perms graph current state request prioritize changes)
  then show ?case
    by (auto intro: back_to(1) split: option.splits outcome.splits prod.splits compatibility.splits if_splits)
qed simp_all

definition fitting :: "step_env \<Rightarrow> validators list \<Rightarrow> solver_state \<Rightarrow> pkg_request_with_options \<Rightarrow> decision \<Rightarrow> bool" where
  "fitting env validators state request d \<longleftrightarrow>
     (\<exists>spec source. validate_package (se_validation env) validators state spec source = Ok Compatible
        \<and> (resolve_package (se_decisions env) (se_depth env) (builder_for state request) spec source = Ok d
           \<or> (\<exists>recipe. source = BuildFromSource recipe \<and> build_package (se_decisions env) (se_depth env) (builder_for state request) recipe spec = Ok d)))"

lemma resolves_with_iff:
  "resolves_with env graph current validators state request d \<longleftrightarrow>
     fitting env validators state request d \<and> reconsider_invalidated_resolve (se_perms env) graph current state d = Ok None"
  by (auto simp: resolves_with_def fitting_def)

lemma resolve_checked_decides:
  "resolve_checked env state request spec source = Ok (Some d) \<Longrightarrow>
     resolve_package (se_decisions env) (se_depth env) (builder_for state request) spec source = Ok d"
  by (auto simp: resolve_checked_def split: if_splits)

lemma consider_binary_decides:
  assumes "consider_binary env graph current self state request spec source = Ok (Some d)"
  shows "goes_back_to graph state d \<or> fitting env (sv_validators self) state request d"
proof -
  obtain c where valid: "validate_package (se_validation env) (sv_validators self) state spec source = Ok c"
    using assms by (auto simp: consider_binary_def)
  show ?thesis
  proof (cases c)
    case Compatible
    with assms valid have "resolve_checked env state request spec source = Ok (Some d)" by (simp add: consider_binary_def)
    from resolve_checked_decides [OF this] valid Compatible show ?thesis by (auto simp: fitting_def)
  next
    case (Incompatible reason)
    with assms valid show ?thesis
      by (cases reason) (auto simp: consider_binary_def split: components_missing_problem.splits
          dest: reconsider_conflict_back reconsider_components_back)
  qed
qed

text \<open>Steps do not change how the solver was set up.\<close>

abbreviation same_setup :: "solver \<Rightarrow> solver \<Rightarrow> bool" where
  "same_setup a b \<equiv> sv_validators a = sv_validators b \<and> sv_initial_state_builders a = sv_initial_state_builders b"

lemma resolve_new_build_setup: "same_setup (snd (resolve_new_build env self recipe state)) self"
  by (simp add: resolve_new_build_def Let_def)

lemma fitting_build:
  "validate_package (se_validation env) validators state spec (BuildFromSource recipe) = Ok Compatible \<Longrightarrow>
   build_package (se_decisions env) (se_depth env) (builder_for state request) recipe spec = Ok d \<Longrightarrow> fitting env validators state request d"
  by (auto simp: fitting_def)

lemma consider_source_decides:
  assumes "consider_source env self state request spec source = (r, self')"
  shows "same_setup self' self \<and> (r = Ok (Some d) \<longrightarrow> fitting env (sv_validators self) state request d)"
proof -
  have same: "resolve_new_build env self recipe state = (built, mid) \<Longrightarrow> same_setup mid self" for recipe built mid
    using resolve_new_build_setup [of env self recipe state] by simp
  show ?thesis
    using assms unfolding consider_source_def
    by (auto dest!: same intro: fitting_build split: package_source.splits outcome.splits storage_error.splits if_splits prod.splits)
qed

lemma consider_build_decides:
  assumes "consider_build env graph current self state request spec source = (r, self')"
  shows "same_setup self' self
    \<and> (r = Ok (Some d) \<longrightarrow> goes_back_to graph state d \<or> resolves_with env graph current (sv_validators self) state request d)"
proof -
  obtain result mid where run: "(if \<not> is_build_from_source_of request spec then (consider_binary env graph current self state request spec source, self)
      else consider_source env self state request spec source) = (result, mid)" by fastforce
  have mid: "self' = mid" using assms run by (simp add: consider_build_def)
  have found: "same_setup mid self \<and> (\<forall>d. result = Ok (Some d) \<longrightarrow> goes_back_to graph state d \<or> fitting env (sv_validators self) state request d)"
    using run consider_binary_decides [of env graph current self state request spec source]
      consider_source_decides [of env self state request spec source result mid] by (auto split: if_splits)
  have "goes_back_to graph state d \<or> resolves_with env graph current (sv_validators self) state request d" if ok: "r = Ok (Some d)"
  proof -
    obtain decision reconsider where parts: "result = Ok (Some decision)"
      "reconsider_invalidated_resolve (se_perms env) graph current state decision = Ok reconsider"
      "d = (case reconsider of Some r \<Rightarrow> r | None \<Rightarrow> decision)"
    proof -
      obtain decision where decision: "result = Ok (Some decision)"
        using assms run ok by (cases result; cases "case result of Ok x \<Rightarrow> x | _ \<Rightarrow> None") (auto simp: consider_build_def)
      moreover obtain reconsider where "reconsider_invalidated_resolve (se_perms env) graph current state decision = Ok reconsider"
        "d = (case reconsider of Some r \<Rightarrow> r | None \<Rightarrow> decision)"
        using assms run ok decision by (auto simp: consider_build_def)
      ultimately show ?thesis using that by blast
    qed
    show ?thesis
    proof (cases reconsider)
      case None
      with parts found show ?thesis by (auto simp: resolves_with_iff)
    next
      case (Some other)
      with parts reconsider_invalidated_back [of "se_perms env" graph current state decision other] show ?thesis by simp
    qed
  qed
  with found mid show ?thesis by blast
qed

lemma consider_repos_decides:
  "consider_repos env graph current self state request hm = (r, self') \<Longrightarrow>
     same_setup self' self
     \<and> (r = Ok (Some d) \<longrightarrow> goes_back_to graph state d \<or> resolves_with env graph current (sv_validators self) state request d)"
proof (induction hm arbitrary: self)
  case (Cons entry hm)
  obtain name spec source where entry: "entry = (name, spec, source)" by (metis surj_pair)
  obtain result mid where run: "consider_build env graph current self state request spec source = (result, mid)" by fastforce
  note first = consider_build_decides [OF run, of d]
  show ?case
  proof (cases "result = Ok None")
    case True
    with Cons.prems run entry have "consider_repos env graph current mid state request hm = (r, self')" by simp
    from Cons.IH [OF this] first show ?thesis by simp
  next
    case False
    with Cons.prems run entry have "r = result" "self' = mid" by (auto split: outcome.splits option.splits)
    with first show ?thesis by simp
  qed
qed auto

lemma consider_builds_decides:
  "consider_builds env graph current self state request builds = (r, self', builds') \<Longrightarrow>
     same_setup self' self
     \<and> (r = Ok (Some d) \<longrightarrow> goes_back_to graph state d \<or> resolves_with env graph current (sv_validators self) state request d)"
proof (induction env graph current self state request builds arbitrary: r self' builds' rule: consider_builds.induct)
  case (1 env graph current self state request builds)
  obtain n it where n: "builds_next builds = (n, it)" by fastforce
  show ?case
  proof (cases "\<exists>hm. n = Ok (Some hm)")
    case True
    then obtain hm where hm: "n = Ok (Some hm)" by blast
    obtain result mid where run: "consider_repos env graph current self state request hm = (result, mid)" by fastforce
    note first = consider_repos_decides [OF run, of d]
    show ?thesis
    proof (cases "result = Ok None")
      case True
      with 1(2) n hm run have "consider_builds env graph current mid state request it = (r, self', builds')"
        by (simp add: consider_builds.simps [of _ _ _ self])
      from 1(1) [OF n [symmetric] hm refl run [symmetric] True refl this] first show ?thesis by simp
    next
      case False
      with 1(2) n hm run have "r = result" "self' = mid"
        by (auto simp: consider_builds.simps [of _ _ _ self] split: outcome.splits option.splits)
      with first show ?thesis by simp
    qed
  next
    case False
    with 1(2) n show ?thesis by (auto simp: consider_builds.simps [of _ _ _ self] split: outcome.splits option.splits)
  qed
qed

lemma step_versions_decides:
  "step_versions env graph current state request self start = (r, self', it') \<Longrightarrow>
     same_setup self' self \<and> r \<noteq> Ok None
     \<and> (r = Ok (Some d) \<longrightarrow> goes_back_to graph state d \<or> resolves_with env graph current (sv_validators self) state request d)"
proof (induction env graph current state request self start arbitrary: r self' it' rule: step_versions.induct)
  case (1 env graph current state request self start)
  note step = step_versions.simps [of env graph current state request self start]
  obtain n it where n: "package_next (se_order env) start = (n, it)" by fastforce
  show ?case
  proof (cases "\<exists>pkg builds. n = Ok (Some (pkg, builds))")
    case True
    then obtain pkg builds where offer: "n = Ok (Some (pkg, builds))" by blast
    show ?thesis
    proof (cases "is_ok (is_version_applicable (po_pkg_request request) (ident_version pkg))")
      case False
      with 1(3) n offer have "step_versions env graph current state request self (set_builds (ident_version pkg) EmptyBuilds it) = (r, self', it')"
        by (simp add: step)
      from 1(1) [OF n [symmetric] offer refl refl False this] show ?thesis .
    next
      case True
      then have nTrue: "\<not> \<not> is_ok (is_version_applicable (po_pkg_request request) (ident_version pkg))" by simp
      obtain sorted_result it2 where so: "sorted_builds env state (ident_version pkg) builds it = (sorted_result, it2)" by fastforce
      show ?thesis
      proof (cases sorted_result)
        case (Ok ordered)
        obtain result mid rest where run: "consider_builds env graph current self state request ordered = (result, mid, rest)" by (metis prod_cases3)
        note first = consider_builds_decides [OF run, of d]
        show ?thesis
        proof (cases "result = Ok None")
          case True
          with 1(3) n offer nTrue so Ok run
          have rec: "step_versions env graph current state request mid (set_builds (ident_version pkg) rest it2) = (r, self', it')"
            by (simp add: step)
          from 1(2) [OF n [symmetric] offer refl refl nTrue so [symmetric] Ok run [symmetric] True refl refl rec] first show ?thesis by simp
        next
          case False
          with 1(3) n offer nTrue so Ok run have "r = result" "self' = mid" by (auto simp: step split: outcome.splits option.splits)
          with first False show ?thesis by simp
        qed
      qed (use 1(3) n offer nTrue so in \<open>auto simp: step\<close>)
    qed
  next
    case False
    with 1(3) n show ?thesis by (auto simp: step split: outcome.splits option.splits)
  qed
qed

lemma step_state_facts:
  assumes "step_state env graph self node = (Ok (Some d), self', node')"
  shows "\<exists>request. get_next_request (se_perms env) (nd_state node) = Ok (Some (NextRequest request))
    \<and> (goes_back_to graph (nd_state node) d \<or> resolves_with env graph (node_key node) (sv_validators self) (nd_state node) request d)"
proof -
  obtain request where request: "get_next_request (se_perms env) (nd_state node) = Ok (Some (NextRequest request))"
    using assms by (auto simp: step_state_def check_providers_def split: outcome.splits option.splits next_request.splits)
  let ?self = "self\<lparr>sv_number_of_steps := sv_number_of_steps self + 1\<rparr>"
  obtain it kept mid where it: "get_package_iterator ?self node (req_name request) = (it, kept, mid)" by (metis prod_cases3)
  have same: "nd_state mid = nd_state node" "node_key mid = node_key node"
    using it by (auto simp: get_package_iterator_def node_key_def set_iterator_def Let_def split: option.splits)
  obtain r s i where run: "step_versions env graph (node_key mid) (nd_state mid) request ?self it = (r, s, i)" by (metis prod_cases3)
  have "r = Ok (Some d)" using assms request it run by (simp add: step_state_def Let_def)
  with step_versions_decides [OF run, of d] same request show ?thesis by simp
qed

lemma step_state_keeps:
  assumes "step_state env graph self node = (r, self', node')"
  shows "same_setup self' self \<and> (\<exists>its. node' = node\<lparr>nd_iterators := its\<rparr>)"
proof (cases "\<exists>request. get_next_request (se_perms env) (nd_state node) = Ok (Some (NextRequest request))")
  case True
  then obtain request where request: "get_next_request (se_perms env) (nd_state node) = Ok (Some (NextRequest request))" ..
  let ?self = "self\<lparr>sv_number_of_steps := sv_number_of_steps self + 1\<rparr>"
  obtain it kept mid where it: "get_package_iterator ?self node (req_name request) = (it, kept, mid)" by (metis prod_cases3)
  have mid: "mid = node \<or> (\<exists>its. mid = node\<lparr>nd_iterators := its\<rparr>)"
    using it by (auto simp: get_package_iterator_def set_iterator_def Let_def split: option.splits)
  obtain r' s i where run: "step_versions env graph (node_key mid) (nd_state mid) request ?self it = (r', s, i)" by (metis prod_cases3)
  have res: "self' = s" "node' = (if kept then mid\<lparr>nd_iterators := hm_insert (req_name request) i (nd_iterators mid)\<rparr> else mid)"
    using assms request it run by (simp_all add: step_state_def Let_def)
  have "\<exists>its. mid = node\<lparr>nd_iterators := its\<rparr>" using mid by (metis node.surjective node.update_convs(6))
  then have "\<exists>its. node' = node\<lparr>nd_iterators := its\<rparr>" unfolding res by (cases kept) auto
  with step_versions_decides [OF run, of undefined] res show ?thesis by simp
next
  case False
  with assms have "self' = self" "node' = node"
    by (auto simp: step_state_def split: outcome.splits option.splits next_request.splits)
  then show ?thesis by (metis node.surjective node.update_convs(6))
qed

section \<open>Tests that merged requests pass exactly when their parts do\<close>

locale request_test =
  fixes perms :: pair_order and passes :: "pkg_request_with_options \<Rightarrow> bool"
  assumes meet: "simple_request self \<Longrightarrow> simple_request other \<Longrightarrow> req_name self = req_name other \<Longrightarrow> with_options_restrict perms self other = (result, out) \<Longrightarrow>
     simple_request out \<and> req_name out = req_name self \<and> (passes out \<and> passes other \<longleftrightarrow> passes self \<and> passes other)
     \<and> (result = Compatible \<longrightarrow> (passes out \<longleftrightarrow> passes self \<and> passes other))"
begin

definition all_pass :: "str \<Rightarrow> pkg_request_with_options list \<Rightarrow> bool" where
  "all_pass name requests \<longleftrightarrow> list_all (\<lambda>r. req_name r = name \<longrightarrow> passes r) requests"

lemma merge_into_pass:
  assumes "list_all simple_request requests" "simple_request request" "req_name request = name"
    and "merge_into perms name (Some request) requests = (None, new)"
  shows "list_all simple_request new \<and> (all_pass n new \<longleftrightarrow> all_pass n requests \<and> (name = n \<longrightarrow> passes request))"
  using assms
proof (induction requests arbitrary: request new)
  case (Cons existing requests)
  show ?case
  proof (cases "req_name existing = name")
    case False
    with Cons.prems obtain rest where "merge_into perms name (Some request) requests = (None, rest)" "new = existing # rest"
      by (auto simp: map_prod_def split: prod.splits)
    with Cons.IH [of request rest] Cons.prems show ?thesis by (auto simp: all_pass_def)
  next
    case True
    obtain result out where run: "with_options_restrict perms request existing = (result, out)" by fastforce
    have out: "simple_request out" "req_name out = name" "passes out \<and> passes existing \<longleftrightarrow> passes request \<and> passes existing"
      "result = Compatible \<Longrightarrow> passes out \<longleftrightarrow> passes request \<and> passes existing"
      using meet [OF _ _ _ run] Cons.prems True by auto
    show ?thesis
    proof (cases result)
      case Compatible
      with Cons.prems run True have "new = out # requests" by (auto simp: map_prod_def)
      with out Compatible Cons.prems True show ?thesis by (auto simp: all_pass_def)
    next
      case (Incompatible reason)
      with Cons.prems run True obtain rest where "merge_into perms name (Some out) requests = (None, rest)" "new = existing # rest"
        by (auto simp: map_prod_def split: prod.splits)
      with Cons.IH [of out rest] Cons.prems out True show ?thesis by (auto simp: all_pass_def)
    qed
  qed
qed simp

lemma request_package_pass:
  assumes "list_all simple_request requests" "simple_request request"
  shows "list_all simple_request (request_package_requests perms patterns request prioritize requests)
    \<and> (all_pass n (request_package_requests perms patterns request prioritize requests) \<longleftrightarrow>
         all_pass n requests \<and> (req_name request = n \<longrightarrow> passes request))"
proof -
  obtain cloned new where run: "merge_into perms (req_name request) (Some request) requests = (cloned, new)" by fastforce
  have sorted: "set (sort_key f xs) = set xs" "set (promote_names patterns g xs) = set xs" for f :: "_ \<Rightarrow> int" and g and xs :: "pkg_request_with_options list"
    by (simp_all add: promote_names_def)
  show ?thesis
  proof (cases cloned)
    case None
    with merge_into_pass [OF assms refl, of new n] run show ?thesis
      by (auto simp: request_package_requests_def all_pass_def list_all_iff Let_def)
  next
    case (Some c)
    with run have "new = requests" by (auto dest: merge_into_kept)
    with Some run assms show ?thesis
      by (auto simp: request_package_requests_def all_pass_def list_all_iff sorted Let_def)
  qed
qed

lemma decision_loop_pass:
  assumes "list_all simple_request (st_pkg_requests s)" "forward changes"
    and "list_all (\<lambda>c. case requested c of Some r \<Rightarrow> simple_request r | None \<Rightarrow> True) changes"
  shows "all_pass n (st_pkg_requests (decision_loop perms patterns hasher parent s changes)) \<longleftrightarrow>
    all_pass n (st_pkg_requests s) \<and> (\<forall>c r. c \<in> set changes \<and> requested c = Some r \<and> req_name r = n \<longrightarrow> passes r)"
  using assms
proof (induction changes arbitrary: s)
  case (Cons c changes)
  let ?s = "change_apply perms patterns hasher c parent s"
  have "list_all simple_request (st_pkg_requests ?s)
      \<and> (all_pass n (st_pkg_requests ?s) \<longleftrightarrow> all_pass n (st_pkg_requests s) \<and> (\<forall>r. requested c = Some r \<and> req_name r = n \<longrightarrow> passes r))"
  proof (cases c)
    case (RequestPackage r prioritize)
    with Cons.prems request_package_pass [of "st_pkg_requests s" r patterns prioritize n] show ?thesis
      by (simp add: change_apply_requests del: change_apply.simps)
  qed (use Cons.prems in \<open>auto simp: change_apply_requests simp del: change_apply.simps\<close>)
  with Cons.IH [of ?s] Cons.prems show ?case by auto
qed simp

end

definition version_allowed :: "version \<Rightarrow> pkg_request_with_options \<Rightarrow> bool" where
  "version_allowed v r \<longleftrightarrow> is_applicable (Filter (ri_version (pr_pkg (po_pkg_request r)))) v = Compatible"

lemma ri_restrict_version:
  assumes "all_pairs perms" "simple_rules (ri_version self)" "simple_rules (ri_version other)"
    and "ri_restrict perms self other mode = (result, out)"
  shows "(is_applicable (Filter (ri_version out)) v = Compatible \<and> is_applicable (Filter (ri_version other)) v = Compatible \<longleftrightarrow>
      is_applicable (Filter (ri_version self)) v = Compatible \<and> is_applicable (Filter (ri_version other)) v = Compatible)
    \<and> (result = Compatible \<longrightarrow> (is_applicable (Filter (ri_version out)) v = Compatible \<longleftrightarrow>
      is_applicable (Filter (ri_version self)) v = Compatible \<and> is_applicable (Filter (ri_version other)) v = Compatible))"
proof -
  obtain r version where r: "restrict perms (ri_version self) (Filter (ri_version other)) mode = (r, version)" by fastforce
  have rules: "rules_wf (ri_version self)" "list_all simple_range (ri_version self)" "list_all simple_range (rules_of (Filter (ri_version other)))"
    using assms(2,3) by (simp_all add: simple_rules_def)
  note filter = restrict_filter [OF assms(1) rules r, of v]
  have "ri_version out = ri_version self \<and> result \<noteq> Compatible \<or> ri_version out = version \<and> r = Compatible"
  proof (cases "repository_conflict self other")
    case None
    have "r \<noteq> Compatible \<Longrightarrow> version = ri_version self" using filter by presburger
    with assms(4) None r show ?thesis
      by (cases r; cases "ri_repository_name self") (auto simp: ri_restrict_def Let_def split: if_splits)
  qed (use assms(4) in \<open>auto simp: ri_restrict_def\<close>)
  with filter show ?thesis by (auto simp del: is_applicable.simps)
qed

lemma version_test: "all_pairs perms \<Longrightarrow> request_test perms (version_allowed v)"
proof
  fix self other result out
  assume pairs: "all_pairs perms" and simple: "simple_request self" "simple_request other" and name: "req_name self = req_name other"
    and run: "with_options_restrict perms self other = (result, out)"
  let ?mode = "if min (pr_inclusion_policy (po_pkg_request self)) (pr_inclusion_policy (po_pkg_request other)) = IfAlreadyPresent
        then AllowNonIntersectingRanges else RequireIntersectingRanges"
  obtain r ri where ri: "ri_restrict perms (pr_pkg (po_pkg_request self)) (pr_pkg (po_pkg_request other)) ?mode = (r, ri)" by fastforce
  have pkg: "pr_pkg (po_pkg_request out) = ri" "result = Compatible \<Longrightarrow> r = Compatible"
    using with_options_restrict_range [of perms self other] with_options_restrict_ok [of perms self other] run ri by auto
  have "simple_request out \<and> req_name out = req_name self" using with_options_restrict_meet [OF pairs simple name run] by blast
  with ri_restrict_version [OF pairs _ _ ri, of v] simple pkg
  show "simple_request out \<and> req_name out = req_name self
      \<and> (version_allowed v out \<and> version_allowed v other \<longleftrightarrow> version_allowed v self \<and> version_allowed v other)
      \<and> (result = Compatible \<longrightarrow> (version_allowed v out \<longleftrightarrow> version_allowed v self \<and> version_allowed v other))"
    unfolding version_allowed_def simple_request_def by blast
qed

interpretation version_tests: request_test lexicographic_pairs "version_allowed v" for v
  by (rule version_test) (rule all_pairs_lexicographic)

section \<open>What is resolved stays admitted\<close>

lemma package_changes_forward:
  assumes "package_changes env depth (set_package env depth' self) self spec = Ok changes"
  shows "forward changes"
proof -
  obtain reqs comps embeds where ok:
    "requirements_to_changes (pkg_request_to_changes env depth self) (runtime_requirements spec) (PackageBuild (ps_pkg spec)) = Ok reqs"
    "components_to_changes env depth self (ps_components spec) (ps_pkg spec) = Ok comps"
    "embedded_to_changes env (set_package env depth' self) self (ps_embedded spec) (ps_components spec) (ps_pkg spec) = Ok embeds"
    and changes: "changes = reqs @ comps @ embeds @ [options_to_change spec]"
    using assms by (auto simp: package_changes_def)
  have "forward reqs" using ok(1) by (rule requirements_to_changes_forward) (rule pkg_request_forward)
  moreover have "forward comps"
    using ok(2) unfolding components_to_changes_def Let_def
    by (elim concat_results_forward) (erule requirements_to_changes_forward, erule pkg_request_forward)
  moreover have "forward embeds"
    using ok(3) unfolding embedded_to_changes_def Let_def
    by (auto split: if_splits elim!: concat_results_forward) (erule set_package_forward)+
  ultimately show ?thesis unfolding changes by simp
qed

lemma fitting_forward: "fitting env validators state request d \<Longrightarrow> forward d"
  by (auto simp: fitting_def resolve_package_def build_package_def dest: set_package_forward package_changes_forward)

lemma reconsider_none:
  assumes "reconsider_invalidated_resolve perms graph current state changes = Ok None" "RequestPackage r prioritize \<in> set changes"
    and "get_current_resolve state (req_name r) = Some (resolved, source, sid)"
    and "get_merged_request perms (st_pkg_requests state) (req_name r) = Ok merged"
  shows "\<exists>out. with_options_restrict perms merged r = (Compatible, out)
    \<and> is_version_applicable (po_pkg_request out) (ident_version (ps_pkg resolved)) = Compatible"
  using assms
proof (induction perms graph current state changes rule: reconsider_invalidated_resolve.induct)
  case (2 perms graph current state request prio changes)
  show ?case
  proof (cases "RequestPackage r prioritize \<in> set changes")
    case True
    with 2 show ?thesis by (auto split: option.splits outcome.splits prod.splits compatibility.splits if_splits)
  next
    case False
    with 2 show ?thesis by (auto split: prod.splits compatibility.splits if_splits)
  qed
qed auto


section \<open>When there is nothing left to do\<close>

text \<open>The embedding package of a stub, if the identifier that the stub has of it can be read.\<close>

definition provider_of :: "step_env \<Rightarrow> package_spec \<Rightarrow> build_ident option" where
  "provider_of env spec =
     (case target (ps_pkg spec) of
        EmbeddedBuild (EmbeddedPackage package) \<Rightarrow>
          (case build_ident_of_parts (se_parse_build env) (esp_ident package) of Ok provider \<Rightarrow> Some provider | _ \<Rightarrow> None)
      | _ \<Rightarrow> None)"

lemma collect_providers_facts:
  "collect_providers env specs = Ok (embeds, non_embeds) \<Longrightarrow>
     set non_embeds = ps_pkg ` {spec \<in> set specs. \<not> is_embed_stub (target (ps_pkg spec))}
     \<and> (\<forall>spec \<in> set specs. is_embed_stub (target (ps_pkg spec)) \<longrightarrow> (\<exists>provider. provider_of env spec = Some provider \<and> (provider, ps_pkg spec) \<in> set embeds))"
proof (induction specs arbitrary: embeds non_embeds)
  case (Cons spec specs)
  show ?case
  proof (cases "is_embed_stub (target (ps_pkg spec))")
    case True
    then obtain package where target: "target (ps_pkg spec) = EmbeddedBuild (EmbeddedPackage package)" by (auto elim: is_embed_stub.elims)
    with Cons.prems obtain provider more where rest: "build_ident_of_parts (se_parse_build env) (esp_ident package) = Ok provider"
      "collect_providers env specs = Ok (more, non_embeds)" "embeds = (provider, ps_pkg spec) # more" by auto
    have "{x \<in> set (spec # specs). \<not> is_embed_stub (target (ps_pkg x))} = {x \<in> set specs. \<not> is_embed_stub (target (ps_pkg x))}" using True by auto
    with Cons.IH [OF rest(2)] rest target show ?thesis by (auto simp: provider_of_def)
  next
    case False
    then obtain more where rest: "collect_providers env specs = Ok (embeds, more)" "non_embeds = ps_pkg spec # more"
      using Cons.prems by (auto split: build.splits embedded_source.splits)
    have "{x \<in> set (spec # specs). \<not> is_embed_stub (target (ps_pkg x))} = insert spec {x \<in> set specs. \<not> is_embed_stub (target (ps_pkg x))}" using False by auto
    with Cons.IH [OF rest(1)] rest False show ?thesis by auto
  qed
qed simp

lemma step_nothing_left:
  assumes "step_state env graph self node = (Ok None, self', node')"
  shows "list_all (\<lambda>r. \<not> pending (nd_state node) r) (st_pkg_requests (nd_state node))
    \<and> (\<forall>(_, spec, _) \<in> set (st_packages (nd_state node)). is_embed_stub (target (ps_pkg spec)) \<longrightarrow>
        (\<exists>provider. provider_of env spec = Some provider
          \<and> (\<exists>(_, other, _) \<in> set (st_packages (nd_state node)). \<not> is_embed_stub (target (ps_pkg other)) \<and> build_ident_eq provider (ps_pkg other))))"
proof -
  let ?s = "nd_state node" and ?specs = "map (\<lambda>(_, spec, _). spec) (st_packages (nd_state node))"
  have next_none: "get_next_request (se_perms env) ?s = Ok None"
  proof (rule ccontr)
    assume *: "get_next_request (se_perms env) ?s \<noteq> Ok None"
    with assms obtain request where request: "get_next_request (se_perms env) ?s = Ok (Some (NextRequest request))"
      by (auto simp: step_state_def split: outcome.splits option.splits next_request.splits)
    let ?self = "self\<lparr>sv_number_of_steps := sv_number_of_steps self + 1\<rparr>"
    obtain it kept mid where it: "get_package_iterator ?self node (req_name request) = (it, kept, mid)" by (metis prod_cases3)
    obtain r s i where run: "step_versions env graph (node_key mid) (nd_state mid) request ?self it = (r, s, i)" by (metis prod_cases3)
    have "r = Ok None" using assms request it run by (simp add: step_state_def Let_def)
    with step_versions_decides [OF run] show False by blast
  qed
  then have "find (pending ?s) (st_pkg_requests ?s) = None"
    unfolding get_next_request_def next_request_loop_find [OF subset_refl]
    by (auto split: option.splits outcome.splits merged_error.splits)
  then have pending: "list_all (\<lambda>r. \<not> pending ?s r) (st_pkg_requests ?s)" by (auto simp: find_None_iff list_all_iff)
  have "check_providers env ?s = Ok None" using assms next_none by (auto simp: step_state_def)
  then obtain embeds non_embeds where collected: "collect_providers env ?specs = Ok (embeds, non_embeds)"
    and found: "(case find (\<lambda>(provider, _). \<not> list_ex (build_ident_eq provider) non_embeds) embeds of
      Some (missing, unprovided) \<Rightarrow> Err (OutOfOptions (pkg_request_new (range_of_build missing) (PackageBuild unprovided)))
    | None \<Rightarrow> Ok None) = (Ok None :: decision option step_result)"
    by (auto simp: check_providers_def)
  have none: "find (\<lambda>(provider, _). \<not> list_ex (build_ident_eq provider) non_embeds) embeds = None"
    using found by (auto split: option.splits)
  note facts = collect_providers_facts [OF collected]
  have provided: "list_ex (build_ident_eq provider) non_embeds" if "(provider, x) \<in> set embeds" for provider x
    using none that unfolding find_None_iff by fastforce
  have "\<exists>provider. provider_of env spec = Some provider
      \<and> (\<exists>(_, other, _) \<in> set (st_packages ?s). \<not> is_embed_stub (target (ps_pkg other)) \<and> build_ident_eq provider (ps_pkg other))"
    if p: "(n, spec, o1) \<in> set (st_packages ?s)" "is_embed_stub (target (ps_pkg spec))" for n spec o1
  proof -
    have "spec \<in> set ?specs" using p(1) by force
    with facts p(2) obtain provider where provider: "provider_of env spec = Some provider" "(provider, ps_pkg spec) \<in> set embeds" by blast
    from provided [OF provider(2)] obtain i where i: "i \<in> set non_embeds" "build_ident_eq provider i" unfolding list_ex_iff by blast
    then obtain other where other: "other \<in> set ?specs" "\<not> is_embed_stub (target (ps_pkg other))" "i = ps_pkg other"
      using facts [THEN conjunct1] by blast
    from other(1) obtain m x where "(m, other, x) \<in> set (st_packages ?s)" by force
    with provider(1) i(2) other(2,3) show ?thesis by blast
  qed
  with pending show ?thesis by fast
qed

text \<open>
  C20: A step finds that nothing is left to do only when every package that is asked for, and not only if it is already present, is resolved, and for every
  resolved package that is embedded in another one, that package is resolved too, as a package of its own.
\<close>

theorem step_done:
  assumes "step_state env graph self node = (Ok None, self', node')"
  shows "list_all (\<lambda>r. \<not> pending (nd_state node) r) (st_pkg_requests (nd_state node))
    \<and> (\<forall>(_, spec, _) \<in> set (st_packages (nd_state node)). is_embed_stub (target (ps_pkg spec)) \<longrightarrow>
        (\<exists>provider. provider_of env spec = Some provider
          \<and> (\<exists>(_, other, _) \<in> set (st_packages (nd_state node)). \<not> is_embed_stub (target (ps_pkg other)) \<and> build_ident_eq provider (ps_pkg other))))"
  using step_nothing_left [OF assms] .

section \<open>Examples\<close>

text \<open>A node at which the builds of Maya have been read and sorted.\<close>

definition maya_iterator :: "package_spec \<Rightarrow> package_iterator" where
  "maya_iterator spec =
     \<lparr>pi_package_name = ''maya'', pi_repos = [], pi_versions = Some [], pi_version_map = [(ident_version (ps_pkg spec), [])],
      pi_builds_map = [(ident_version (ps_pkg spec), SortedBuilds [[(''origin'', spec, SpkInternalTestSource)]])],
      pi_active_version = Some (ident_version (ps_pkg spec)), pi_embedded_stubs = True\<rparr>"

definition example_node :: "package_iterator node" where
  "example_node = (node_new python_resolved)\<lparr>nd_iterators := [(''maya'', maya_iterator maya_needs_python)]\<rparr>"

definition example_solver :: solver where
  "example_solver = \<lparr>sv_repos = [], sv_initial_state_builders = [], sv_validators = default_validators, sv_new_builds_started = [], sv_number_of_steps = 0\<rparr>"

definition example_step_env :: step_env where
  "example_step_env =
     \<lparr>se_decisions = example_env, se_depth = 5, se_validation = example_validation_env,
      se_keys = \<lparr>ke_parse_range = (\<lambda>s. Err s), ke_hash = (\<lambda>_. 0), ke_patterns = []\<rparr>, se_order = id,
      se_parse_build = (\<lambda>s. Ok (BuildId s)), se_use_in_build_keys = False, se_check_before_resolving = False,
      se_impossible_builds = (\<lambda>_ _. Ok []), se_impossible = (\<lambda>_ _. Ok Compatible), se_read_recipe = (\<lambda>_ _. Err PackageNotFound),
      se_new_build = (\<lambda>_ _ _. Err StateNotFound)\<rparr>"

lemma example_step:
  "case step_state example_step_env (graph_new (\<lambda>_. 0)) example_solver example_node of
     (Ok (Some (SetPackage spec _ # changes)), _, _) \<Rightarrow>
       spec_name spec = ''maya'' \<and> list_all (\<lambda>c. case requested c of Some r \<Rightarrow> simple_request r | None \<Rightarrow> True) changes
   | _ \<Rightarrow> False"
  by code_simp

lemma example_step_decision:
  obtains changes spec source self' node' where
    "step_state example_step_env (graph_new (\<lambda>_. 0)) example_solver example_node = (Ok (Some (SetPackage spec source # changes)), self', node')"
    "list_all (\<lambda>c. case requested c of Some r \<Rightarrow> simple_request r | None \<Rightarrow> True) (SetPackage spec source # changes)"
proof -
  obtain r self' node' where run: "step_state example_step_env (graph_new (\<lambda>_. 0)) example_solver example_node = (r, self', node')" by (metis prod_cases3)
  note shape = example_step [unfolded run]
  then obtain d where "r = Ok (Some d)" by (auto split: outcome.splits option.splits)
  with shape obtain spec source changes where "d = SetPackage spec source # changes"
    "list_all (\<lambda>c. case requested c of Some r \<Rightarrow> simple_request r | None \<Rightarrow> True) changes"
    by (cases d) (auto split: change.splits)
  with \<open>r = Ok (Some d)\<close> run that show ?thesis by simp
qed


theorem step_done_witness:
  "list_all (\<lambda>r. \<not> pending example_state r) (st_pkg_requests example_state)"
proof -
  have "get_next_request lexicographic_pairs example_state = Ok None" by code_simp
  moreover have "check_providers example_step_env example_state = Ok None" by code_simp
  ultimately have "step_state example_step_env (graph_new (\<lambda>_. 0)) example_solver (node_new example_state) = (Ok None, example_solver, node_new example_state)"
    by (simp add: step_state_def node_new_def example_step_env_def example_env_def)
  from step_done [OF this] show ?thesis by (simp add: node_new_def)
qed

text \<open>
  The first step at a node for a package leaves an iterator at the node that has not moved, because the iterator that the step advances is not the
  one that the node keeps. A later step at the node starts with the same builds again.
\<close>

theorem first_step_keeps_fresh_iterator:
  assumes "step_state env graph self node = (r, self', node')" "get_next_request (se_perms env) (nd_state node) = Ok (Some (NextRequest request))"
    and "get_iterator node (req_name request) = None"
  shows "get_iterator node' (req_name request) = Some (clone_iterator (package_iterator_new (req_name request) (sv_repos self)))"
  using assms
  by (auto simp: step_state_def get_package_iterator_def set_iterator_def get_iterator_def Let_def split: prod.splits)

end
