(* ===== verification/Spec2Isabelle.thy ===== *)
theory Spec2Isabelle
  imports Idents Range_Simplify Graph_Manifest Diffs Tag_Storage Option_Maps Package_Idents Solver_Step
begin

text \<open>
  \<^bold>\<open>Verification of the spk package manager and its file system spfs.\<close>

  \<^bold>\<open>The program.\<close> spk resolves, builds and installs software packages; spfs is the layered, content
  addressed file system that it stores them in. A package has a name, a version, a build and components. A
  request for a package carries a filter of version ranges; the solver intersects the filters of all
  requests and asks for every candidate whether its version is applicable and whether its compatibility
  contract allows it. The files of a package are a manifest, a tree of entries whose blobs are named by
  digests. An environment is a stack of manifests, each laid over the ones below it. Manifests are
  stored as flat lists of trees with a binary encoding, and human readable tags point to stored objects;
  the history of a tag is a file of encoded tags.

  \<^bold>\<open>The theories\<close>, from the bottom up; paths are relative to \<open>src/crates\<close>, and \<open>foundation\<close> stands for
  \<open>spk-schema/crates/foundation/src\<close>.

  \<^item> \<open>Prelude\<close>: results with errors and panics, orderings and the contract of \<open>Ord\<close> as the locale
    \<open>ord_laws\<close>, ordered maps and sets as sorted lists, hash maps as association lists in their iteration order,
    the decimal printing and parsing of \<open>u32\<close> and \<open>u64\<close>. Strings are their UTF-8 bytes.
  \<^item> \<open>Names\<close> (\<open>foundation/name/mod.rs\<close>): the validators of package, option, tag and repository names, the
    namespaces of option names. The validators panic exactly on the inputs the theorems describe.
  \<^item> \<open>Versions\<close> (\<open>foundation/version/mod.rs\<close>, \<open>parts_iter.rs\<close>): versions with their parts, pre and post releases and the
    epsilon of range bounds; the comparison loop is the lexicographic order on a normal form and satisfies
    the contract of \<open>Ord\<close>; printing and parsing round trip; tag paths identify versions.
  \<^item> \<open>Idents\<close> (\<open>foundation/ident_component\<close>, \<open>ident_build\<close>, \<open>ident_ops\<close>): components, builds and the parts of identifiers.
  \<^item> \<open>Compat\<close> (\<open>foundation/version/compat\<close>): contracts such as \<open>x.a.b\<close>, \<open>check_compat\<close> with the exact cases in which
    it answers Compatible, the reasons of incompatibility and when two are the same.
  \<^item> \<open>Version_Ranges\<close> (\<open>foundation/version_range/mod.rs\<close>): the thirteen kinds of ranges, their bounds, applicability and
    satisfaction, the documented tables of caret, tilde and wildcard ranges.
  \<^item> \<open>Range_Order\<close>, \<open>Range_Filters\<close>, \<open>Range_Simplify\<close> (the same file, and \<open>intersection.rs\<close>): the derived order of
    ranges, containment, intersection, filters as sets of rules, \<open>simplify_rules\<close> and \<open>restrict\<close>. On the
    kinds of rules the theorems name, \<open>restrict\<close> is the intersection of the accepted versions.
  \<^item> \<open>Encoding\<close> (\<open>spfs-encoding/src/binary.rs\<close>, \<open>spfs-proto/src/digest.rs\<close>): the primitive readers and writers. A reader is the
    list of the buffers that successive calls of \<open>fill_buf\<close> return; the locale \<open>codec\<close> states what a reader and a writer
    promise each other, for every splitting into buffers.
  \<^item> \<open>Entries\<close>, \<open>Manifest_Paths\<close>, \<open>Manifest_Nodes\<close> (\<open>spfs/src/tracking/entry.rs\<close>, \<open>manifest.rs\<close>): entries and manifests, lookups,
    \<open>mkdir\<close>, \<open>mkdirs\<close>, \<open>mknod\<close>, layering, the walker and the order of nodes. Layering refines the overlay of
    abstract file trees (functions from paths to metadata), as far as that is true.
  \<^item> \<open>Diffs\<close> (\<open>spfs/src/tracking/diff.rs\<close>): the diff of two manifests reports every path once and rightly.
  \<^item> \<open>Graph_Manifest\<close> (\<open>spfs/src/graph/entry.rs\<close>, \<open>tree.rs\<close>, \<open>manifest.rs\<close>): stored entries, trees and manifests, their legacy encoding,
    and the conversions to and from tracked manifests, with round trips for both.
  \<^item> \<open>Tags\<close>, \<open>Tag_Iter\<close>, \<open>Tag_Storage\<close> (\<open>spfs/src/tracking/tag.rs\<close>, \<open>spfs/src/storage/tag.rs\<close>, \<open>spfs/src/storage/fs/tag.rs\<close>): tag specifiers, tags and their
    binary form, the state machine that reads a tag file from its end, and the operations of the
    repository on an explicit map of files. Insertion refines ordered insertion into the history of the tag.
  \<^item> \<open>Option_Maps\<close> (\<open>foundation/option_map/mod.rs\<close>), \<open>Package_Idents\<close> (\<open>foundation/ident\<close>): options by name, their environment
    variables and namespaces; identifiers of versions and builds, conversions, printing and paths.
  \<^item> \<open>Requests\<close>, \<open>Var_Requests\<close> (\<open>foundation/ident/range_ident.rs\<close>, \<open>pinnable_request.rs\<close>, \<open>pinned_request.rs\<close>,
    \<open>pkg_request_with_options.rs\<close>): requests for packages and variables, pinning, merging and containment. Merging two requests admits what
    both admit.
  \<^item> \<open>Requirements\<close> (\<open>spk-schema/src/requirements_list.rs\<close>): lists of requirements, inserting, merging, rendering pins, and the check that
    a list contains a request.
  \<^item> \<open>Component_Specs\<close>, \<open>Package_Options\<close>, \<open>Package_Specs\<close> (\<open>spk-schema/src/component_spec.rs\<close>, \<open>component_spec_list.rs\<close>,
    \<open>component_embedded_packages.rs\<close>, \<open>option.rs\<close>, \<open>build_spec.rs\<close>, \<open>install_spec.rs\<close>, \<open>v0/package_spec.rs\<close>, \<open>v0/embedded_package_spec.rs\<close>): the parts of a
    built package, the components that a request uses as a closure, and exactly when a package satisfies a request.
  \<^item> \<open>Solver_State\<close> (\<open>spk-solve/crates/graph/src/graph.rs\<close>, \<open>solution.rs\<close>): the states of the step solver, changes and decisions on them, the
    identifier that is kept step by step, merged, next and unresolved requests, and the solution that is read off a state.
  \<^item> \<open>Solver_Decisions\<close> (\<open>DecisionBuilder\<close> of \<open>graph.rs\<close>): the changes that resolving, building or reconsidering a package comes
    to. After a decision the requests of the state enforce all requirements of the package.
  \<^item> \<open>Solver_Graph\<close> (\<open>Graph\<close>, \<open>GraphIter\<close> and \<open>Node\<close> of \<open>graph.rs\<close>): nodes under the identifiers of their states, adding a branch,
    and the walk, which is shown to end and to yield every reachable decision once. The locale \<open>walked_graph\<close> holds the invariant of the walk.
  \<^item> \<open>Solver_Validation\<close> (\<open>spk-solve/crates/validation/src\<close>): the validators. A package that they accept fits the requests, the resolved packages
    and the options of the state.
  \<^item> \<open>Build_Keys\<close>, \<open>Package_Iterators\<close> (\<open>spk-solve/crates/package-iterator/src\<close>): the keys that order builds, and the iterators over the versions and
    builds of a package, which offer all of them.
  \<^item> \<open>Solver_Step\<close> (\<open>spk-solve/src/solvers/step/solver.rs\<close>): a whole step of the solver, \<open>step_state\<close>, with building from source, going
    back for conflicts and missing components, and the check of packages that are already resolved.

  \<^bold>\<open>Conventions.\<close> A fallible operation returns \<open>Ok\<close>, \<open>Err\<close> or \<open>Panic\<close>; slicing inside a character, \<open>unwrap\<close> and
  \<open>expect\<close> are panics. Integers of the source that can overflow are words. Code that is not part of the
  repository is a parameter: the normalisation and joining of relative paths (relative-path), the
  printing and parsing of times (chrono), the hash of objects (SHA-256), the sizes in which the
  operating system delivers a file. The hypotheses on them state what their documentation
  promises; \<open>collision_free\<close> is assumed of the hash only for the trees of the manifest at hand. The order in which a hash
  map is iterated over is that of the list that models it, and where the source collects pairs of rules from a set it is the
  parameter \<open>perms\<close>, on which the theorems assume that it yields all pairs. The hash of states is the parameter \<open>hasher\<close>. A repository of packages is a record of its answers.
  Debug assertions, log messages, notes and statistics are left out.

  \<^bold>\<open>Loops and fuel.\<close> Loops are structural recursions or functions with a termination proof. The reader of tag files may run for ever, as a
  theorem shows; its model takes a number of steps, the operations built on it return \<open>None\<close> when
  it is used up, and the theorems state that from some number of steps on there is a result. The conversion
  of a stored manifest descends through a table of digests that may be cyclic; its model takes the number of
  levels, and the depth of the manifest is shown to be enough. The changes of a request can pull in further requests; their model
  takes the depth of nested calls and answers \<open>StillRunning\<close> when it is used up. It is shown for which requests some depth is enough, and that
  there are requests for which none is. A step of the solver passes the depth on (\<open>se_depth\<close>).

  \<^bold>\<open>Not modelled.\<close> Parsers written in nom combinators, serde, flatbuffer layouts, gRPC and the command
  lines; mounts, processes and runtimes; the concurrent directory scan of \<open>ManifestBuilder\<close>; payload storage,
  synchronisation and cleaning. The error messages of the terminal output are not modelled. Of the solver, the checks for impossible
  requests (tasks that fill shared caches) and the nested solve of a build environment are parameters of a step, and the resolvo solver, which
  is built on a library, is left out, as are recipes, tests, sources and the index of packages.
\<close>

end
